(* ===== verification/SS_Prelude.thy ===== *)
theory SS_Prelude
  imports Main "HOL-Library.Word" "HOL-Library.Signed_Division" "HOL-Library.AList"
begin

text \<open>
  The prelude of the storage server development: the machine and time types every
  component uses, the decimal conversions of the C++ standard library
  (\<open>std::to_chars\<close> and \<open>std::from_chars\<close>), the generic lemmas on lists the component
  proofs share, and the locale of a component with operations that keep an invariant,
  which every stateful component interprets.
\<close>

section \<open>Types and automation shared by the components\<close>

named_theorems row_simps
  \<open>rewrite rules for tables: what a row operation leaves of the other columns and tables\<close>

named_theorems inv_intros
  \<open>every operation keeps the invariant of its component\<close>

text \<open>
  \<open>std::string\<close> is a \<^typ>\<open>string\<close>: its characters are bytes. Clock readings and durations
  are integers in nanoseconds, the tick of both clocks of the C++ library the server is
  built with; the database stores milliseconds.
\<close>

type_synonym u64 = "64 word"
type_synonym u32 = "32 word"
type_synonym time = int

subsection \<open>Clock conversions\<close>

text \<open>
  \<open>duration_cast\<close> to milliseconds divides and truncates towards zero.
\<close>

definition to_epoch_ms :: "time \<Rightarrow> int" where
  "to_epoch_ms t = t sdiv 1000000"

definition from_epoch_ms :: "int \<Rightarrow> time" where
  "from_epoch_ms t = t * 1000000"

lemma to_epoch_ms_from_epoch_ms [simp]: "to_epoch_ms (from_epoch_ms t) = t"
  by (simp add: to_epoch_ms_def from_epoch_ms_def signed_divide_int_def abs_mult sgn_mult
      mult_sgn_abs)

lemma to_epoch_ms_nonneg: "0 \<le> t \<Longrightarrow> to_epoch_ms t = t div 1000000"
  by (cases "t = 0") (auto simp: to_epoch_ms_def signed_divide_int_def)

section \<open>Decimal conversions of the standard library\<close>

text \<open>
  \<open>std::to_chars\<close> of an integer in base ten: a minus sign for a negative value, then the
  decimal digits without leading zeros.
\<close>

fun nat_chars :: "nat \<Rightarrow> string" where
  "nat_chars n = (if n < 10 then [char_of (48 + n)]
                  else nat_chars (n div 10) @ [char_of (48 + n mod 10)])"

declare nat_chars.simps [simp del]

definition to_chars :: "int \<Rightarrow> string" where
  "to_chars i = (if i < 0 then CHR ''-'' # nat_chars (nat (- i)) else nat_chars (nat i))"

definition is_digit :: "char \<Rightarrow> bool" where
  "is_digit c \<longleftrightarrow> 48 \<le> (of_char c :: nat) \<and> (of_char c :: nat) \<le> 57"

fun digits_value :: "nat \<Rightarrow> string \<Rightarrow> nat" where
  "digits_value acc [] = acc"
| "digits_value acc (c # cs) = digits_value (10 * acc + (of_char c - 48)) cs"

lemma of_char_char_of_digit: "n < 10 \<Longrightarrow> (of_char (char_of (48 + n :: nat)) :: nat) = 48 + n"
  by simp

lemma is_digit_char_of: "n < 10 \<Longrightarrow> is_digit (char_of (48 + n :: nat))"
  by (simp add: is_digit_def)

lemma nat_chars_digits: "\<forall>c \<in> set (nat_chars n). is_digit c"
proof (induction n rule: nat_chars.induct)
  case (1 n)
  then show ?case
    by (subst nat_chars.simps) (auto simp: is_digit_char_of simp del: of_char_of)
qed

lemma nat_chars_nonempty: "nat_chars n \<noteq> []"
  by (subst nat_chars.simps) simp

lemma digits_value_append:
  "digits_value acc (xs @ ys) = digits_value (digits_value acc xs) ys"
  by (induction xs arbitrary: acc) auto

lemma digits_value_nat_chars: "digits_value 0 (nat_chars n) = n"
proof (induction n rule: nat_chars.induct)
  case (1 n)
  show ?case
  proof (cases "n < 10")
    case True
    then show ?thesis by (subst nat_chars.simps) simp
  next
    case False
    with 1 have "digits_value 0 (nat_chars (n div 10)) = n div 10" by simp
    with False show ?thesis
      by (subst nat_chars.simps) (simp add: digits_value_append)
  qed
qed

lemma nat_chars_length: "0 < k \<Longrightarrow> n < 10 ^ k \<Longrightarrow> length (nat_chars n) \<le> k"
proof (induction k arbitrary: n)
  case 0
  then show ?case by simp
next
  case (Suc k)
  show ?case
  proof (cases "n < 10")
    case True
    then show ?thesis by (subst nat_chars.simps) simp
  next
    case False
    with Suc.prems have "n div 10 < 10 ^ k" and "0 < k"
      by (auto intro: Nat.gr0I)
    then have "length (nat_chars (n div 10)) \<le> k" by (simp add: Suc.IH)
    with False show ?thesis by (subst nat_chars.simps) simp
  qed
qed

section \<open>Words\<close>

text \<open>
  The arithmetic of sixty-four bit words, read as natural numbers.
\<close>

lemma unat_u64_less: "unat (a :: u64) < 2 ^ 64"
  using unsigned_less [where ?'a = nat and w = a] by simp

lemma unat_u64_add:
  "unat (a + b :: u64) = (if unat a + unat b < 2 ^ 64 then unat a + unat b else unat a + unat b - 2 ^ 64)"
  by (simp add: unat_plus_if')

lemma unat_u64_diff:
  "unat (a - b :: u64) = (if unat b \<le> unat a then unat a - unat b else unat a + 2 ^ 64 - unat b)"
  by (simp add: unat_sub_if')

lemma unat_u64_neg: "unat (- a :: u64) = (if unat a = 0 then 0 else 2 ^ 64 - unat a)"
  using unat_u64_diff [of 0 a] by simp

lemma unat_u64_max: "unat (- 1 :: u64) = 2 ^ 64 - 1"
  using unat_u64_neg [of 1] by simp

lemma unat_u64_Suc: "a \<noteq> - 1 \<Longrightarrow> unat (a + 1 :: u64) = unat a + 1"
proof -
  assume "a \<noteq> - 1"
  then have "unat a \<noteq> unat (- 1 :: u64)" using word_unat_eq_iff by blast
  then show ?thesis using unat_u64_less [of a] unat_u64_add [of a 1] unat_u64_max by simp
qed

section \<open>Lists\<close>

lemma filter_eq_if_all: "(\<forall>x \<in> set xs. P x) \<Longrightarrow> filter P xs = xs"
  by (induction xs) auto

lemma find_Some_in: "List.find P xs = Some x \<Longrightarrow> x \<in> set xs \<and> P x"
  by (induction xs) (auto split: if_splits)

lemma find_None_all: "List.find P xs = None \<longleftrightarrow> (\<forall>x \<in> set xs. \<not> P x)"
  by (induction xs) auto

lemma distinct_map_filterI: "distinct (map f xs) \<Longrightarrow> distinct (map f (filter P xs))"
  by (induction xs) auto

lemma distinct_map_inj:
  "distinct (map f xs) \<Longrightarrow> x \<in> set xs \<Longrightarrow> y \<in> set xs \<Longrightarrow> f x = f y \<Longrightarrow> x = y"
  by (induction xs) (auto simp: rev_image_eqI)

text \<open>
  A row is found by a key that determines it.
\<close>

lemma find_unique:
  assumes "distinct (map f xs)" and "x \<in> set xs" and "f x = k"
  shows "List.find (\<lambda>y. f y = k) xs = Some x"
  using assms
proof (induction xs)
  case Nil
  then show ?case by simp
next
  case (Cons a xs)
  then show ?case by (auto simp: image_iff)
qed

lemma sum_list_le: "(\<forall>x \<in> set xs. f x \<le> g x) \<Longrightarrow> sum_list (map f xs) \<le> sum_list (map g xs)"
  for f g :: "'a \<Rightarrow> nat"
  by (induction xs) (auto intro: add_mono)

lemma length_concat_const: "(\<And>x. x \<in> set xs \<Longrightarrow> length x = k) \<Longrightarrow> length (concat xs) = k * length xs"
  by (induction xs) simp_all

lemma distinct_map_replace:
  "distinct (map f xs) \<Longrightarrow> distinct (map k xs) \<Longrightarrow> y \<notin> f ` set xs \<Longrightarrow>
   distinct (map (\<lambda>x. if k x = i then y else f x) xs)"
proof (induction xs)
  case (Cons a xs)
  show ?case
  proof (cases "k a = i")
    case True
    then have eq: "map (\<lambda>x. if k x = i then y else f x) xs = map f xs"
      using Cons.prems(2) by (intro map_cong) (auto simp: image_iff)
    show ?thesis unfolding list.map eq using True Cons.prems by simp
  next
    case False
    have "f a \<notin> set (map (\<lambda>x. if k x = i then y else f x) xs)" using Cons.prems(1,3) by auto
    with False Cons show ?thesis by (simp del: set_map)
  qed
qed simp

lemma filter_unique: "distinct (map f xs) \<Longrightarrow> x \<in> set xs \<Longrightarrow> filter (\<lambda>y. f y = f x) xs = [x]"
  by (induction xs) (auto simp: filter_empty_conv rev_image_eqI)

lemma find_map_snd: "List.find (\<lambda>(_, r). P r) (map (\<lambda>r. (f r, r)) xs) = map_option (\<lambda>r. (f r, r)) (List.find P xs)"
  by (induction xs) auto

lemma find_conj: "distinct (map f xs) \<Longrightarrow> List.find (\<lambda>x. f x = k \<and> P x) xs =
    (case List.find (\<lambda>x. f x = k) xs of Some x \<Rightarrow> if P x then Some x else None | None \<Rightarrow> None)"
proof (induction xs)
  case (Cons a xs)
  show ?case
  proof (cases "f a = k")
    case True
    then have "List.find (\<lambda>x. f x = k \<and> P x) xs = None"
      using Cons.prems by (auto simp: find_None_all image_iff)
    with True show ?thesis by simp
  next
    case False
    with Cons show ?thesis by simp
  qed
qed simp

lemma find_append: "List.find P (xs @ ys) = (case List.find P xs of Some x \<Rightarrow> Some x | None \<Rightarrow> List.find P ys)"
  by (induction xs) auto

lemma find_map_same: "(\<And>x. x \<in> set xs \<Longrightarrow> P (g x) \<longleftrightarrow> Q x) \<Longrightarrow> List.find P (map g xs) = map_option g (List.find Q xs)"
  by (induction xs) auto

text \<open>Association lists as maps.\<close>

lemma map_of_alist_delete: "map_of (AList.delete k xs) h = (if h = k then None else map_of xs h)"
  by (simp add: delete_conv)

lemma keys_alist_delete: "fst ` set (AList.delete k xs) = fst ` set xs - {k}"
  by (induction xs) auto

lemma set_alist_delete: "set (AList.delete k xs) = {x \<in> set xs. fst x \<noteq> k}"
  by (induction xs) auto

section \<open>Ordered maps\<close>

text \<open>\<open>std::map::operator[]\<close> with an assignment.\<close>

fun map_put :: "'k::linorder \<Rightarrow> 'v \<Rightarrow> ('k \<times> 'v) list \<Rightarrow> ('k \<times> 'v) list" where
  "map_put k v [] = [(k, v)]"
| "map_put k v ((a, b) # m) =
     (if k < a then (k, v) # (a, b) # m else if k = a then (k, v) # m else (a, b) # map_put k v m)"

lemma map_put_keys: "fst ` set (map_put k v m) = insert k (fst ` set m)"
  by (induction k v m rule: map_put.induct) auto

lemma map_put_sorted: "sorted_wrt (<) (map fst m) \<Longrightarrow> sorted_wrt (<) (map fst (map_put k v m))"
proof (induction k v m rule: map_put.induct)
  case (2 k v a b m)
  show ?case
  proof (cases "a < k")
    case True
    then have "\<forall>x \<in> fst ` set (map_put k v m). a < x" using 2(2) unfolding map_put_keys by auto
    moreover have "\<not> k < a" "k \<noteq> a" using True by auto
    ultimately show ?thesis using 2 by simp
  next
    case False
    then show ?thesis using 2 by auto
  qed
qed simp

lemma map_put_lookup: "sorted_wrt (<) (map fst m) \<Longrightarrow> map_of (map_put k v m) = (map_of m)(k \<mapsto> v)"
proof (induction k v m rule: map_put.induct)
  case (2 k v a b m)
  have "map_of m k = None" if "k < a" using that 2(2) by (fastforce simp: map_of_eq_None_iff)
  then show ?case using 2 by (auto simp: fun_eq_iff)
qed (simp add: fun_eq_iff)

section \<open>Components that keep an invariant\<close>

text \<open>
  The interface between a component and whoever schedules its operations: the operations,
  as one function of the component's state and of the operation that is called; the
  states it can start in; and the invariant that holds at the start and that every
  operation keeps. What a client of the component may rely on is that the invariant holds
  after any sequence of calls.
\<close>

locale invariant_component =
  fixes start :: "'s \<Rightarrow> bool"
    and run_op :: "'op \<Rightarrow> 's \<Rightarrow> 's"
    and invar :: "'s \<Rightarrow> bool"
  assumes start_invar: "start s \<Longrightarrow> invar s"
    and op_invar: "invar s \<Longrightarrow> invar (run_op x s)"
begin

lemma run_invar: "invar s \<Longrightarrow> invar (fold run_op ops s)"
  by (induction ops arbitrary: s) (auto intro: op_invar)

lemma reached_invar: "start s \<Longrightarrow> invar (fold run_op ops s)"
  by (rule run_invar [OF start_invar])

end

end
