(* ===== verification/Namespaces.thy ===== *)
theory Namespaces
  imports SS_Prelude
begin

text \<open>
  Message namespaces (\<open>oxenss/common/namespace.h\<close>, \<open>namespace.cpp\<close>): the sixteen bit
  namespace identifier, the predicates that decide who may read and write a namespace,
  its decimal form, and the SQL predicate of the partial unique index that makes a public
  outbox hold one message (\<open>oxenss/storage/database.cpp\<close>).
\<close>

section \<open>Namespace identifiers\<close>

text \<open>
  \<open>enum class namespace_id : int16_t\<close>: any sixteen bit value is a namespace, the
  enumerators only name some of them.
\<close>

type_synonym namespace_id = "16 word"

definition to_int :: "namespace_id \<Rightarrow> int" where
  "to_int ns = sint ns"

definition ns_Default :: namespace_id where "ns_Default = 0"
definition ns_LegacyClosed :: namespace_id where "ns_LegacyClosed = word_of_int (- 10)"
definition ns_Testing :: namespace_id where "ns_Testing = word_of_int (- 3741)"

text \<open>
  The operands of \<open>%\<close> are promoted to \<open>int\<close>, so the negation of the least value does not
  overflow; \<open>%\<close> truncates.
\<close>

definition is_public_inbox_namespace :: "namespace_id \<Rightarrow> bool" where
  "is_public_inbox_namespace ns \<longleftrightarrow> to_int ns smod 10 = 0"

definition is_public_outbox_namespace :: "namespace_id \<Rightarrow> bool" where
  "is_public_outbox_namespace ns \<longleftrightarrow> (let n = to_int ns in n < 0 \<and> (- n) smod 20 = 1)"

definition is_testing_namespace :: "namespace_id \<Rightarrow> bool" where
  "is_testing_namespace ns \<longleftrightarrow> ns = ns_Testing"

definition is_noauth_retrieve_namespace :: "namespace_id \<Rightarrow> bool" where
  "is_noauth_retrieve_namespace ns \<longleftrightarrow> ns = ns_LegacyClosed \<or> is_public_outbox_namespace ns"

definition is_unrevocable_namespace :: "namespace_id \<Rightarrow> bool" where
  "is_unrevocable_namespace ns \<longleftrightarrow> (let n = to_int ns in n < 0 \<and> (- n) smod 100 = 11)"

text \<open>
  \<open>to_string\<close> converts into a six character buffer.
\<close>

definition ns_to_string :: "namespace_id \<Rightarrow> string" where
  "ns_to_string ns = to_chars (to_int ns)"

text \<open>
  The condition of the partial index \<open>message_outbox_singleton\<close>, and of every
  \<open>ON CONFLICT (owner, namespace)\<close> clause: \<open>namespace < 0 AND namespace % 20 = -1\<close>. The
  remainder of SQLite has the sign of the dividend.
\<close>

definition outbox_index_pred :: "int \<Rightarrow> bool" where
  "outbox_index_pred n \<longleftrightarrow> n < 0 \<and> n smod 20 = - 1"

section \<open>Properties\<close>

lemma to_int_range: "- 32768 \<le> to_int ns \<and> to_int ns < 32768"
  using sint_greater_eq [of ns] sint_lt [of ns] by (simp add: to_int_def)

lemma to_int_inject: "to_int a = to_int b \<longleftrightarrow> a = b"
proof
  assume "to_int a = to_int b"
  then have "of_int (sint a) = (of_int (sint b) :: namespace_id)" by (simp add: to_int_def)
  then show "a = b" by simp
qed simp

text \<open>Below zero the two ways of writing the remainder differ in the sign only.\<close>

lemma smod_neg: "n < 0 \<Longrightarrow> 0 < k \<Longrightarrow> n smod k = - ((- n) smod k)" for n k :: int
  by (simp add: signed_modulo_int_def)

lemma outbox_index_pred_iff: "outbox_index_pred (to_int ns) \<longleftrightarrow> is_public_outbox_namespace ns"
  by (auto simp: outbox_index_pred_def is_public_outbox_namespace_def Let_def smod_neg)

lemma smod_pos: "0 \<le> n \<Longrightarrow> 0 < k \<Longrightarrow> n smod k = n mod k" for n k :: int
  by (cases "n = 0") (auto simp: signed_modulo_int_def)

lemma smod_0_iff: "0 < k \<Longrightarrow> n smod k = 0 \<longleftrightarrow> n mod k = 0" for n k :: int
  by (cases "n = 0") (auto simp: signed_modulo_int_def sgn_if abs_if dvd_eq_mod_eq_0 [symmetric])

lemma neg_smod_eq_1: "n < 0 \<Longrightarrow> (- n) smod 20 = 1 \<longleftrightarrow> n mod 20 = 19" for n :: int
proof -
  assume "n < 0"
  then have "(- n) smod 20 = (- n) mod 20" by (intro smod_pos) auto
  moreover have "(- n) mod 20 = 1 \<longleftrightarrow> n mod 20 = 19"
    by (auto simp: zmod_zminus1_eq_if)
  ultimately show ?thesis by metis
qed

lemma neg_smod_eq_11: "n < 0 \<Longrightarrow> (- n) smod 100 = 11 \<longleftrightarrow> n mod 100 = 89" for n :: int
proof -
  assume "n < 0"
  then have "(- n) smod 100 = (- n) mod 100" by (intro smod_pos) auto
  moreover have "(- n) mod 100 = 11 \<longleftrightarrow> n mod 100 = 89"
    by (auto simp: zmod_zminus1_eq_if)
  ultimately show ?thesis by metis
qed

lemma outbox_mod: "is_public_outbox_namespace ns \<longleftrightarrow> to_int ns < 0 \<and> to_int ns mod 20 = 19"
  unfolding is_public_outbox_namespace_def Let_def using neg_smod_eq_1 by metis

lemma unrevocable_mod: "is_unrevocable_namespace ns \<longleftrightarrow> to_int ns < 0 \<and> to_int ns mod 100 = 89"
  unfolding is_unrevocable_namespace_def Let_def using neg_smod_eq_11 by metis

lemma inbox_mod: "is_public_inbox_namespace ns \<longleftrightarrow> to_int ns mod 10 = 0"
  by (simp add: is_public_inbox_namespace_def smod_0_iff)

lemma testing_to_int: "is_testing_namespace ns \<longleftrightarrow> to_int ns = - 3741"
proof -
  have "to_int ns_Testing = - 3741" by (simp add: to_int_def ns_Testing_def)
  then show ?thesis by (metis is_testing_namespace_def to_int_inject)
qed

text \<open>
  The access classes of namespaces do not overlap: a public inbox, a public outbox and
  an unrevocable namespace are pairwise disjoint, so the owner's signature is required to
  write to every outbox and to every unrevocable namespace. The SQL condition of the partial
  index on outboxes, evaluated on the stored integer, selects exactly the namespaces that
  the C++ predicate calls public outboxes. The reserved testing namespace is one of them,
  which is why the handlers have to test for it first.
\<close>

theorem namespace_classes:
  "\<not> (is_public_inbox_namespace ns \<and> is_public_outbox_namespace ns)
   \<and> \<not> (is_public_inbox_namespace ns \<and> is_unrevocable_namespace ns)
   \<and> \<not> (is_public_outbox_namespace ns \<and> is_unrevocable_namespace ns)
   \<and> outbox_index_pred (to_int ns) = is_public_outbox_namespace ns
   \<and> is_public_outbox_namespace ns_Testing"
proof -
  have m: "n mod 100 mod 20 = n mod 20" "n mod 100 mod 10 = n mod 10" "n mod 20 mod 10 = n mod 10"
    for n :: int
    by (rule mod_mod_cancel; simp)+
  have "n mod 20 = 9 \<and> n mod 10 = 9" if "n mod 100 = 89" for n :: int
    using m(1,2) [of n] that by simp
  moreover have "n mod 10 = 9" if "n mod 20 = 19" for n :: int
    using m(3) [of n] that by simp
  moreover have "is_public_outbox_namespace ns_Testing"
    by (simp add: outbox_mod to_int_def ns_Testing_def)
  ultimately show ?thesis
    by (fastforce simp: inbox_mod outbox_mod unrevocable_mod outbox_index_pred_iff)
qed

end
