(* ===== verification/Pubkeys.thy ===== *)
theory Pubkeys
  imports SS_Prelude
begin

text \<open>
  Account keys and subaccount tokens (\<open>oxenss/common/pubkey.h\<close>, \<open>pubkey.cpp\<close>,
  \<open>subaccount_token.h\<close>, \<open>oxenss/crypto/subaccount.cpp\<close>): parsing and printing of account
  keys, the position of an account in swarm space, the permission flags of a subaccount
  token and the verification of a token. Bytes are the characters of a \<open>string\<close>. The hex
  codec and the big endian load of oxenc and the Ed25519 verification of libsodium are
  arguments.
\<close>

unbundle bit_operations_syntax

section \<open>Account keys\<close>

text \<open>
  The functions of oxenc that the program uses on hex strings.
\<close>

record hex_codec =
  is_hex :: "string \<Rightarrow> bool"
  to_hex :: "string \<Rightarrow> string"
  from_hex :: "string \<Rightarrow> string"

text \<open>
  The documented behaviour of the codec: two digits for a byte, digits of either case are
  hex, and decoding inverts encoding.
\<close>

definition hex_ok :: "hex_codec \<Rightarrow> bool" where
  "hex_ok H \<longleftrightarrow>
     (\<forall>b. is_hex H (to_hex H b) \<and> length (to_hex H b) = 2 * length b \<and> from_hex H (to_hex H b) = b)
     \<and> (\<forall>a b. to_hex H (a @ b) = to_hex H a @ to_hex H b)
     \<and> (\<forall>s. is_hex H s \<longrightarrow> length (from_hex H s) = length s div 2 \<and> is_hex H (drop 2 s))"

record user_pubkey =
  network :: int
  pubkey :: string

definition USER_PUBKEY_SIZE_BYTES :: nat where "USER_PUBKEY_SIZE_BYTES = 33"
definition USER_PUBKEY_SIZE_HEX :: nat where "USER_PUBKEY_SIZE_HEX = USER_PUBKEY_SIZE_BYTES * 2"

definition invalid_pubkey :: user_pubkey where
  "invalid_pubkey = \<lparr>network = - 1, pubkey = []\<rparr>"

definition pubkey_bool :: "user_pubkey \<Rightarrow> bool" where
  "pubkey_bool pk \<longleftrightarrow> pubkey pk \<noteq> []"

definition load_pubkey :: "bool \<Rightarrow> hex_codec \<Rightarrow> string \<Rightarrow> user_pubkey" where
  "load_pubkey is_mainnet H pk =
     (if length pk = USER_PUBKEY_SIZE_HEX \<and> is_hex H pk
      then \<lparr>network = of_char (hd (from_hex H (take 2 pk))), pubkey = from_hex H (drop 2 pk)\<rparr>
      else if length pk = USER_PUBKEY_SIZE_BYTES
      then \<lparr>network = of_char (hd pk), pubkey = drop 1 pk\<rparr>
      else if \<not> is_mainnet \<and> length pk = USER_PUBKEY_SIZE_HEX - 2 \<and> is_hex H pk
      then \<lparr>network = 5, pubkey = from_hex H pk\<rparr>
      else if \<not> is_mainnet \<and> length pk = USER_PUBKEY_SIZE_BYTES - 1
      then \<lparr>network = 5, pubkey = pk\<rparr>
      else invalid_pubkey)"

definition pubkey_hex :: "hex_codec \<Rightarrow> user_pubkey \<Rightarrow> string" where
  "pubkey_hex H pk = to_hex H (pubkey pk)"

text \<open>
  The network number is narrowed to a byte, as the conversion to \<open>uint8_t\<close> does.
\<close>

definition prefixed_hex :: "bool \<Rightarrow> hex_codec \<Rightarrow> user_pubkey \<Rightarrow> string" where
  "prefixed_hex is_mainnet H pk =
     (if pubkey pk = [] then []
      else (let netid = network pk mod 256
            in (if \<not> (netid = 0 \<and> \<not> is_mainnet) then to_hex H [char_of netid] else [])
               @ to_hex H (pubkey pk)))"

definition prefixed_raw :: "user_pubkey \<Rightarrow> string" where
  "prefixed_raw pk = (if pubkey pk = [] then [] else char_of (network pk mod 256) # pubkey pk)"

text \<open>
  The keys that \<open>load\<close> accepts.
\<close>

definition pubkey_valid :: "user_pubkey \<Rightarrow> bool" where
  "pubkey_valid pk \<longleftrightarrow> 0 \<le> network pk \<and> network pk < 256 \<and> length (pubkey pk) = 32"

text \<open>
  The position in swarm space: the exclusive or of the eight byte groups of the key, each
  read as a big endian integer.
\<close>

fun swarm_space_loop :: "(string \<Rightarrow> u64) \<Rightarrow> string \<Rightarrow> u64 \<Rightarrow> u64" where
  "swarm_space_loop load_big [] res = res"
| "swarm_space_loop load_big (c # cs) res =
     swarm_space_loop load_big (drop 8 (c # cs)) (res XOR load_big (take 8 (c # cs)))"

definition pubkey_to_swarm_space :: "(string \<Rightarrow> u64) \<Rightarrow> user_pubkey \<Rightarrow> u64" where
  "pubkey_to_swarm_space load_big pk = swarm_space_loop load_big (pubkey pk) 0"

section \<open>Subaccount tokens\<close>

type_synonym subaccount_token = string
type_synonym subaccount_access = "8 word"

definition SUBACCOUNT_TOKEN_LENGTH :: nat where "SUBACCOUNT_TOKEN_LENGTH = 36"
definition SUBACCOUNT_TOKEN_PREFIX_INDEX :: nat where "SUBACCOUNT_TOKEN_PREFIX_INDEX = 0"
definition SUBACCOUNT_TOKEN_FLAGS_INDEX :: nat where "SUBACCOUNT_TOKEN_FLAGS_INDEX = 1"
definition SUBACCOUNT_TOKEN_PUBKEY_INDEX :: nat where "SUBACCOUNT_TOKEN_PUBKEY_INDEX = 4"
definition SUBACCOUNT_TOKEN_LEN_PUBKEY :: nat where "SUBACCOUNT_TOKEN_LEN_PUBKEY = 32"
definition MAX_SUBACCOUNT_TOKENS :: nat where "MAX_SUBACCOUNT_TOKENS = 50"

definition access_None :: subaccount_access where "access_None = 0"
definition access_Read :: subaccount_access where "access_Read = 1"
definition access_Write :: subaccount_access where "access_Write = 2"
definition access_Delete :: subaccount_access where "access_Delete = 4"
definition access_AnyPrefix :: subaccount_access where "access_AnyPrefix = 8"

definition token_pubkey :: "subaccount_token \<Rightarrow> string" where
  "token_pubkey t = take SUBACCOUNT_TOKEN_LEN_PUBKEY (drop SUBACCOUNT_TOKEN_PUBKEY_INDEX t)"

definition token_prefix :: "subaccount_token \<Rightarrow> 8 word" where
  "token_prefix t = of_char (t ! SUBACCOUNT_TOKEN_PREFIX_INDEX)"

definition token_flags :: "subaccount_token \<Rightarrow> subaccount_access" where
  "token_flags t = of_char (t ! SUBACCOUNT_TOKEN_FLAGS_INDEX)"

definition set_flags :: "subaccount_access \<Rightarrow> subaccount_token \<Rightarrow> subaccount_token" where
  "set_flags f t = t[SUBACCOUNT_TOKEN_FLAGS_INDEX := char_of (uint f)]"

definition token_has :: "subaccount_token \<Rightarrow> subaccount_access \<Rightarrow> bool" where
  "token_has t flag \<longleftrightarrow> token_flags t AND flag = flag"

definition set_flag :: "subaccount_access \<Rightarrow> subaccount_token \<Rightarrow> subaccount_token" where
  "set_flag flag t = set_flags (token_flags t OR flag) t"

definition clear_flag :: "subaccount_access \<Rightarrow> subaccount_token \<Rightarrow> subaccount_token" where
  "clear_flag flag t = set_flags (token_flags t AND NOT flag) t"

definition prefix_allowed :: "subaccount_token \<Rightarrow> 8 word \<Rightarrow> bool" where
  "prefix_allowed t net_prefix \<longleftrightarrow> token_prefix t = net_prefix \<or> token_has t access_AnyPrefix"

record signed_subaccount_token =
  token :: subaccount_token
  signature :: string

datatype subaccount_verification_error = bad_network | bad_permissions | bad_signature

text \<open>
  \<open>signed_subaccount_token::verify\<close>. The argument \<open>verify_detached sig msg pk\<close> stands for
  \<open>crypto_sign_ed25519_verify_detached\<close>, true when the call returns zero.
\<close>

definition verify_token_raw ::
    "(string \<Rightarrow> string \<Rightarrow> string \<Rightarrow> bool) \<Rightarrow> signed_subaccount_token \<Rightarrow> 8 word \<Rightarrow> string \<Rightarrow>
     subaccount_access \<Rightarrow> subaccount_verification_error + unit" where
  "verify_token_raw verify_detached st net_prefix ed_pk required_access =
     (if \<not> prefix_allowed (token st) net_prefix then Inl bad_network
      else if token_flags (token st) AND required_access \<noteq> required_access then Inl bad_permissions
      else if \<not> verify_detached (signature st) (token st) ed_pk then Inl bad_signature
      else Inr ())"

definition verify_token ::
    "(string \<Rightarrow> string \<Rightarrow> string \<Rightarrow> bool) \<Rightarrow> signed_subaccount_token \<Rightarrow> user_pubkey \<Rightarrow>
     subaccount_access \<Rightarrow> string option \<Rightarrow> subaccount_verification_error + unit" where
  "verify_token verify_detached st pk required_access ed_pk =
     verify_token_raw verify_detached st (of_int (network pk))
       (case ed_pk of Some k \<Rightarrow> k | None \<Rightarrow> pubkey pk) required_access"

section \<open>Lemmas on account keys\<close>

lemma of_char_range: "0 \<le> (of_char c :: int) \<and> (of_char c :: int) < 256"
proof -
  have "(of_char c :: int) = int (of_char c)" by (simp add: of_nat_of_char)
  moreover have "(of_char c :: nat) < 256" by simp
  ultimately show ?thesis by linarith
qed

lemma load_pubkey_valid:
  assumes "hex_ok H"
  shows "pubkey_valid (load_pubkey m H s) \<or> load_pubkey m H s = invalid_pubkey"
proof -
  have "length (from_hex H (drop 2 s)) = 32" if "length s = 66" "is_hex H s"
    using assms that by (auto simp: hex_ok_def)
  moreover have "length (from_hex H s) = 32" if "length s = 64" "is_hex H s"
    using assms that by (auto simp: hex_ok_def)
  ultimately show ?thesis
    using of_char_range
    by (auto simp: load_pubkey_def pubkey_valid_def USER_PUBKEY_SIZE_HEX_def
        USER_PUBKEY_SIZE_BYTES_def)
qed

lemma valid_nonempty: "pubkey_valid pk \<Longrightarrow> pubkey pk \<noteq> []"
  by (auto simp: pubkey_valid_def)

lemmas size_defs = USER_PUBKEY_SIZE_HEX_def USER_PUBKEY_SIZE_BYTES_def

lemma load_raw_key:
  assumes "pubkey_valid pk"
  shows "load_pubkey is_mainnet H (prefixed_raw pk) = pk"
  using assms valid_nonempty [OF assms]
  by (cases pk) (simp add: load_pubkey_def prefixed_raw_def size_defs pubkey_valid_def)

text \<open>
  A valid key survives being written as raw bytes, which is how it is sent between
  nodes, and read back: the network byte and the 32 bytes of the key come out as they
  went in, on either network.
\<close>

theorem load_prefixed_raw:
  assumes "pubkey_valid pk"
  shows "load_pubkey is_mainnet H (prefixed_raw pk) = pk"
  by (rule load_raw_key [OF assms])

text \<open>
  The hex form of a valid key is read back as the same key on mainnet, and on testnet
  too unless its network byte is zero: then the prefix is left out, and \<open>load\<close> takes a key
  without a prefix to be of network 5.
\<close>

theorem load_prefixed_hex:
  assumes "hex_ok H" and "pubkey_valid pk"
  shows "load_pubkey is_mainnet H (prefixed_hex is_mainnet H pk) =
           (if network pk = 0 \<and> \<not> is_mainnet then pk\<lparr>network := 5\<rparr> else pk)"
proof -
  let ?n = "to_hex H [char_of (network pk)]" and ?k = "to_hex H (pubkey pk)"
  have len: "length ?n = 2" "length ?k = 64"
    using assms by (auto simp: hex_ok_def pubkey_valid_def)
  have hex: "is_hex H ?k" "is_hex H (?n @ ?k)"
    using assms(1) unfolding hex_ok_def by (blast, metis)
  have dec: "from_hex H ?n = [char_of (network pk)]" "from_hex H ?k = pubkey pk"
    using assms(1) by (auto simp: hex_ok_def)
  have net: "network pk mod 256 = network pk" using assms(2) by (simp add: pubkey_valid_def)
  show ?thesis
    using len hex dec net valid_nonempty [OF assms(2)]
    by (cases pk) (simp add: load_pubkey_def prefixed_hex_def size_defs Let_def)
qed

text \<open>
  The loop reads four groups of a valid key.
\<close>

lemma swarm_space_loop_unfold:
  "bs \<noteq> [] \<Longrightarrow> swarm_space_loop l bs r = swarm_space_loop l (drop 8 bs) (r XOR l (take 8 bs))"
  by (cases bs) auto

lemma pubkey_to_swarm_space_eq:
  assumes "length (pubkey pk) = 32"
  shows "pubkey_to_swarm_space l pk =
           l (take 8 (pubkey pk)) XOR l (take 8 (drop 8 (pubkey pk)))
           XOR l (take 8 (drop 16 (pubkey pk))) XOR l (take 8 (drop 24 (pubkey pk)))"
proof -
  have ne: "drop n (pubkey pk) \<noteq> []" if "n < 32" for n using assms that by simp
  have "drop 32 (pubkey pk) = []" using assms by simp
  with ne [of 0] ne [of 8] ne [of 16] ne [of 24] show ?thesis
    by (simp add: pubkey_to_swarm_space_def swarm_space_loop_unfold xor.assoc del: drop_eq_Nil)
qed

section \<open>Lemmas on tokens\<close>

lemma token_flags_set_flags:
  "length t = SUBACCOUNT_TOKEN_LENGTH \<Longrightarrow> token_flags (set_flags f t) = f"
proof -
  assume "length t = SUBACCOUNT_TOKEN_LENGTH"
  then have "token_flags (set_flags f t) = of_char (char_of (uint f))"
    by (simp add: token_flags_def set_flags_def SUBACCOUNT_TOKEN_LENGTH_def
        SUBACCOUNT_TOKEN_FLAGS_INDEX_def)
  also have "\<dots> = of_int (of_char (char_of (uint f)))" by (simp only: of_int_of_char)
  also have "\<dots> = of_int (uint f)" using uint_lt2p [of f] by (simp add: mod_pos_pos_trivial)
  finally show ?thesis by simp
qed

lemma token_other_bytes:
  "token_prefix (set_flags f t) = token_prefix t" "token_pubkey (set_flags f t) = token_pubkey t"
  "length (set_flags f t) = length t"
  by (simp_all add: token_prefix_def token_pubkey_def set_flags_def
      SUBACCOUNT_TOKEN_PREFIX_INDEX_def SUBACCOUNT_TOKEN_FLAGS_INDEX_def
      SUBACCOUNT_TOKEN_PUBKEY_INDEX_def)

text \<open>
  Granting and withdrawing permissions on a subaccount token touches exactly the named
  flags: after \<open>set_flag\<close> the flag is held, after \<open>clear_flag\<close> none of its bits is, every
  permission made of other bits is held exactly when it was before, and neither the network
  prefix nor the subaccount's key changes.
\<close>

theorem token_flag_laws:
  assumes "length t = SUBACCOUNT_TOKEN_LENGTH" and "other AND flag = 0"
  shows "token_has (set_flag flag t) flag \<and> token_flags (clear_flag flag t) AND flag = 0
     \<and> (token_has (set_flag flag t) other \<longleftrightarrow> token_has t other)
     \<and> (token_has (clear_flag flag t) other \<longleftrightarrow> token_has t other)
     \<and> token_prefix (set_flag flag t) = token_prefix t
     \<and> token_pubkey (clear_flag flag t) = token_pubkey t"
proof -
  have disj: "\<not> (bit other n \<and> bit flag n)" for n
    using assms(2) by (metis bit_and_iff bit_0_eq bot_apply bot_bool_def)
  have "(token_flags t OR flag) AND flag = flag" by (simp add: bit_eq_iff bit_simps)
  moreover have "(token_flags t AND NOT flag) AND flag = 0" by (simp add: bit_eq_iff bit_simps)
  moreover have "(token_flags t OR flag) AND other = token_flags t AND other"
    using disj by (auto simp: bit_eq_iff bit_simps)
  moreover have "(token_flags t AND NOT flag) AND other = token_flags t AND other"
    using disj by (auto simp: bit_eq_iff bit_simps)
  ultimately show ?thesis
    using assms(1)
    by (simp add: token_has_def set_flag_def clear_flag_def token_flags_set_flags token_other_bytes)
qed

section \<open>Witnesses\<close>

text \<open>
  A concrete codec with lower case digits.
\<close>

definition digit_of :: "nat \<Rightarrow> char" where
  "digit_of n = (if n < 10 then char_of (n + 48) else char_of (n + 87))"

definition value_of :: "char \<Rightarrow> nat" where
  "value_of c = (let n = of_char c in if n < 58 then n - 48 else n - 87)"

fun hex_decode :: "string \<Rightarrow> string" where
  "hex_decode (a # b # s) = char_of (16 * value_of a + value_of b) # hex_decode s"
| "hex_decode _ = []"

definition plain_hex :: hex_codec where
  "plain_hex =
     \<lparr>is_hex = (\<lambda>s. even (length s) \<and> list_all (\<lambda>c. c \<in> set (map digit_of [0..<16])) s),
      to_hex = (\<lambda>s. concat (map (\<lambda>c. [digit_of (of_char c div 16), digit_of (of_char c mod 16)]) s)),
      from_hex = hex_decode\<rparr>"

lemma value_digit: "n < 16 \<Longrightarrow> value_of (digit_of n) = n"
  by (simp add: digit_of_def value_of_def Let_def)

lemma length_hex_decode: "even (length s) \<Longrightarrow> length (hex_decode s) = length s div 2"
  by (induction s rule: hex_decode.induct) auto

lemma plain_hex_roundtrip: "hex_decode (to_hex plain_hex s) = s"
proof (induction s)
  case Nil
  then show ?case by (simp add: plain_hex_def)
next
  case (Cons c s)
  have "(of_char c :: nat) div 16 < 16" using nat_of_char_less_256 [of c] by linarith
  with Cons show ?case by (simp add: plain_hex_def value_digit)
qed

lemma plain_hex_digits: "is_hex plain_hex (to_hex plain_hex s)"
proof (induction s)
  case Nil
  then show ?case by (simp add: plain_hex_def)
next
  case (Cons c s)
  have "(of_char c :: nat) div 16 < 16" using nat_of_char_less_256 [of c] by linarith
  with Cons show ?case by (simp add: plain_hex_def)
qed

lemma plain_hex_ok: "hex_ok plain_hex"
proof -
  have "length (to_hex plain_hex s) = 2 * length s" for s
    by (induction s) (simp_all add: plain_hex_def)
  moreover have "is_hex plain_hex s \<Longrightarrow>
      length (from_hex plain_hex s) = length s div 2 \<and> is_hex plain_hex (drop 2 s)" for s
    by (auto simp: plain_hex_def length_hex_decode list_all_def dest: in_set_dropD)
  moreover have "to_hex plain_hex (a @ b) = to_hex plain_hex a @ to_hex plain_hex b" for a b
    by (simp add: plain_hex_def)
  moreover have "from_hex plain_hex (to_hex plain_hex b) = b" for b
    using plain_hex_roundtrip by (simp add: plain_hex_def)
  ultimately show ?thesis unfolding hex_ok_def using plain_hex_digits by blast
qed

definition sample_pubkey :: user_pubkey where
  "sample_pubkey = \<lparr>network = 3, pubkey = replicate 32 (CHR ''k'')\<rparr>"

theorem load_prefixed_raw_witness:
  "load_pubkey True plain_hex (prefixed_raw sample_pubkey) = sample_pubkey"
  using load_prefixed_raw [of sample_pubkey] by (simp add: sample_pubkey_def pubkey_valid_def)

theorem load_prefixed_hex_witness:
  "load_pubkey False plain_hex (prefixed_hex False plain_hex sample_pubkey) = sample_pubkey
   \<and> load_pubkey False plain_hex (prefixed_hex False plain_hex (sample_pubkey\<lparr>network := 0\<rparr>))
       = sample_pubkey\<lparr>network := 5\<rparr>"
  using load_prefixed_hex [OF plain_hex_ok, of sample_pubkey False]
    load_prefixed_hex [OF plain_hex_ok, of "sample_pubkey\<lparr>network := 0\<rparr>" False]
  by (simp add: sample_pubkey_def pubkey_valid_def)

definition sample_token :: subaccount_token where
  "sample_token = CHR 0x03 # CHR 0x01 # replicate 34 (CHR ''t'')"

theorem token_flag_laws_witness:
  "token_has (set_flag access_Write sample_token) access_Write
   \<and> token_has (set_flag access_Write sample_token) access_Read"
  using token_flag_laws [of sample_token access_Read access_Write]
  by (simp add: sample_token_def SUBACCOUNT_TOKEN_LENGTH_def access_Read_def access_Write_def
      token_has_def token_flags_def SUBACCOUNT_TOKEN_FLAGS_INDEX_def)

end
