(* ===== verification/Contacts.thy ===== *)
theory Contacts
  imports SS_Prelude
begin

text \<open>
  The contact table (\<open>oxenss/snode/contacts.h\<close>, \<open>contacts.cpp\<close>): what the node knows
  about how to reach every other service node, with the two reverse indices from a node's
  x25519 and ed25519 keys to its primary key. The sets of x25519 keys that an operation
  reports to oxenmq are results of the operation.
\<close>

section \<open>Keys and contact records\<close>

text \<open>
  Keys are 32 byte arrays; a key converts to \<open>true\<close> when it is not all zero.
\<close>

type_synonym legacy_pubkey = string
type_synonym x25519_pubkey = string
type_synonym ed25519_pubkey = string

definition null_key :: string where
  "null_key = replicate 32 (CHR 0x00)"

definition key_set :: "string \<Rightarrow> bool" where
  "key_set k \<longleftrightarrow> k \<noteq> null_key"

record contact =
  ip :: u32
  https_port :: "16 word"
  omq_quic_port :: "16 word"
  version :: "16 word \<times> 16 word \<times> 16 word"
  pubkey_ed25519 :: ed25519_pubkey
  pubkey_x25519 :: x25519_pubkey

definition contactable :: "contact \<Rightarrow> bool" where
  "contactable c \<longleftrightarrow> ip c \<noteq> 0 \<and> https_port c \<noteq> 0 \<and> omq_quic_port c \<noteq> 0 \<and> key_set (pubkey_x25519 c)"

record contact_table =
  ct_contacts :: "legacy_pubkey \<rightharpoonup> contact"
  ct_x_pk :: "x25519_pubkey \<rightharpoonup> legacy_pubkey"
  ct_ed_pk :: "ed25519_pubkey \<rightharpoonup> legacy_pubkey"

definition empty_contacts :: contact_table where
  "empty_contacts = \<lparr>ct_contacts = Map.empty, ct_x_pk = Map.empty, ct_ed_pk = Map.empty\<rparr>"

section \<open>Operations\<close>

text \<open>
  The keys to tell oxenmq about: those to add and those to remove.
\<close>

type_synonym omq_delta = "string set \<times> string set"

definition erase_key :: "'k \<Rightarrow> ('k \<rightharpoonup> 'v) \<Rightarrow> ('k \<rightharpoonup> 'v)" where
  "erase_key k m = m(k := None)"

text \<open>
  The lambda \<open>upd\<close> of \<open>_update\<close>: a field is replaced by a value that is not the default
  of its type and differs from the current one.
\<close>

definition upd_field :: "'a \<Rightarrow> 'a \<Rightarrow> 'a \<Rightarrow> 'a \<times> bool" where
  "upd_field dflt val cur = (if val \<noteq> dflt \<and> val \<noteq> cur then (val, True) else (cur, False))"

definition update_x_key ::
    "legacy_pubkey \<Rightarrow> contact \<Rightarrow> contact \<Rightarrow> contact_table \<Rightarrow> omq_delta \<Rightarrow>
     contact \<times> contact_table \<times> omq_delta \<times> bool" where
  "update_x_key pk c cur t d =
     (if key_set (pubkey_x25519 c) \<and> pubkey_x25519 cur \<noteq> pubkey_x25519 c
      then let (add, rem) = d;
               rem = (if key_set (pubkey_x25519 cur) then insert (pubkey_x25519 cur) rem else rem);
               xs = (if key_set (pubkey_x25519 cur) then erase_key (pubkey_x25519 cur) (ct_x_pk t)
                     else ct_x_pk t)
           in (cur\<lparr>pubkey_x25519 := pubkey_x25519 c\<rparr>,
               t\<lparr>ct_x_pk := xs(pubkey_x25519 c \<mapsto> pk)\<rparr>,
               (insert (pubkey_x25519 c) add, rem), True)
      else (cur, t, d, False))"

definition update_ed_key ::
    "legacy_pubkey \<Rightarrow> contact \<Rightarrow> contact \<Rightarrow> contact_table \<Rightarrow> contact \<times> contact_table \<times> bool" where
  "update_ed_key pk c cur t =
     (if key_set (pubkey_ed25519 c) \<and> pubkey_ed25519 cur \<noteq> pubkey_ed25519 c
      then let eds = (if key_set (pubkey_ed25519 cur) then erase_key (pubkey_ed25519 cur) (ct_ed_pk t)
                      else ct_ed_pk t)
           in (cur\<lparr>pubkey_ed25519 := pubkey_ed25519 c\<rparr>,
               t\<lparr>ct_ed_pk := eds(pubkey_ed25519 c \<mapsto> pk)\<rparr>, True)
      else (cur, t, False))"

definition update_addr :: "contact \<Rightarrow> contact \<Rightarrow> contact \<times> bool" where
  "update_addr c cur =
     (let (i, b1) = upd_field 0 (ip c) (ip cur);
          (h, b2) = upd_field 0 (https_port c) (https_port cur);
          (q, b3) = upd_field 0 (omq_quic_port c) (omq_quic_port cur);
          (v, b4) = upd_field (0, 0, 0) (version c) (version cur)
      in (cur\<lparr>ip := i, https_port := h, omq_quic_port := q, version := v\<rparr>, b1 \<or> b2 \<or> b3 \<or> b4))"

definition contacts_update ::
    "legacy_pubkey \<Rightarrow> contact \<Rightarrow> contact_table \<times> omq_delta \<Rightarrow> contact_table \<times> omq_delta \<times> bool" where
  "contacts_update pk c = (\<lambda>(t, add, rem).
     case ct_contacts t pk of
       Some cur \<Rightarrow>
         let (cur1, t1, d1, b1) = update_x_key pk c cur t (add, rem);
             (cur2, t2, b2) = update_ed_key pk c cur1 t1;
             (cur3, b3) = update_addr c cur2
         in (t2\<lparr>ct_contacts := (ct_contacts t2)(pk \<mapsto> cur3)\<rparr>, d1, b1 \<or> b2 \<or> b3)
     | None \<Rightarrow>
         let t1 = t\<lparr>ct_contacts := (ct_contacts t)(pk \<mapsto> c)\<rparr>;
             t2 = (if key_set (pubkey_x25519 c)
                   then t1\<lparr>ct_x_pk := (ct_x_pk t1)(pubkey_x25519 c \<mapsto> pk)\<rparr> else t1);
             add' = (if key_set (pubkey_x25519 c) then insert (pubkey_x25519 c) add else add);
             t3 = (if key_set (pubkey_ed25519 c)
                   then t2\<lparr>ct_ed_pk := (ct_ed_pk t2)(pubkey_ed25519 c \<mapsto> pk)\<rparr> else t2)
         in (t3, (add', rem), True))"

definition contacts_erase ::
    "legacy_pubkey \<Rightarrow> contact_table \<times> string set \<Rightarrow> contact_table \<times> string set \<times> bool" where
  "contacts_erase pk = (\<lambda>(t, rem).
     case ct_contacts t pk of
       None \<Rightarrow> (t, rem, False)
     | Some c \<Rightarrow>
         let rem' = (if key_set (pubkey_x25519 c) then insert (pubkey_x25519 c) rem else rem);
             xs = (if key_set (pubkey_x25519 c) then erase_key (pubkey_x25519 c) (ct_x_pk t)
                   else ct_x_pk t);
             eds = (if key_set (pubkey_ed25519 c) then erase_key (pubkey_ed25519 c) (ct_ed_pk t)
                    else ct_ed_pk t)
         in (\<lparr>ct_contacts = erase_key pk (ct_contacts t), ct_x_pk = xs, ct_ed_pk = eds\<rparr>, rem', True))"

text \<open>
  \<open>update_and_erase\<close>: every update in order, then every erase, with the number of calls
  that changed something.
\<close>

fun update_loop ::
    "(legacy_pubkey \<times> contact) list \<Rightarrow> contact_table \<times> omq_delta \<Rightarrow> nat \<Rightarrow>
     contact_table \<times> omq_delta \<times> nat" where
  "update_loop [] (t, d) n = (t, d, n)"
| "update_loop ((pk, c) # ups) (t, d) n =
     (let (t', d', b) = contacts_update pk c (t, d)
      in update_loop ups (t', d') (if b then Suc n else n))"

fun erase_loop ::
    "legacy_pubkey list \<Rightarrow> contact_table \<times> string set \<Rightarrow> nat \<Rightarrow> contact_table \<times> string set \<times> nat" where
  "erase_loop [] (t, rem) n = (t, rem, n)"
| "erase_loop (pk # pks) (t, rem) n =
     (let (t', rem', b) = contacts_erase pk (t, rem)
      in erase_loop pks (t', rem') (if b then Suc n else n))"

definition update_and_erase ::
    "(legacy_pubkey \<times> contact) list \<Rightarrow> legacy_pubkey list \<Rightarrow> contact_table \<Rightarrow>
     contact_table \<times> omq_delta \<times> nat" where
  "update_and_erase ups pks t =
     (let (t1, (add, rem), n) = update_loop ups (t, {}, {}) 0;
          (t2, rem', n') = erase_loop pks (t1, rem) n
      in (t2, (add, rem'), n'))"

text \<open>
  The two public operations. \<open>_update_omq_keys\<close> calls oxenmq only when there is something
  to tell it.
\<close>

definition omq_call :: "omq_delta \<Rightarrow> omq_delta option" where
  "omq_call d = (if fst d \<noteq> {} \<or> snd d \<noteq> {} then Some d else None)"

definition update_contact ::
    "legacy_pubkey \<Rightarrow> contact \<Rightarrow> contact_table \<Rightarrow> contact_table \<times> bool \<times> omq_delta option" where
  "update_contact pk c t = (let (t', d, b) = contacts_update pk c (t, {}, {}) in (t', b, omq_call d))"

definition erase_contact ::
    "legacy_pubkey \<Rightarrow> contact_table \<Rightarrow> contact_table \<times> bool \<times> omq_delta option" where
  "erase_contact pk t = (let (t', rem, b) = contacts_erase pk (t, {}) in (t', b, omq_call ({}, rem)))"

definition find_contact :: "contact_table \<Rightarrow> legacy_pubkey \<Rightarrow> contact option" where
  "find_contact t pk = ct_contacts t pk"

definition find_by_x :: "contact_table \<Rightarrow> x25519_pubkey \<Rightarrow> contact option" where
  "find_by_x t x = (case ct_x_pk t x of None \<Rightarrow> None | Some pk \<Rightarrow> ct_contacts t pk)"

definition find_by_ed :: "contact_table \<Rightarrow> ed25519_pubkey \<Rightarrow> contact option" where
  "find_by_ed t e = (case ct_ed_pk t e of None \<Rightarrow> None | Some pk \<Rightarrow> ct_contacts t pk)"

definition lookup_x :: "contact_table \<Rightarrow> x25519_pubkey \<Rightarrow> legacy_pubkey option" where
  "lookup_x t x = ct_x_pk t x"

definition lookup_ed :: "contact_table \<Rightarrow> ed25519_pubkey \<Rightarrow> legacy_pubkey option" where
  "lookup_ed t e = ct_ed_pk t e"

definition get_pubkeys :: "contact_table \<Rightarrow> legacy_pubkey set" where
  "get_pubkeys t = dom (ct_contacts t)"

definition contacts_size :: "contact_table \<Rightarrow> nat" where
  "contacts_size t = card (dom (ct_contacts t))"

definition contacts_counts :: "contact_table \<Rightarrow> nat \<times> nat" where
  "contacts_counts t =
     (card (dom (ct_contacts t)),
      card {pk \<in> dom (ct_contacts t). contactable (the (ct_contacts t pk))})"

section \<open>What an update does to a contact\<close>

text \<open>
  The reference: a field of the incoming record wins where it is known, that is, not zero.
\<close>

definition known_or :: "'a \<Rightarrow> 'a \<Rightarrow> 'a \<Rightarrow> 'a" where
  "known_or dflt val cur = (if val \<noteq> dflt then val else cur)"

definition merge_contact :: "contact \<Rightarrow> contact \<Rightarrow> contact" where
  "merge_contact c cur =
     \<lparr>ip = known_or 0 (ip c) (ip cur),
      https_port = known_or 0 (https_port c) (https_port cur),
      omq_quic_port = known_or 0 (omq_quic_port c) (omq_quic_port cur),
      version = known_or (0, 0, 0) (version c) (version cur),
      pubkey_ed25519 = known_or null_key (pubkey_ed25519 c) (pubkey_ed25519 cur),
      pubkey_x25519 = known_or null_key (pubkey_x25519 c) (pubkey_x25519 cur)\<rparr>"

lemma upd_field_eq: "upd_field dflt val cur = (known_or dflt val cur, known_or dflt val cur \<noteq> cur)"
  by (simp add: upd_field_def known_or_def)

lemma update_x_key_results:
  assumes "update_x_key pk c cur t d = (cur', t', d', b)"
  shows "cur' = cur\<lparr>pubkey_x25519 := known_or null_key (pubkey_x25519 c) (pubkey_x25519 cur)\<rparr>"
    and "ct_contacts t' = ct_contacts t" and "ct_ed_pk t' = ct_ed_pk t"
    and "b \<longleftrightarrow> known_or null_key (pubkey_x25519 c) (pubkey_x25519 cur) \<noteq> pubkey_x25519 cur"
  using assms
  by (auto simp: update_x_key_def known_or_def key_set_def Let_def split: if_splits prod.splits)

lemma update_ed_key_results:
  assumes "update_ed_key pk c cur t = (cur', t', b)"
  shows "cur' = cur\<lparr>pubkey_ed25519 := known_or null_key (pubkey_ed25519 c) (pubkey_ed25519 cur)\<rparr>"
    and "ct_contacts t' = ct_contacts t" and "ct_x_pk t' = ct_x_pk t"
    and "b \<longleftrightarrow> known_or null_key (pubkey_ed25519 c) (pubkey_ed25519 cur) \<noteq> pubkey_ed25519 cur"
  using assms
  by (auto simp: update_ed_key_def known_or_def key_set_def Let_def split: if_splits)

lemma update_addr_eq:
  "update_addr c cur =
     (let m = merge_contact c cur
      in (cur\<lparr>ip := ip m, https_port := https_port m, omq_quic_port := omq_quic_port m,
              version := version m\<rparr>,
          \<not> (ip m = ip cur \<and> https_port m = https_port cur \<and> omq_quic_port m = omq_quic_port cur
             \<and> version m = version cur)))"
  by (auto simp: update_addr_def upd_field_eq merge_contact_def Let_def)

lemma contacts_update_known:
  assumes "ct_contacts t pk = Some cur" and "contacts_update pk c (t, d) = (t', d', b)"
  shows "ct_contacts t' = (ct_contacts t)(pk \<mapsto> merge_contact c cur)"
    and "b \<longleftrightarrow> merge_contact c cur \<noteq> cur"
proof -
  obtain cur1 t1 d1 b1 where x: "update_x_key pk c cur t d = (cur1, t1, d1, b1)"
    by (cases "update_x_key pk c cur t d") auto
  obtain cur2 t2 b2 where e: "update_ed_key pk c cur1 t1 = (cur2, t2, b2)"
    by (cases "update_ed_key pk c cur1 t1") auto
  note rs = update_x_key_results [OF x] update_ed_key_results [OF e]
  from assms have eqs: "t' = t2\<lparr>ct_contacts := (ct_contacts t2)(pk \<mapsto> fst (update_addr c cur2))\<rparr>"
    "b = (b1 \<or> b2 \<or> snd (update_addr c cur2))"
    by (auto simp: contacts_update_def x e split: prod.splits)
  show "ct_contacts t' = (ct_contacts t)(pk \<mapsto> merge_contact c cur)"
    by (cases cur) (simp add: eqs rs update_addr_eq Let_def merge_contact_def)
  show "b \<longleftrightarrow> merge_contact c cur \<noteq> cur"
    by (cases cur) (auto simp: eqs rs update_addr_eq Let_def merge_contact_def)
qed

lemma contacts_update_new:
  assumes "ct_contacts t pk = None" and "contacts_update pk c (t, d) = (t', d', b)"
  shows "ct_contacts t' = (ct_contacts t)(pk \<mapsto> c)" and "b"
  using assms by (auto simp: contacts_update_def Let_def split: if_splits prod.splits)

section \<open>The change count\<close>

text \<open>
  The count of changes tells the caller whether its view of the contacts is stale: when it
  is zero, no contact changed.
\<close>

lemma contacts_update_dom:
  assumes "contacts_update pk c (t, d) = (t', d', b)"
  shows "dom (ct_contacts t') = insert pk (dom (ct_contacts t))"
    and "b \<or> ct_contacts t' = ct_contacts t"
proof -
  have "dom (ct_contacts t') = insert pk (dom (ct_contacts t)) \<and> (b \<or> ct_contacts t' = ct_contacts t)"
  proof (cases "ct_contacts t pk")
    case None
    then show ?thesis using contacts_update_new [OF None assms] by simp
  next
    case (Some cur)
    then show ?thesis using contacts_update_known [OF Some assms] by (simp add: insert_absorb domI) auto
  qed
  then show "dom (ct_contacts t') = insert pk (dom (ct_contacts t))"
    and "b \<or> ct_contacts t' = ct_contacts t" by auto
qed

lemma contacts_erase_dom:
  assumes "contacts_erase pk (t, r) = (t', r', b)"
  shows "dom (ct_contacts t') = dom (ct_contacts t) - {pk}"
    and "b \<or> ct_contacts t' = ct_contacts t"
  using assms
  by (auto simp: contacts_erase_def erase_key_def Let_def split: option.splits if_splits)

lemma update_loop_dom:
  "update_loop ups (t, d) n = (t', d', n') \<Longrightarrow>
     dom (ct_contacts t') = fst ` set ups \<union> dom (ct_contacts t)
     \<and> n \<le> n' \<and> (n < n' \<or> ct_contacts t' = ct_contacts t)"
proof (induction ups arbitrary: t d n)
  case (Cons u ups)
  obtain pk c where u: "u = (pk, c)" by (cases u)
  obtain t1 d1 b where s: "contacts_update pk c (t, d) = (t1, d1, b)"
    by (cases "contacts_update pk c (t, d)") auto
  have "update_loop ups (t1, d1) (if b then Suc n else n) = (t', d', n')"
    using Cons.prems by (simp add: u s)
  from Cons.IH [OF this] contacts_update_dom [OF s] show ?case by (cases b) (simp_all add: u)
qed simp

lemma erase_loop_dom:
  "erase_loop pks (t, r) n = (t', r', n') \<Longrightarrow>
     dom (ct_contacts t') = dom (ct_contacts t) - set pks
     \<and> n \<le> n' \<and> (n < n' \<or> ct_contacts t' = ct_contacts t)"
proof (induction pks arbitrary: t r n)
  case (Cons pk pks)
  obtain t1 r1 b where s: "contacts_erase pk (t, r) = (t1, r1, b)"
    by (cases "contacts_erase pk (t, r)") auto
  have "erase_loop pks (t1, r1) (if b then Suc n else n) = (t', r', n')"
    using Cons.prems by (simp add: s)
  from Cons.IH [OF this] contacts_erase_dom [OF s] show ?case
    by (cases b) (simp_all add: Diff_insert2 [symmetric] insert_commute)
qed simp

lemma update_and_erase_dom:
  assumes "update_and_erase ups pks t = (t', d, n)"
  shows "dom (ct_contacts t') = (fst ` set ups \<union> dom (ct_contacts t)) - set pks"
    and "n = 0 \<Longrightarrow> ct_contacts t' = ct_contacts t"
proof -
  obtain t1 a r n1 where u: "update_loop ups (t, {}, {}) 0 = (t1, (a, r), n1)"
    by (cases "update_loop ups (t, {}, {}) 0") auto
  obtain t2 r2 n2 where e: "erase_loop pks (t1, r) n1 = (t2, r2, n2)"
    by (cases "erase_loop pks (t1, r) n1") auto
  have t2: "t2 = t'" "n2 = n" using assms by (simp_all add: update_and_erase_def u e)
  note fs = update_loop_dom [OF u] erase_loop_dom [OF e]
  show "dom (ct_contacts t') = (fst ` set ups \<union> dom (ct_contacts t)) - set pks"
    using fs t2 by simp
  show "ct_contacts t' = ct_contacts t" if "n = 0"
    using fs t2 that by simp
qed

section \<open>The reverse indices\<close>

text \<open>
  An index is sound when every entry leads to a node that has the key, and complete when
  every node with a key is found by it.
\<close>

definition index_sound ::
    "(contact \<Rightarrow> string) \<Rightarrow> (legacy_pubkey \<rightharpoonup> contact) \<Rightarrow> (string \<rightharpoonup> legacy_pubkey) \<Rightarrow> bool" where
  "index_sound key m ix \<longleftrightarrow>
     (\<forall>k pk. ix k = Some pk \<longrightarrow> key_set k \<and> (\<exists>c. m pk = Some c \<and> key c = k))"

definition index_complete ::
    "(contact \<Rightarrow> string) \<Rightarrow> (legacy_pubkey \<rightharpoonup> contact) \<Rightarrow> (string \<rightharpoonup> legacy_pubkey) \<Rightarrow> bool" where
  "index_complete key m ix \<longleftrightarrow> (\<forall>pk c. m pk = Some c \<longrightarrow> key_set (key c) \<longrightarrow> ix (key c) = Some pk)"

definition contacts_sound :: "contact_table \<Rightarrow> bool" where
  "contacts_sound t \<longleftrightarrow> index_sound pubkey_x25519 (ct_contacts t) (ct_x_pk t)
                     \<and> index_sound pubkey_ed25519 (ct_contacts t) (ct_ed_pk t)"

definition contacts_complete :: "contact_table \<Rightarrow> bool" where
  "contacts_complete t \<longleftrightarrow> index_complete pubkey_x25519 (ct_contacts t) (ct_x_pk t)
                     \<and> index_complete pubkey_ed25519 (ct_contacts t) (ct_ed_pk t)"

text \<open>
  One step of an index: the node \<open>pk\<close>, which had the key of \<open>cur\<close>, now has the record \<open>new\<close>.
  Every update of a known or new node, and of either index, is this step.
\<close>

definition reindex ::
    "(contact \<Rightarrow> string) \<Rightarrow> legacy_pubkey \<Rightarrow> contact option \<Rightarrow> contact option \<Rightarrow>
     (string \<rightharpoonup> legacy_pubkey) \<Rightarrow> (string \<rightharpoonup> legacy_pubkey)" where
  "reindex key pk cur new ix =
     (let old = Option.bind cur (\<lambda>c. if key_set (key c) then Some (key c) else None);
          nw = Option.bind new (\<lambda>c. if key_set (key c) then Some (key c) else None)
      in if cur \<noteq> None \<and> old = nw then ix
         else let ix' = (case old of None \<Rightarrow> ix | Some k \<Rightarrow> erase_key k ix)
              in case nw of None \<Rightarrow> ix' | Some k \<Rightarrow> ix'(k \<mapsto> pk))"

lemma index_sound_reindex:
  assumes "index_sound key m ix" and "m pk = cur"
  shows "index_sound key (m(pk := new)) (reindex key pk cur new ix)"
  using assms
  by (fastforce simp: index_sound_def reindex_def Let_def erase_key_def
      split: option.splits if_splits Option.bind_splits)

text \<open>
  Completeness needs that no other node has the new key: an entry it takes over would be
  lost for that node.
\<close>

definition key_free ::
    "(contact \<Rightarrow> string) \<Rightarrow> (legacy_pubkey \<rightharpoonup> contact) \<Rightarrow> legacy_pubkey \<Rightarrow> string \<Rightarrow> bool" where
  "key_free key m pk k \<longleftrightarrow> (\<forall>pk' c'. pk' \<noteq> pk \<longrightarrow> m pk' = Some c' \<longrightarrow> key_set (key c') \<longrightarrow> key c' \<noteq> k)"

lemma index_complete_reindex:
  assumes "index_complete key m ix" and "index_sound key m ix" and "m pk = cur"
    and free: "\<forall>c. new = Some c \<longrightarrow> key_free key m pk (key c)"
  shows "index_complete key (m(pk := new)) (reindex key pk cur new ix)"
  unfolding index_complete_def
proof (intro allI impI)
  fix pk' c assume c: "(m(pk := new)) pk' = Some c" and k: "key_set (key c)"
  show "reindex key pk cur new ix (key c) = Some pk'"
  proof (cases "pk' = pk")
    case True
    have same: "m pk = Some y \<Longrightarrow> key y = key c \<Longrightarrow> ix (key c) = Some pk" for y
      using assms(1) k unfolding index_complete_def by metis
    from True assms(3) c k show ?thesis
      by (auto simp: reindex_def Let_def erase_key_def split: option.splits if_splits intro: same)
  next
    case False
    with c have m: "m pk' = Some c" by simp
    with assms(1) k have ix: "ix (key c) = Some pk'" by (auto simp: index_complete_def)
    have "cur = Some d \<Longrightarrow> key_set (key d) \<Longrightarrow> key d \<noteq> key c" for d
      using assms(1,3) ix False unfolding index_complete_def by (metis option.inject)
    moreover have "new = Some d \<Longrightarrow> key d \<noteq> key c" for d
      using free False m k unfolding key_free_def by metis
    ultimately show ?thesis
      using ix by (auto simp: reindex_def Let_def erase_key_def split: option.splits if_splits Option.bind_splits)
  qed
qed

text \<open>Both indices of an updated table are one step of the old ones.\<close>

lemma contacts_update_reindex:
  assumes "contacts_update pk c (t, d) = (t', d', b)"
  shows "ct_contacts t' = (ct_contacts t)(pk := ct_contacts t' pk)"
    and "ct_x_pk t' = reindex pubkey_x25519 pk (ct_contacts t pk) (ct_contacts t' pk) (ct_x_pk t)"
    and "ct_ed_pk t' = reindex pubkey_ed25519 pk (ct_contacts t pk) (ct_contacts t' pk) (ct_ed_pk t)"
proof (atomize (full), cases "ct_contacts t pk")
  case None
  with assms show "ct_contacts t' = (ct_contacts t)(pk := ct_contacts t' pk)
    \<and> ct_x_pk t' = reindex pubkey_x25519 pk (ct_contacts t pk) (ct_contacts t' pk) (ct_x_pk t)
    \<and> ct_ed_pk t' = reindex pubkey_ed25519 pk (ct_contacts t pk) (ct_contacts t' pk) (ct_ed_pk t)"
    by (auto simp: contacts_update_def reindex_def Let_def split: if_splits prod.splits)
next
  case (Some cur)
  obtain cur1 t1 d1 b1 where x: "update_x_key pk c cur t d = (cur1, t1, d1, b1)"
    by (cases "update_x_key pk c cur t d") auto
  obtain cur2 t2 b2 where e: "update_ed_key pk c cur1 t1 = (cur2, t2, b2)"
    by (cases "update_ed_key pk c cur1 t1") auto
  have eqs: "ct_x_pk t' = ct_x_pk t2" "ct_ed_pk t' = ct_ed_pk t2"
    using assms Some by (auto simp: contacts_update_def x e split: prod.splits)
  have ct: "ct_contacts t' = (ct_contacts t)(pk \<mapsto> merge_contact c cur)"
    using contacts_update_known [OF Some assms] by simp
  have "ct_x_pk t1 = reindex pubkey_x25519 pk (Some cur) (Some (merge_contact c cur)) (ct_x_pk t)"
    using x by (auto simp: update_x_key_def reindex_def merge_contact_def known_or_def key_set_def
        Let_def erase_key_def split: if_splits prod.splits)
  moreover have "ct_ed_pk t2 = reindex pubkey_ed25519 pk (Some cur) (Some (merge_contact c cur)) (ct_ed_pk t1)"
    using e update_x_key_results(1) [OF x]
    by (auto simp: update_ed_key_def reindex_def merge_contact_def known_or_def key_set_def
        Let_def erase_key_def split: if_splits)
  ultimately show "ct_contacts t' = (ct_contacts t)(pk := ct_contacts t' pk)
    \<and> ct_x_pk t' = reindex pubkey_x25519 pk (ct_contacts t pk) (ct_contacts t' pk) (ct_x_pk t)
    \<and> ct_ed_pk t' = reindex pubkey_ed25519 pk (ct_contacts t pk) (ct_contacts t' pk) (ct_ed_pk t)"
    using update_x_key_results [OF x] update_ed_key_results [OF e] by (simp add: eqs ct Some)
qed

lemma contacts_erase_reindex:
  assumes "contacts_erase pk (t, r) = (t', r', b)"
  shows "ct_contacts t' = (ct_contacts t)(pk := None)"
    and "ct_x_pk t' = reindex pubkey_x25519 pk (ct_contacts t pk) None (ct_x_pk t)"
    and "ct_ed_pk t' = reindex pubkey_ed25519 pk (ct_contacts t pk) None (ct_ed_pk t)"
  using assms
  by (auto simp: contacts_erase_def reindex_def Let_def erase_key_def fun_eq_iff split: option.splits)

lemma contacts_update_sound [inv_intros]:
  "contacts_sound t \<Longrightarrow> contacts_update pk c (t, d) = (t', d', b) \<Longrightarrow> contacts_sound t'"
  using contacts_update_reindex index_sound_reindex by (metis contacts_sound_def)

lemma contacts_erase_sound [inv_intros]:
  "contacts_sound t \<Longrightarrow> contacts_erase pk (t, r) = (t', r', b) \<Longrightarrow> contacts_sound t'"
  using contacts_erase_reindex index_sound_reindex by (metis contacts_sound_def)

lemma update_loop_sound:
  "contacts_sound t \<Longrightarrow> update_loop ups (t, d) n = (t', d', n') \<Longrightarrow> contacts_sound t'"
proof (induction ups "(t, d)" n arbitrary: t d rule: update_loop.induct)
  case (2 pk c ups t d n)
  obtain t1 d1 b where u: "contacts_update pk c (t, d) = (t1, d1, b)"
    by (cases "contacts_update pk c (t, d)") auto
  with "2.prems" have "update_loop ups (t1, d1) (if b then Suc n else n) = (t', d', n')" by simp
  with "2.hyps" [of "(t1, d1, b)" t1 "(d1, b)" d1 b] u "2.prems"(1) show ?case
    by (simp add: contacts_update_sound)
qed simp

lemma erase_loop_sound:
  "contacts_sound t \<Longrightarrow> erase_loop pks (t, r) n = (t', r', n') \<Longrightarrow> contacts_sound t'"
proof (induction pks "(t, r)" n arbitrary: t r rule: erase_loop.induct)
  case (2 pk pks t r n)
  obtain t1 r1 b where u: "contacts_erase pk (t, r) = (t1, r1, b)"
    by (cases "contacts_erase pk (t, r)") auto
  with "2.prems" have "erase_loop pks (t1, r1) (if b then Suc n else n) = (t', r', n')" by simp
  with "2.hyps" [of "(t1, r1, b)" t1 "(r1, b)" r1 b] u "2.prems"(1) show ?case
    by (simp add: contacts_erase_sound)
qed simp

section \<open>The table as a component\<close>

datatype contacts_op =
    Update legacy_pubkey contact
  | Erase legacy_pubkey
  | Update_And_Erase "(legacy_pubkey \<times> contact) list" "legacy_pubkey list"

fun contacts_step :: "contacts_op \<Rightarrow> contact_table \<Rightarrow> contact_table" where
  "contacts_step (Update pk c) t = fst (update_contact pk c t)"
| "contacts_step (Erase pk) t = fst (erase_contact pk t)"
| "contacts_step (Update_And_Erase ups pks) t = fst (update_and_erase ups pks t)"

lemma contacts_step_sound: "contacts_sound t \<Longrightarrow> contacts_sound (contacts_step x t)"
proof (cases x)
  case (Update pk c)
  assume "contacts_sound t"
  with Update show ?thesis
    by (auto simp: update_contact_def split: prod.splits dest: contacts_update_sound)
next
  case (Erase pk)
  assume "contacts_sound t"
  with Erase show ?thesis
    by (auto simp: erase_contact_def split: prod.splits dest: contacts_erase_sound)
next
  case (Update_And_Erase ups pks)
  assume t: "contacts_sound t"
  obtain t1 add rem n where u: "update_loop ups (t, {}, {}) 0 = (t1, (add, rem), n)"
    by (cases "update_loop ups (t, {}, {}) 0") auto
  obtain t2 rem' n' where e: "erase_loop pks (t1, rem) n = (t2, rem', n')"
    by (cases "erase_loop pks (t1, rem) n") auto
  from t u have "contacts_sound t1" by (rule update_loop_sound)
  from this e have "contacts_sound t2" by (rule erase_loop_sound)
  then show ?thesis by (simp add: Update_And_Erase update_and_erase_def u e)
qed

lemma empty_contacts_sound: "contacts_sound empty_contacts"
  by (simp add: contacts_sound_def index_sound_def empty_contacts_def)

interpretation contacts_comp:
  invariant_component "\<lambda>t. t = empty_contacts" contacts_step contacts_sound
  by unfold_locales (auto simp: empty_contacts_sound contacts_step_sound)

section \<open>Properties\<close>

lemma find_by_x_sound: "contacts_sound t \<Longrightarrow> find_by_x t x = Some c \<Longrightarrow> pubkey_x25519 c = x"
  by (fastforce simp: contacts_sound_def index_sound_def find_by_x_def split: option.splits)

lemma find_by_ed_sound: "contacts_sound t \<Longrightarrow> find_by_ed t e = Some c \<Longrightarrow> pubkey_ed25519 c = e"
  by (fastforce simp: contacts_sound_def index_sound_def find_by_ed_def split: option.splits)

text \<open>
  C36: Whatever sequence of updates, erasures and combined updates has built the contact
  table, looking a node up by an x25519 or ed25519 key never returns the contact of a node
  that has a different key.
\<close>

theorem reverse_lookup_never_wrong:
  "pred_option (\<lambda>c. pubkey_x25519 c = x) (find_by_x (fold contacts_step ops empty_contacts) x)
   \<and> pred_option (\<lambda>c. pubkey_ed25519 c = e) (find_by_ed (fold contacts_step ops empty_contacts) e)"
  using contacts_comp.reached_invar [of empty_contacts ops]
  by (simp add: find_by_x_sound find_by_ed_sound option.pred_set)

text \<open>
  An update of a known node keeps every field the incoming record does not know, takes
  every field it does know, touches no other node, and reports a change exactly when the
  stored record changed.
\<close>

theorem update_contact_merges:
  assumes "ct_contacts t pk = Some cur"
  shows "ct_contacts (fst (update_contact pk c t)) = (ct_contacts t)(pk \<mapsto> merge_contact c cur)
       \<and> fst (snd (update_contact pk c t)) = (merge_contact c cur \<noteq> cur)"
proof -
  obtain t' d b where u: "contacts_update pk c (t, {}, {}) = (t', d, b)"
    by (cases "contacts_update pk c (t, {}, {})") auto
  show ?thesis
    using contacts_update_known [OF assms u] by (simp add: update_contact_def u)
qed

text \<open>
  As long as no two nodes share a key, the reverse indices stay complete: after an
  update with keys no other node has, every node of the table, the updated one included,
  is still found by its x25519 and ed25519 keys.
\<close>

theorem update_contact_complete:
  assumes "contacts_sound t" and "contacts_complete t"
    and "\<forall>cur. ct_contacts (fst (update_contact pk c t)) pk = Some cur \<longrightarrow>
           key_free pubkey_x25519 (ct_contacts t) pk (pubkey_x25519 cur) \<and>
           key_free pubkey_ed25519 (ct_contacts t) pk (pubkey_ed25519 cur)"
  shows "contacts_complete (fst (update_contact pk c t))"
proof -
  obtain t' d b where u: "contacts_update pk c (t, {}, {}) = (t', d, b)"
    by (cases "contacts_update pk c (t, {}, {})") auto
  have t': "fst (update_contact pk c t) = t'" by (simp add: update_contact_def u)
  note r = contacts_update_reindex [OF u]
  have "index_complete pubkey_x25519 ((ct_contacts t)(pk := ct_contacts t' pk))
          (reindex pubkey_x25519 pk (ct_contacts t pk) (ct_contacts t' pk) (ct_x_pk t))"
    using assms by (intro index_complete_reindex) (auto simp: contacts_sound_def contacts_complete_def t')
  moreover have "index_complete pubkey_ed25519 ((ct_contacts t)(pk := ct_contacts t' pk))
          (reindex pubkey_ed25519 pk (ct_contacts t pk) (ct_contacts t' pk) (ct_ed_pk t))"
    using assms by (intro index_complete_reindex) (auto simp: contacts_sound_def contacts_complete_def t')
  ultimately show ?thesis
    unfolding contacts_complete_def t' r(2,3) by (simp only: r(1) [symmetric])
qed

text \<open>
  The indices are not complete without that condition, even for a table that keeps one
  node per key at every point in time: when a block removes node \<open>p1\<close> and brings node
  \<open>p2\<close> with the same keys, \<open>update_and_erase\<close> first points the index at \<open>p2\<close> and then
  erases the entry with \<open>p1\<close>, so \<open>p2\<close> is in the table but is not found by its keys, and
  the same key is reported to oxenmq as added and as removed.
\<close>

theorem key_takeover_loses_index:
  assumes "p1 \<noteq> p2" and "key_set (pubkey_x25519 c)" and "key_set (pubkey_ed25519 c)"
  defines "t \<equiv> fst (update_contact p1 c empty_contacts)"
  defines "r \<equiv> update_and_erase [(p2, c)] [p1] t"
  shows "find_contact (fst r) p2 = Some c
       \<and> find_by_x (fst r) (pubkey_x25519 c) = None \<and> find_by_ed (fst r) (pubkey_ed25519 c) = None
       \<and> fst (snd r) = ({pubkey_x25519 c}, {pubkey_x25519 c})"
  using assms(1-3)
  by (simp add: r_def t_def update_contact_def contacts_update_def empty_contacts_def omq_call_def
      update_and_erase_def contacts_erase_def find_contact_def find_by_x_def find_by_ed_def
      erase_key_def)

section \<open>Witnesses\<close>

definition sample_contact :: contact where
  "sample_contact = \<lparr>ip = 1, https_port = 22021, omq_quic_port = 22020, version = (2, 12, 0),
     pubkey_ed25519 = replicate 32 (CHR ''e''), pubkey_x25519 = replicate 32 (CHR ''x'')\<rparr>"

lemma sample_keys: "key_set (pubkey_x25519 sample_contact)" "key_set (pubkey_ed25519 sample_contact)"
  by (simp_all add: sample_contact_def key_set_def null_key_def)

theorem update_contact_merges_witness:
  "ct_contacts (fst (update_contact ''p'' (sample_contact\<lparr>ip := 0, https_port := 1\<rparr>)
     (fst (update_contact ''p'' sample_contact empty_contacts)))) ''p''
   = Some (sample_contact\<lparr>https_port := 1\<rparr>)"
proof -
  let ?t = "fst (update_contact ''p'' sample_contact empty_contacts)"
  have "ct_contacts ?t ''p'' = Some sample_contact"
    using sample_keys by (simp add: update_contact_def contacts_update_def empty_contacts_def)
  from update_contact_merges [OF this, of "sample_contact\<lparr>ip := 0, https_port := 1\<rparr>"]
  show ?thesis
    using sample_keys by (simp add: merge_contact_def known_or_def sample_contact_def key_set_def)
qed

definition other_contact :: contact where
  "other_contact = sample_contact\<lparr>pubkey_ed25519 := replicate 32 (CHR ''f''),
     pubkey_x25519 := replicate 32 (CHR ''y'')\<rparr>"

theorem update_contact_complete_witness:
  "contacts_complete (fst (update_contact ''p'' sample_contact
     (fst (update_contact ''q'' other_contact empty_contacts))))"
proof -
  let ?t = "fst (update_contact ''q'' other_contact empty_contacts)"
  have k: "key_set (pubkey_x25519 other_contact)" "key_set (pubkey_ed25519 other_contact)"
    by (simp_all add: other_contact_def key_set_def null_key_def)
  have t: "ct_contacts ?t = [''q'' \<mapsto> other_contact]"
    using k by (simp add: update_contact_def contacts_update_def empty_contacts_def)
  have "contacts_complete empty_contacts"
    by (simp add: contacts_complete_def index_complete_def empty_contacts_def)
  then have c: "contacts_complete ?t"
    by (rule update_contact_complete [OF empty_contacts_sound])
       (simp add: key_free_def empty_contacts_def)
  have "ct_contacts (fst (update_contact ''p'' sample_contact ?t)) ''p'' = Some sample_contact"
    using sample_keys t by (simp add: update_contact_def contacts_update_def)
  moreover have s: "contacts_sound ?t"
    using contacts_step_sound [OF empty_contacts_sound, of "Update ''q'' other_contact"] by simp
  moreover have "key_free pubkey_x25519 (ct_contacts ?t) ''p'' (pubkey_x25519 sample_contact)"
    and "key_free pubkey_ed25519 (ct_contacts ?t) ''p'' (pubkey_ed25519 sample_contact)"
    unfolding t by (simp_all add: key_free_def sample_contact_def other_contact_def)
  ultimately show ?thesis by (intro update_contact_complete [OF s c]) simp
qed

theorem key_takeover_loses_index_witness:
  "find_by_x (fst (update_and_erase [(''q'', sample_contact)] [''p'']
     (fst (update_contact ''p'' sample_contact empty_contacts)))) (pubkey_x25519 sample_contact) = None"
  using key_takeover_loses_index [of "''p''" "''q''" sample_contact] sample_keys by simp

end
