(* ===== verification/Network.thy ===== *)
theory Network
  imports Contacts Pubkeys "HOL-Library.Char_ord" "HOL-Library.List_Lexorder"
begin

text \<open>
  The network view of a node (\<open>oxenss/snode/network.h\<close>, \<open>network.cpp\<close>): the map from swarm
  ids to swarm members, the assignment of positions in swarm space to swarms, the range of
  positions a swarm owns, and the cached listing of all active nodes.
\<close>

section \<open>Swarms\<close>

text \<open>
  \<open>swarms_t\<close> is an ordered map: a list of entries in increasing order of the swarm id. The
  members of a swarm are listed in the order in which the set is iterated.
\<close>

type_synonym swarm_id_t = u64
type_synonym swarms_t = "(swarm_id_t \<times> legacy_pubkey list) list"

definition INVALID_SWARM_ID :: swarm_id_t where "INVALID_SWARM_ID = - 1"

definition swarm_ids :: "swarms_t \<Rightarrow> swarm_id_t list" where
  "swarm_ids sw = map fst sw"

definition swarms_wf :: "swarms_t \<Rightarrow> bool" where
  "swarms_wf sw \<longleftrightarrow> sorted_wrt (<) (swarm_ids sw) \<and> list_all (\<lambda>(_, m). distinct m) sw"

text \<open>
  \<open>std::map::find\<close> and \<open>lower_bound\<close>, as positions in the list of keys; the position one
  past the last is \<open>end()\<close>.
\<close>

definition find_pos :: "'a \<Rightarrow> 'a list \<Rightarrow> nat" where
  "find_pos x xs = length (takeWhile (\<lambda>y. y \<noteq> x) xs)"

definition lower_bound :: "'a::linorder list \<Rightarrow> 'a \<Rightarrow> nat" where
  "lower_bound xs x = length (takeWhile (\<lambda>y. y < x) xs)"

text \<open>
  \<open>Network::swarm_boundaries\<close>. The differences wrap around, and so does rounding up the
  left one.
\<close>

datatype logic_error = not_a_current_swarm

definition swarm_boundaries :: "swarms_t \<Rightarrow> swarm_id_t \<Rightarrow> logic_error + swarm_id_t \<times> swarm_id_t" where
  "swarm_boundaries sw swarm =
     (let ids = swarm_ids sw; it = find_pos swarm ids in
      if length ids \<le> 1 then Inr (0, 0)
      else if it = length ids then Inl not_a_current_swarm
      else let (prev_swarm, next_swarm) =
                 (if it = 0 then (ids ! (length ids - 1), ids ! 1)
                  else (ids ! (it - 1),
                        ids ! (let it2 = it + 1 in if it2 = length ids then 0 else it2)));
               left_diff = swarm - prev_swarm;
               left_diff = (if left_diff mod 2 \<noteq> 0 then left_diff + 1 else left_diff);
               right_diff = next_swarm - swarm
           in Inr (swarm - left_diff div 2, swarm + right_diff div 2))"

text \<open>
  \<open>_find_swarm_for_swarm_space\<close> on a map that is not empty, and \<open>_find_swarm_for\<close>: the
  position of the entry.
\<close>

definition find_swarm_for_swarm_space :: "swarm_id_t list \<Rightarrow> swarm_id_t \<Rightarrow> nat" where
  "find_swarm_for_swarm_space ids swarm_pos =
     (let right_it = lower_bound ids swarm_pos;
          right_it = (if right_it = length ids then 0 else right_it);
          left_it = (if right_it = 0 then length ids else right_it) - 1;
          dright = ids ! right_it - swarm_pos;
          dleft = swarm_pos - ids ! left_it
      in if dright < dleft then right_it else left_it)"

definition find_swarm_for :: "(string \<Rightarrow> u64) \<Rightarrow> swarms_t \<Rightarrow> user_pubkey \<Rightarrow> nat option" where
  "find_swarm_for load_big sw pk =
     (if sw = [] then None
      else if length sw = 1 then Some 0
      else Some (find_swarm_for_swarm_space (swarm_ids sw) (pubkey_to_swarm_space load_big pk)))"

definition get_swarm_id_for :: "(string \<Rightarrow> u64) \<Rightarrow> swarms_t \<Rightarrow> user_pubkey \<Rightarrow> swarm_id_t option" where
  "get_swarm_id_for load_big sw pk = map_option (\<lambda>i. fst (sw ! i)) (find_swarm_for load_big sw pk)"

definition get_swarm_for ::
    "(string \<Rightarrow> u64) \<Rightarrow> swarms_t \<Rightarrow> user_pubkey \<Rightarrow> (swarm_id_t \<times> legacy_pubkey list) option" where
  "get_swarm_for load_big sw pk = map_option (\<lambda>i. sw ! i) (find_swarm_for load_big sw pk)"

definition get_swarm :: "swarms_t \<Rightarrow> swarm_id_t \<Rightarrow> legacy_pubkey list option" where
  "get_swarm sw swid = map_of sw swid"

definition get_all_swarm_ids :: "swarms_t \<Rightarrow> swarm_id_t set" where
  "get_all_swarm_ids sw = set (swarm_ids sw)"

section \<open>The network state\<close>

text \<open>
  The members of \<open>class Network\<close>: the swarm map, the contact table and the cached listing.
\<close>

record network_state =
  nw_swarms :: swarms_t
  nw_contacts :: contact_table
  nw_blob :: "string option"

definition empty_network :: network_state where
  "empty_network = \<lparr>nw_swarms = [], nw_contacts = empty_contacts, nw_blob = None\<rparr>"

text \<open>
  \<open>Network::update_swarms\<close>: the nodes that are no longer listed are removed, in key order,
  in the same pass that updates the listed ones; the cache is dropped when a contact or the
  swarm map changed.
\<close>

definition removed_nodes :: "contact_table \<Rightarrow> (legacy_pubkey \<times> contact) list \<Rightarrow> legacy_pubkey list" where
  "removed_nodes t new_contacts = sorted_list_of_set (get_pubkeys t - set (map fst new_contacts))"

definition network_update_swarms ::
    "swarms_t \<Rightarrow> (legacy_pubkey \<times> contact) list \<Rightarrow> network_state \<Rightarrow> network_state \<times> omq_delta option" where
  "network_update_swarms new_swarms new_contacts nw =
     (let (t, d, contact_changes) =
            update_and_erase new_contacts (removed_nodes (nw_contacts nw) new_contacts) (nw_contacts nw);
          blob = (if nw_blob nw \<noteq> None \<and> (contact_changes \<noteq> 0 \<or> nw_swarms nw \<noteq> new_swarms)
                  then None else nw_blob nw)
      in (\<lparr>nw_swarms = new_swarms, nw_contacts = t, nw_blob = blob\<rparr>, omq_call d))"

text \<open>
  \<open>Network::all_nodes_blob\<close>. The argument \<open>write_big k n\<close> stands for the big endian
  conversions of oxenc: the \<open>k\<close> bytes of \<open>n\<close>.
\<close>

definition PER_SNODE_BLOB_SIZE :: nat where "PER_SNODE_BLOB_SIZE = 51"

definition version_byte :: "16 word \<Rightarrow> char" where
  "version_byte v = char_of (min (unat v) 255)"

definition node_entry :: "(nat \<Rightarrow> nat \<Rightarrow> string) \<Rightarrow> swarm_id_t \<Rightarrow> contact \<Rightarrow> string" where
  "node_entry write_big swid c =
     pubkey_ed25519 c @ write_big 8 (unat swid) @ write_big 4 (unat (ip c))
     @ write_big 2 (unat (https_port c)) @ write_big 2 (unat (omq_quic_port c))
     @ (case version c of (a, b, c) \<Rightarrow> [version_byte a, version_byte b, version_byte c])"

definition node_entries ::
    "(nat \<Rightarrow> nat \<Rightarrow> string) \<Rightarrow> contact_table \<Rightarrow> swarm_id_t \<times> legacy_pubkey list \<Rightarrow> string list" where
  "node_entries write_big t = (\<lambda>(swid, members).
     List.map_filter (\<lambda>pk. case find_contact t pk of
         None \<Rightarrow> None
       | Some c \<Rightarrow> if key_set (pubkey_ed25519 c) then Some (node_entry write_big swid c) else None)
       members)"

definition build_blob :: "(nat \<Rightarrow> nat \<Rightarrow> string) \<Rightarrow> network_state \<Rightarrow> string" where
  "build_blob write_big nw =
     concat (concat (map (node_entries write_big (nw_contacts nw)) (nw_swarms nw)))"

text \<open>The size that the buffer gets before it is filled.\<close>

definition blob_allocation :: "network_state \<Rightarrow> nat" where
  "blob_allocation nw = sum_list (map (\<lambda>(_, members). length members) (nw_swarms nw)) * PER_SNODE_BLOB_SIZE"

definition all_nodes_blob :: "(nat \<Rightarrow> nat \<Rightarrow> string) \<Rightarrow> network_state \<Rightarrow> network_state \<times> string" where
  "all_nodes_blob write_big nw =
     (case nw_blob nw of
        Some b \<Rightarrow> (nw, b)
      | None \<Rightarrow> let b = build_blob write_big nw in (nw\<lparr>nw_blob := Some b\<rparr>, b))"

section \<open>Positions on the circle\<close>

text \<open>
  The half open arc from \<open>l\<close> to \<open>r\<close>, going up and wrapping around.
\<close>

definition circ :: "u64 \<Rightarrow> u64 \<Rightarrow> u64 \<Rightarrow> bool" where
  "circ l r x \<longleftrightarrow> 0 < x - l \<and> x - l \<le> r - l"

lemma circ_iff:
  "l \<noteq> r \<Longrightarrow> circ l r x \<longleftrightarrow> (if l < r then l < x \<and> x \<le> r else l < x \<or> x \<le> r)"
  unfolding circ_def by unat_arith

lemma lower_bound_le: "lower_bound xs x \<le> length xs"
  by (simp add: lower_bound_def length_takeWhile_le)

lemma lower_bound_less: "i < lower_bound xs x \<Longrightarrow> xs ! i < x"
  by (metis length_takeWhile_le lower_bound_def nth_mem set_takeWhileD takeWhile_nth)

lemma lower_bound_ge:
  "sorted_wrt (<) xs \<Longrightarrow> lower_bound xs x \<le> i \<Longrightarrow> i < length xs \<Longrightarrow> x \<le> xs ! i"
proof -
  assume s: "sorted_wrt (<) xs" and i: "lower_bound xs x \<le> i" "i < length xs"
  then have "\<not> xs ! lower_bound xs x < x"
    unfolding lower_bound_def by (metis le_less_trans nth_length_takeWhile)
  moreover have "xs ! lower_bound xs x \<le> xs ! i"
    using s i by (cases "lower_bound xs x = i") (auto simp: sorted_wrt_iff_nth_less less_imp_le)
  ultimately show ?thesis by simp
qed

lemma find_pos_nth: "distinct xs \<Longrightarrow> i < length xs \<Longrightarrow> find_pos (xs ! i) xs = i"
proof -
  assume d: "distinct xs" and i: "i < length xs"
  have "takeWhile (\<lambda>y. y \<noteq> xs ! i) (take i xs @ xs ! i # drop (Suc i) xs) = take i xs"
    using d i by (subst takeWhile_append2) (auto simp: in_set_conv_nth nth_eq_iff_index_eq)
  then show ?thesis using i by (simp add: find_pos_def id_take_nth_drop [symmetric])
qed

text \<open>
  The neighbours of a position: the first swarm at or above it, and the swarms before and
  after a swarm, each wrapping around.
\<close>

definition right_pos :: "swarm_id_t list \<Rightarrow> swarm_id_t \<Rightarrow> nat" where
  "right_pos ids x = (if lower_bound ids x = length ids then 0 else lower_bound ids x)"

definition pred_pos :: "swarm_id_t list \<Rightarrow> nat \<Rightarrow> nat" where
  "pred_pos ids i = (if i = 0 then length ids else i) - 1"

definition succ_pos :: "swarm_id_t list \<Rightarrow> nat \<Rightarrow> nat" where
  "succ_pos ids i = (if i + 1 = length ids then 0 else i + 1)"

lemma find_swarm_eq:
  "find_swarm_for_swarm_space ids x =
     (let r = right_pos ids x; l = pred_pos ids r
      in if ids ! r - x < x - ids ! l then r else l)"
  by (simp add: find_swarm_for_swarm_space_def right_pos_def pred_pos_def Let_def)

lemma pos_less:
  assumes "2 \<le> length ids"
  shows "right_pos ids x < length ids"
    and "i < length ids \<Longrightarrow> pred_pos ids i < length ids"
    and "i < length ids \<Longrightarrow> succ_pos ids i < length ids"
  using assms lower_bound_le [of ids x]
  by (auto simp: right_pos_def pred_pos_def succ_pos_def)

lemma pred_pos_iff:
  "2 \<le> length ids \<Longrightarrow> i < length ids \<Longrightarrow> j < length ids \<Longrightarrow>
   pred_pos ids j = i \<longleftrightarrow> j = succ_pos ids i"
  by (auto simp: pred_pos_def succ_pos_def)

lemma nth_less:
  "sorted_wrt (<) xs \<Longrightarrow> i < length xs \<Longrightarrow> j < length xs \<Longrightarrow> xs ! i < xs ! j \<longleftrightarrow> i < j"
  for xs :: "'a::linorder list"
  by (metis linorder_neqE_nat order.asym sorted_wrt_nth_less less_irrefl)

lemma lower_bound_eq_iff:
  assumes s: "sorted_wrt (<) xs" and i: "i \<le> length xs"
  shows "lower_bound xs x = i \<longleftrightarrow> (i = 0 \<or> xs ! (i - 1) < x) \<and> (i = length xs \<or> x \<le> xs ! i)"
proof
  assume k: "lower_bound xs x = i"
  have "xs ! (i - 1) < x" if "i \<noteq> 0" using k that by (intro lower_bound_less) simp
  moreover have "x \<le> xs ! i" if "i \<noteq> length xs" using s i k that by (intro lower_bound_ge) simp_all
  ultimately show "(i = 0 \<or> xs ! (i - 1) < x) \<and> (i = length xs \<or> x \<le> xs ! i)" by blast
next
  assume k: "(i = 0 \<or> xs ! (i - 1) < x) \<and> (i = length xs \<or> x \<le> xs ! i)"
  have "\<not> lower_bound xs x < i"
  proof
    assume "lower_bound xs x < i"
    then have "x \<le> xs ! (i - 1)" using s i by (intro lower_bound_ge) simp_all
    with k \<open>lower_bound xs x < i\<close> show False by auto
  qed
  moreover have "\<not> i < lower_bound xs x"
    using k lower_bound_less [of i xs x] lower_bound_le [of xs x] by auto
  ultimately show "lower_bound xs x = i" by simp
qed

lemma right_pos_iff:
  assumes s: "sorted_wrt (<) ids" and n: "2 \<le> length ids" and i: "i < length ids"
  shows "right_pos ids x = i \<longleftrightarrow> circ (ids ! pred_pos ids i) (ids ! i) x"
proof (cases "i = 0")
  case True
  have "ids ! 0 < ids ! (length ids - 1)" using s n by (subst nth_less) auto
  then have "circ (ids ! (length ids - 1)) (ids ! 0) x \<longleftrightarrow> ids ! (length ids - 1) < x \<or> x \<le> ids ! 0"
    by (subst circ_iff) auto
  moreover have "lower_bound ids x = length ids \<longleftrightarrow> ids ! (length ids - 1) < x"
    using lower_bound_eq_iff [OF s, of "length ids" x] n by auto
  moreover have "lower_bound ids x = 0 \<longleftrightarrow> x \<le> ids ! 0"
    using lower_bound_eq_iff [OF s, of 0 x] n by auto
  ultimately show ?thesis using True by (auto simp: right_pos_def pred_pos_def)
next
  case False
  have "ids ! (i - 1) < ids ! i" using s n i False by (subst nth_less) auto
  then have "circ (ids ! (i - 1)) (ids ! i) x \<longleftrightarrow> ids ! (i - 1) < x \<and> x \<le> ids ! i"
    by (subst circ_iff) auto
  moreover have "lower_bound ids x = i \<longleftrightarrow> ids ! (i - 1) < x \<and> x \<le> ids ! i"
    using lower_bound_eq_iff [OF s, of i x] i False by auto
  ultimately show ?thesis using False i by (auto simp: right_pos_def pred_pos_def)
qed

text \<open>
  Half way between two swarms, over the natural numbers: \<open>A\<close> is the distance of a position
  above the swarm, \<open>L\<close> and \<open>R\<close> are the distances of its neighbours, \<open>M\<close> is the size of the
  space.
\<close>

lemma nearer_left:
  fixes A L M :: nat
  assumes "0 < L" and "A < M" and "L \<le> M"
  shows "(let al = (if A + L < M then A + L else A + L - M)
          in 0 < al \<and> al \<le> L \<and> (if A = 0 then 0 else M - A) < al) \<longleftrightarrow> A = 0 \<and> L < M \<or> 2 * (M - A) < L"
  using assms by (auto simp: Let_def)

lemma nearer_right:
  fixes A R M :: nat
  assumes "A < M"
  shows "0 < A \<and> A \<le> R \<and> \<not> (if A \<le> R then R - A else R + M - A) < A \<longleftrightarrow> 0 < A \<and> 2 * A \<le> R"
  using assms by auto

lemma within_bounds:
  fixes A L R M c r :: nat
  assumes "0 < L" "0 < R" "L + R \<le> M" "A < M" "2 * c = L \<or> 2 * c = L + 1" "2 * r = R \<or> 2 * r + 1 = R"
  shows "(let ac = (if A + c < M then A + c else A + c - M) in 0 < ac \<and> ac \<le> r + c) \<longleftrightarrow>
         2 * (M - A) < L \<or> 2 * A \<le> R"
proof (cases "A + c < M")
  case True
  then have "\<not> 2 * (M - A) < L" using assms by linarith
  moreover have "0 < A + c" using assms by linarith
  moreover have "A + c \<le> r + c \<longleftrightarrow> 2 * A \<le> R" using assms by linarith
  ultimately show ?thesis using True by (simp add: Let_def)
next
  case False
  have "0 < A + c - M \<longleftrightarrow> 2 * (M - A) < L" using False assms by linarith
  moreover have "A + c - M \<le> r + c" using False assms by linarith
  moreover have "\<not> 2 * A \<le> R" using False assms by linarith
  ultimately show ?thesis using False by (simp add: Let_def)
qed

text \<open>
  The left distance rounded up and halved, as \<open>swarm_boundaries\<close> computes it.
\<close>

definition half_up :: "u64 \<Rightarrow> u64" where
  "half_up L = (if L mod 2 \<noteq> 0 then L + 1 else L) div 2"

lemma unat_half_up:
  assumes "L \<noteq> - 1"
  shows "2 * unat (half_up L) = unat L \<or> 2 * unat (half_up L) = unat L + 1"
proof -
  have m: "L mod 2 = 0 \<longleftrightarrow> even (unat L)"
    using unat_mod [of L 2] by (simp add: unat_eq_zero [symmetric] even_iff_mod_2_eq_zero)
  have d: "unat (w div 2) = unat w div 2" for w :: u64 by (simp add: unat_div)
  show ?thesis using unat_u64_Suc [OF assms(1)] by (auto simp: half_up_def m d)
qed

lemma arc_halves:
  fixes s prev nxt pos :: u64
  assumes "prev \<noteq> s" and "nxt \<noteq> s" and "s - prev \<noteq> - 1"
    and LR: "unat (s - prev) + unat (nxt - s) \<le> 2 ^ 64"
  shows "circ prev s pos \<and> s - pos < pos - prev \<or> circ s nxt pos \<and> \<not> nxt - pos < pos - s \<longleftrightarrow>
         circ (s - half_up (s - prev)) (s + (nxt - s) div 2) pos"
proof -
  define L R a c r where "L = s - prev" and "R = nxt - s" and "a = pos - s"
    and "c = half_up (s - prev)" and "r = (nxt - s) div 2"
  have e: "pos - prev = a + L" "s - pos = - a" "nxt - pos = R - a" "pos - (s - c) = a + c"
      "s + r - (s - c) = r + c"
    by (simp_all add: L_def R_def a_def)
  have pos: "0 < unat L" "0 < unat R" using assms(1,2) by (simp_all add: L_def R_def unat_gt_0)
  have c: "2 * unat c = unat L \<or> 2 * unat c = unat L + 1"
    using unat_half_up [OF assms(3)] by (simp add: c_def L_def)
  have r: "2 * unat r = unat R \<or> 2 * unat r + 1 = unat R"
    by (simp add: r_def R_def unat_div) presburger
  note A = unat_u64_less [of a]
  note LM = unat_u64_less [of L]
  have rc: "unat (r + c) = unat r + unat c"
  proof -
    have "unat r + unat c < 2 ^ 64" using c r pos LR unfolding L_def R_def by linarith
    then show ?thesis by (simp add: unat_u64_add)
  qed
  have "circ prev s pos \<and> s - pos < pos - prev \<longleftrightarrow> unat a = 0 \<or> 2 * (2 ^ 64 - unat a) < unat L"
    using nearer_left [OF pos(1) A less_imp_le [OF LM]] LM
    by (simp add: circ_def e word_less_nat_alt word_le_nat_alt unat_u64_add unat_u64_neg L_def [symmetric] Let_def)
  moreover have "circ s nxt pos \<and> \<not> nxt - pos < pos - s \<longleftrightarrow> 0 < unat a \<and> 2 * unat a \<le> unat R"
    using nearer_right [OF A, of "unat R"]
    by (simp add: circ_def e word_less_nat_alt word_le_nat_alt unat_u64_diff [of R a]
        R_def [symmetric] a_def [symmetric])
  moreover have "circ (s - c) (s + r) pos \<longleftrightarrow> 2 * (2 ^ 64 - unat a) < unat L \<or> 2 * unat a \<le> unat R"
    using within_bounds [OF pos _ A c r] LR
    by (simp add: circ_def e word_less_nat_alt word_le_nat_alt unat_u64_add [of a c] rc Let_def
        L_def [symmetric] R_def [symmetric])
  ultimately show ?thesis unfolding c_def [symmetric] r_def [symmetric] by auto
qed

lemma arcs_fit:
  assumes s: "sorted_wrt (<) ids" and n: "2 \<le> length ids" and i: "i < length ids"
  shows "unat (ids ! i - ids ! pred_pos ids i) + unat (ids ! succ_pos ids i - ids ! i) \<le> 2 ^ 64"
proof -
  have lt: "ids ! j < ids ! k" if "j < k" "k < length ids" for j k
    using s that by (simp add: nth_less)
  have le: "ids ! j \<le> ids ! k" if "j \<le> k" "k < length ids" for j k
    using lt [of j k] that by (cases "j = k") (auto intro: less_imp_le)
  have "i = 0 \<or> ids ! (i - 1) < ids ! i" "i + 1 = length ids \<or> ids ! i < ids ! (i + 1)"
    using lt [of "i - 1" i] lt [of i "i + 1"] i by linarith+
  moreover have "ids ! 0 \<le> ids ! i" "ids ! i \<le> ids ! (length ids - 1)"
      "i = 0 \<or> ids ! 0 \<le> ids ! (i - 1)" "i + 1 = length ids \<or> ids ! (i + 1) \<le> ids ! (length ids - 1)"
    using le [of 0 i] le [of i "length ids - 1"] le [of 0 "i - 1"] le [of "i + 1" "length ids - 1"] i
    by linarith+
  moreover have "length ids - 1 \<noteq> 0" using n by simp
  ultimately show ?thesis
    using unat_u64_less [of "ids ! i"] unat_u64_less [of "ids ! (length ids - 1)"]
    by (auto simp: pred_pos_def succ_pos_def unat_u64_diff word_less_nat_alt word_le_nat_alt)
qed

lemma find_swarm_iff:
  assumes s: "sorted_wrt (<) ids" and n: "2 \<le> length ids" and i: "i < length ids"
  defines "s \<equiv> ids ! i" and "prev \<equiv> ids ! pred_pos ids i" and "nxt \<equiv> ids ! succ_pos ids i"
  shows "find_swarm_for_swarm_space ids x = i \<longleftrightarrow>
           circ prev s x \<and> s - x < x - prev \<or> circ s nxt x \<and> \<not> nxt - x < x - s"
proof -
  let ?r = "right_pos ids x"
  have r: "?r < length ids" using pos_less(1) [OF n] .
  have p: "pred_pos ids ?r = i \<longleftrightarrow> ?r = succ_pos ids i" by (rule pred_pos_iff [OF n i r])
  have ps: "pred_pos ids (succ_pos ids i) = i" using pred_pos_iff [OF n i] pos_less(3) [OF n i] by blast
  have ne: "succ_pos ids i \<noteq> i" "pred_pos ids i \<noteq> i" using n i by (auto simp: succ_pos_def pred_pos_def)
  have "circ prev s x \<longleftrightarrow> ?r = i" using right_pos_iff [OF s n i] by (simp add: prev_def s_def)
  moreover have "circ s nxt x \<longleftrightarrow> ?r = succ_pos ids i"
    using right_pos_iff [OF s n pos_less(3) [OF n i]] ps by (simp add: nxt_def s_def)
  ultimately show ?thesis
    using p ps ne unfolding find_swarm_eq Let_def s_def prev_def nxt_def by metis
qed

text \<open>
  How the database reads a pair of boundaries (\<open>swarm_range_query\<close> in
  \<open>oxenss/storage/database.cpp\<close>): equal bounds are the whole space, otherwise the range is
  open below, closed above and wraps around when the lower bound is the greater one.
\<close>

definition in_swarm_range :: "u64 \<Rightarrow> u64 \<Rightarrow> u64 \<Rightarrow> bool" where
  "in_swarm_range lower upper x \<longleftrightarrow>
     (if lower = upper then True
      else if lower < upper then lower < x \<and> x \<le> upper
      else lower < x \<or> x \<le> upper)"

lemma swarm_boundaries_eq:
  assumes s: "sorted_wrt (<) (swarm_ids sw)" and n: "2 \<le> length sw" and i: "i < length sw"
  defines "ids \<equiv> swarm_ids sw"
  shows "swarm_boundaries sw (ids ! i) =
     Inr (ids ! i - half_up (ids ! i - ids ! pred_pos ids i),
          ids ! i + (ids ! succ_pos ids i - ids ! i) div 2)"
proof -
  have "find_pos (ids ! i) ids = i"
    using s i by (intro find_pos_nth) (auto simp: ids_def swarm_ids_def strict_sorted_iff)
  then show ?thesis
    using n i unfolding swarm_boundaries_def ids_def [symmetric]
    by (auto simp: Let_def half_up_def pred_pos_def succ_pos_def ids_def swarm_ids_def)
qed

text \<open>
  The arc below a swarm covers all of the space but one position only when the network has
  two swarms with adjacent ids.
\<close>

lemma whole_arc:
  assumes s: "sorted_wrt (<) ids" and n: "2 \<le> length ids" and i: "i < length ids"
    and a: "ids ! i - ids ! pred_pos ids i = - 1"
  shows "length ids = 2 \<and> ids ! i + 1 \<in> set ids"
proof -
  have "ids ! i + 1 = ids ! pred_pos ids i" using a by (simp add: diff_eq_eq)
  moreover have p: "pred_pos ids i < length ids" by (rule pos_less(2) [OF n i])
  moreover have "pred_pos ids i = succ_pos ids i"
  proof -
    have "unat (ids ! succ_pos ids i - ids ! i) \<le> 1"
      using arcs_fit [OF s n i] unfolding a unat_u64_max by simp
    moreover have "ids ! succ_pos ids i \<noteq> ids ! i"
      using s n i pos_less(3) [OF n i]
      by (auto simp: strict_sorted_iff nth_eq_iff_index_eq succ_pos_def split: if_splits)
    ultimately have "unat (ids ! succ_pos ids i - ids ! i) = 1"
      by (metis le_neq_implies_less less_one right_minus_eq unat_eq_zero)
    then have "ids ! succ_pos ids i - ids ! i = 1" by (metis unat_1 word_unat_eq_iff)
    then have "ids ! succ_pos ids i = ids ! pred_pos ids i"
      using \<open>ids ! i + 1 = ids ! pred_pos ids i\<close> by (simp add: diff_eq_eq add.commute)
    then show ?thesis using s p pos_less(3) [OF n i] by (simp add: strict_sorted_iff nth_eq_iff_index_eq)
  qed
  ultimately show ?thesis using n i by (auto simp: pred_pos_def succ_pos_def split: if_splits)
qed

lemma circ_distinct: "circ l r x \<Longrightarrow> l \<noteq> r"
  by (auto simp: circ_def)

lemma boundaries_two:
  assumes s: "sorted_wrt (<) (swarm_ids sw)" and n: "2 \<le> length sw" and i: "i < length sw"
    and c: "\<not> (length sw = 2 \<and> swarm_ids sw ! i + 1 \<in> set (swarm_ids sw))"
  shows "\<exists>lo hi. swarm_boundaries sw (swarm_ids sw ! i) = Inr (lo, hi) \<and>
           (\<forall>x. in_swarm_range lo hi x \<longleftrightarrow> find_swarm_for_swarm_space (swarm_ids sw) x = i)"
proof -
  let ?ids = "swarm_ids sw"
  let ?s = "?ids ! i" and ?p = "?ids ! pred_pos ?ids i" and ?n = "?ids ! succ_pos ?ids i"
  let ?lo = "?s - half_up (?s - ?p)" and ?hi = "?s + (?n - ?s) div 2"
  have len: "length ?ids = length sw" by (simp add: swarm_ids_def)
  note n' = n [folded len] and i' = i [folded len]
  have ne: "?p \<noteq> ?s" "?n \<noteq> ?s"
    using s pos_less(2,3) [OF n' i'] n' i'
    by (auto simp: strict_sorted_iff nth_eq_iff_index_eq pred_pos_def succ_pos_def split: if_splits)
  have "?s - ?p \<noteq> - 1" using whole_arc [OF s n' i'] c len by auto
  then have "find_swarm_for_swarm_space ?ids x = i \<longleftrightarrow> circ ?lo ?hi x" for x
    unfolding find_swarm_iff [OF s n' i'] by (rule arc_halves [OF ne _ arcs_fit [OF s n' i']])
  moreover have "circ ?p ?s ?s \<and> ?s - ?s < ?s - ?p" using ne by (simp add: circ_def word_gt_0)
  ultimately have f: "find_swarm_for_swarm_space ?ids x = i \<longleftrightarrow> circ ?lo ?hi x" "circ ?lo ?hi ?s" for x
    using find_swarm_iff [OF s n' i', of ?s] by blast+
  have "?lo \<noteq> ?hi" by (rule circ_distinct [OF f(2)])
  then have "in_swarm_range ?lo ?hi x \<longleftrightarrow> circ ?lo ?hi x" for x
    by (simp add: circ_iff in_swarm_range_def)
  then show ?thesis using f(1) swarm_boundaries_eq [OF s n i] by blast
qed

lemma boundaries_owned:
  assumes wf: "swarms_wf sw" and m: "(s, members) \<in> set sw"
    and c: "\<not> (length sw = 2 \<and> s + 1 \<in> set (swarm_ids sw))"
  shows "\<exists>lo hi. swarm_boundaries sw s = Inr (lo, hi) \<and>
           (\<forall>pk. get_swarm_id_for load_big sw pk = Some s \<longleftrightarrow>
                 in_swarm_range lo hi (pubkey_to_swarm_space load_big pk))"
proof (cases "2 \<le> length sw")
  case True
  obtain i where i: "i < length sw" "sw ! i = (s, members)" using m by (auto simp: in_set_conv_nth)
  have s: "sorted_wrt (<) (swarm_ids sw)" using wf by (simp add: swarms_wf_def)
  have nth: "fst (sw ! j) = s \<longleftrightarrow> j = i" if "j < length sw" for j
    using s i that nth_eq_iff_index_eq [of "map fst sw" j i] by (simp add: swarm_ids_def strict_sorted_iff)
  have "find_swarm_for_swarm_space (swarm_ids sw) x < length sw" for x
    using pos_less [of "swarm_ids sw"] True
    by (simp add: find_swarm_eq Let_def swarm_ids_def)
  then have "get_swarm_id_for load_big sw pk = Some s \<longleftrightarrow>
      find_swarm_for_swarm_space (swarm_ids sw) (pubkey_to_swarm_space load_big pk) = i" for pk
    using True nth by (auto simp: get_swarm_id_for_def find_swarm_for_def)
  then show ?thesis
    using boundaries_two [OF s True i(1)] c i by (auto simp: swarm_ids_def)
next
  case False
  then have "sw = [(s, members)]" using m by (cases sw; cases "tl sw") auto
  then show ?thesis
    by (simp add: swarm_boundaries_def swarm_ids_def get_swarm_id_for_def find_swarm_for_def in_swarm_range_def)
qed

text \<open>
  C6: The range of swarm space that \<open>swarm_boundaries\<close> gives for a swarm is exactly the set
  of positions whose accounts \<open>get_swarm_id_for\<close> assigns to that swarm, wrap-around, ties and
  the single swarm included: the dump of a swarm and the answer to \<open>is this account ours\<close>
  never disagree. The one exception are two swarms with adjacent ids.
\<close>

theorem boundaries_are_ownership:
  assumes wf: "swarms_wf sw" and m: "(s, members) \<in> set sw"
    and c: "\<not> (length sw = 2 \<and> s + 1 \<in> set (swarm_ids sw))"
  shows "\<exists>lo hi. swarm_boundaries sw s = Inr (lo, hi) \<and>
           (\<forall>pk. get_swarm_id_for load_big sw pk = Some s \<longleftrightarrow>
                 in_swarm_range lo hi (pubkey_to_swarm_space load_big pk))"
  by (rule boundaries_owned [OF assms])

text \<open>
  With exactly two swarms whose ids are adjacent, rounding up the left distance wraps to
  zero: the lower swarm gets the empty pair of bounds, which every reader takes for the whole
  of swarm space, although the position of the other swarm is assigned to that swarm.
\<close>

theorem adjacent_pair_claims_all:
  assumes "s \<noteq> - 1" and "distinct m" and "distinct m'"
  shows "swarms_wf [(s, m), (s + 1, m')] \<and> swarm_boundaries [(s, m), (s + 1, m')] s = Inr (s, s)
     \<and> in_swarm_range s s (s + 1)
     \<and> find_swarm_for_swarm_space [s, s + 1] (s + 1) = 1"
proof -
  have e: "s - (s + 1) = - 1" "s + 1 - s = 1" by simp_all
  have lt: "s < s + 1" using assms unat_u64_Suc [OF assms(1)] by (simp add: word_less_nat_alt)
  have "find_pos s [s, s + 1] = 0" by (simp add: find_pos_def)
  moreover have "(- 1 :: u64) mod 2 \<noteq> 0" "(1 :: u64) div 2 = 0" by simp_all
  ultimately have "swarm_boundaries [(s, m), (s + 1, m')] s = Inr (s, s)"
    by (simp add: swarm_boundaries_def swarm_ids_def e)
  moreover have "find_swarm_for_swarm_space [s, s + 1] (s + 1) = 1"
    using lt by (simp add: find_swarm_for_swarm_space_def lower_bound_def)
  ultimately show ?thesis using lt assms(2,3) by (simp add: swarms_wf_def swarm_ids_def in_swarm_range_def)
qed

text \<open>
  The distance around the circle, and that the two neighbours are the nearest swarms on
  either side.
\<close>

definition ring_distance :: "u64 \<Rightarrow> u64 \<Rightarrow> nat" where
  "ring_distance a b = min (unat (a - b)) (unat (b - a))"

lemma right_nearest:
  assumes s: "sorted_wrt (<) ids" and n: "2 \<le> length ids" and j: "j < length ids"
  shows "unat (ids ! right_pos ids x - x) \<le> unat (ids ! j - x)"
proof -
  let ?k = "lower_bound ids x"
  have le: "ids ! i \<le> ids ! j" if "i \<le> j" for i
    using s that j by (cases "i = j") (auto simp: sorted_wrt_iff_nth_less less_imp_le)
  have "j < ?k \<and> ids ! j < x \<or> ?k \<le> j \<and> x \<le> ids ! j"
    using lower_bound_less [of j ids x] lower_bound_ge [OF s _ j, of x] by linarith
  moreover have "?k = length ids \<or> x \<le> ids ! ?k"
    using lower_bound_ge [OF s, of x ?k] lower_bound_le [of ids x] by linarith
  moreover have "ids ! 0 \<le> ids ! j" "?k \<le> j \<Longrightarrow> ids ! ?k \<le> ids ! j" using le by auto
  ultimately show ?thesis
    using unat_u64_less [of x] unat_u64_less [of "ids ! ?k"] j
    by (auto simp: right_pos_def unat_u64_diff word_less_nat_alt word_le_nat_alt)
qed

lemma left_nearest:
  assumes s: "sorted_wrt (<) ids" and n: "2 \<le> length ids" and j: "j < length ids" and x: "ids ! j \<noteq> x"
  shows "unat (x - ids ! pred_pos ids (right_pos ids x)) \<le> unat (x - ids ! j)"
proof -
  let ?k = "lower_bound ids x" and ?l = "length ids - 1"
  have le: "ids ! i \<le> ids ! i'" if "i \<le> i'" "i' < length ids" for i i'
    using s that j by (cases "i = i'") (auto simp: sorted_wrt_iff_nth_less less_imp_le)
  have "j < ?k \<and> ids ! j < x \<or> ?k \<le> j \<and> x < ids ! j"
    using lower_bound_less [of j ids x] lower_bound_ge [OF s _ j, of x] x by force
  moreover have "?k = 0 \<or> ids ! (?k - 1) < x"
    using lower_bound_less [of "?k - 1" ids x] by linarith
  moreover have "ids ! j \<le> ids ! ?l" "j < ?k \<Longrightarrow> ids ! j \<le> ids ! (?k - 1)"
    using le [of j ?l] le [of j "?k - 1"] j n lower_bound_le [of ids x] by linarith+
  ultimately show ?thesis
    using unat_u64_less [of x] unat_u64_less [of "ids ! ?l"] j lower_bound_le [of ids x]
    by (auto simp: right_pos_def pred_pos_def unat_u64_diff word_less_nat_alt word_le_nat_alt)
qed

text \<open>
  C34: The swarm of an account is one of the network's swarms, and no other swarm is closer
  to the account's position around the circle of swarm space.
\<close>

theorem find_is_nearest:
  assumes wf: "swarms_wf sw" and s: "get_swarm_id_for load_big sw pk = Some s"
    and m: "other \<in> set (swarm_ids sw)"
  shows "s \<in> set (swarm_ids sw)
     \<and> ring_distance s (pubkey_to_swarm_space load_big pk)
         \<le> ring_distance other (pubkey_to_swarm_space load_big pk)"
proof (cases "2 \<le> length sw")
  case True
  let ?ids = "swarm_ids sw" and ?x = "pubkey_to_swarm_space load_big pk"
  let ?r = "right_pos ?ids ?x" let ?l = "pred_pos ?ids ?r"
  have st: "sorted_wrt (<) ?ids" and n: "2 \<le> length ?ids"
    using wf True by (simp_all add: swarms_wf_def swarm_ids_def)
  have r: "?r < length ?ids" and l: "?l < length ?ids" using pos_less [OF n] by auto
  have f: "s = (if ?ids ! ?r - ?x < ?x - ?ids ! ?l then ?ids ! ?r else ?ids ! ?l)"
    using s True r l
    by (auto simp: get_swarm_id_for_def find_swarm_for_def find_swarm_eq Let_def swarm_ids_def
        split: if_splits)
  obtain j where j: "j < length ?ids" "other = ?ids ! j" using m by (auto simp: in_set_conv_nth)
  have "?r \<noteq> ?l" using n r by (auto simp: pred_pos_def)
  then have "?ids ! ?r \<noteq> ?ids ! ?l" using st r l by (simp add: strict_sorted_iff nth_eq_iff_index_eq)
  then have z: "?ids ! ?r = ?x \<Longrightarrow> s = ?x" using f by (auto simp: word_gt_0)
  show ?thesis
  proof (cases "other = ?x")
    case True
    then have "?ids ! ?r = ?x" using right_nearest [OF st n j(1), of ?x] j by (simp add: unat_eq_zero)
    with z r show ?thesis by (auto simp: ring_distance_def) (metis nth_mem)
  next
    case False
    have "unat (?ids ! ?r - ?x) \<le> unat (other - ?x)" "unat (?x - ?ids ! ?l) \<le> unat (?x - other)"
      using right_nearest [OF st n j(1)] left_nearest [OF st n j(1)] j False by auto
    then show ?thesis using f r l by (auto simp: ring_distance_def word_less_nat_alt)
  qed
next
  case False
  then obtain e where "sw = [e]" using m by (cases sw; cases "tl sw") (auto simp: swarm_ids_def)
  with s m show ?thesis
    by (auto simp: get_swarm_id_for_def find_swarm_for_def swarm_ids_def)
qed

section \<open>The listing of nodes\<close>

lemma build_blob_cong:
  "ct_contacts t = ct_contacts t' \<Longrightarrow>
   build_blob w \<lparr>nw_swarms = sw, nw_contacts = t, nw_blob = b\<rparr> =
   build_blob w \<lparr>nw_swarms = sw, nw_contacts = t', nw_blob = b'\<rparr>"
  by (simp add: build_blob_def node_entries_def find_contact_def)

datatype network_op =
    Update_Swarms swarms_t "(legacy_pubkey \<times> contact) list"
  | Read_Blob

fun network_step :: "(nat \<Rightarrow> nat \<Rightarrow> string) \<Rightarrow> network_op \<Rightarrow> network_state \<Rightarrow> network_state" where
  "network_step w (Update_Swarms sw cs) nw = fst (network_update_swarms sw cs nw)"
| "network_step w Read_Blob nw = fst (all_nodes_blob w nw)"

definition blob_coherent :: "(nat \<Rightarrow> nat \<Rightarrow> string) \<Rightarrow> network_state \<Rightarrow> bool" where
  "blob_coherent w nw \<longleftrightarrow> nw_blob nw = None \<or> nw_blob nw = Some (build_blob w nw)"

lemma network_step_coherent: "blob_coherent w nw \<Longrightarrow> blob_coherent w (network_step w x nw)"
proof (cases x)
  case (Update_Swarms sw cs)
  assume co: "blob_coherent w nw"
  obtain t d n where u: "update_and_erase cs (removed_nodes (nw_contacts nw) cs) (nw_contacts nw) = (t, d, n)"
    by (cases "update_and_erase cs (removed_nodes (nw_contacts nw) cs) (nw_contacts nw)") auto
  show ?thesis
  proof (cases "n = 0 \<and> nw_swarms nw = sw")
    case True
    then have "ct_contacts t = ct_contacts (nw_contacts nw)" using update_and_erase_dom(2) [OF u] by simp
    then have "build_blob w \<lparr>nw_swarms = sw, nw_contacts = t, nw_blob = nw_blob nw\<rparr> = build_blob w nw"
      using True build_blob_cong [of t "nw_contacts nw"] by (cases nw) simp
    with co True show ?thesis
      by (auto simp: blob_coherent_def Update_Swarms network_update_swarms_def u)
  next
    case False
    then show ?thesis by (auto simp: blob_coherent_def Update_Swarms network_update_swarms_def u)
  qed
next
  case Read_Blob
  assume "blob_coherent w nw"
  then show ?thesis
    by (auto simp: Read_Blob blob_coherent_def all_nodes_blob_def Let_def build_blob_def split: option.splits)
qed

interpretation network_comp: invariant_component "\<lambda>nw. nw = empty_network" "network_step w" "blob_coherent w"
  for w
  by unfold_locales (simp add: blob_coherent_def empty_network_def, rule network_step_coherent)

text \<open>
  The listing of all nodes that is served is never stale: after any sequence of swarm
  updates and reads, \<open>all_nodes_blob\<close> returns what would be built anew from the current
  swarms and contacts, cached or not.
\<close>

theorem all_nodes_blob_fresh:
  "snd (all_nodes_blob w (fold (network_step w) ops empty_network)) =
     build_blob w (fold (network_step w) ops empty_network)"
  using network_comp.reached_invar [of empty_network w ops]
  by (auto simp: blob_coherent_def all_nodes_blob_def Let_def)

text \<open>
  Building the listing never writes past the buffer that was allocated for it, and the
  result is a whole number of 51 byte records, one for each swarm member whose ed25519 key is
  known.
\<close>

theorem blob_fits_allocation:
  assumes "\<And>k n. length (write_big k n) = k"
    and "\<And>pk c. find_contact (nw_contacts nw) pk = Some c \<Longrightarrow> length (pubkey_ed25519 c) = 32"
  shows "length (build_blob write_big nw) =
           PER_SNODE_BLOB_SIZE * length (concat (map (node_entries write_big (nw_contacts nw)) (nw_swarms nw)))
     \<and> length (build_blob write_big nw) \<le> blob_allocation nw"
proof -
  let ?es = "concat (map (node_entries write_big (nw_contacts nw)) (nw_swarms nw))"
  have "length e = PER_SNODE_BLOB_SIZE" if "e \<in> set ?es" for e
    using that assms
    by (auto simp: node_entries_def map_filter_def node_entry_def PER_SNODE_BLOB_SIZE_def
        split: option.splits if_splits prod.splits)
  then have len: "length (build_blob write_big nw) = PER_SNODE_BLOB_SIZE * length ?es"
    unfolding build_blob_def by (intro length_concat_const) blast
  have "length (node_entries write_big (nw_contacts nw) s) \<le> length (snd s)" for s
    by (cases s) (simp add: node_entries_def map_filter_def)
  then have "length ?es \<le> sum_list (map (\<lambda>(_, members). length members) (nw_swarms nw))"
    unfolding length_concat map_map comp_def by (intro sum_list_le) (simp add: case_prod_beta)
  with len show ?thesis by (simp add: blob_allocation_def mult.commute)
qed

text \<open>
  After a swarm update the node knows the contacts of exactly the nodes in the update:
  new nodes are added, and nodes that are not listed any more are forgotten.
\<close>

theorem update_swarms_contacts:
  assumes "finite (get_pubkeys (nw_contacts nw))"
  shows "get_pubkeys (nw_contacts (fst (network_update_swarms sw cs nw))) = set (map fst cs)"
proof -
  obtain t d n where u: "update_and_erase cs (removed_nodes (nw_contacts nw) cs) (nw_contacts nw) = (t, d, n)"
    by (cases "update_and_erase cs (removed_nodes (nw_contacts nw) cs) (nw_contacts nw)") auto
  have "set (removed_nodes (nw_contacts nw) cs) = dom (ct_contacts (nw_contacts nw)) - fst ` set cs"
    using assms by (simp add: removed_nodes_def get_pubkeys_def)
  then show ?thesis
    using update_and_erase_dom(1) [OF u] by (auto simp: network_update_swarms_def u get_pubkeys_def)
qed

section \<open>Witnesses\<close>

definition big_endian :: "string \<Rightarrow> u64" where
  "big_endian bs = fold (\<lambda>c n. n * 256 + of_char c) bs 0"

definition three_swarms :: swarms_t where
  "three_swarms = [(100, [''a'']), (200, [''b'']), (300, [''c''])]"

lemma three_swarms_wf: "swarms_wf three_swarms"
  by (simp add: swarms_wf_def swarm_ids_def three_swarms_def)

lemma three_swarms_boundaries: "swarm_boundaries three_swarms 200 = Inr (150, 250)"
  by (simp add: swarm_boundaries_def swarm_ids_def three_swarms_def find_pos_def)

theorem boundaries_are_ownership_witness:
  "swarm_boundaries three_swarms 200 = Inr (150, 250)
   \<and> (\<forall>pk. get_swarm_id_for big_endian three_swarms pk = Some 200
       \<longleftrightarrow> in_swarm_range 150 250 (pubkey_to_swarm_space big_endian pk))"
  using boundaries_are_ownership [OF three_swarms_wf, of 200 "[''b'']" big_endian] three_swarms_boundaries
  by (simp add: three_swarms_def)

theorem adjacent_pair_claims_all_witness:
  "swarm_boundaries [(7, [''a'']), (8, [''b''])] 7 = Inr (7, 7)"
  using adjacent_pair_claims_all [of 7 "[''a'']" "[''b'']"] by simp

definition origin_pubkey :: user_pubkey where
  "origin_pubkey = \<lparr>network = 5, pubkey = replicate 32 (CHR 0x00)\<rparr>"

theorem find_is_nearest_witness:
  "get_swarm_id_for big_endian three_swarms origin_pubkey = Some 100
   \<and> ring_distance 100 (pubkey_to_swarm_space big_endian origin_pubkey)
       \<le> ring_distance 300 (pubkey_to_swarm_space big_endian origin_pubkey)"
proof -
  have "pubkey_to_swarm_space big_endian origin_pubkey = 0"
    by (simp add: pubkey_to_swarm_space_eq origin_pubkey_def big_endian_def numeral_eq_Suc)
  then have "get_swarm_id_for big_endian three_swarms origin_pubkey = Some 100"
    by (simp add: get_swarm_id_for_def find_swarm_for_def find_swarm_for_swarm_space_def
        lower_bound_def three_swarms_def swarm_ids_def)
  with find_is_nearest [OF three_swarms_wf this, of 300] show ?thesis
    by (simp add: three_swarms_def swarm_ids_def)
qed

definition sample_network :: network_state where
  "sample_network = \<lparr>nw_swarms = three_swarms,
     nw_contacts = fst (update_contact ''b'' sample_contact empty_contacts), nw_blob = None\<rparr>"

lemma sample_network_contacts: "ct_contacts (nw_contacts sample_network) = [''b'' \<mapsto> sample_contact]"
  using sample_keys
  by (simp add: sample_network_def update_contact_def contacts_update_def empty_contacts_def)

theorem blob_fits_allocation_witness:
  "length (build_blob (\<lambda>k n. replicate k (CHR 0x00)) sample_network) = 51
   \<and> length (build_blob (\<lambda>k n. replicate k (CHR 0x00)) sample_network) \<le> 153"
proof -
  have "length (pubkey_ed25519 c) = 32" if "find_contact (nw_contacts sample_network) pk = Some c" for pk c
    using that sample_network_contacts
    by (auto simp: find_contact_def sample_contact_def split: if_splits)
  note f = blob_fits_allocation [of "\<lambda>k n. replicate k (CHR 0x00)" sample_network, OF _ this]
  have "length (concat (map (node_entries (\<lambda>k n. replicate k (CHR 0x00)) (nw_contacts sample_network))
          (nw_swarms sample_network))) = 1"
    using sample_keys sample_network_contacts
    by (simp add: node_entries_def find_contact_def sample_network_def three_swarms_def map_filter_def)
  moreover have "blob_allocation sample_network = 153"
    by (simp add: blob_allocation_def sample_network_def three_swarms_def PER_SNODE_BLOB_SIZE_def)
  ultimately show ?thesis using f by (simp add: PER_SNODE_BLOB_SIZE_def)
qed

theorem update_swarms_contacts_witness:
  "get_pubkeys (nw_contacts (fst (network_update_swarms [] [(''c'', sample_contact)] sample_network))) = {''c''}"
  using update_swarms_contacts [of sample_network] by (simp add: get_pubkeys_def sample_network_contacts)

end
