(* ===== verification/Tables.thy ===== *)
theory Tables
  imports Namespaces Network
begin

text \<open>
  The tables of the message database (\<open>oxenss/storage/database.cpp\<close>, \<open>create_schema\<close>,
  \<open>initialize_database\<close>, \<open>views_triggers_indices\<close>) and the effects SQLite attaches to
  changing a row: the triggers \<open>swarm_space_trigger\<close> and \<open>owner_autoclean\<close> and the
  \<open>ON DELETE CASCADE\<close> actions. A table is the list of its rows in the order of the row id,
  constraints are predicates on the tables, and the primitive changes below keep them.
\<close>

section \<open>Rows\<close>

record owner_row =
  o_id :: int
  o_type :: int
  o_pubkey :: string
  o_hi :: int
  o_lo :: int

record message_row =
  m_id :: int
  m_hash :: string
  m_owner :: int
  m_namespace :: int
  m_timestamp :: int
  m_expiry :: int
  m_data :: string

text \<open>The owner of a revoked token may be NULL: it is not declared NOT NULL.\<close>

record revoked_row =
  rv_owner :: "int option"
  rv_token :: subaccount_token
  rv_timestamp :: int

record retry_request_row =
  rq_id :: int
  rq_command :: string
  rq_payload :: string
  rq_created :: time

record retry_pubkey_row =
  rp_id :: int
  rp_pubkey :: legacy_pubkey

record retry_node_row =
  rn_id :: int
  rn_rr_id :: int
  rn_pk_id :: int
  rn_next_retry :: time

record recipient_row =
  pr_id :: int
  pr_pubkey :: legacy_pubkey

record dump_row =
  pd_recipient :: int
  pd_swarm :: int
  pd_next_id :: int
  pd_end_id :: int
  pd_next_attempt :: time

record delivery_row =
  dl_recipient :: int
  dl_message :: int

text \<open>
  \<open>Database::deferred_expiry\<close>: an expiry extension that is held in memory.
\<close>

record deferred_expiry =
  df_owner :: int
  df_expiry :: int
  df_commit_at :: time

text \<open>
  The state of \<open>class Database\<close>: the tables, the stored swarm id, the deferred extensions
  with their queue, and the two counters. The time columns declared DOUBLE PRECISION hold
  clock readings; their rounding to a double is not modelled.
\<close>

record database =
  owners :: "owner_row list"
  messages :: "message_row list"
  revoked_subaccounts :: "revoked_row list"
  retry_requests :: "retry_request_row list"
  retry_pubkeys :: "retry_pubkey_row list"
  retry_node_requests :: "retry_node_row list"
  pending_recipients :: "recipient_row list"
  pending_dumps :: "dump_row list"
  pending_deliveries :: "delivery_row list"
  state_swarm :: "int option"
  deferred :: "(string \<times> deferred_expiry) list"
  deferred_queue :: "(time \<times> string) list"
  db_full_counter :: nat
  message_count :: int

definition empty_database :: database where
  "empty_database = \<lparr>owners = [], messages = [], revoked_subaccounts = [], retry_requests = [],
     retry_pubkeys = [], retry_node_requests = [], pending_recipients = [], pending_dumps = [],
     pending_deliveries = [], state_swarm = None, deferred = [], deferred_queue = [],
     db_full_counter = 0, message_count = 0\<rparr>"

text \<open>
  \<open>struct message\<close>, the form in which messages enter and leave the database.
\<close>

record message =
  msg_pubkey :: user_pubkey
  msg_hash :: string
  msg_namespace :: namespace_id
  msg_timestamp :: time
  msg_expiry :: time
  msg_data :: string

section \<open>Primitive changes\<close>

text \<open>
  SQLite gives a row inserted into a table with an \<open>INTEGER PRIMARY KEY\<close> the id one above
  the largest in use.
\<close>

definition next_rowid :: "int list \<Rightarrow> int" where
  "next_rowid ids = fold max ids 0 + 1"

text \<open>
  \<open>sqlite_swarm_space\<close>: the halves of the position of an account, which the trigger
  \<open>swarm_space_trigger\<close> stores beside a new owner.
\<close>

definition swarm_space_hi :: "(string \<Rightarrow> u64) \<Rightarrow> string \<Rightarrow> int" where
  "swarm_space_hi load_big pk =
     uint (drop_bit 32 (pubkey_to_swarm_space load_big \<lparr>network = 0, pubkey = take 32 pk\<rparr>))"

definition swarm_space_lo :: "(string \<Rightarrow> u64) \<Rightarrow> string \<Rightarrow> int" where
  "swarm_space_lo load_big pk =
     uint (pubkey_to_swarm_space load_big \<lparr>network = 0, pubkey = take 32 pk\<rparr> AND 0xffffffff)"

definition owner_id_of :: "database \<Rightarrow> user_pubkey \<Rightarrow> int option" where
  "owner_id_of db pk =
     map_option o_id (List.find (\<lambda>r. (o_pubkey r, o_type r) = (pubkey pk, network pk)) (owners db))"

definition insert_owner :: "(string \<Rightarrow> u64) \<Rightarrow> user_pubkey \<Rightarrow> database \<Rightarrow> database \<times> int" where
  "insert_owner load_big pk db =
     (let i = next_rowid (map o_id (owners db))
      in (db\<lparr>owners := owners db @ [\<lparr>o_id = i, o_type = network pk, o_pubkey = pubkey pk,
            o_hi = swarm_space_hi load_big (pubkey pk), o_lo = swarm_space_lo load_big (pubkey pk)\<rparr>]\<rparr>, i))"

text \<open>
  Deleting an owner deletes its revoked tokens. Deleting a message deletes its pending
  deliveries, and then its owner if it was the owner's last message.
\<close>

definition delete_owner :: "int \<Rightarrow> database \<Rightarrow> database" where
  "delete_owner i db =
     db\<lparr>owners := filter (\<lambda>r. o_id r \<noteq> i) (owners db),
        revoked_subaccounts := filter (\<lambda>r. rv_owner r \<noteq> Some i) (revoked_subaccounts db)\<rparr>"

definition delete_message :: "message_row \<Rightarrow> database \<Rightarrow> database" where
  "delete_message m db =
     (let db' = db\<lparr>messages := filter (\<lambda>r. m_id r \<noteq> m_id m) (messages db),
                  pending_deliveries := filter (\<lambda>d. dl_message d \<noteq> m_id m) (pending_deliveries db)\<rparr>
      in if list_ex (\<lambda>r. m_owner r = m_owner m) (messages db') then db' else delete_owner (m_owner m) db')"

text \<open>A DELETE statement takes the rows it selects one by one.\<close>

definition delete_messages :: "(message_row \<Rightarrow> bool) \<Rightarrow> database \<Rightarrow> database \<times> message_row list" where
  "delete_messages P db = (let del = filter P (messages db) in (fold delete_message del db, del))"

text \<open>An UPDATE statement changes the rows it selects in place.\<close>

definition update_messages ::
    "(message_row \<Rightarrow> bool) \<Rightarrow> (message_row \<Rightarrow> message_row) \<Rightarrow> database \<Rightarrow> database" where
  "update_messages P f db = db\<lparr>messages := map (\<lambda>r. if P r then f r else r) (messages db)\<rparr>"

definition append_message :: "message_row \<Rightarrow> database \<Rightarrow> database" where
  "append_message r db = db\<lparr>messages := messages db @ [r]\<rparr>"

section \<open>Constraints\<close>

text \<open>
  Owners: a primary key, \<open>UNIQUE(pubkey, type)\<close>, and the halves of the position filled in.
\<close>

definition owners_ok :: "(string \<Rightarrow> u64) \<Rightarrow> owner_row list \<Rightarrow> bool" where
  "owners_ok load_big os \<longleftrightarrow>
     sorted_wrt (<) (map o_id os) \<and> (\<forall>r \<in> set os. 0 < o_id r)
     \<and> distinct (map (\<lambda>r. (o_pubkey r, o_type r)) os)
     \<and> (\<forall>r \<in> set os. o_hi r = swarm_space_hi load_big (o_pubkey r)
                    \<and> o_lo r = swarm_space_lo load_big (o_pubkey r))"

text \<open>
  Messages: a primary key, \<open>UNIQUE(hash)\<close>, a foreign key to the owner, and the partial
  unique index that allows one message in an outbox.
\<close>

definition outbox_rows :: "message_row list \<Rightarrow> message_row list" where
  "outbox_rows ms = filter (\<lambda>r. outbox_index_pred (m_namespace r)) ms"

definition messages_ok :: "owner_row list \<Rightarrow> message_row list \<Rightarrow> bool" where
  "messages_ok os ms \<longleftrightarrow>
     sorted_wrt (<) (map m_id ms) \<and> (\<forall>r \<in> set ms. 0 < m_id r)
     \<and> distinct (map m_hash ms)
     \<and> (\<forall>r \<in> set ms. m_owner r \<in> o_id ` set os)
     \<and> distinct (map (\<lambda>r. (m_owner r, m_namespace r)) (outbox_rows ms))"

definition revoked_ok :: "owner_row list \<Rightarrow> revoked_row list \<Rightarrow> bool" where
  "revoked_ok os rs \<longleftrightarrow>
     distinct (map (\<lambda>r. (rv_owner r, rv_token r)) (filter (\<lambda>r. rv_owner r \<noteq> None) rs))
     \<and> (\<forall>r \<in> set rs. \<forall>i. rv_owner r = Some i \<longrightarrow> i \<in> o_id ` set os)
     \<and> (\<forall>i. length (filter (\<lambda>r. rv_owner r = Some i) rs) \<le> MAX_SUBACCOUNT_TOKENS)"

definition pending_ok ::
    "message_row list \<Rightarrow> recipient_row list \<Rightarrow> dump_row list \<Rightarrow> delivery_row list \<Rightarrow> bool" where
  "pending_ok ms rs ds dl \<longleftrightarrow>
     sorted_wrt (<) (map pr_id rs) \<and> (\<forall>r \<in> set rs. 0 < pr_id r) \<and> distinct (map pr_pubkey rs)
     \<and> distinct (map (\<lambda>d. (pd_recipient d, pd_swarm d)) ds)
     \<and> (\<forall>d \<in> set ds. pd_recipient d \<in> pr_id ` set rs \<and> sint (word_of_int (pd_swarm d) :: u64) = pd_swarm d)
     \<and> distinct (map (\<lambda>d. (dl_recipient d, dl_message d)) dl)
     \<and> (\<forall>d \<in> set dl. dl_recipient d \<in> pr_id ` set rs \<and> dl_message d \<in> m_id ` set ms)"

definition retries_ok ::
    "retry_request_row list \<Rightarrow> retry_pubkey_row list \<Rightarrow> retry_node_row list \<Rightarrow> bool" where
  "retries_ok qs ps ns \<longleftrightarrow>
     sorted_wrt (<) (map rq_id qs) \<and> (\<forall>q \<in> set qs. 0 < rq_id q) \<and> sorted_wrt (<) (map rp_id ps) \<and> sorted_wrt (<) (map rn_id ns)
     \<and> distinct (map rp_pubkey ps) \<and> distinct (map (\<lambda>n. (rn_rr_id n, rn_pk_id n)) ns)
     \<and> rn_rr_id ` set ns = rq_id ` set qs \<and> rn_pk_id ` set ns = rp_id ` set ps"

definition tables_ok :: "(string \<Rightarrow> u64) \<Rightarrow> database \<Rightarrow> bool" where
  "tables_ok load_big db \<longleftrightarrow>
     owners_ok load_big (owners db) \<and> messages_ok (owners db) (messages db)
     \<and> revoked_ok (owners db) (revoked_subaccounts db)
     \<and> pending_ok (messages db) (pending_recipients db) (pending_dumps db) (pending_deliveries db)
     \<and> retries_ok (retry_requests db) (retry_pubkeys db) (retry_node_requests db)"

definition count_ok :: "database \<Rightarrow> bool" where
  "count_ok db \<longleftrightarrow> message_count db = int (length (messages db))"

definition db_ok :: "(string \<Rightarrow> u64) \<Rightarrow> database \<Rightarrow> bool" where
  "db_ok load_big db \<longleftrightarrow> tables_ok load_big db \<and> count_ok db"

section \<open>Primitive changes keep the constraints\<close>

lemma fold_max_ge: "(a :: int) \<le> fold max xs a" "x \<in> set xs \<Longrightarrow> x \<le> fold max xs a"
proof (induction xs arbitrary: a)
  case (Cons y ys)
  {
    case 1
    show ?case using Cons.IH(1) [of "max y a"] by simp
  next
    case 2
    then show ?case using Cons.IH(1) [of "max y a"] Cons.IH(2) by auto
  }
qed simp_all

lemma next_rowid_pos: "0 < next_rowid ids"
  using fold_max_ge(1) [of 0 ids] by (simp add: next_rowid_def)

lemma next_rowid_greater: "i \<in> set ids \<Longrightarrow> i < next_rowid ids"
  using fold_max_ge(2) [of i ids 0] by (simp add: next_rowid_def)

lemma sorted_snoc: "sorted_wrt (<) xs \<Longrightarrow> (\<forall>x \<in> set xs. x < y) \<Longrightarrow> sorted_wrt (<) (xs @ [y])"
  for y :: "'a::linorder"
  by (auto simp: sorted_wrt_append)

lemma sorted_wrt_map_filter: "sorted_wrt (<) (map f xs) \<Longrightarrow> sorted_wrt (<) (map f (filter P xs))"
  for f :: "'b \<Rightarrow> 'a::linorder"
  by (induction xs) auto

lemma sorted_map_inj:
  "sorted_wrt (<) (map f xs) \<Longrightarrow> x \<in> set xs \<Longrightarrow> y \<in> set xs \<Longrightarrow> f x = f y \<Longrightarrow> x = y"
  for f :: "'b \<Rightarrow> 'a::linorder"
  by (rule distinct_map_inj [of f xs]) (simp_all add: strict_sorted_iff)

text \<open>Looking up an owner.\<close>

lemma owner_id_of_Some:
  "owner_id_of db pk = Some i \<Longrightarrow>
   \<exists>r \<in> set (owners db). o_id r = i \<and> o_pubkey r = pubkey pk \<and> o_type r = network pk"
  by (auto simp: owner_id_of_def dest: find_Some_in)

lemma owner_id_of_in: "owner_id_of db pk = Some i \<Longrightarrow> i \<in> o_id ` set (owners db)"
  using owner_id_of_Some by blast

lemma owner_id_of_None:
  "owner_id_of db pk = None \<longleftrightarrow>
   (pubkey pk, network pk) \<notin> (\<lambda>r. (o_pubkey r, o_type r)) ` set (owners db)"
  by (force simp: owner_id_of_def find_None_all)

lemma owner_id_of_eq:
  assumes "owners_ok lb (owners db)" and "r \<in> set (owners db)"
    and "o_pubkey r = pubkey pk" and "o_type r = network pk"
  shows "owner_id_of db pk = Some (o_id r)"
  using find_unique [of "\<lambda>r. (o_pubkey r, o_type r)" "owners db" r "(pubkey pk, network pk)"] assms
  by (simp add: owner_id_of_def owners_ok_def)

lemma owner_id_of_cong: "owners db' = owners db \<Longrightarrow> owner_id_of db' = owner_id_of db"
  by (auto simp: owner_id_of_def)

text \<open>Inserting an owner.\<close>

lemma insert_owner_results:
  assumes "insert_owner lb pk db = (db', i)"
  shows "db' = db\<lparr>owners := owners db'\<rparr>" and "i \<in> o_id ` set (owners db')"
    and "o_id ` set (owners db) \<subseteq> o_id ` set (owners db')"
  using assms by (auto simp: insert_owner_def Let_def)

lemma owners_ok_insert:
  assumes "owners_ok lb (owners db)" and "owner_id_of db pk = None" and "insert_owner lb pk db = (db', i)"
  shows "owners_ok lb (owners db')" and "owner_id_of db' pk = Some i"
proof -
  let ?i = "next_rowid (map o_id (owners db))"
  have "\<forall>x \<in> set (map o_id (owners db)). x < ?i" using next_rowid_greater by blast
  then have s: "sorted_wrt (<) (map o_id (owners db) @ [?i])"
    using assms(1) by (intro sorted_snoc) (simp_all add: owners_ok_def)
  then show ok: "owners_ok lb (owners db')"
    using assms next_rowid_pos [of "map o_id (owners db)"]
    by (auto simp: owners_ok_def insert_owner_def Let_def owner_id_of_None)
  show "owner_id_of db' pk = Some i"
    using assms(3) by (intro owner_id_of_eq [OF ok, THEN trans]) (auto simp: insert_owner_def Let_def)
qed

lemma messages_ok_mono: "messages_ok os ms \<Longrightarrow> o_id ` set os \<subseteq> o_id ` set os' \<Longrightarrow> messages_ok os' ms"
  by (auto simp: messages_ok_def)

lemma revoked_ok_mono: "revoked_ok os rs \<Longrightarrow> o_id ` set os \<subseteq> o_id ` set os' \<Longrightarrow> revoked_ok os' rs"
  by (auto simp: revoked_ok_def)

lemma insert_owner_ok [inv_intros]:
  assumes "tables_ok lb db" and "owner_id_of db pk = None" and "insert_owner lb pk db = (db', i)"
  shows "tables_ok lb db'"
proof -
  note r = insert_owner_results [OF assms(3)]
  have "owners_ok lb (owners db')" using assms by (auto simp: tables_ok_def intro: owners_ok_insert)
  moreover have "messages_ok (owners db') (messages db)" "revoked_ok (owners db') (revoked_subaccounts db)"
    using assms(1) r(3) by (auto simp: tables_ok_def intro: messages_ok_mono revoked_ok_mono)
  ultimately show ?thesis using assms(1) by (subst r(1)) (simp add: tables_ok_def)
qed

text \<open>Changing messages in place.\<close>

lemma messages_ok_update:
  assumes "messages_ok os ms"
    and "\<And>r. m_id (f r) = m_id r \<and> m_owner (f r) = m_owner r \<and> m_namespace (f r) = m_namespace r"
    and "distinct (map (\<lambda>r. m_hash (f r)) ms)"
  shows "messages_ok os (map f ms)"
proof -
  have "outbox_rows (map f ms) = map f (outbox_rows ms)"
    by (simp add: outbox_rows_def filter_map comp_def assms(2))
  then show ?thesis using assms by (simp add: messages_ok_def comp_def)
qed

lemma pending_ok_mono: "pending_ok ms rs ds dl \<Longrightarrow> m_id ` set ms \<subseteq> m_id ` set ms' \<Longrightarrow> pending_ok ms' rs ds dl"
  by (auto simp: pending_ok_def)

lemma update_messages_ok:
  assumes ok: "tables_ok lb db"
    and f: "\<And>r. m_id (f r) = m_id r \<and> m_owner (f r) = m_owner r \<and> m_namespace (f r) = m_namespace r"
    and h: "distinct (map (\<lambda>r. m_hash (if P r then f r else r)) (messages db))"
  shows "tables_ok lb (update_messages P f db)"
proof -
  have "messages_ok (owners db) (map (\<lambda>r. if P r then f r else r) (messages db))"
    using ok f h by (intro messages_ok_update) (auto simp: tables_ok_def)
  moreover have ids: "map m_id (map (\<lambda>r. if P r then f r else r) (messages db)) = map m_id (messages db)"
    unfolding map_map by (rule map_cong) (simp_all add: f)
  then have "m_id ` set (messages db) \<subseteq> m_id ` set (map (\<lambda>r. if P r then f r else r) (messages db))"
    by (simp only: set_map [symmetric] order_refl)
  ultimately show ?thesis
    using ok pending_ok_mono by (fastforce simp: tables_ok_def update_messages_def)
qed

lemma update_expiry_ok [inv_intros]:
  "tables_ok lb db \<Longrightarrow> tables_ok lb (update_messages P (\<lambda>r. r\<lparr>m_expiry := g r\<rparr>) db)"
proof (rule update_messages_ok)
  assume ok: "tables_ok lb db"
  have h: "map (\<lambda>r. m_hash (if P r then r\<lparr>m_expiry := g r\<rparr> else r)) (messages db) = map m_hash (messages db)"
    by (rule map_cong) simp_all
  show "distinct (map (\<lambda>r. m_hash (if P r then r\<lparr>m_expiry := g r\<rparr> else r)) (messages db))"
    unfolding h using ok by (simp add: tables_ok_def messages_ok_def)
qed auto

text \<open>Adding a message.\<close>

lemma append_message_ok [inv_intros]:
  assumes ok: "tables_ok lb db" and i: "m_id r = next_rowid (map m_id (messages db))"
    and h: "m_hash r \<notin> m_hash ` set (messages db)" and o: "m_owner r \<in> o_id ` set (owners db)"
    and u: "\<not> (outbox_index_pred (m_namespace r) \<and>
               (\<exists>x \<in> set (messages db). m_owner x = m_owner r \<and> m_namespace x = m_namespace r))"
  shows "tables_ok lb (append_message r db)"
proof -
  have "\<forall>x \<in> set (map m_id (messages db)). x < m_id r" using next_rowid_greater i by auto
  then have "sorted_wrt (<) (map m_id (messages db) @ [m_id r])"
    using ok by (intro sorted_snoc) (simp_all add: tables_ok_def messages_ok_def)
  moreover have "(m_owner r, m_namespace r) \<notin> (\<lambda>x. (m_owner x, m_namespace x)) ` set (outbox_rows (messages db))"
    if "outbox_index_pred (m_namespace r)"
    using u that by (auto simp: outbox_rows_def)
  ultimately have "messages_ok (owners db) (messages db @ [r])"
    using ok h o next_rowid_pos [of "map m_id (messages db)"] i
    by (auto simp: messages_ok_def outbox_rows_def tables_ok_def)
  then show ?thesis
    using ok pending_ok_mono [of "messages db" _ _ _ "messages db @ [r]"]
    by (auto simp: tables_ok_def append_message_def)
qed

text \<open>Deleting messages.\<close>

lemma messages_ok_filter: "messages_ok os ms \<Longrightarrow> messages_ok os (filter P ms)"
proof -
  assume ok: "messages_ok os ms"
  have "outbox_rows (filter P ms) = filter P (outbox_rows ms)"
    by (simp add: outbox_rows_def conj_commute)
  then show ?thesis
    using ok by (auto simp: messages_ok_def sorted_wrt_map_filter distinct_map_filterI)
qed

lemma pending_ok_delete:
  "pending_ok ms rs ds dl \<Longrightarrow>
   pending_ok (filter (\<lambda>r. m_id r \<noteq> i) ms) rs ds (filter (\<lambda>d. dl_message d \<noteq> i) dl)"
  by (auto simp: pending_ok_def distinct_map_filterI)

lemma revoked_ok_filter: "revoked_ok os rs \<Longrightarrow> revoked_ok os (filter P rs)"
proof -
  assume ok: "revoked_ok os rs"
  have "distinct (map (\<lambda>r. (rv_owner r, rv_token r)) (filter P (filter (\<lambda>r. rv_owner r \<noteq> None) rs)))"
    by (rule distinct_map_filterI) (use ok in \<open>simp add: revoked_ok_def\<close>)
  then have "distinct (map (\<lambda>r. (rv_owner r, rv_token r)) (filter (\<lambda>r. rv_owner r \<noteq> None) (filter P rs)))"
    by (simp add: conj_commute)
  moreover have "length (filter (\<lambda>r. rv_owner r = Some i) (filter P rs)) \<le> MAX_SUBACCOUNT_TOKENS" for i
  proof -
    have "length (filter (\<lambda>r. rv_owner r = Some i) (filter P rs)) \<le> length (filter (\<lambda>r. rv_owner r = Some i) rs)"
      by (induction rs) auto
    also have "\<dots> \<le> MAX_SUBACCOUNT_TOKENS" using ok by (simp add: revoked_ok_def)
    finally show ?thesis .
  qed
  ultimately show ?thesis using ok unfolding revoked_ok_def by auto
qed

lemma delete_owner_ok:
  assumes ok: "tables_ok lb db" and n: "\<forall>r \<in> set (messages db). m_owner r \<noteq> i"
  shows "tables_ok lb (delete_owner i db)"
proof -
  let ?os = "filter (\<lambda>r. o_id r \<noteq> i) (owners db)"
  have "owners_ok lb ?os"
    using ok by (auto simp: tables_ok_def owners_ok_def sorted_wrt_map_filter distinct_map_filterI)
  moreover have "messages_ok ?os (messages db)"
    using ok n by (fastforce simp: tables_ok_def messages_ok_def)
  moreover have "revoked_ok ?os (filter (\<lambda>r. rv_owner r \<noteq> Some i) (revoked_subaccounts db))"
    using revoked_ok_filter [of "owners db" "revoked_subaccounts db" "\<lambda>r. rv_owner r \<noteq> Some i"] ok
    by (fastforce simp: tables_ok_def revoked_ok_def)
  ultimately show ?thesis using ok by (simp add: tables_ok_def delete_owner_def)
qed

lemma delete_message_ok [inv_intros]: "tables_ok lb db \<Longrightarrow> tables_ok lb (delete_message m db)"
proof -
  assume ok: "tables_ok lb db"
  let ?db = "db\<lparr>messages := filter (\<lambda>r. m_id r \<noteq> m_id m) (messages db),
                pending_deliveries := filter (\<lambda>d. dl_message d \<noteq> m_id m) (pending_deliveries db)\<rparr>"
  have "tables_ok lb ?db"
    using ok by (simp add: tables_ok_def messages_ok_filter pending_ok_delete)
  moreover have "tables_ok lb (delete_owner (m_owner m) ?db)" if "\<not> list_ex (\<lambda>r. m_owner r = m_owner m) (messages ?db)"
    using that by (intro delete_owner_ok [OF calculation]) (auto simp: list_ex_iff)
  ultimately show ?thesis by (simp add: delete_message_def Let_def)
qed

lemma fold_delete_message_ok: "tables_ok lb db \<Longrightarrow> tables_ok lb (fold delete_message ms db)"
  by (induction ms arbitrary: db) (auto intro: delete_message_ok)

lemma delete_messages_ok [inv_intros]: "tables_ok lb db \<Longrightarrow> tables_ok lb (fst (delete_messages P db))"
  by (simp add: delete_messages_def Let_def fold_delete_message_ok)


text \<open>What a deletion leaves alone.\<close>

lemma delete_message_frame [row_simps]:
  "retry_requests (delete_message m db) = retry_requests db"
  "retry_pubkeys (delete_message m db) = retry_pubkeys db"
  "retry_node_requests (delete_message m db) = retry_node_requests db"
  "pending_recipients (delete_message m db) = pending_recipients db"
  "pending_dumps (delete_message m db) = pending_dumps db"
  "state_swarm (delete_message m db) = state_swarm db"
  "deferred (delete_message m db) = deferred db"
  "deferred_queue (delete_message m db) = deferred_queue db"
  "db_full_counter (delete_message m db) = db_full_counter db"
  "message_count (delete_message m db) = message_count db"
  "messages (delete_message m db) = filter (\<lambda>r. m_id r \<noteq> m_id m) (messages db)"
  by (simp_all add: delete_message_def delete_owner_def Let_def)

lemma fold_delete_message_frame [row_simps]:
  "retry_requests (fold delete_message del db) = retry_requests db
   \<and> retry_pubkeys (fold delete_message del db) = retry_pubkeys db
   \<and> retry_node_requests (fold delete_message del db) = retry_node_requests db
   \<and> pending_recipients (fold delete_message del db) = pending_recipients db
   \<and> pending_dumps (fold delete_message del db) = pending_dumps db
   \<and> state_swarm (fold delete_message del db) = state_swarm db
   \<and> deferred (fold delete_message del db) = deferred db
   \<and> deferred_queue (fold delete_message del db) = deferred_queue db
   \<and> db_full_counter (fold delete_message del db) = db_full_counter db
   \<and> message_count (fold delete_message del db) = message_count db
   \<and> messages (fold delete_message del db) = filter (\<lambda>r. m_id r \<notin> m_id ` set del) (messages db)"
  by (induction del arbitrary: db) (simp_all add: delete_message_frame)

lemma delete_messages_messages:
  assumes "sorted_wrt (<) (map m_id (messages db))"
  shows "messages (fst (delete_messages P db)) = filter (\<lambda>r. \<not> P r) (messages db)"
proof -
  have "m_id r \<notin> m_id ` set (filter P (messages db)) \<longleftrightarrow> \<not> P r" if "r \<in> set (messages db)" for r
    using sorted_map_inj [OF assms that] that by auto
  then show ?thesis
    by (auto simp: delete_messages_def Let_def fold_delete_message_frame intro: filter_cong)
qed

lemma delete_messages_deleted: "snd (delete_messages P db) = filter P (messages db)"
  by (simp add: delete_messages_def Let_def)

text \<open>
  The trigger removes exactly the owners that lost their last message.
\<close>

definition last_of_owner :: "message_row set \<Rightarrow> message_row list \<Rightarrow> int \<Rightarrow> bool" where
  "last_of_owner del ms i \<longleftrightarrow>
     (\<exists>m \<in> del. m_owner m = i) \<and> (\<forall>r \<in> set ms. m_owner r = i \<longrightarrow> r \<in> del)"

lemma delete_message_owners:
  assumes "sorted_wrt (<) (map m_id (messages db))" and "m \<in> set (messages db)"
  shows "owners (delete_message m db) =
           filter (\<lambda>w. \<not> last_of_owner {m} (messages db) (o_id w)) (owners db)"
proof -
  have eq: "r \<in> set (messages db) \<and> m_id r \<noteq> m_id m \<longleftrightarrow> r \<in> set (messages db) \<and> r \<noteq> m" for r
    using sorted_map_inj [OF assms(1) _ assms(2)] by auto
  show ?thesis
  proof (cases "\<exists>r \<in> set (messages db). m_id r \<noteq> m_id m \<and> m_owner r = m_owner m")
    case True
    then have "\<not> last_of_owner {m} (messages db) i" for i by (auto simp: last_of_owner_def)
    with True show ?thesis by (auto simp: delete_message_def Let_def list_ex_iff filter_eq_if_all)
  next
    case False
    then have "last_of_owner {m} (messages db) i \<longleftrightarrow> i = m_owner m" for i
      using eq by (auto simp: last_of_owner_def)
    with False show ?thesis
      by (auto simp: delete_message_def delete_owner_def Let_def list_ex_iff)
  qed
qed

lemma fold_delete_owners:
  assumes "sorted_wrt (<) (map m_id (messages db))" and "set del \<subseteq> set (messages db)" and "distinct del"
  shows "owners (fold delete_message del db) =
           filter (\<lambda>w. \<not> last_of_owner (set del) (messages db) (o_id w)) (owners db)"
  using assms
proof (induction del arbitrary: db)
  case Nil
  then show ?case by (simp add: last_of_owner_def)
next
  case (Cons m del)
  have m: "m \<in> set (messages db)" using Cons.prems by simp
  have ms: "set (messages (delete_message m db)) = set (messages db) - {m}"
    using sorted_map_inj [OF Cons.prems(1) _ m] m by (auto simp: delete_message_frame)
  have "owners (fold delete_message del (delete_message m db)) =
      filter (\<lambda>w. \<not> last_of_owner (set del) (messages (delete_message m db)) (o_id w))
        (owners (delete_message m db))"
    using Cons.prems ms by (intro Cons.IH) (auto simp: delete_message_frame sorted_wrt_map_filter)
  also have "\<dots> = filter (\<lambda>w. \<not> last_of_owner {m} (messages db) (o_id w)
      \<and> \<not> last_of_owner (set del) (messages (delete_message m db)) (o_id w)) (owners db)"
    unfolding delete_message_owners [OF Cons.prems(1) m] by (simp add: conj_commute)
  also have "\<dots> = filter (\<lambda>w. \<not> last_of_owner (set (m # del)) (messages db) (o_id w)) (owners db)"
    using m by (intro filter_cong refl) (auto simp: last_of_owner_def ms)
  finally show ?case by simp
qed

end
