(* ===== verification/Deferred.thy ===== *)
theory Deferred
  imports Tables
begin

text \<open>
  The deferred expiry extensions (\<open>oxenss/storage/database.cpp\<close>): extensions of messages
  that already expire a month from now are held in memory and written later. The cache
  operations, the periodic commit, and the proof that a commit is not observable.
\<close>

section \<open>The cache\<close>

text \<open>
  \<open>deferred_\<close> is an unordered map, here an association list; the hash function of its keys
  (\<open>message_hash_hasher\<close>) has no effect on its contents.
\<close>

definition deferred_expiry_of :: "database \<Rightarrow> string \<Rightarrow> int \<Rightarrow> int option" where
  "deferred_expiry_of db hash owner =
     (case map_of (deferred db) hash of
        Some e \<Rightarrow> if df_owner e = owner then Some (df_expiry e) else None
      | None \<Rightarrow> None)"

definition forget_deferred :: "string \<Rightarrow> database \<Rightarrow> database" where
  "forget_deferred hash db = db\<lparr>deferred := AList.delete hash (deferred db)\<rparr>"

definition forget_deferred_all :: "string list \<Rightarrow> database \<Rightarrow> database" where
  "forget_deferred_all hashes db = fold forget_deferred hashes db"

text \<open>
  The two \<open>apply_deferred\<close>: for messages the later of the two expiries wins whoever the owner
  is, for a map of expiries the entry has to be of the given owner.
\<close>

definition apply_deferred_msg :: "database \<Rightarrow> message \<Rightarrow> message" where
  "apply_deferred_msg db m =
     (case map_of (deferred db) (msg_hash m) of
        Some e \<Rightarrow> if df_expiry e > to_epoch_ms (msg_expiry m)
                  then m\<lparr>msg_expiry := from_epoch_ms (df_expiry e)\<rparr> else m
      | None \<Rightarrow> m)"

definition apply_deferred :: "database \<Rightarrow> message list \<Rightarrow> message list" where
  "apply_deferred db msgs = map (apply_deferred_msg db) msgs"

definition apply_deferred_expiries :: "database \<Rightarrow> int \<Rightarrow> (string \<times> int) list \<Rightarrow> (string \<times> int) list" where
  "apply_deferred_expiries db owner xs =
     map (\<lambda>(hash, e). case deferred_expiry_of db hash owner of
            Some d \<Rightarrow> (hash, max e d) | None \<Rightarrow> (hash, e)) xs"

definition take_deferred :: "int \<Rightarrow> database \<Rightarrow> (string \<times> deferred_expiry) list \<times> database" where
  "take_deferred owner db =
     (filter (\<lambda>(_, e). df_owner e = owner) (deferred db),
      db\<lparr>deferred := filter (\<lambda>(_, e). df_owner e \<noteq> owner) (deferred db)\<rparr>)"

text \<open>
  \<open>write_deferred\<close> runs \<open>update_expiry_extend_sql\<close> for each entry, which never lowers an
  expiry.
\<close>

definition write_entry :: "string \<times> deferred_expiry \<Rightarrow> database \<Rightarrow> database" where
  "write_entry = (\<lambda>(hash, e) db.
     update_messages (\<lambda>r. m_hash r = hash \<and> m_owner r = df_owner e \<and> m_expiry r < df_expiry e)
       (\<lambda>r. r\<lparr>m_expiry := df_expiry e\<rparr>) db)"

definition write_deferred :: "(string \<times> deferred_expiry) list \<Rightarrow> database \<Rightarrow> database" where
  "write_deferred entries db = fold write_entry entries db"

text \<open>
  \<open>commit_deferred_expiries\<close>: the queue is worked off up to the first element that is not
  due; an element whose entry is gone, or was made anew and is not due itself, is skipped.
\<close>

fun due_entries ::
    "bool \<Rightarrow> time \<Rightarrow> (time \<times> string) list \<Rightarrow> (string \<times> deferred_expiry) list \<Rightarrow>
     (string \<times> deferred_expiry) list \<times> (time \<times> string) list \<times> (string \<times> deferred_expiry) list" where
  "due_entries all now [] cache = ([], [], cache)"
| "due_entries all now ((t, hash) # queue) cache =
     (if all \<or> t \<le> now
      then (case map_of cache hash of
              Some e \<Rightarrow> if all \<or> df_commit_at e \<le> now
                        then let (due, q, c) = due_entries all now queue (AList.delete hash cache)
                             in ((hash, e) # due, q, c)
                        else due_entries all now queue cache
            | None \<Rightarrow> due_entries all now queue cache)
      else ([], (t, hash) # queue, cache))"

definition commit_deferred_expiries :: "bool \<Rightarrow> time \<Rightarrow> database \<Rightarrow> database" where
  "commit_deferred_expiries all now db =
     (let (due, q, c) = due_entries all now (deferred_queue db) (deferred db);
          db' = db\<lparr>deferred := c, deferred_queue := q\<rparr>
      in if due = [] then db' else write_deferred due db')"

section \<open>The effective expiry\<close>

text \<open>
  What the owner of a message sees: the later of the stored and the deferred expiry. The
  abstract table has the effective expiry in every row.
\<close>

definition cache_expiry :: "(string \<times> deferred_expiry) list \<Rightarrow> message_row \<Rightarrow> int" where
  "cache_expiry c r =
     (case map_of c (m_hash r) of
        Some e \<Rightarrow> if df_owner e = m_owner r then max (m_expiry r) (df_expiry e) else m_expiry r
      | None \<Rightarrow> m_expiry r)"

definition effective_expiry :: "database \<Rightarrow> message_row \<Rightarrow> int" where
  "effective_expiry db r = cache_expiry (deferred db) r"

definition effective_messages :: "database \<Rightarrow> message_row list" where
  "effective_messages db = map (\<lambda>r. r\<lparr>m_expiry := effective_expiry db r\<rparr>) (messages db)"

text \<open>
  Every entry of the cache has its element in the queue.
\<close>

definition deferred_ok :: "database \<Rightarrow> bool" where
  "deferred_ok db \<longleftrightarrow>
     distinct (map fst (deferred db))
     \<and> (\<forall>(hash, e) \<in> set (deferred db). (df_commit_at e, hash) \<in> set (deferred_queue db))"

section \<open>Commits are not observable\<close>

lemma write_entry_messages:
  "write_entry (hash, e) db = db\<lparr>messages := map (\<lambda>r. r\<lparr>m_expiry := cache_expiry [(hash, e)] r\<rparr>) (messages db)\<rparr>"
  by (simp add: write_entry_def update_messages_def cache_expiry_def max_def not_less)

lemma cache_expiry_Cons:
  assumes "hash \<notin> fst ` set es"
  shows "cache_expiry es (r\<lparr>m_expiry := cache_expiry [(hash, e)] r\<rparr>) = cache_expiry ((hash, e) # es) r"
  using assms by (auto simp: cache_expiry_def map_of_eq_None_iff [symmetric] split: option.splits)

lemma write_deferred_messages:
  "distinct (map fst es) \<Longrightarrow>
   write_deferred es db = db\<lparr>messages := map (\<lambda>r. r\<lparr>m_expiry := cache_expiry es r\<rparr>) (messages db)\<rparr>"
proof (induction es arbitrary: db)
  case Nil
  then show ?case by (simp add: write_deferred_def cache_expiry_def)
next
  case (Cons x es)
  obtain hash e where x: "x = (hash, e)" by (cases x)
  have "write_deferred (x # es) db = write_deferred es (write_entry (hash, e) db)"
    by (simp add: write_deferred_def x)
  also have "\<dots> = db\<lparr>messages := map (\<lambda>r. r\<lparr>m_expiry := cache_expiry (x # es) r\<rparr>) (messages db)\<rparr>"
    using Cons.prems
    by (simp add: Cons.IH write_entry_messages cache_expiry_Cons x)
  finally show ?case .
qed

lemma write_entry_ok [inv_intros]: "tables_ok lb db \<Longrightarrow> tables_ok lb (write_entry x db)"
  by (cases x) (simp add: write_entry_def update_expiry_ok)

lemma write_deferred_ok [inv_intros]: "tables_ok lb db \<Longrightarrow> tables_ok lb (write_deferred es db)"
  by (induction es arbitrary: db) (auto simp: write_deferred_def intro: write_entry_ok)

text \<open>
  The due entries and the remaining cache split the cache.
\<close>

lemma due_entries_split:
  assumes "due_entries all now queue cache = (due, q, c)" and "distinct (map fst cache)"
  shows "distinct (map fst due) \<and> distinct (map fst c) \<and> fst ` set due \<subseteq> fst ` set cache
     \<and> (\<forall>h. map_of cache h = (case map_of due h of Some e \<Rightarrow> Some e | None \<Rightarrow> map_of c h))
     \<and> fst ` set due \<inter> fst ` set c = {}"
  using assms
proof (induction all now queue cache arbitrary: due q c rule: due_entries.induct)
  case (1 all now cache)
  then show ?case by auto
next
  case (2 all now t hash queue cache)
  show ?case
  proof (cases "(all \<or> t \<le> now) \<and> (\<exists>e. map_of cache hash = Some e \<and> (all \<or> df_commit_at e \<le> now))")
    case True
    then obtain e where e: "all \<or> t \<le> now" "map_of cache hash = Some e" "all \<or> df_commit_at e \<le> now" by blast
    obtain due' q' c' where r: "due_entries all now queue (AList.delete hash cache) = (due', q', c')"
      by (cases "due_entries all now queue (AList.delete hash cache)") auto
    from "2.IH"(2) [OF e(1,2,3) r] "2.prems"(2) have ih:
      "distinct (map fst due') \<and> distinct (map fst c') \<and> fst ` set due' \<subseteq> fst ` set (AList.delete hash cache)
       \<and> (\<forall>h. map_of (AList.delete hash cache) h = (case map_of due' h of Some e \<Rightarrow> Some e | None \<Rightarrow> map_of c' h))
       \<and> fst ` set due' \<inter> fst ` set c' = {}"
      by (simp add: distinct_delete)
    have res: "due = (hash, e) # due'" "q = q'" "c = c'" using "2.prems"(1) e r by auto
    have "map_of (AList.delete hash cache) hash =
        (case map_of due' hash of Some e \<Rightarrow> Some e | None \<Rightarrow> map_of c' hash)"
      using ih by blast
    then have "map_of c' hash = None" by (simp add: map_of_alist_delete split: option.splits)
    then have hc: "hash \<notin> fst ` set c'" by (simp add: map_of_eq_None_iff)
    have hd: "fst ` set due' \<subseteq> fst ` set cache - {hash}" using ih by (simp only: keys_alist_delete)
    have "map_of cache h = (case map_of due h of Some e \<Rightarrow> Some e | None \<Rightarrow> map_of c h)" for h
    proof (cases "h = hash")
      case True
      then show ?thesis by (simp add: e(2) res)
    next
      case False
      then have "map_of cache h = map_of (AList.delete hash cache) h" by (simp add: map_of_alist_delete)
      also have "\<dots> = (case map_of due' h of Some e \<Rightarrow> Some e | None \<Rightarrow> map_of c' h)" using ih by blast
      finally show ?thesis using False unfolding res by simp
    qed
    moreover have "hash \<in> fst ` set cache" using map_of_SomeD [OF e(2)] by force
    then have "fst ` set due \<subseteq> fst ` set cache" using hd by (auto simp: res)
    moreover have "fst ` set due \<inter> fst ` set c = {}" using ih hc by (simp add: res)
    moreover have "distinct (map fst due)" using ih hd by (auto simp: res)
    moreover have "distinct (map fst c)" using ih by (simp add: res)
    ultimately show ?thesis by blast
  next
    case False
    show ?thesis
    proof (cases "all \<or> t \<le> now")
      case due: True
      have r: "due_entries all now queue cache = (due, q, c)"
        using "2.prems"(1) due False by (auto split: option.splits)
      show ?thesis
      proof (cases "map_of cache hash")
        case None
        then show ?thesis using "2.IH"(1) [OF due None r "2.prems"(2)] by blast
      next
        case (Some e)
        then show ?thesis using False due "2.IH"(3) [OF due Some _ r "2.prems"(2)] by blast
      qed
    next
      case False
      then show ?thesis using "2.prems" by auto
    qed
  qed
qed

lemma due_entries_queue:
  assumes "due_entries all now queue cache = (due, q, c)" and "distinct (map fst cache)"
    and "\<forall>(hash, e) \<in> set cache. (df_commit_at e, hash) \<in> set queue"
  shows "\<forall>(hash, e) \<in> set c. (df_commit_at e, hash) \<in> set q"
  using assms
proof (induction all now queue cache arbitrary: due q c rule: due_entries.induct)
  case (1 all now cache)
  then show ?case by auto
next
  case (2 all now t hash queue cache)
  show ?case
  proof (cases "all \<or> t \<le> now")
    case due: True
    show ?thesis
    proof (cases "\<exists>e. map_of cache hash = Some e \<and> (all \<or> df_commit_at e \<le> now)")
      case True
      then obtain e where e: "map_of cache hash = Some e" "all \<or> df_commit_at e \<le> now" by blast
      obtain due' where r: "due_entries all now queue (AList.delete hash cache) = (due', q, c)"
        using "2.prems"(1) due e by (auto split: prod.splits)
      show ?thesis
        using "2.prems"(2,3) by (intro "2.IH"(2) [OF due e r]) (auto simp: distinct_delete set_alist_delete)
    next
      case False
      have r: "due_entries all now queue cache = (due, q, c)"
        using "2.prems"(1) due False by (auto split: option.splits)
      have "(df_commit_at e, h) \<in> set queue" if "(h, e) \<in> set cache" for h e
      proof -
        have "map_of cache h = Some e" using that "2.prems"(2) by simp
        with False due have "h \<noteq> hash \<or> t \<noteq> df_commit_at e" by auto
        with that "2.prems"(3) show ?thesis by auto
      qed
      then have q: "\<forall>(h, e) \<in> set cache. (df_commit_at e, h) \<in> set queue" by blast
      show ?thesis
      proof (cases "map_of cache hash")
        case None
        then show ?thesis using "2.IH"(1) [OF due None r "2.prems"(2) q] by simp
      next
        case (Some e)
        then show ?thesis using False "2.IH"(3) [OF due Some _ r "2.prems"(2) q] by blast
      qed
    qed
  next
    case False
    then show ?thesis using "2.prems" by auto
  qed
qed

lemma due_entries_all:
  "due_entries True now queue cache = (due, q, c) \<Longrightarrow> q = []"
  by (induction True now queue cache arbitrary: due q c rule: due_entries.induct)
     (auto split: option.splits prod.splits)

lemma commit_deferred_eq:
  assumes "distinct (map fst (deferred db))"
    and d: "due_entries all now (deferred_queue db) (deferred db) = (due, q, c)"
  shows "commit_deferred_expiries all now db =
     db\<lparr>messages := map (\<lambda>r. r\<lparr>m_expiry := cache_expiry due r\<rparr>) (messages db),
        deferred := c, deferred_queue := q\<rparr>"
proof -
  have "distinct (map fst due)" using due_entries_split [OF d assms(1)] by blast
  moreover have "cache_expiry [] r = m_expiry r" for r by (simp add: cache_expiry_def)
  ultimately show ?thesis
    by (auto simp: commit_deferred_expiries_def d Let_def write_deferred_messages)
qed

lemma commit_deferred_ok [inv_intros]:
  assumes "deferred_ok db"
  shows "deferred_ok (commit_deferred_expiries all now db)"
proof -
  obtain due q c where d: "due_entries all now (deferred_queue db) (deferred db) = (due, q, c)"
    by (cases "due_entries all now (deferred_queue db) (deferred db)") auto
  have "distinct (map fst (deferred db))" using assms by (simp add: deferred_ok_def)
  from commit_deferred_eq [OF this d] due_entries_split [OF d this] due_entries_queue [OF d this]
  show ?thesis using assms by (simp add: deferred_ok_def)
qed

lemma commit_deferred_tables_ok [inv_intros]:
  assumes "tables_ok lb db"
  shows "tables_ok lb (commit_deferred_expiries all now db)"
proof -
  have "tables_ok lb (db\<lparr>deferred := c, deferred_queue := q\<rparr>)" for c q
    using assms by (simp add: tables_ok_def)
  then show ?thesis
    by (auto simp: commit_deferred_expiries_def Let_def split: prod.splits intro: write_deferred_ok)
qed

text \<open>
  Writing deferred extensions is invisible: whatever part of them is due, every message
  has the same effective expiry before and after the commit, and nothing else of it changes.
  A commit of all of them, as at shutdown, leaves none in memory and puts every effective
  expiry into the table.
\<close>

theorem commit_not_observable:
  assumes "deferred_ok db"
  shows "effective_messages (commit_deferred_expiries all now db) = effective_messages db
     \<and> deferred (commit_deferred_expiries True now db) = []
     \<and> messages (commit_deferred_expiries True now db) = effective_messages db"
proof -
  have dist: "distinct (map fst (deferred db))" using assms by (simp add: deferred_ok_def)
  have step: "cache_expiry c (r\<lparr>m_expiry := cache_expiry due r\<rparr>) = cache_expiry (deferred db) r"
    if d: "due_entries a now (deferred_queue db) (deferred db) = (due, q, c)" for a due q c r
  proof -
    have s: "map_of (deferred db) (m_hash r) =
        (case map_of due (m_hash r) of Some e \<Rightarrow> Some e | None \<Rightarrow> map_of c (m_hash r))"
      and i: "fst ` set due \<inter> fst ` set c = {}"
      using due_entries_split [OF d dist] by blast+
    have "map_of c (m_hash r) = None" if "map_of due (m_hash r) = Some e" for e
      using i map_of_SomeD [OF that] by (force simp: map_of_eq_None_iff)
    then show ?thesis unfolding cache_expiry_def s by (auto split: option.splits)
  qed
  have "effective_messages (commit_deferred_expiries a now db) = effective_messages db" for a
  proof -
    obtain due q c where d: "due_entries a now (deferred_queue db) (deferred db) = (due, q, c)"
      by (cases "due_entries a now (deferred_queue db) (deferred db)") auto
    show ?thesis
      unfolding commit_deferred_eq [OF dist d]
      by (simp add: effective_messages_def effective_expiry_def step [OF d])
  qed
  moreover obtain due q c where d: "due_entries True now (deferred_queue db) (deferred db) = (due, q, c)"
    by (cases "due_entries True now (deferred_queue db) (deferred db)") auto
  have "c = []" using due_entries_queue [OF d dist] due_entries_all [OF d] assms
    by (cases c) (auto simp: deferred_ok_def)
  then have "deferred (commit_deferred_expiries True now db) = []"
    unfolding commit_deferred_eq [OF dist d] by simp
  moreover have "effective_messages db' = messages db'" if "deferred db' = []" for db'
    using that by (simp add: effective_messages_def effective_expiry_def cache_expiry_def)
  ultimately show ?thesis by metis
qed

definition deferred_sample :: database where
  "deferred_sample = empty_database\<lparr>messages :=
     [\<lparr>m_id = 1, m_hash = ''h'', m_owner = 1, m_namespace = 0, m_timestamp = 1, m_expiry = 100, m_data = ''d''\<rparr>],
     deferred := [(''h'', \<lparr>df_owner = 1, df_expiry = 150, df_commit_at = 5\<rparr>)], deferred_queue := [(5, ''h'')]\<rparr>"

theorem commit_not_observable_witness:
  "effective_messages (commit_deferred_expiries False 9 deferred_sample) = effective_messages deferred_sample
   \<and> map m_expiry (messages (commit_deferred_expiries True 0 deferred_sample)) = [150]"
proof -
  have "deferred_ok deferred_sample" by (simp add: deferred_ok_def deferred_sample_def)
  from commit_not_observable [OF this, of False 9] commit_not_observable [OF this, of False 0] show ?thesis
    by (simp add: effective_messages_def effective_expiry_def cache_expiry_def deferred_sample_def)
qed

end
