(* ===== verification/Message_Store.thy ===== *)
theory Message_Store
  imports Deferred
begin

text \<open>
  Storing, reading and deleting messages (\<open>oxenss/storage/database.cpp\<close>). The clock reading
  an operation takes is its argument \<open>now\<close>. Operations run in transactions that the write
  lock serialises, so each is one step on the database; the order of rows that a statement
  without ORDER BY returns is not specified by SQL and is the table order here.
\<close>

section \<open>Storing\<close>

datatype store_result = New | Extended | Exists | Obsolete | Full

text \<open>
  What \<open>store\<close> returns, with the values it writes through its two pointers.
\<close>

record store_outcome =
  so_result :: store_result
  so_expiry :: "time option"
  so_id :: "int option"

text \<open>
  Where a statement may find the disk full: while changing rows, or at the commit. In either
  case the transaction is rolled back.
\<close>

datatype disk = Disk_Ok | Full_In_Statement | Full_At_Commit

definition message_row_of :: "int \<Rightarrow> int \<Rightarrow> message \<Rightarrow> message_row" where
  "message_row_of i owner msg =
     \<lparr>m_id = i, m_hash = msg_hash msg, m_owner = owner, m_namespace = to_int (msg_namespace msg),
      m_timestamp = to_epoch_ms (msg_timestamp msg), m_expiry = to_epoch_ms (msg_expiry msg),
      m_data = msg_data msg\<rparr>"

text \<open>
  The row that the partial unique index on outboxes makes a new row conflict with.
\<close>

definition outbox_conflict :: "database \<Rightarrow> int \<Rightarrow> message \<Rightarrow> message_row option" where
  "outbox_conflict db owner msg =
     (let ns = to_int (msg_namespace msg)
      in if outbox_index_pred ns
         then List.find (\<lambda>r. m_owner r = owner \<and> m_namespace r = ns) (messages db) else None)"

text \<open>
  The insertion of a message whose hash is not stored: a new row, or the replacement of the
  outbox message if the new one is newer. The result is the id of the row and whether it was
  inserted, as \<open>inserted_row\<close> tells; no result means that nothing changed.
\<close>

definition insert_message :: "int \<Rightarrow> message \<Rightarrow> database \<Rightarrow> database \<times> (int \<times> bool) option" where
  "insert_message owner msg db =
     (case outbox_conflict db owner msg of
        None \<Rightarrow> let i = next_rowid (map m_id (messages db))
                in (append_message (message_row_of i owner msg) db, Some (i, True))
      | Some old \<Rightarrow>
          if to_epoch_ms (msg_timestamp msg) > m_timestamp old
          then (update_messages (\<lambda>r. m_id r = m_id old)
                  (\<lambda>r. r\<lparr>m_hash := msg_hash msg, m_timestamp := to_epoch_ms (msg_timestamp msg),
                         m_expiry := to_epoch_ms (msg_expiry msg), m_data := msg_data msg\<rparr>) db,
                Some (m_id old, False))
          else (db, None))"

definition find_hash :: "database \<Rightarrow> string \<Rightarrow> message_row option" where
  "find_hash db hash = List.find (\<lambda>r. m_hash r = hash) (messages db)"

definition get_or_insert_owner :: "(string \<Rightarrow> u64) \<Rightarrow> user_pubkey \<Rightarrow> database \<Rightarrow> database \<times> int" where
  "get_or_insert_owner load_big pk db =
     (case owner_id_of db pk of Some i \<Rightarrow> (db, i) | None \<Rightarrow> insert_owner load_big pk db)"

text \<open>
  The body of the transaction of \<open>store\<close>. The pair on the left is the database that is
  committed; no pair means an early return, which rolls back.
\<close>

definition store_body ::
    "(string \<Rightarrow> u64) \<Rightarrow> message \<Rightarrow> database \<Rightarrow> (database \<times> bool) option \<times> store_outcome" where
  "store_body load_big msg db =
     (let (db1, owner_id) = get_or_insert_owner load_big (msg_pubkey msg) db;
          new_exp = to_epoch_ms (msg_expiry msg)
      in case find_hash db1 (msg_hash msg) of
           Some row \<Rightarrow>
             let e = (case deferred_expiry_of db1 (msg_hash msg) owner_id of
                        Some d \<Rightarrow> max (m_expiry row) d | None \<Rightarrow> m_expiry row)
             in if e < new_exp
                then (Some (forget_deferred (msg_hash msg)
                        (update_messages (\<lambda>r. m_id r = m_id row) (\<lambda>r. r\<lparr>m_expiry := new_exp\<rparr>) db1), False),
                      \<lparr>so_result = Extended, so_expiry = Some (from_epoch_ms new_exp), so_id = None\<rparr>)
                else (Some (db1, False),
                      \<lparr>so_result = Exists, so_expiry = Some (from_epoch_ms e), so_id = None\<rparr>)
         | None \<Rightarrow>
             (case insert_message owner_id msg db1 of
                (_, None) \<Rightarrow> (None, \<lparr>so_result = Obsolete, so_expiry = None, so_id = None\<rparr>)
              | (db2, Some (i, added)) \<Rightarrow>
                  (Some (db2, added),
                   \<lparr>so_result = New, so_expiry = Some (msg_expiry msg), so_id = Some i\<rparr>)))"

text \<open>
  The handler of a full disk: the transaction is rolled back, but what was changed in memory
  stays. The extension of a message has dropped its deferred entry by the time of the commit.
\<close>

definition store_full :: "database \<Rightarrow> database" where
  "store_full db = db\<lparr>db_full_counter := db_full_counter db + 1\<rparr>"

definition full_outcome :: store_outcome where
  "full_outcome = \<lparr>so_result = Full, so_expiry = None, so_id = None\<rparr>"

definition store_message ::
    "(string \<Rightarrow> u64) \<Rightarrow> disk \<Rightarrow> message \<Rightarrow> database \<Rightarrow> database \<times> store_outcome" where
  "store_message load_big disk msg db =
     (if disk = Full_In_Statement then (store_full db, full_outcome)
      else case store_body load_big msg db of
        (None, out) \<Rightarrow> (db, out)
      | (Some (db', added), out) \<Rightarrow>
          if disk = Full_At_Commit
          then (store_full (db\<lparr>deferred := deferred db'\<rparr>), out\<lparr>so_result := Full\<rparr>)
          else (if added then db'\<lparr>message_count := message_count db' + 1\<rparr> else db', out))"

section \<open>Bulk storing\<close>

text \<open>
  \<open>INSERT ... ON CONFLICT (hash) DO UPDATE ... ON CONFLICT (owner, namespace) DO UPDATE\<close>: the
  conflict on the hash is handled first.
\<close>

definition bulk_insert :: "int \<Rightarrow> message \<Rightarrow> database \<Rightarrow> database \<times> bool" where
  "bulk_insert owner msg db =
     (case find_hash db (msg_hash msg) of
        Some row \<Rightarrow>
          (update_messages (\<lambda>r. m_id r = m_id row)
             (\<lambda>r. r\<lparr>m_expiry := max (to_epoch_ms (msg_expiry msg)) (m_expiry r)\<rparr>) db, False)
      | None \<Rightarrow>
          (case insert_message owner msg db of
             (_, None) \<Rightarrow> (db, False)
           | (db', Some (_, added)) \<Rightarrow> (db', added)))"

text \<open>
  The loop over the items. Pieces are committed one by one; a piece ends when the clock has
  passed its target, which the argument \<open>piece_end\<close> tells for the number of items left. Owner
  ids are kept for the rest of the piece, and the message count is raised at its end.
\<close>

fun bulk_loop ::
    "(string \<Rightarrow> u64) \<Rightarrow> (nat \<Rightarrow> bool) \<Rightarrow> message list \<Rightarrow> (user_pubkey \<times> int) list \<Rightarrow> int \<Rightarrow>
     database \<Rightarrow> database" where
  "bulk_loop load_big piece_end [] owns added db = db\<lparr>message_count := message_count db + added\<rparr>"
| "bulk_loop load_big piece_end (m # ms) owns added db =
     (let (db1, owns1, added1) =
            (if \<not> pubkey_bool (msg_pubkey m) then (db, owns, added)
             else let (db1, i) = (case map_of owns (msg_pubkey m) of
                                    Some i \<Rightarrow> (db, i)
                                  | None \<Rightarrow> get_or_insert_owner load_big (msg_pubkey m) db);
                      (db2, new) = bulk_insert i m db1
                  in (db2, (msg_pubkey m, i) # owns, added + (if new then 1 else 0)))
      in if ms \<noteq> [] \<and> \<not> piece_end (length ms) then bulk_loop load_big piece_end ms owns1 added1 db1
         else bulk_loop load_big piece_end ms [] 0 (db1\<lparr>message_count := message_count db1 + added1\<rparr>))"

definition bulk_store :: "(string \<Rightarrow> u64) \<Rightarrow> (nat \<Rightarrow> bool) \<Rightarrow> message list \<Rightarrow> database \<Rightarrow> database" where
  "bulk_store load_big piece_end items db = bulk_loop load_big piece_end items [] 0 db"

section \<open>Reading\<close>

text \<open>
  \<open>FROM messages JOIN owners ON messages.owner = owners.id\<close>, and the message made of a row.
  The type column is read as \<open>uint8_t\<close>, the namespace as \<open>int16_t\<close>.
\<close>

definition owner_pubkey :: "owner_row \<Rightarrow> user_pubkey" where
  "owner_pubkey w = \<lparr>network = o_type w mod 256, pubkey = o_pubkey w\<rparr>"

definition join_owners :: "database \<Rightarrow> (owner_row \<times> message_row) list" where
  "join_owners db =
     concat (map (\<lambda>r. map (\<lambda>w. (w, r)) (filter (\<lambda>w. o_id w = m_owner r) (owners db))) (messages db))"

definition row_message :: "user_pubkey \<Rightarrow> message_row \<Rightarrow> message" where
  "row_message pk r =
     \<lparr>msg_pubkey = pk, msg_hash = m_hash r, msg_namespace = word_of_int (m_namespace r),
      msg_timestamp = from_epoch_ms (m_timestamp r), msg_expiry = from_epoch_ms (m_expiry r),
      msg_data = m_data r\<rparr>"

definition retrieve_by_hash :: "time \<Rightarrow> string \<Rightarrow> database \<Rightarrow> message option" where
  "retrieve_by_hash now hash db =
     map_option (\<lambda>(w, r). apply_deferred_msg db (row_message (owner_pubkey w) r))
       (List.find (\<lambda>(_, r). m_hash r = hash \<and> m_expiry r > to_epoch_ms now) (join_owners db))"

definition retrieve_all :: "database \<Rightarrow> message list" where
  "retrieve_all db = apply_deferred db (map (\<lambda>(w, r). row_message (owner_pubkey w) r) (join_owners db))"

text \<open>
  \<open>retrieve\<close>: the limit of the query is one above the number of results asked for, converted
  to \<open>int\<close>; a negative limit is none.
\<close>

definition sql_limit :: "int \<Rightarrow> 'a list \<Rightarrow> 'a list" where
  "sql_limit n xs = (if n < 0 then xs else take (nat n) xs)"

definition to_c_int :: "nat \<Rightarrow> int" where
  "to_c_int n = sint (word_of_nat n :: 32 word)"

definition row_size :: "bool \<Rightarrow> nat \<Rightarrow> message_row \<Rightarrow> nat" where
  "row_size size_b64 per_message_overhead r =
     per_message_overhead + length (m_hash r)
     + (if size_b64 then length (m_data r) * 4 div 3 else length (m_data r))"

fun retrieve_loop ::
    "nat option \<Rightarrow> nat option \<Rightarrow> (message_row \<Rightarrow> nat) \<Rightarrow> message_row list \<Rightarrow> message_row list \<Rightarrow> nat \<Rightarrow>
     message_row list \<times> bool" where
  "retrieve_loop max_results max_size sz [] results agg = (results, False)"
| "retrieve_loop max_results max_size sz (r # rows) results agg =
     (if (case max_results of Some n \<Rightarrow> length results \<ge> n | None \<Rightarrow> False) then (results, True)
      else let agg' = (if max_size = None then agg else agg + sz r)
           in if results \<noteq> [] \<and> (case max_size of Some m \<Rightarrow> agg' > m | None \<Rightarrow> False) then (results, True)
              else retrieve_loop max_results max_size sz rows (results @ [r]) agg')"

definition last_id_of :: "database \<Rightarrow> int \<Rightarrow> namespace_id \<Rightarrow> string \<Rightarrow> int option" where
  "last_id_of db owner ns last_hash =
     (if last_hash = [] then None
      else map_option m_id
        (List.find (\<lambda>r. m_owner r = owner \<and> m_namespace r = to_int ns \<and> m_hash r = last_hash) (messages db)))"

definition retrieve_rows ::
    "time \<Rightarrow> database \<Rightarrow> int \<Rightarrow> namespace_id \<Rightarrow> int option \<Rightarrow> message_row list" where
  "retrieve_rows now db owner ns last_id =
     filter (\<lambda>r. m_owner r = owner \<and> m_namespace r = to_int ns \<and> m_expiry r > to_epoch_ms now
               \<and> (case last_id of Some l \<Rightarrow> m_id r > l | None \<Rightarrow> True)) (messages db)"

definition retrieve ::
    "time \<Rightarrow> user_pubkey \<Rightarrow> namespace_id \<Rightarrow> string \<Rightarrow> nat option \<Rightarrow> nat option \<Rightarrow> bool \<Rightarrow> nat \<Rightarrow>
     database \<Rightarrow> message list \<times> bool" where
  "retrieve now pk ns last_hash max_results max_size size_b64 per_message_overhead db =
     (case owner_id_of db pk of
        None \<Rightarrow> ([], False)
      | Some owner \<Rightarrow>
          let max_results = map_option (max 1) max_results;
              rows = sql_limit (case max_results of Some n \<Rightarrow> to_c_int n + 1 | None \<Rightarrow> - 1)
                       (retrieve_rows now db owner ns (last_id_of db owner ns last_hash));
              (results, more) =
                retrieve_loop max_results max_size (row_size size_b64 per_message_overhead) rows [] 0
          in (apply_deferred db (map (row_message invalid_pubkey) results), more))"

definition retrieve_from_id ::
    "time \<Rightarrow> user_pubkey \<Rightarrow> namespace_id \<Rightarrow> int \<Rightarrow> nat \<Rightarrow> bool \<Rightarrow> database \<Rightarrow> (int \<times> message) list" where
  "retrieve_from_id now pk ns from_id limit newest_first db =
     (let rows = filter (\<lambda>r. Some (m_owner r) = owner_id_of db pk \<and> m_namespace r = to_int ns
                          \<and> m_id r \<ge> from_id \<and> m_expiry r > to_epoch_ms now) (messages db);
          found = take limit (if newest_first then rev rows else rows)
      in zip (map m_id found) (apply_deferred db (map (row_message pk) found)))"

definition count_id_range ::
    "time \<Rightarrow> user_pubkey \<Rightarrow> namespace_id \<Rightarrow> int \<Rightarrow> int \<Rightarrow> database \<Rightarrow> nat" where
  "count_id_range now pk ns from_id before_id db =
     length (filter (\<lambda>r. Some (m_owner r) = owner_id_of db pk \<and> m_namespace r = to_int ns
               \<and> m_id r \<ge> from_id \<and> m_id r < before_id \<and> m_expiry r > to_epoch_ms now) (messages db))"

text \<open>
  The counts. \<open>group_count\<close> is \<open>SELECT key, COUNT(*) ... GROUP BY key\<close>.
\<close>

definition get_message_count :: "database \<Rightarrow> int" where
  "get_message_count db = message_count db"

definition get_owner_count :: "database \<Rightarrow> nat" where
  "get_owner_count db = length (owners db)"

definition group_count :: "('a \<Rightarrow> 'k) \<Rightarrow> 'a list \<Rightarrow> ('k \<times> nat) list" where
  "group_count key xs = map (\<lambda>k. (k, length (filter (\<lambda>x. key x = k) xs))) (remdups (map key xs))"

definition get_message_counts :: "database \<Rightarrow> nat list" where
  "get_message_counts db = map snd (group_count m_owner (messages db))"

definition get_namespace_counts :: "database \<Rightarrow> (int \<times> nat) list" where
  "get_namespace_counts db =
     (let groups = map (\<lambda>((_, ns), n). (ns, n)) (group_count (\<lambda>r. (m_owner r, m_namespace r)) (messages db))
      in map (\<lambda>ns. (ns, sum_list (map snd (filter (\<lambda>g. fst g = ns) groups)))) (remdups (map fst groups)))"

definition get_account_namespace_counts :: "time \<Rightarrow> user_pubkey \<Rightarrow> database \<Rightarrow> (int \<times> nat) list" where
  "get_account_namespace_counts now pk db =
     group_count m_namespace
       (filter (\<lambda>r. Some (m_owner r) = owner_id_of db pk \<and> m_expiry r > to_epoch_ms now) (messages db))"

section \<open>Deleting\<close>

definition delete_and_forget :: "(message_row \<Rightarrow> bool) \<Rightarrow> database \<Rightarrow> database \<times> message_row list" where
  "delete_and_forget P db =
     (let (db', deleted) = delete_messages P db;
          db'' = db'\<lparr>message_count := message_count db' - int (length deleted)\<rparr>
      in (forget_deferred_all (map m_hash deleted) db'', deleted))"

definition delete_all :: "user_pubkey \<Rightarrow> database \<Rightarrow> database \<times> (namespace_id \<times> string) list" where
  "delete_all pk db =
     (let (db', deleted) = delete_and_forget (\<lambda>r. Some (m_owner r) = owner_id_of db pk) db
      in (db', map (\<lambda>r. (word_of_int (m_namespace r), m_hash r)) deleted))"

definition delete_all_in :: "user_pubkey \<Rightarrow> namespace_id \<Rightarrow> database \<Rightarrow> database \<times> string list" where
  "delete_all_in pk ns db =
     (let (db', deleted) = delete_and_forget
            (\<lambda>r. Some (m_owner r) = owner_id_of db pk \<and> m_namespace r = to_int ns) db
      in (db', map m_hash deleted))"

definition delete_by_timestamp ::
    "user_pubkey \<Rightarrow> time \<Rightarrow> database \<Rightarrow> database \<times> (namespace_id \<times> string) list" where
  "delete_by_timestamp pk timestamp db =
     (let (db', deleted) = delete_and_forget
            (\<lambda>r. Some (m_owner r) = owner_id_of db pk \<and> m_timestamp r \<le> to_epoch_ms timestamp) db
      in (db', map (\<lambda>r. (word_of_int (m_namespace r), m_hash r)) deleted))"

definition delete_by_timestamp_in ::
    "user_pubkey \<Rightarrow> namespace_id \<Rightarrow> time \<Rightarrow> database \<Rightarrow> database \<times> string list" where
  "delete_by_timestamp_in pk ns timestamp db =
     (let (db', deleted) = delete_and_forget
            (\<lambda>r. Some (m_owner r) = owner_id_of db pk \<and> m_timestamp r \<le> to_epoch_ms timestamp
                 \<and> m_namespace r = to_int ns) db
      in (db', map m_hash deleted))"

text \<open>
  \<open>delete_by_hash\<close> runs one statement for each hash, and lists the hashes whose statement
  deleted something.
\<close>

fun delete_hash_loop :: "int \<Rightarrow> string list \<Rightarrow> database \<Rightarrow> database \<times> string list" where
  "delete_hash_loop owner [] db = (db, [])"
| "delete_hash_loop owner (hash # hashes) db =
     (let (db1, gone) = delete_messages (\<lambda>r. m_hash r = hash \<and> m_owner r = owner) db;
          (db2, deleted) = delete_hash_loop owner hashes db1
      in (db2, if gone \<noteq> [] then hash # deleted else deleted))"

definition delete_by_hash :: "user_pubkey \<Rightarrow> string list \<Rightarrow> database \<Rightarrow> database \<times> string list" where
  "delete_by_hash pk hashes db =
     (case owner_id_of db pk of
        None \<Rightarrow> (db, [])
      | Some owner \<Rightarrow>
          let (db1, deleted) = delete_hash_loop owner hashes db;
              db2 = db1\<lparr>message_count := message_count db1 - int (length deleted)\<rparr>
          in (forget_deferred_all deleted db2, deleted))"

text \<open>
  \<open>delete_in_chunks\<close>: the statement is run again until it deletes less than a full chunk. The
  statement, a function of the database, reports the number of rows it deleted. Where one
  transaction ends and the next begins makes no difference to the result.
\<close>

definition EXPIRY_DELETE_CHUNK :: nat where "EXPIRY_DELETE_CHUNK = 25"

partial_function (option) delete_in_chunks ::
    "('db \<Rightarrow> 'db \<times> nat) \<Rightarrow> 'db \<Rightarrow> nat \<Rightarrow> ('db \<times> nat) option" where
  "delete_in_chunks stmt db n_total =
     (let (db', deleted) = stmt db
      in if deleted = EXPIRY_DELETE_CHUNK then delete_in_chunks stmt db' (n_total + deleted)
         else Some (db', n_total + deleted))"

text \<open>
  The statement of \<open>clean_expired\<close>: the expired rows in the order of their expiry, at most one
  chunk of them; the argument \<open>by_expiry\<close> is the sort, which leaves the order of ties open.
\<close>

definition clean_statement ::
    "(message_row list \<Rightarrow> message_row list) \<Rightarrow> int \<Rightarrow> database \<Rightarrow> database \<times> nat" where
  "clean_statement by_expiry cutoff db =
     (let ids = map m_id (take EXPIRY_DELETE_CHUNK
                  (by_expiry (filter (\<lambda>r. m_expiry r \<le> cutoff) (messages db))));
          (db', deleted) = delete_messages (\<lambda>r. m_id r \<in> set ids) db
      in (db', length deleted))"

definition clean_expired ::
    "(message_row list \<Rightarrow> message_row list) \<Rightarrow> time \<Rightarrow> database \<Rightarrow> database option" where
  "clean_expired by_expiry now db =
     map_option (\<lambda>(db', n_total). db'\<lparr>message_count := message_count db' - int n_total\<rparr>)
       (delete_in_chunks (clean_statement by_expiry (to_epoch_ms now)) db 0)"

section \<open>Storing keeps the constraints\<close>

lemma find_hash_Some: "find_hash db h = Some r \<Longrightarrow> r \<in> set (messages db) \<and> m_hash r = h"
  by (auto simp: find_hash_def dest: find_Some_in)

lemma find_hash_None: "find_hash db h = None \<longleftrightarrow> h \<notin> m_hash ` set (messages db)"
  by (auto simp: find_hash_def find_None_all)

lemma find_hash_eq: "distinct (map m_hash (messages db)) \<Longrightarrow> r \<in> set (messages db) \<Longrightarrow> find_hash db (m_hash r) = Some r"
  by (simp add: find_hash_def find_unique)

lemma tables_ok_distinct:
  "tables_ok lb db \<Longrightarrow> distinct (map m_hash (messages db))"
  "tables_ok lb db \<Longrightarrow> sorted_wrt (<) (map m_id (messages db))"
  by (simp_all add: tables_ok_def messages_ok_def)

lemma get_or_insert_owner_ok:
  assumes "tables_ok lb db" and "get_or_insert_owner lb pk db = (db', i)"
  shows "tables_ok lb db'" and "owner_id_of db' pk = Some i" and "db' = db\<lparr>owners := owners db'\<rparr>"
    and "i \<in> o_id ` set (owners db')" and "set (owners db) \<subseteq> set (owners db')"
proof -
  show "tables_ok lb db'"
    using assms by (auto simp: get_or_insert_owner_def split: option.splits intro: insert_owner_ok)
  show o: "owner_id_of db' pk = Some i"
    using assms owners_ok_insert(2)
    by (auto simp: get_or_insert_owner_def tables_ok_def split: option.splits)
  then show "i \<in> o_id ` set (owners db')" by (rule owner_id_of_in)
  show "db' = db\<lparr>owners := owners db'\<rparr>"
    using assms(2) insert_owner_results(1) [of lb pk db db' i]
    by (auto simp: get_or_insert_owner_def split: option.splits)
  show "set (owners db) \<subseteq> set (owners db')"
    using assms(2) by (auto simp: get_or_insert_owner_def insert_owner_def Let_def split: option.splits)
qed

lemma outbox_conflict_Some:
  "outbox_conflict db owner msg = Some old \<Longrightarrow>
   old \<in> set (messages db) \<and> m_owner old = owner \<and> m_namespace old = to_int (msg_namespace msg)
   \<and> outbox_index_pred (m_namespace old)"
  by (auto simp: outbox_conflict_def Let_def dest!: find_Some_in split: if_splits)

lemma outbox_conflict_None:
  "outbox_conflict db owner msg = None \<longleftrightarrow>
   \<not> (outbox_index_pred (to_int (msg_namespace msg)) \<and>
      (\<exists>x \<in> set (messages db). m_owner x = owner \<and> m_namespace x = to_int (msg_namespace msg)))"
  by (auto simp: outbox_conflict_def Let_def find_None_all)

definition replace_row :: "message_row \<Rightarrow> message \<Rightarrow> message_row" where
  "replace_row old msg = old\<lparr>m_hash := msg_hash msg, m_timestamp := to_epoch_ms (msg_timestamp msg),
     m_expiry := to_epoch_ms (msg_expiry msg), m_data := msg_data msg\<rparr>"

lemma replace_row_simps [simp]:
  "m_id (replace_row r msg) = m_id r" "m_owner (replace_row r msg) = m_owner r"
  "m_namespace (replace_row r msg) = m_namespace r"
  "m_timestamp (replace_row r msg) = to_epoch_ms (msg_timestamp msg)"
  "m_expiry (replace_row r msg) = to_epoch_ms (msg_expiry msg)" "m_data (replace_row r msg) = msg_data msg"
  by (simp_all add: replace_row_def)

lemma replace_row_hash [simp]: "m_hash (replace_row r msg) = msg_hash msg"
  by (simp add: replace_row_def)

text \<open>The three ways an insertion can go.\<close>

lemma insert_message_cases:
  obtains (inserted) "outbox_conflict db owner msg = None"
      "insert_message owner msg db =
         (append_message (message_row_of (next_rowid (map m_id (messages db))) owner msg) db,
          Some (next_rowid (map m_id (messages db)), True))"
  | (replaced) old where "outbox_conflict db owner msg = Some old"
      "to_epoch_ms (msg_timestamp msg) > m_timestamp old"
      "insert_message owner msg db =
         (update_messages (\<lambda>r. m_id r = m_id old) (\<lambda>r. replace_row r msg) db, Some (m_id old, False))"
  | (older) old where "outbox_conflict db owner msg = Some old"
      "\<not> to_epoch_ms (msg_timestamp msg) > m_timestamp old"
      "insert_message owner msg db = (db, None)"
  by (cases "outbox_conflict db owner msg") (auto simp: insert_message_def replace_row_def Let_def)

lemma replace_ok:
  assumes ok: "tables_ok lb db" and old: "old \<in> set (messages db)" and h: "msg_hash msg \<notin> m_hash ` set (messages db)"
  shows "tables_ok lb (update_messages (\<lambda>r. m_id r = m_id old) (\<lambda>r. replace_row r msg) db)"
proof (rule update_messages_ok [OF ok])
  show "distinct (map (\<lambda>r. m_hash (if m_id r = m_id old then replace_row r msg else r)) (messages db))"
    using distinct_map_replace [of m_hash "messages db" m_id "msg_hash msg" "m_id old"]
      tables_ok_distinct [OF ok] h
    unfolding if_distrib [of m_hash] replace_row_hash by (simp add: strict_sorted_iff)
qed simp_all

lemma insert_message_ok [inv_intros]:
  assumes ok: "tables_ok lb db" and o: "owner \<in> o_id ` set (owners db)" and h: "find_hash db (msg_hash msg) = None"
  shows "tables_ok lb (fst (insert_message owner msg db))"
proof (cases rule: insert_message_cases [of db owner msg])
  case inserted
  then show ?thesis
    using o h
    by (auto simp: message_row_of_def outbox_conflict_None find_hash_None intro!: append_message_ok [OF ok])
next
  case (replaced old)
  then show ?thesis
    using h outbox_conflict_Some by (auto simp: find_hash_None intro!: replace_ok [OF ok])
next
  case older
  then show ?thesis using ok by simp
qed

lemma insert_message_frame:
  assumes "insert_message owner msg db = (db', res)"
  shows "db' = db\<lparr>messages := messages db'\<rparr>"
    and "length (messages db') = length (messages db) + (case res of Some (_, True) \<Rightarrow> 1 | _ \<Rightarrow> 0)"
  using assms
  by (cases rule: insert_message_cases [of db owner msg];
      auto simp: append_message_def update_messages_def)+


text \<open>The invariant of the database as a whole.\<close>

definition db_inv :: "(string \<Rightarrow> u64) \<Rightarrow> database \<Rightarrow> bool" where
  "db_inv lb db \<longleftrightarrow> db_ok lb db \<and> deferred_ok db"

lemma forget_deferred_frame [row_simps]:
  "tables_ok lb (forget_deferred h db) = tables_ok lb db"
  "messages (forget_deferred h db) = messages db"
  "owners (forget_deferred h db) = owners db"
  "message_count (forget_deferred h db) = message_count db"
  "count_ok (forget_deferred h db) = count_ok db"
  by (simp_all add: forget_deferred_def tables_ok_def count_ok_def)

lemma deferred_ok_forget [inv_intros]: "deferred_ok db \<Longrightarrow> deferred_ok (forget_deferred h db)"
  by (auto simp: deferred_ok_def forget_deferred_def distinct_delete set_alist_delete)

lemma deferred_ok_cong:
  "deferred db' = deferred db \<Longrightarrow> deferred_queue db' = deferred_queue db \<Longrightarrow> deferred_ok db' = deferred_ok db"
  by (simp add: deferred_ok_def)

lemma store_body_inv:
  assumes "tables_ok lb db" and "deferred_ok db" and "store_body lb msg db = (Some (db', added), out)"
  shows "tables_ok lb db'" and "deferred_ok db'" and "deferred_ok (db\<lparr>deferred := deferred db'\<rparr>)"
    and "message_count db' = message_count db"
    and "length (messages db') = length (messages db) + (if added then 1 else 0)"
proof -
  obtain db1 i where g: "get_or_insert_owner lb (msg_pubkey msg) db = (db1, i)"
    by (cases "get_or_insert_owner lb (msg_pubkey msg) db")
  note o = get_or_insert_owner_ok [OF assms(1) g]
  have f: "messages db1 = messages db" "message_count db1 = message_count db" "deferred db1 = deferred db"
      "deferred_queue db1 = deferred_queue db"
    by (subst o(3), simp)+
  have d1: "deferred_ok db1" using assms(2) deferred_ok_cong [of db1 db] f by simp
  have "tables_ok lb db' \<and> deferred_ok db' \<and> deferred_ok (db\<lparr>deferred := deferred db'\<rparr>)
    \<and> message_count db' = message_count db
    \<and> length (messages db') = length (messages db) + (if added then 1 else 0)"
  proof (cases "find_hash db1 (msg_hash msg)")
    case (Some row)
    let ?u = "update_messages (\<lambda>r. m_id r = m_id row) (\<lambda>r. r\<lparr>m_expiry := to_epoch_ms (msg_expiry msg)\<rparr>) db1"
    have u: "tables_ok lb ?u" by (rule update_expiry_ok [OF o(1)])
    have "db' = db1 \<or> db' = forget_deferred (msg_hash msg) ?u" and "\<not> added"
      using assms(3) Some by (auto simp: store_body_def g Let_def split: if_splits)
    moreover have "deferred_ok (forget_deferred (msg_hash msg) ?u)"
      using d1 by (intro deferred_ok_forget) (simp add: deferred_ok_def update_messages_def)
    moreover have "deferred_ok (db\<lparr>deferred := deferred (forget_deferred (msg_hash msg) ?u)\<rparr>)"
      using deferred_ok_forget [OF assms(2), of "msg_hash msg"] f
      by (simp add: forget_deferred_def update_messages_def deferred_ok_def)
    ultimately show ?thesis
      using o(1) d1 u f assms(2)
      by (auto simp: forget_deferred_frame, simp_all add: update_messages_def deferred_ok_def)
  next
    case None
    obtain db2 j where n: "insert_message i msg db1 = (db2, Some (j, added))" "db' = db2"
      using assms(3) None by (auto simp: store_body_def g Let_def split: prod.splits option.splits)
    note fr = insert_message_frame [OF n(1)]
    have "tables_ok lb db2" using insert_message_ok [OF o(1,4) None] n(1) by simp
    moreover have "deferred db2 = deferred db" "deferred_queue db2 = deferred_queue db"
        "message_count db2 = message_count db"
      using f by (subst fr(1), simp)+
    ultimately show ?thesis
      using fr(2) f n(2) assms(2) deferred_ok_cong [of db2 db] by (auto simp: deferred_ok_def)
  qed
  then show "tables_ok lb db'" and "deferred_ok db'" and "deferred_ok (db\<lparr>deferred := deferred db'\<rparr>)"
    and "message_count db' = message_count db"
    and "length (messages db') = length (messages db) + (if added then 1 else 0)"
    by blast+
qed

lemma store_message_inv [inv_intros]: "db_inv lb db \<Longrightarrow> db_inv lb (fst (store_message lb disk msg db))"
proof -
  assume inv: "db_inv lb db"
  then have ok: "tables_ok lb db" "deferred_ok db" "count_ok db" by (simp_all add: db_inv_def db_ok_def)
  have full: "db_inv lb (store_full db')" if "db_inv lb db'" for db'
    using that by (simp add: db_inv_def db_ok_def store_full_def tables_ok_def count_ok_def deferred_ok_def)
  show ?thesis
  proof (cases "store_body lb msg db")
    case (Pair res out)
    then show ?thesis
    proof (cases res)
      case None
      with Pair inv full [OF inv] show ?thesis by (simp add: store_message_def)
    next
      case (Some x)
      obtain db' added where x: "x = (db', added)" by (cases x)
      have s: "store_body lb msg db = (Some (db', added), out)" using Pair Some x by simp
      note b = store_body_inv [OF ok(1,2) s]
      have "db_inv lb (db\<lparr>deferred := deferred db'\<rparr>)"
        using inv b(3) by (simp add: db_inv_def db_ok_def tables_ok_def count_ok_def)
      from full [OF this] full [OF inv] show ?thesis
        using b ok(3)
        by (auto simp: store_message_def s db_inv_def db_ok_def count_ok_def tables_ok_def deferred_ok_def)
    qed
  qed
qed

section \<open>What storing does\<close>

text \<open>Every message has one owner row, so the join lists every message once.\<close>

definition owner_row_of :: "database \<Rightarrow> message_row \<Rightarrow> owner_row" where
  "owner_row_of db r = the (List.find (\<lambda>w. o_id w = m_owner r) (owners db))"

lemma owner_row_of_eq:
  assumes "tables_ok lb db" and "w \<in> set (owners db)" and "o_id w = m_owner r"
  shows "owner_row_of db r = w"
  using find_unique [of o_id "owners db" w "m_owner r"] assms
  by (simp add: owner_row_of_def tables_ok_def owners_ok_def strict_sorted_iff)

lemma join_owners_eq:
  assumes ok: "tables_ok lb db"
  shows "join_owners db = map (\<lambda>r. (owner_row_of db r, r)) (messages db)"
proof -
  have d: "distinct (map o_id (owners db))" using ok by (simp add: tables_ok_def owners_ok_def strict_sorted_iff)
  have "map (\<lambda>w. (w, r)) (filter (\<lambda>w. o_id w = m_owner r) (owners db)) = [(owner_row_of db r, r)]"
    if r: "r \<in> set (messages db)" for r
  proof -
    obtain w where w: "w \<in> set (owners db)" "o_id w = m_owner r"
      using ok r by (force simp: tables_ok_def messages_ok_def)
    show ?thesis using filter_unique [OF d w(1)] owner_row_of_eq [OF ok w] w(2) by simp
  qed
  then have "concat (map (\<lambda>r. map (\<lambda>w. (w, r)) (filter (\<lambda>w. o_id w = m_owner r) (owners db))) (messages db))
      = concat (map (\<lambda>r. [(owner_row_of db r, r)]) (messages db))"
    by (intro arg_cong [of _ _ concat] map_cong refl)
  then show ?thesis by (simp add: join_owners_def)
qed

lemma retrieve_by_hash_eq:
  assumes ok: "tables_ok lb db"
  shows "retrieve_by_hash now hash db =
     (case find_hash db hash of
        Some r \<Rightarrow> if m_expiry r > to_epoch_ms now
                  then Some (apply_deferred_msg db (row_message (owner_pubkey (owner_row_of db r)) r)) else None
      | None \<Rightarrow> None)"
  using find_conj [OF tables_ok_distinct(1) [OF ok], of hash "\<lambda>r. m_expiry r > to_epoch_ms now"]
  by (auto simp: retrieve_by_hash_def join_owners_eq [OF ok] find_map_snd find_hash_def split: option.splits)

text \<open>Looking up a hash after a change.\<close>

lemma find_hash_append: "find_hash (append_message r db) h =
    (case find_hash db h of Some x \<Rightarrow> Some x | None \<Rightarrow> if m_hash r = h then Some r else None)"
  by (simp add: find_hash_def append_message_def find_append split: option.splits)

lemma find_hash_update_expiry:
  "find_hash (update_messages Q (\<lambda>r. r\<lparr>m_expiry := g r\<rparr>) db) h =
     map_option (\<lambda>r. if Q r then r\<lparr>m_expiry := g r\<rparr> else r) (find_hash db h)"
  unfolding find_hash_def update_messages_def by (simp, rule find_map_same) simp

lemma find_hash_replace:
  assumes ok: "tables_ok lb db" and old: "old \<in> set (messages db)" and h: "find_hash db (msg_hash msg) = None"
  shows "find_hash (update_messages (\<lambda>r. m_id r = m_id old) (\<lambda>r. replace_row r msg) db) h =
     (if h = msg_hash msg then Some (replace_row old msg)
      else if h = m_hash old then None else find_hash db h)"
proof -
  let ?g = "\<lambda>r. if m_id r = m_id old then replace_row r msg else r"
  have inj: "m_id r = m_id old \<longleftrightarrow> r = old" if "r \<in> set (messages db)" for r
    using sorted_map_inj [OF tables_ok_distinct(2) [OF ok] that old] by auto
  have hi: "m_hash r = m_hash old \<longleftrightarrow> r = old" if "r \<in> set (messages db)" for r
    using distinct_map_inj [OF tables_ok_distinct(1) [OF ok] that old] by auto
  have nh: "m_hash r \<noteq> msg_hash msg" if "r \<in> set (messages db)" for r
    using h that by (metis find_hash_None imageI)
  have "find_hash (update_messages (\<lambda>r. m_id r = m_id old) (\<lambda>r. replace_row r msg) db) h =
      List.find (\<lambda>r. m_hash r = h) (map ?g (messages db))"
    by (simp add: find_hash_def update_messages_def)
  also have "\<dots> = map_option ?g (List.find (\<lambda>r. m_hash (?g r) = h) (messages db))"
    by (rule find_map_same) simp
  also have "List.find (\<lambda>r. m_hash (?g r) = h) (messages db) =
      (if h = msg_hash msg then Some old else if h = m_hash old then None
       else List.find (\<lambda>r. m_hash r = h) (messages db))"
  proof -
    consider "h = msg_hash msg" | "h \<noteq> msg_hash msg" "h = m_hash old" | "h \<noteq> msg_hash msg" "h \<noteq> m_hash old" by blast
    then show ?thesis
    proof cases
      case 1
      then have "List.find (\<lambda>r. m_hash (?g r) = h) (messages db) = List.find (\<lambda>r. m_id r = m_id old) (messages db)"
        using nh by (intro find_cong refl) auto
      moreover have "\<dots> = Some old"
        using tables_ok_distinct(2) [OF ok] old by (intro find_unique) (simp_all add: strict_sorted_iff)
      ultimately show ?thesis using 1 by simp
    next
      case 2
      then show ?thesis using inj hi by (auto simp: find_None_all)
    next
      case 3
      then show ?thesis using inj by (auto intro!: find_cong)
    qed
  qed
  finally have eq: "find_hash (update_messages (\<lambda>r. m_id r = m_id old) (\<lambda>r. replace_row r msg) db) h =
      map_option ?g (if h = msg_hash msg then Some old else if h = m_hash old then None else find_hash db h)"
    by (simp add: find_hash_def)
  have "map_option ?g (find_hash db h) = find_hash db h" if "h \<noteq> m_hash old"
    using inj find_hash_Some [of db h] that by (cases "find_hash db h") auto
  then show ?thesis unfolding eq by simp
qed

lemma row_message_roundtrip:
  assumes "pubkey_valid (msg_pubkey msg)" and "o_type w = network (msg_pubkey msg)"
    and "o_pubkey w = pubkey (msg_pubkey msg)"
  shows "row_message (owner_pubkey w) (message_row_of i owner msg) =
     msg\<lparr>msg_timestamp := from_epoch_ms (to_epoch_ms (msg_timestamp msg)),
         msg_expiry := from_epoch_ms (to_epoch_ms (msg_expiry msg))\<rparr>"
  using assms
  by (cases msg; cases "msg_pubkey msg")
     (simp add: row_message_def message_row_of_def owner_pubkey_def pubkey_valid_def to_int_def)

text \<open>
  The outcome of a store on a disk that is not full.
\<close>

definition store_effect :: "(string \<Rightarrow> u64) \<Rightarrow> message \<Rightarrow> database \<Rightarrow> database \<Rightarrow> store_outcome \<Rightarrow> bool" where
  "store_effect lb msg db db' out \<longleftrightarrow>
     (case so_result out of
        New \<Rightarrow> find_hash db (msg_hash msg) = None
          \<and> (\<exists>i owner. so_id out = Some i \<and> owner_id_of db' (msg_pubkey msg) = Some owner
               \<and> find_hash db' (msg_hash msg) = Some (message_row_of i owner msg))
          \<and> deferred db' = deferred db
      | Extended \<Rightarrow>
          (\<exists>row. find_hash db (msg_hash msg) = Some row \<and> m_expiry row < to_epoch_ms (msg_expiry msg)
             \<and> find_hash db' (msg_hash msg) = Some (row\<lparr>m_expiry := to_epoch_ms (msg_expiry msg)\<rparr>))
          \<and> map_of (deferred db') (msg_hash msg) = None
          \<and> so_expiry out = Some (from_epoch_ms (to_epoch_ms (msg_expiry msg)))
      | Exists \<Rightarrow>
          (\<exists>row e. find_hash db (msg_hash msg) = Some row \<and> find_hash db' (msg_hash msg) = Some row
             \<and> so_expiry out = Some (from_epoch_ms e) \<and> to_epoch_ms (msg_expiry msg) \<le> e
             \<and> (owner_id_of db (msg_pubkey msg) = Some (m_owner row) \<longrightarrow> e = effective_expiry db row))
          \<and> deferred db' = deferred db
      | Obsolete \<Rightarrow> db' = db
          \<and> (\<exists>owner old. owner_id_of db (msg_pubkey msg) = Some owner
               \<and> outbox_conflict db owner msg = Some old
               \<and> to_epoch_ms (msg_timestamp msg) \<le> m_timestamp old)
      | Full \<Rightarrow> False)"

lemma new_owner_no_messages:
  assumes ok: "tables_ok lb db" and n: "owner_id_of db pk = None" and g: "get_or_insert_owner lb pk db = (db', i)"
  shows "r \<in> set (messages db) \<Longrightarrow> m_owner r \<noteq> i"
proof -
  have "i = next_rowid (map o_id (owners db))"
    using n g by (simp add: get_or_insert_owner_def insert_owner_def Let_def)
  then have "i \<notin> o_id ` set (owners db)"
    using next_rowid_greater [of i "map o_id (owners db)"] by auto
  then show "r \<in> set (messages db) \<Longrightarrow> m_owner r \<noteq> i"
    using ok by (auto simp: tables_ok_def messages_ok_def)
qed

lemma old_owner:
  assumes ok: "tables_ok lb db" and g: "get_or_insert_owner lb pk db = (db', i)"
    and r: "r \<in> set (messages db)" "m_owner r = i"
  shows "owner_id_of db pk = Some i"
proof (cases "owner_id_of db pk")
  case None
  then show ?thesis using new_owner_no_messages [OF ok None g r(1)] r(2) by simp
next
  case (Some k)
  then show ?thesis using g by (simp add: get_or_insert_owner_def)
qed

definition others_kept :: "message \<Rightarrow> database \<Rightarrow> database \<Rightarrow> bool" where
  "others_kept msg db db' \<longleftrightarrow>
     (\<forall>r \<in> set (messages db). m_hash r \<noteq> msg_hash msg \<longrightarrow>
        r \<in> set (messages db')
        \<or> (owner_id_of db (msg_pubkey msg) = Some (m_owner r) \<and> outbox_index_pred (m_namespace r)
           \<and> m_namespace r = to_int (msg_namespace msg) \<and> m_timestamp r < to_epoch_ms (msg_timestamp msg)))"

lemma store_existing:
  assumes ok: "tables_ok lb db" and g: "get_or_insert_owner lb (msg_pubkey msg) db = (db1, i)"
    and row: "find_hash db1 (msg_hash msg) = Some row"
    and b: "store_body lb msg db = (Some (db', added), out)"
  shows "store_effect lb msg db db' out \<and> others_kept msg db db'"
proof -
  note o = get_or_insert_owner_ok [OF ok g]
  have f: "messages db1 = messages db" "deferred db1 = deferred db" by (subst o(3), simp)+
  have row': "find_hash db (msg_hash msg) = Some row" using row f by (simp add: find_hash_def)
  let ?e = "case deferred_expiry_of db1 (msg_hash msg) i of Some d \<Rightarrow> max (m_expiry row) d | None \<Rightarrow> m_expiry row"
  have ge: "m_expiry row \<le> ?e" by (simp split: option.splits)
  have own: "i = j" if "owner_id_of db (msg_pubkey msg) = Some j" for j
    using that g by (simp add: get_or_insert_owner_def)
  have e: "?e = effective_expiry db row" if "owner_id_of db (msg_pubkey msg) = Some (m_owner row)"
    using own [OF that] find_hash_Some [OF row']
    by (auto simp: deferred_expiry_of_def effective_expiry_def cache_expiry_def f split: option.splits)
  show ?thesis
  proof (cases "?e < to_epoch_ms (msg_expiry msg)")
    case True
    let ?u = "update_messages (\<lambda>r. m_id r = m_id row) (\<lambda>r. r\<lparr>m_expiry := to_epoch_ms (msg_expiry msg)\<rparr>) db1"
    have r: "db' = forget_deferred (msg_hash msg) ?u" "so_result out = Extended"
        "so_expiry out = Some (from_epoch_ms (to_epoch_ms (msg_expiry msg)))"
      using b True row by (auto simp: store_body_def g Let_def)
    have "find_hash db' (msg_hash msg) = Some (row\<lparr>m_expiry := to_epoch_ms (msg_expiry msg)\<rparr>)"
      using row find_hash_update_expiry [of "\<lambda>r. m_id r = m_id row"
          "\<lambda>r. to_epoch_ms (msg_expiry msg)" db1 "msg_hash msg"]
      by (simp add: r find_hash_def forget_deferred_frame)
    moreover have "m_expiry row < to_epoch_ms (msg_expiry msg)" using True ge by linarith
    moreover have "map_of (deferred db') (msg_hash msg) = None"
      by (simp add: r forget_deferred_def map_of_alist_delete)
    moreover have "m_id x \<noteq> m_id row" if "x \<in> set (messages db)" "m_hash x \<noteq> msg_hash msg" for x
      using sorted_map_inj [OF tables_ok_distinct(2) [OF ok], of x row] find_hash_Some [OF row'] that by auto
    then have "others_kept msg db db'"
      by (force simp: others_kept_def r forget_deferred_frame update_messages_def f)
    ultimately show ?thesis using row' r by (simp add: store_effect_def)
  next
    case False
    then have "db' = db1" "so_result out = Exists" "so_expiry out = Some (from_epoch_ms ?e)"
      using b row by (auto simp: store_body_def g Let_def)
    then show ?thesis
      using row row' e False f unfolding store_effect_def others_kept_def by (auto simp del: not_less simp: not_less)
  qed
qed

lemma store_inserting:
  assumes ok: "tables_ok lb db" and g: "get_or_insert_owner lb (msg_pubkey msg) db = (db1, i)"
    and none: "find_hash db1 (msg_hash msg) = None"
    and n: "insert_message i msg db1 = (db', Some (j, added))"
    and out: "so_result out = New" "so_id out = Some j"
  shows "store_effect lb msg db db' out \<and> others_kept msg db db'"
proof -
  note o = get_or_insert_owner_ok [OF ok g]
  have f: "messages db1 = messages db" "deferred db1 = deferred db" by (subst o(3), simp)+
  note fr = insert_message_frame [OF n]
  have "owners db' = owners db1" by (subst fr(1), simp)
  from owner_id_of_cong [OF this] have own: "owner_id_of db' (msg_pubkey msg) = Some i" using o(2) by simp
  have d: "deferred db' = deferred db" by (subst fr(1), simp add: f)
  have none': "find_hash db (msg_hash msg) = None" using none f by (simp add: find_hash_def)
  have "find_hash db' (msg_hash msg) = Some (message_row_of j i msg) \<and> others_kept msg db db'"
  proof (cases rule: insert_message_cases [of db1 i msg])
    case inserted
    then have db': "db' = append_message (message_row_of j i msg) db1" using n by auto
    have "find_hash db' (msg_hash msg) = Some (message_row_of j i msg)"
      unfolding db' find_hash_append using none by (simp add: message_row_of_def)
    moreover have "others_kept msg db db'" by (simp add: db' others_kept_def append_message_def f)
    ultimately show ?thesis by simp
  next
    case (replaced old)
    note c = outbox_conflict_Some [OF replaced(1)]
    have db': "db' = update_messages (\<lambda>r. m_id r = m_id old) (\<lambda>r. replace_row r msg) db1" "j = m_id old"
      using n replaced(3) by auto
    have "find_hash db' (msg_hash msg) = Some (replace_row old msg)"
      using find_hash_replace [OF o(1) _ none, of old "msg_hash msg"] c by (simp add: db')
    moreover have "replace_row old msg = message_row_of j i msg"
      using c by (cases old) (simp add: replace_row_def message_row_of_def db')
    moreover have "owner_id_of db (msg_pubkey msg) = Some i"
      using old_owner [OF ok g, of old] c f by simp
    moreover have "r = old \<or> r \<in> set (messages db')" if r: "r \<in> set (messages db)" for r
    proof (cases "m_id r = m_id old")
      case True
      then show ?thesis using sorted_map_inj [OF tables_ok_distinct(2) [OF ok] r] c f by simp
    next
      case False
      then show ?thesis using r by (auto simp: db' update_messages_def f)
    qed
    ultimately show ?thesis using c replaced(2) by (auto simp: others_kept_def)
  next
    case older
    with n show ?thesis by simp
  qed
  then show ?thesis using none' own d out by (auto simp: store_effect_def)
qed

lemma store_message_cases:
  assumes "store_message lb Disk_Ok msg db = (db', out)"
  obtains db1 added where "store_body lb msg db = (Some (db1, added), out)"
      "messages db' = messages db1" "owners db' = owners db1" "deferred db' = deferred db1"
  | "store_body lb msg db = (None, out)" "db' = db"
  using assms by (auto simp: store_message_def split: prod.splits option.splits if_splits)

lemma store_effect_cong:
  assumes "messages db1 = messages db2" "owners db1 = owners db2" "deferred db1 = deferred db2"
  shows "so_result out \<noteq> Obsolete \<Longrightarrow> store_effect lb msg db db1 out = store_effect lb msg db db2 out"
    and "others_kept msg db db1 = others_kept msg db db2"
  using assms
  by (auto simp: store_effect_def others_kept_def find_hash_def owner_id_of_cong [OF assms(2)]
      split: store_result.splits)

lemma store_outcome:
  assumes inv: "db_inv lb db" and st: "store_message lb Disk_Ok msg db = (db', out)"
  shows "store_effect lb msg db db' out \<and> others_kept msg db db'"
proof -
  have ok: "tables_ok lb db" using inv by (simp add: db_inv_def db_ok_def)
  obtain db1 i where g: "get_or_insert_owner lb (msg_pubkey msg) db = (db1, i)"
    by (cases "get_or_insert_owner lb (msg_pubkey msg) db")
  note o = get_or_insert_owner_ok [OF ok g]
  have f: "messages db1 = messages db" by (subst o(3), simp)
  show ?thesis
  proof (cases "find_hash db1 (msg_hash msg)")
    case (Some row)
    obtain db2 added where b: "store_body lb msg db = (Some (db2, added), out)"
        "messages db' = messages db2" "owners db' = owners db2" "deferred db' = deferred db2"
      using st Some by (cases rule: store_message_cases) (auto simp: store_body_def g Let_def split: if_splits)
    have "so_result out \<noteq> Obsolete" using b(1) Some by (auto simp: store_body_def g Let_def split: if_splits)
    then show ?thesis
      using store_existing [OF ok g Some b(1)] store_effect_cong(1) [OF b(2-4), of out]
        store_effect_cong(2) [OF b(2-4)] by simp
  next
    case None
    show ?thesis
    proof (cases "snd (insert_message i msg db1)")
      case n: None
      then have "db' = db" "so_result out = Obsolete"
        using st None by (auto simp: store_message_def store_body_def g Let_def split: prod.splits)
      moreover obtain old where "outbox_conflict db1 i msg = Some old"
          "to_epoch_ms (msg_timestamp msg) \<le> m_timestamp old"
        using n by (cases rule: insert_message_cases [of db1 i msg]) auto
      moreover from this have "outbox_conflict db i msg = Some old" by (simp only: outbox_conflict_def f)
      moreover from this have "owner_id_of db (msg_pubkey msg) = Some i"
        using old_owner [OF ok g] outbox_conflict_Some [of db i msg old] by blast
      ultimately show ?thesis by (simp add: store_effect_def others_kept_def)
    next
      case (Some x)
      obtain db2 j added where n: "insert_message i msg db1 = (db2, Some (j, added))"
        using Some by (cases "insert_message i msg db1"; cases x) auto
      have r: "messages db' = messages db2" "owners db' = owners db2" "deferred db' = deferred db2"
          "so_result out = New" "so_id out = Some j"
        using st None n by (auto simp: store_message_def store_body_def g Let_def split: if_splits)
      then show ?thesis
        using store_inserting [OF ok g None n r(4,5)] store_effect_cong(1) [OF r(1-3), of out]
          store_effect_cong(2) [OF r(1-3)] by simp
    qed
  qed
qed


text \<open>
  A stored message can be read back: after \<open>store\<close> reports New, \<open>retrieve_by_hash\<close> returns
  the message until it expires, with its account, namespace and data unchanged and its times
  rounded to the millisecond, provided no deferred extension is left over for its hash.
\<close>

theorem store_retrieve_roundtrip:
  assumes inv: "db_inv lb db" and v: "pubkey_valid (msg_pubkey msg)"
    and d: "map_of (deferred db) (msg_hash msg) = None"
    and st: "store_message lb Disk_Ok msg db = (db', out)" and n: "so_result out = New"
    and now: "to_epoch_ms now < to_epoch_ms (msg_expiry msg)"
  shows "retrieve_by_hash now (msg_hash msg) db' =
     Some (msg\<lparr>msg_timestamp := from_epoch_ms (to_epoch_ms (msg_timestamp msg)),
               msg_expiry := from_epoch_ms (to_epoch_ms (msg_expiry msg))\<rparr>)"
proof -
  have ok: "tables_ok lb db'"
    using store_message_inv [OF inv, of Disk_Ok msg] st by (simp add: db_inv_def db_ok_def)
  obtain i owner where r: "owner_id_of db' (msg_pubkey msg) = Some owner"
      "find_hash db' (msg_hash msg) = Some (message_row_of i owner msg)" "deferred db' = deferred db"
    using store_outcome [OF inv st] n by (auto simp: store_effect_def)
  obtain w where w: "w \<in> set (owners db')" "o_id w = owner" "o_pubkey w = pubkey (msg_pubkey msg)"
      "o_type w = network (msg_pubkey msg)"
    using owner_id_of_Some [OF r(1)] by blast
  have "owner_row_of db' (message_row_of i owner msg) = w"
    using w by (intro owner_row_of_eq [OF ok]) (simp_all add: message_row_of_def)
  moreover have "apply_deferred_msg db' m = m" if "msg_hash m = msg_hash msg" for m
    using d that by (simp add: apply_deferred_msg_def r(3))
  ultimately show ?thesis
    using now r(2) row_message_roundtrip [OF v w(4,3)]
    by (simp add: retrieve_by_hash_eq [OF ok], simp add: message_row_of_def)
qed

text \<open>A concrete store.\<close>

definition sample_message :: message where
  "sample_message = \<lparr>msg_pubkey = sample_pubkey, msg_hash = ''hash'', msg_namespace = 0, msg_timestamp = 5000000,
     msg_expiry = 9000000, msg_data = ''data''\<rparr>"

lemma db_inv_empty [inv_intros]: "db_inv lb empty_database"
  by (simp add: db_inv_def db_ok_def tables_ok_def count_ok_def deferred_ok_def empty_database_def owners_ok_def
      messages_ok_def outbox_rows_def revoked_ok_def pending_ok_def retries_ok_def)


theorem store_retrieve_roundtrip_witness:
  "retrieve_by_hash 0 ''hash'' (fst (store_message big_endian Disk_Ok sample_message empty_database)) = Some sample_message"
proof -
  have "so_result (snd (store_message big_endian Disk_Ok sample_message empty_database)) = New"
    by (simp add: store_message_def store_body_def get_or_insert_owner_def owner_id_of_def insert_owner_def Let_def
        empty_database_def find_hash_def insert_message_def outbox_conflict_def next_rowid_def sample_message_def)
  moreover have "to_epoch_ms 0 < to_epoch_ms (msg_expiry sample_message)"
    by (simp add: to_epoch_ms_nonneg sample_message_def)
  ultimately have "retrieve_by_hash 0 (msg_hash sample_message)
      (fst (store_message big_endian Disk_Ok sample_message empty_database)) =
     Some (sample_message\<lparr>msg_timestamp := from_epoch_ms (to_epoch_ms (msg_timestamp sample_message)),
               msg_expiry := from_epoch_ms (to_epoch_ms (msg_expiry sample_message))\<rparr>)"
    by (intro store_retrieve_roundtrip [OF db_inv_empty _ _ prod.collapse [symmetric]])
       (simp_all add: sample_message_def sample_pubkey_def pubkey_valid_def empty_database_def)
  then show ?thesis by (simp add: sample_message_def to_epoch_ms_nonneg from_epoch_ms_def)
qed

end
