(* ===== verification/Bulk_Store.thy ===== *)
theory Bulk_Store
  imports Message_Store
begin

text \<open>
  What \<open>bulk_store\<close> does (\<open>oxenss/storage/database.cpp\<close>): neither the splitting into pieces nor
  the memory of owner ids changes the result, the constraints are kept, and storing a batch
  again changes nothing.
\<close>

section \<open>One item at a time\<close>

text \<open>
  The reference: one item at a time, with no pieces and no memory of owner ids.
\<close>

definition bulk_item :: "(string \<Rightarrow> u64) \<Rightarrow> message \<Rightarrow> database \<Rightarrow> database" where
  "bulk_item lb m db =
     (if \<not> pubkey_bool (msg_pubkey m) then db
      else let (db1, i) = get_or_insert_owner lb (msg_pubkey m) db; (db2, new) = bulk_insert i m db1
           in db2\<lparr>message_count := message_count db2 + (if new then 1 else 0)\<rparr>)"

section \<open>Pieces do not matter\<close>

lemma get_or_insert_owner_count:
  "get_or_insert_owner lb pk (db\<lparr>message_count := c\<rparr>) =
     (let (db', i) = get_or_insert_owner lb pk db in (db'\<lparr>message_count := c\<rparr>, i))"
  by (auto simp: get_or_insert_owner_def insert_owner_def owner_id_of_def Let_def split: option.splits)

lemma bulk_insert_count:
  "bulk_insert i m (db\<lparr>message_count := c\<rparr>) = (let (db', new) = bulk_insert i m db in (db'\<lparr>message_count := c\<rparr>, new))"
  by (auto simp: bulk_insert_def find_hash_def insert_message_def outbox_conflict_def Let_def
      append_message_def update_messages_def split: option.splits prod.splits)

lemma bulk_insert_frame:
  assumes "bulk_insert i m db = (db', new)"
  shows "db' = db\<lparr>messages := messages db'\<rparr>"
    and "length (messages db') = length (messages db) + (if new then 1 else 0)"
  using assms insert_message_frame [of i m db]
  by (auto simp: bulk_insert_def update_messages_def split: option.splits prod.splits)

lemma owner_id_of_stable:
  assumes "get_or_insert_owner lb pk db = (db1, i)" and "bulk_insert i m db1 = (db2, new)"
  shows "owner_id_of db2 pk = Some i" and "owner_id_of db pk' = Some j \<Longrightarrow> owner_id_of db2 pk' = Some j"
proof -
  have "owners db2 = owners db1" using bulk_insert_frame(1) [OF assms(2)] by (metis database.select_convs(1)
      database.surjective database.update_convs(2))
  note eq = owner_id_of_cong [OF this]
  show "owner_id_of db2 pk = Some i" "owner_id_of db pk' = Some j \<Longrightarrow> owner_id_of db2 pk' = Some j"
    unfolding eq using assms(1)
    by (auto simp: get_or_insert_owner_def insert_owner_def owner_id_of_def Let_def find_append
        split: option.splits)
qed

lemma bulk_loop_eq:
  assumes "\<forall>(pk, i) \<in> set owns. owner_id_of db pk = Some i"
  shows "bulk_loop lb piece_end ms owns added db =
     fold (bulk_item lb) ms (db\<lparr>message_count := message_count db + added\<rparr>)"
  using assms
proof (induction ms arbitrary: owns added db)
  case (Cons m ms)
  show ?case
  proof (cases "pubkey_bool (msg_pubkey m)")
    case False
    then show ?thesis using Cons.prems Cons.IH [of owns db added]
        Cons.IH [of "[]" "db\<lparr>message_count := message_count db + added\<rparr>" 0]
      by (simp add: bulk_item_def)
  next
    case True
    obtain db1 i where g: "get_or_insert_owner lb (msg_pubkey m) db = (db1, i)"
      by (cases "get_or_insert_owner lb (msg_pubkey m) db")
    obtain db2 new where b: "bulk_insert i m db1 = (db2, new)" by (cases "bulk_insert i m db1")
    note st = owner_id_of_stable [OF g b]
    have own: "(case map_of owns (msg_pubkey m) of Some i \<Rightarrow> (db, i)
                | None \<Rightarrow> get_or_insert_owner lb (msg_pubkey m) db) = (db1, i)"
    proof (cases "map_of owns (msg_pubkey m)")
      case (Some j)
      then have "owner_id_of db (msg_pubkey m) = Some j" using Cons.prems map_of_SomeD by fastforce
      then show ?thesis using g Some by (simp add: get_or_insert_owner_def)
    qed (simp add: g)
    let ?a = "added + (if new then 1 else 0)"
    have cnt: "message_count db2 = message_count db1" "message_count db1 = message_count db"
      using bulk_insert_frame(1) [OF b] g
      by (metis database.select_convs(14) database.surjective database.update_convs(2),
          auto simp: get_or_insert_owner_def insert_owner_def Let_def split: option.splits)
    have item: "bulk_item lb m (db\<lparr>message_count := message_count db + added\<rparr>) =
        db2\<lparr>message_count := message_count db2 + ?a\<rparr>"
      using True by (simp add: bulk_item_def get_or_insert_owner_count bulk_insert_count g b cnt)
    have "\<forall>(pk, i) \<in> set ((msg_pubkey m, i) # owns). owner_id_of db2 pk = Some i"
      using Cons.prems st by auto
    from Cons.IH [OF this, of ?a] Cons.IH [of "[]" "db2\<lparr>message_count := message_count db2 + ?a\<rparr>" 0]
    show ?thesis using True item by (simp add: own b Let_def)
  qed
qed simp

lemma bulk_store_eq: "bulk_store lb piece_end items db = fold (bulk_item lb) items db"
  by (simp add: bulk_store_def bulk_loop_eq)


section \<open>Bulk storing keeps the invariant\<close>

lemma bulk_insert_ok [inv_intros]:
  assumes ok: "tables_ok lb db" and o: "i \<in> o_id ` set (owners db)"
  shows "tables_ok lb (fst (bulk_insert i m db))"
proof (cases "find_hash db (msg_hash m)")
  case None
  then show ?thesis
    using insert_message_ok [OF ok o None] ok
    by (auto simp: bulk_insert_def split: prod.splits option.splits)
next
  case (Some row)
  then show ?thesis using update_expiry_ok [OF ok] by (simp add: bulk_insert_def)
qed

lemma bulk_item_inv [inv_intros]: "db_inv lb db \<Longrightarrow> db_inv lb (bulk_item lb m db)"
proof -
  assume inv: "db_inv lb db"
  obtain db1 i where g: "get_or_insert_owner lb (msg_pubkey m) db = (db1, i)"
    by (cases "get_or_insert_owner lb (msg_pubkey m) db")
  obtain db2 new where b: "bulk_insert i m db1 = (db2, new)" by (cases "bulk_insert i m db1")
  have ok: "tables_ok lb db" using inv by (simp add: db_inv_def db_ok_def)
  note o = get_or_insert_owner_ok [OF ok g] and f = bulk_insert_frame [OF b]
  have t: "tables_ok lb db2" using bulk_insert_ok [OF o(1,4), of m] b by simp
  have e: "db2 = db\<lparr>owners := owners db1, messages := messages db2\<rparr>"
    using o(3) f(1) by (metis database.unfold_congs(2))
  have l: "messages db1 = messages db" by (subst o(3), simp)
  have c: "message_count db2 = message_count db" "deferred db2 = deferred db" "deferred_queue db2 = deferred_queue db"
    by (subst e, simp)+
  show ?thesis
    using inv t f(2) l c
    by (simp add: bulk_item_def g b db_inv_def db_ok_def tables_ok_def count_ok_def deferred_ok_def)
qed

lemma fold_bulk_item_inv: "db_inv lb db \<Longrightarrow> db_inv lb (fold (bulk_item lb) items db)"
  by (induction items arbitrary: db) (auto intro: bulk_item_inv)

lemma bulk_store_inv [inv_intros]: "db_inv lb db \<Longrightarrow> db_inv lb (bulk_store lb piece_end items db)"
  by (simp add: bulk_store_eq fold_bulk_item_inv)

section \<open>Bulk storing twice\<close>

text \<open>
  Messages are named by a hash of their content: equal hashes mean the same account,
  namespace and timestamp, among the items and between the items and what is stored.
\<close>

definition same_message :: "message \<Rightarrow> message \<Rightarrow> bool" where
  "same_message m m' \<longleftrightarrow> msg_pubkey m = msg_pubkey m' \<and> msg_namespace m = msg_namespace m'
     \<and> to_epoch_ms (msg_timestamp m) = to_epoch_ms (msg_timestamp m')"

definition row_matches :: "database \<Rightarrow> message \<Rightarrow> message_row \<Rightarrow> bool" where
  "row_matches db m r \<longleftrightarrow> owner_id_of db (msg_pubkey m) = Some (m_owner r)
     \<and> m_namespace r = to_int (msg_namespace m) \<and> m_timestamp r = to_epoch_ms (msg_timestamp m)"

definition hashes_name_content :: "message list \<Rightarrow> database \<Rightarrow> bool" where
  "hashes_name_content items db \<longleftrightarrow>
     (\<forall>m \<in> set items. \<forall>m' \<in> set items. msg_hash m = msg_hash m' \<longrightarrow> same_message m m')
     \<and> (\<forall>m \<in> set items. \<forall>r \<in> set (messages db). m_hash r = msg_hash m \<longrightarrow> row_matches db m r)"

text \<open>
  An item is absorbed when its hash is stored with an expiry at least as late, or an outbox
  holds a message at least as new in its place.
\<close>

definition absorbed :: "message \<Rightarrow> database \<Rightarrow> bool" where
  "absorbed m db \<longleftrightarrow> \<not> pubkey_bool (msg_pubkey m) \<or>
     (\<exists>i. owner_id_of db (msg_pubkey m) = Some i \<and>
        ((\<exists>r \<in> set (messages db). m_hash r = msg_hash m \<and> to_epoch_ms (msg_expiry m) \<le> m_expiry r)
         \<or> msg_hash m \<notin> m_hash ` set (messages db) \<and> outbox_index_pred (to_int (msg_namespace m))
           \<and> (\<exists>r \<in> set (messages db). m_owner r = i \<and> m_namespace r = to_int (msg_namespace m)
                \<and> to_epoch_ms (msg_timestamp m) \<le> m_timestamp r)))"

lemma absorbed_rowI:
  "owner_id_of db (msg_pubkey m) = Some i \<Longrightarrow> r \<in> set (messages db) \<Longrightarrow> m_hash r = msg_hash m \<Longrightarrow>
   to_epoch_ms (msg_expiry m) \<le> m_expiry r \<Longrightarrow> absorbed m db"
  by (auto simp: absorbed_def)

lemma absorbed_outboxI:
  "owner_id_of db (msg_pubkey m) = Some i \<Longrightarrow> msg_hash m \<notin> m_hash ` set (messages db) \<Longrightarrow>
   outbox_index_pred (to_int (msg_namespace m)) \<Longrightarrow> r \<in> set (messages db) \<Longrightarrow> m_owner r = i \<Longrightarrow>
   m_namespace r = to_int (msg_namespace m) \<Longrightarrow> to_epoch_ms (msg_timestamp m) \<le> m_timestamp r \<Longrightarrow> absorbed m db"
  unfolding absorbed_def by blast

lemma outbox_conflict_eq:
  assumes ok: "tables_ok lb db" and r: "r \<in> set (messages db)"
    and c: "m_owner r = i" "m_namespace r = to_int (msg_namespace m)" "outbox_index_pred (to_int (msg_namespace m))"
  shows "outbox_conflict db i m = Some r"
proof (cases "outbox_conflict db i m")
  case None
  then show ?thesis using r c by (auto simp: outbox_conflict_None)
next
  case (Some r')
  note o = outbox_conflict_Some [OF Some]
  have "r' = r"
    using ok o r c
    by (intro distinct_map_inj [of "\<lambda>r. (m_owner r, m_namespace r)" "outbox_rows (messages db)"])
       (auto simp: tables_ok_def messages_ok_def outbox_rows_def)
  with Some show ?thesis by simp
qed

lemma absorbed_item:
  assumes ok: "tables_ok lb db" and a: "absorbed m db"
  shows "bulk_item lb m db = db"
proof (cases "pubkey_bool (msg_pubkey m)")
  case True
  then obtain i where i: "owner_id_of db (msg_pubkey m) = Some i" using a by (auto simp: absorbed_def)
  then have g: "get_or_insert_owner lb (msg_pubkey m) db = (db, i)" by (simp add: get_or_insert_owner_def)
  have "bulk_insert i m db = (db, False)"
  proof (cases "find_hash db (msg_hash m)")
    case None
    then obtain r where r: "r \<in> set (messages db)" "m_owner r = i" "m_namespace r = to_int (msg_namespace m)"
        "to_epoch_ms (msg_timestamp m) \<le> m_timestamp r" "outbox_index_pred (to_int (msg_namespace m))"
      using a i True by (auto simp: absorbed_def find_hash_None image_iff)
    then have "outbox_conflict db i m = Some r" by (intro outbox_conflict_eq [OF ok])
    then have "insert_message i m db = (db, None)" using r(4) by (simp add: insert_message_def)
    then show ?thesis using None by (simp add: bulk_insert_def)
  next
    case (Some row)
    note f = find_hash_Some [OF Some]
    then obtain r where r: "r \<in> set (messages db)" "m_hash r = msg_hash m" "to_epoch_ms (msg_expiry m) \<le> m_expiry r"
      using a i True by (force simp: absorbed_def)
    have "r = row" using distinct_map_inj [OF tables_ok_distinct(1) [OF ok] r(1)] f r(2) by simp
    have "(if m_id x = m_id row then x\<lparr>m_expiry := max (to_epoch_ms (msg_expiry m)) (m_expiry x)\<rparr> else x) = x"
      if x: "x \<in> set (messages db)" for x
      using sorted_map_inj [OF tables_ok_distinct(2) [OF ok] x, of row] f r(3) \<open>r = row\<close>
      by (cases x) auto
    then have "map (\<lambda>x. if m_id x = m_id row then x\<lparr>m_expiry := max (to_epoch_ms (msg_expiry m)) (m_expiry x)\<rparr> else x)
        (messages db) = messages db"
      by (intro map_idI)
    then show ?thesis using Some by (simp add: bulk_insert_def update_messages_def)
  qed
  with True g show ?thesis by (simp add: bulk_item_def)
qed (simp add: bulk_item_def)

text \<open>
  What one insertion does to the rows: a row stays, with an expiry that is not earlier, or is
  an outbox row that a newer one replaced; and a row that was not there is the item's.
\<close>

definition same_row :: "message_row \<Rightarrow> message_row \<Rightarrow> bool" where
  "same_row r r' \<longleftrightarrow> m_hash r' = m_hash r \<and> m_owner r' = m_owner r \<and> m_namespace r' = m_namespace r
     \<and> m_timestamp r' = m_timestamp r \<and> m_expiry r \<le> m_expiry r'"

definition item_row :: "int \<Rightarrow> message \<Rightarrow> message_row \<Rightarrow> bool" where
  "item_row i m r \<longleftrightarrow> m_hash r = msg_hash m \<and> m_owner r = i \<and> m_namespace r = to_int (msg_namespace m)
     \<and> m_timestamp r = to_epoch_ms (msg_timestamp m) \<and> m_expiry r = to_epoch_ms (msg_expiry m)"

definition rows_advance :: "int \<Rightarrow> message \<Rightarrow> message_row set \<Rightarrow> message_row set \<Rightarrow> bool" where
  "rows_advance i m M M' \<longleftrightarrow>
     (\<forall>r \<in> M. (\<exists>r' \<in> M'. same_row r r') \<or>
        (outbox_index_pred (m_namespace r) \<and> m_hash r \<notin> m_hash ` M'
         \<and> (\<exists>r' \<in> M'. m_owner r' = m_owner r \<and> m_namespace r' = m_namespace r \<and> m_timestamp r < m_timestamp r')))
     \<and> (\<forall>r' \<in> M'. (\<exists>r \<in> M. m_hash r' = m_hash r \<and> m_owner r' = m_owner r
                      \<and> m_namespace r' = m_namespace r \<and> m_timestamp r' = m_timestamp r) \<or>
        (item_row i m r' \<and> (outbox_index_pred (m_namespace r') \<longrightarrow>
            (\<forall>r \<in> M. m_owner r = i \<and> m_namespace r = m_namespace r' \<longrightarrow> m_timestamp r < m_timestamp r'))))"

lemma rows_advanceD:
  assumes "rows_advance i m M M'"
  shows "r \<in> M \<Longrightarrow> (\<exists>r' \<in> M'. same_row r r') \<or>
      (outbox_index_pred (m_namespace r) \<and> m_hash r \<notin> m_hash ` M'
       \<and> (\<exists>r' \<in> M'. m_owner r' = m_owner r \<and> m_namespace r' = m_namespace r \<and> m_timestamp r < m_timestamp r'))"
    and "r' \<in> M' \<Longrightarrow> (\<exists>r \<in> M. m_hash r' = m_hash r \<and> m_owner r' = m_owner r
                      \<and> m_namespace r' = m_namespace r \<and> m_timestamp r' = m_timestamp r) \<or>
        (item_row i m r' \<and> (outbox_index_pred (m_namespace r') \<longrightarrow>
            (\<forall>r \<in> M. m_owner r = i \<and> m_namespace r = m_namespace r' \<longrightarrow> m_timestamp r < m_timestamp r')))"
  by (fact bspec [OF conjunct1 [OF assms [unfolded rows_advance_def]]]
      bspec [OF conjunct2 [OF assms [unfolded rows_advance_def]]])+

lemma rows_advance_refl: "rows_advance i m M M"
  by (auto simp: rows_advance_def same_row_def)

lemma rows_advance_image: "(\<And>r. same_row r (f r)) \<Longrightarrow> rows_advance i m M (f ` M)"
  unfolding rows_advance_def same_row_def by blast

lemma insert_advances:
  assumes ok: "tables_ok lb db" and none: "find_hash db (msg_hash m) = None"
  shows "rows_advance i m (set (messages db)) (set (messages (fst (insert_message i m db))))"
proof (cases rule: insert_message_cases [of db i m])
  case inserted
  then show ?thesis
    by (auto simp: rows_advance_def same_row_def append_message_def item_row_def message_row_of_def outbox_conflict_None)
next
  case (replaced old)
  note c = outbox_conflict_Some [OF replaced(1)]
  let ?M = "set (messages db)" and ?n = "replace_row old m"
  have inj: "m_id r = m_id old \<longleftrightarrow> r = old" if "r \<in> ?M" for r
    using sorted_map_inj [OF tables_ok_distinct(2) [OF ok] that, of old] c by auto
  have M': "set (messages (fst (insert_message i m db))) = ?M - {old} \<union> {?n}"
    using c inj by (auto simp: replaced(3) update_messages_def)
  have "m_hash old \<noteq> m_hash r" if "r \<in> ?M - {old}" for r
    using distinct_map_inj [OF tables_ok_distinct(1) [OF ok], of r old] c that by auto
  then have gone: "m_hash old \<notin> m_hash ` (?M - {old} \<union> {?n})"
    using none c by (auto simp: find_hash_None image_iff)
  have "r = old" if "r \<in> ?M" "m_owner r = i" "m_namespace r = to_int (msg_namespace m)" for r
    using outbox_conflict_eq [OF ok that] c replaced(1) by auto
  then have "item_row i m ?n \<and> (\<forall>r \<in> ?M. m_owner r = i \<and> m_namespace r = m_namespace ?n \<longrightarrow> m_timestamp r < m_timestamp ?n)"
    using c replaced(2) by (auto simp: item_row_def)
  moreover have "outbox_index_pred (m_namespace old) \<and> m_hash old \<notin> m_hash ` (?M - {old} \<union> {?n})
      \<and> (\<exists>r' \<in> ?M - {old} \<union> {?n}. m_owner r' = m_owner old \<and> m_namespace r' = m_namespace old
           \<and> m_timestamp old < m_timestamp r')"
    using gone c replaced(2) by auto
  moreover have "same_row r r" for r by (simp add: same_row_def)
  ultimately show ?thesis unfolding M' rows_advance_def by blast
next
  case older
  then show ?thesis by (simp add: rows_advance_refl)
qed

lemma bulk_insert_advances:
  assumes ok: "tables_ok lb db"
  shows "rows_advance i m (set (messages db)) (set (messages (fst (bulk_insert i m db))))"
proof (cases "find_hash db (msg_hash m)")
  case None
  then show ?thesis
    using insert_advances [OF ok None, of i] rows_advance_refl
    by (auto simp: bulk_insert_def split: prod.splits option.splits)
next
  case (Some row)
  let ?f = "\<lambda>r. if m_id r = m_id row then r\<lparr>m_expiry := max (to_epoch_ms (msg_expiry m)) (m_expiry r)\<rparr> else r"
  have M': "set (messages (fst (bulk_insert i m db))) = ?f ` set (messages db)"
    using Some by (simp add: bulk_insert_def update_messages_def)
  show ?thesis unfolding M' by (rule rows_advance_image) (simp add: same_row_def)
qed

lemma absorbed_after:
  assumes ok: "tables_ok lb db" and o: "owner_id_of db (msg_pubkey m) = Some i"
    and b: "bulk_insert i m db = (db', new)"
  shows "absorbed m db'"
proof -
  have "owners db' = owners db" by (subst bulk_insert_frame(1) [OF b], simp)
  from owner_id_of_cong [OF this] o have o': "owner_id_of db' (msg_pubkey m) = Some i" by simp
  have "(\<exists>r \<in> set (messages db'). m_hash r = msg_hash m \<and> to_epoch_ms (msg_expiry m) \<le> m_expiry r)
         \<or> msg_hash m \<notin> m_hash ` set (messages db') \<and> outbox_index_pred (to_int (msg_namespace m))
           \<and> (\<exists>r \<in> set (messages db'). m_owner r = i \<and> m_namespace r = to_int (msg_namespace m)
                \<and> to_epoch_ms (msg_timestamp m) \<le> m_timestamp r)"
  proof (cases "find_hash db (msg_hash m)")
    case (Some row)
    note f = find_hash_Some [OF Some]
    let ?r = "row\<lparr>m_expiry := max (to_epoch_ms (msg_expiry m)) (m_expiry row)\<rparr>"
    have "?r \<in> set (messages db')" using b Some f by (force simp: bulk_insert_def update_messages_def)
    moreover have "m_hash ?r = msg_hash m" "to_epoch_ms (msg_expiry m) \<le> m_expiry ?r" using f by simp_all
    ultimately show ?thesis by blast
  next
    case None
    show ?thesis
    proof (cases rule: insert_message_cases [of db i m])
      case inserted
      then show ?thesis using b None by (auto simp: bulk_insert_def append_message_def message_row_of_def)
    next
      case (replaced old)
      then have "replace_row old m \<in> set (messages db')"
        using b None outbox_conflict_Some [OF replaced(1)] by (force simp: bulk_insert_def update_messages_def)
      then show ?thesis by (intro disjI1 bexI [of _ "replace_row old m"]) simp_all
    next
      case (older old)
      then have "db' = db" using b None by (simp add: bulk_insert_def)
      with None older outbox_conflict_Some [OF older(1)] show ?thesis
        by (auto simp: find_hash_None not_less intro: bexI [of _ old])
    qed
  qed
  with o' show ?thesis by (auto simp: absorbed_def)
qed

lemma absorbed_advance:
  assumes a: "absorbed m db" and adv: "rows_advance i m' (set (messages db)) (set (messages db'))"
    and o: "\<And>j. owner_id_of db (msg_pubkey m) = Some j \<Longrightarrow> owner_id_of db' (msg_pubkey m) = Some j"
    and c: "\<And>r. r \<in> set (messages db) \<Longrightarrow> m_hash r = msg_hash m \<Longrightarrow> row_matches db m r"
    and s: "msg_hash m' = msg_hash m \<Longrightarrow> same_message m m' \<and> owner_id_of db (msg_pubkey m) = Some i"
  shows "absorbed m db'"
proof (cases "pubkey_bool (msg_pubkey m)")
  case True
  obtain j where j: "owner_id_of db (msg_pubkey m) = Some j" using a True by (auto simp: absorbed_def)
  note j' = o [OF j]
  show ?thesis
  proof (cases "\<exists>r \<in> set (messages db). m_hash r = msg_hash m \<and> to_epoch_ms (msg_expiry m) \<le> m_expiry r")
    case True
    then obtain r where r: "r \<in> set (messages db)" "m_hash r = msg_hash m" "to_epoch_ms (msg_expiry m) \<le> m_expiry r"
      by blast
    have rm: "m_owner r = j" "m_namespace r = to_int (msg_namespace m)" "m_timestamp r = to_epoch_ms (msg_timestamp m)"
      using c [OF r(1,2)] j by (simp_all add: row_matches_def)
    from rows_advanceD(1) [OF adv r(1)] consider r' where "r' \<in> set (messages db')" "same_row r r'"
      | r' where "outbox_index_pred (m_namespace r)" "m_hash r \<notin> m_hash ` set (messages db')"
          "r' \<in> set (messages db')" "m_owner r' = m_owner r" "m_namespace r' = m_namespace r" "m_timestamp r < m_timestamp r'"
      by blast
    then show ?thesis
    proof cases
      case 1
      then have "m_hash r' = msg_hash m" "to_epoch_ms (msg_expiry m) \<le> m_expiry r'"
        using r by (simp_all add: same_row_def)
      with 1(1) j' show ?thesis by (intro absorbed_rowI)
    next
      case 2
      have "to_epoch_ms (msg_timestamp m) \<le> m_timestamp r'" using 2 rm by simp
      with 2 r rm j' show ?thesis by (intro absorbed_outboxI [of db' m j r']) simp_all
    qed
  next
    case False
    then obtain r where n: "msg_hash m \<notin> m_hash ` set (messages db)" "outbox_index_pred (to_int (msg_namespace m))"
      and r: "r \<in> set (messages db)" "m_owner r = j" "m_namespace r = to_int (msg_namespace m)"
        "to_epoch_ms (msg_timestamp m) \<le> m_timestamp r"
      using a True j by (auto simp: absorbed_def)
    have "msg_hash m \<notin> m_hash ` set (messages db')"
    proof
      assume "msg_hash m \<in> m_hash ` set (messages db')"
      then obtain r' where r': "r' \<in> set (messages db')" "m_hash r' = msg_hash m" by force
      have "(\<exists>r \<in> set (messages db). m_hash r' = m_hash r) \<or>
          item_row i m' r' \<and> (outbox_index_pred (m_namespace r') \<longrightarrow>
            (\<forall>r \<in> set (messages db). m_owner r = i \<and> m_namespace r = m_namespace r' \<longrightarrow> m_timestamp r < m_timestamp r'))"
        using rows_advanceD(2) [OF adv r'(1)] by blast
      moreover have "\<not> (\<exists>r \<in> set (messages db). m_hash r' = m_hash r)" using n(1) r'(2) by force
      ultimately have it: "item_row i m' r'" and lt: "outbox_index_pred (m_namespace r') \<Longrightarrow>
          m_owner r = i \<Longrightarrow> m_namespace r = m_namespace r' \<Longrightarrow> m_timestamp r < m_timestamp r'"
        using r(1) by blast+
      have "msg_hash m' = msg_hash m" using it r'(2) by (simp add: item_row_def)
      from s [OF this] j have "same_message m m'" "i = j" by simp_all
      then have "m_namespace r' = to_int (msg_namespace m)" "m_timestamp r' = to_epoch_ms (msg_timestamp m)"
        using it by (simp_all add: item_row_def same_message_def)
      with lt n(2) r \<open>i = j\<close> show False by simp
    qed
    moreover obtain r' where r': "r' \<in> set (messages db')" "m_owner r' = m_owner r" "m_namespace r' = m_namespace r"
        "m_timestamp r \<le> m_timestamp r'"
    proof -
      have "(\<exists>r' \<in> set (messages db'). same_row r r') \<or>
          (\<exists>r' \<in> set (messages db'). m_owner r' = m_owner r \<and> m_namespace r' = m_namespace r \<and> m_timestamp r < m_timestamp r')"
        using rows_advanceD(1) [OF adv r(1)] by blast
      with that show ?thesis by (auto simp: same_row_def)
    qed
    ultimately show ?thesis using n(2) r j' by (intro absorbed_outboxI [of db' m j r']) simp_all
  qed
qed (simp add: absorbed_def)

lemma absorbed_count [simp]: "absorbed m (db\<lparr>message_count := c\<rparr>) = absorbed m db"
  by (simp add: absorbed_def owner_id_of_def)

lemma row_matches_mono:
  "row_matches db m r \<Longrightarrow> (\<And>j. owner_id_of db (msg_pubkey m) = Some j \<Longrightarrow> owner_id_of db' (msg_pubkey m) = Some j) \<Longrightarrow>
   m_owner r' = m_owner r \<Longrightarrow> m_namespace r' = m_namespace r \<Longrightarrow> m_timestamp r' = m_timestamp r \<Longrightarrow>
   row_matches db' m r'"
  by (simp add: row_matches_def)

text \<open>One item: it is absorbed, what was absorbed stays so, and hashes still name content.\<close>

lemma bulk_item_step:
  assumes ok: "tables_ok lb db" and c: "hashes_name_content items db" and m: "m \<in> set items"
  shows "absorbed m (bulk_item lb m db) \<and> hashes_name_content items (bulk_item lb m db)
     \<and> (\<forall>x \<in> set items. absorbed x db \<longrightarrow> absorbed x (bulk_item lb m db))"
proof (cases "pubkey_bool (msg_pubkey m)")
  case False
  then show ?thesis using c by (simp add: bulk_item_def absorbed_def)
next
  case True
  obtain db1 i where g: "get_or_insert_owner lb (msg_pubkey m) db = (db1, i)"
    by (cases "get_or_insert_owner lb (msg_pubkey m) db")
  obtain db2 new where b: "bulk_insert i m db1 = (db2, new)" by (cases "bulk_insert i m db1")
  note o = get_or_insert_owner_ok [OF ok g] and st = owner_id_of_stable [OF g b]
  have M: "messages db1 = messages db" by (subst o(3), simp)
  have adv: "rows_advance i m (set (messages db)) (set (messages db2))"
    using bulk_insert_advances [OF o(1), of i m] by (simp add: b M)
  have res: "bulk_item lb m db = db2\<lparr>message_count := message_count db2 + (if new then 1 else 0)\<rparr>"
    using True by (simp add: bulk_item_def g b)
  have c1: "same_message x y" if "x \<in> set items" "y \<in> set items" "msg_hash x = msg_hash y" for x y
    using c that by (simp add: hashes_name_content_def)
  have c2: "row_matches db x r" if "x \<in> set items" "r \<in> set (messages db)" "m_hash r = msg_hash x" for x r
    using c that by (simp add: hashes_name_content_def)
  have "row_matches db2 x r'" if x: "x \<in> set items" "r' \<in> set (messages db2)" "m_hash r' = msg_hash x" for x r'
    using rows_advanceD(2) [OF adv x(2)]
  proof
    assume "\<exists>r \<in> set (messages db). m_hash r' = m_hash r \<and> m_owner r' = m_owner r
              \<and> m_namespace r' = m_namespace r \<and> m_timestamp r' = m_timestamp r"
    then show ?thesis using c2 [OF x(1)] x(3) st(2) by (metis row_matches_mono)
  next
    assume "item_row i m r' \<and> (outbox_index_pred (m_namespace r') \<longrightarrow>
        (\<forall>r \<in> set (messages db). m_owner r = i \<and> m_namespace r = m_namespace r' \<longrightarrow> m_timestamp r < m_timestamp r'))"
    then have it: "item_row i m r'" by blast
    then have "same_message m x" using c1 [OF m x(1)] x(3) by (simp add: item_row_def)
    with it st(1) show ?thesis by (simp add: item_row_def row_matches_def same_message_def)
  qed
  then have "hashes_name_content items (bulk_item lb m db)"
    using c unfolding res hashes_name_content_def by (simp add: row_matches_def owner_id_of_def)
  moreover have "absorbed x db2" if x: "x \<in> set items" and a: "absorbed x db" for x
  proof (cases "pubkey_bool (msg_pubkey x)")
    case True
    show ?thesis
    proof (rule absorbed_advance [OF a adv])
      assume h: "msg_hash m = msg_hash x"
      have s: "same_message x m" using c1 [OF x m] h by simp
      obtain j where "owner_id_of db (msg_pubkey x) = Some j" using a True by (auto simp: absorbed_def)
      then show "same_message x m \<and> owner_id_of db (msg_pubkey x) = Some i"
        using s g by (simp add: same_message_def get_or_insert_owner_def)
    qed (use x c2 st(2) in auto)
  qed (simp add: absorbed_def)
  moreover have "absorbed m db2" by (rule absorbed_after [OF o(1,2) b])
  ultimately show ?thesis by (simp add: res)
qed

lemma fold_bulk_items:
  assumes "db_inv lb db" and "hashes_name_content items db" and "set ms \<subseteq> set items"
  shows "hashes_name_content items (fold (bulk_item lb) ms db)
     \<and> (\<forall>x \<in> set ms. absorbed x (fold (bulk_item lb) ms db))
     \<and> (\<forall>x \<in> set items. absorbed x db \<longrightarrow> absorbed x (fold (bulk_item lb) ms db))"
  using assms
proof (induction ms arbitrary: db)
  case (Cons m ms)
  have ok: "tables_ok lb db" using Cons.prems(1) by (simp add: db_inv_def db_ok_def)
  have m: "m \<in> set items" using Cons.prems(3) by simp
  note st = bulk_item_step [OF ok Cons.prems(2) m]
  have "hashes_name_content items (bulk_item lb m db)" using st by blast
  from Cons.IH [OF bulk_item_inv [OF Cons.prems(1)] this] Cons.prems(3) st m show ?case by auto
qed simp

lemma fold_absorbed: "tables_ok lb db \<Longrightarrow> (\<forall>x \<in> set ms. absorbed x db) \<Longrightarrow> fold (bulk_item lb) ms db = db"
  by (induction ms) (simp_all add: absorbed_item)

text \<open>
  Storing a batch a second time changes nothing at all, counters and owners included, as
  long as equal hashes name equal messages: a batch that failed partway can be sent again, and
  two nodes that push the same messages do not undo each other, outboxes included.
\<close>

theorem bulk_store_idempotent:
  assumes inv: "db_inv lb db" and c: "hashes_name_content items db" and sub: "set items' \<subseteq> set items"
  shows "bulk_store lb pe' items' (bulk_store lb pe items db) = bulk_store lb pe items db"
proof -
  let ?db = "fold (bulk_item lb) items db"
  have "\<forall>x \<in> set items'. absorbed x ?db" using fold_bulk_items [OF inv c order_refl] sub by blast
  moreover have "tables_ok lb ?db" using fold_bulk_item_inv [OF inv] by (simp add: db_inv_def db_ok_def)
  ultimately show ?thesis by (simp add: bulk_store_eq fold_absorbed)
qed

theorem bulk_store_idempotent_witness:
  "bulk_store big_endian (\<lambda>_. False) [sample_message]
     (bulk_store big_endian (\<lambda>_. True) [sample_message, sample_message\<lparr>msg_hash := ''other''\<rparr>] empty_database) =
   bulk_store big_endian (\<lambda>_. True) [sample_message, sample_message\<lparr>msg_hash := ''other''\<rparr>] empty_database"
proof -
  have "hashes_name_content [sample_message, sample_message\<lparr>msg_hash := ''other''\<rparr>] empty_database"
    by (simp add: hashes_name_content_def same_message_def empty_database_def sample_message_def)
  from bulk_store_idempotent [OF db_inv_empty this] show ?thesis by simp
qed

end
