(* ===== verification/Message_Facts.thy ===== *)
theory Message_Facts
  imports Bulk_Store "HOL-Library.Multiset"
begin

text \<open>
  What reading, deleting, cleaning and counting messages do (\<open>oxenss/storage/database.cpp\<close>):
  deletions are exact, cleaning in chunks ends and is exact, pages of \<open>retrieve\<close> tile the
  messages of an account, and the two ways of counting by namespace agree.
\<close>

section \<open>A concrete database\<close>

definition sample_row :: "int \<Rightarrow> string \<Rightarrow> message_row" where
  "sample_row i hash = \<lparr>m_id = i, m_hash = hash, m_owner = 1, m_namespace = 0, m_timestamp = i, m_expiry = 100 * i,
     m_data = ''data''\<rparr>"

definition sample_db :: database where
  "sample_db = empty_database\<lparr>
     owners := [\<lparr>o_id = 1, o_type = 3, o_pubkey = pubkey sample_pubkey,
                o_hi = swarm_space_hi big_endian (pubkey sample_pubkey),
                o_lo = swarm_space_lo big_endian (pubkey sample_pubkey)\<rparr>],
     messages := [sample_row 1 ''first'', sample_row 2 ''second''], message_count := 2\<rparr>"

lemma sample_db_inv: "db_inv big_endian sample_db"
  by (simp add: db_inv_def db_ok_def tables_ok_def count_ok_def deferred_ok_def empty_database_def owners_ok_def
      messages_ok_def outbox_rows_def revoked_ok_def pending_ok_def retries_ok_def sample_db_def sample_row_def
      outbox_index_pred_def)

lemma sample_db_owner: "owner_id_of sample_db sample_pubkey = Some 1"
  by (simp add: sample_db_def owner_id_of_def sample_pubkey_def)

section \<open>Deletions\<close>

text \<open>
  The database after exactly the messages selected by a predicate were deleted: the other
  messages are as they were, the accounts left without a message are gone with their revoked
  tokens, pending deliveries of the deleted messages are gone, the message count and the
  deferred extensions follow.
\<close>

definition deleted_exactly :: "(message_row \<Rightarrow> bool) \<Rightarrow> database \<Rightarrow> database \<Rightarrow> bool" where
  "deleted_exactly P db db' \<longleftrightarrow>
     messages db' = filter (\<lambda>r. \<not> P r) (messages db)
     \<and> owners db' = filter (\<lambda>w. \<not> last_of_owner {r \<in> set (messages db). P r} (messages db) (o_id w)) (owners db)
     \<and> message_count db' = message_count db - int (length (filter P (messages db)))
     \<and> (\<forall>h. map_of (deferred db') h =
            (if \<exists>r \<in> set (messages db). P r \<and> m_hash r = h then None else map_of (deferred db) h))"

lemma forget_deferred_all_frame:
  "forget_deferred_all hs db = db\<lparr>deferred := fold AList.delete hs (deferred db)\<rparr>"
  by (induction hs arbitrary: db) (simp_all add: forget_deferred_all_def forget_deferred_def)

lemma map_of_fold_delete: "map_of (fold AList.delete hs al) h = (if h \<in> set hs then None else map_of al h)"
  by (induction hs arbitrary: al) (auto simp: map_of_alist_delete)

lemma deferred_ok_forget_all [inv_intros]: "deferred_ok db \<Longrightarrow> deferred_ok (forget_deferred_all hs db)"
  by (induction hs arbitrary: db) (auto simp: forget_deferred_all_def intro: deferred_ok_forget)

lemma tables_ok_count [simp]: "tables_ok lb (db\<lparr>message_count := c\<rparr>) = tables_ok lb db"
  by (simp add: tables_ok_def)

lemma tables_ok_deferred [simp]: "tables_ok lb (db\<lparr>deferred := c\<rparr>) = tables_ok lb db"
  "tables_ok lb (db\<lparr>deferred_queue := q\<rparr>) = tables_ok lb db"
  by (simp_all add: tables_ok_def)

lemma deferred_ok_count [simp]: "deferred_ok (db\<lparr>message_count := c\<rparr>) = deferred_ok db"
  by (simp add: deferred_ok_def)

lemma delete_messages_deferred:
  "deferred (fst (delete_messages P db)) = deferred db"
  "deferred_queue (fst (delete_messages P db)) = deferred_queue db"
  "message_count (fst (delete_messages P db)) = message_count db"
  by (simp_all add: delete_messages_def Let_def fold_delete_message_frame)

lemma db_inv_parts: "db_inv lb db \<Longrightarrow> tables_ok lb db \<and> deferred_ok db \<and> message_count db = int (length (messages db))"
  by (simp add: db_inv_def db_ok_def count_ok_def)

lemma delete_and_forget_eq:
  "delete_and_forget P db =
     (forget_deferred_all (map m_hash (filter P (messages db)))
        ((fst (delete_messages P db))\<lparr>message_count := message_count db - int (length (filter P (messages db)))\<rparr>),
      filter P (messages db))"
  by (simp add: delete_and_forget_def Let_def case_prod_beta delete_messages_deleted delete_messages_deferred)

lemma length_filter_compl': "length (filter (\<lambda>r. \<not> P r) xs) + length (filter P xs) = length xs"
  by (induction xs) auto

lemma delete_and_forget_exact:
  assumes inv: "db_inv lb db"
  shows "deleted_exactly P db (fst (delete_and_forget P db))" and "db_inv lb (fst (delete_and_forget P db))"
proof -
  have ok: "tables_ok lb db" "deferred_ok db" "message_count db = int (length (messages db))"
    using db_inv_parts [OF inv] by blast+
  note s = tables_ok_distinct(2) [OF ok(1)]
  have "owners (fst (delete_messages P db)) =
      filter (\<lambda>w. \<not> last_of_owner {r \<in> set (messages db). P r} (messages db) (o_id w)) (owners db)"
    using fold_delete_owners [OF s, of "filter P (messages db)"] s
    by (auto simp: delete_messages_def Let_def strict_sorted_iff distinct_map intro: distinct_filter)
  then show "deleted_exactly P db (fst (delete_and_forget P db))"
    by (auto simp: deleted_exactly_def delete_and_forget_eq forget_deferred_all_frame delete_messages_messages [OF s]
        delete_messages_deferred map_of_fold_delete)
  have "deferred_ok (fst (delete_messages P db))"
    using ok(2) deferred_ok_cong delete_messages_deferred by metis
  then have d: "deferred_ok (fst (delete_and_forget P db))"
    unfolding delete_and_forget_eq fst_conv by (intro deferred_ok_forget_all) simp
  have "tables_ok lb (fst (delete_and_forget P db))"
    unfolding delete_and_forget_eq by (simp add: forget_deferred_all_frame delete_messages_ok ok(1))
  moreover have "count_ok (fst (delete_and_forget P db))"
    unfolding delete_and_forget_eq using ok(3) length_filter_compl' [of P "messages db"]
    by (simp add: forget_deferred_all_frame count_ok_def delete_messages_messages [OF s])
  ultimately show "db_inv lb (fst (delete_and_forget P db))" using d by (simp add: db_inv_def db_ok_def)
qed

lemma delete_messages_one:
  assumes ok: "tables_ok lb db"
  shows "delete_messages (\<lambda>r. m_hash r = h \<and> m_owner r = owner) db =
     (case List.find (\<lambda>r. m_hash r = h \<and> m_owner r = owner) (messages db) of
        Some r \<Rightarrow> (delete_message r db, [r]) | None \<Rightarrow> (db, []))"
proof (cases "List.find (\<lambda>r. m_hash r = h \<and> m_owner r = owner) (messages db)")
  case None
  then have "filter (\<lambda>r. m_hash r = h \<and> m_owner r = owner) (messages db) = []"
    by (simp add: find_None_all filter_empty_conv)
  then show ?thesis by (simp add: delete_messages_def None)
next
  case (Some r)
  then have r: "r \<in> set (messages db)" "m_hash r = h" "m_owner r = owner" using find_Some_in by fastforce+
  have "m_hash x = h \<and> m_owner x = owner \<longleftrightarrow> m_hash x = m_hash r" if "x \<in> set (messages db)" for x
    using distinct_map_inj [OF tables_ok_distinct(1) [OF ok] that r(1)] r(2,3) by metis
  then have "filter (\<lambda>x. m_hash x = h \<and> m_owner x = owner) (messages db) = filter (\<lambda>x. m_hash x = m_hash r) (messages db)"
    by (intro filter_cong refl)
  then have "filter (\<lambda>x. m_hash x = h \<and> m_owner x = owner) (messages db) = [r]"
    using filter_unique [OF tables_ok_distinct(1) [OF ok] r(1)] by simp
  then show ?thesis by (simp add: delete_messages_def Some)
qed

lemma delete_hash_loop_spec:
  assumes "tables_ok lb db" and "delete_hash_loop owner hashes db = (db', deleted)"
  shows "\<exists>del. db' = fold delete_message del db \<and> deleted = map m_hash del \<and> distinct del
     \<and> set del = {r \<in> set (messages db). m_owner r = owner \<and> m_hash r \<in> set hashes}"
  using assms
proof (induction hashes arbitrary: db db' deleted)
  case (Cons h hashes)
  let ?f = "List.find (\<lambda>r. m_hash r = h \<and> m_owner r = owner) (messages db)"
  show ?case
  proof (cases ?f)
    case None
    have d: "delete_hash_loop owner hashes db = (db', deleted)"
      using Cons.prems(2) unfolding delete_hash_loop.simps delete_messages_one [OF Cons.prems(1)] None
      by (auto simp: Let_def split: prod.splits)
    from Cons.IH [OF Cons.prems(1) d] None show ?thesis by (fastforce simp: find_None_all)
  next
    case (Some r)
    then have r: "r \<in> set (messages db)" "m_hash r = h" "m_owner r = owner" using find_Some_in by fastforce+
    obtain deleted' where d: "delete_hash_loop owner hashes (delete_message r db) = (db', deleted')" "deleted = h # deleted'"
      using Cons.prems(2) unfolding delete_hash_loop.simps delete_messages_one [OF Cons.prems(1)] Some
      by (auto simp: Let_def split: prod.splits)
    from Cons.IH [OF delete_message_ok [OF Cons.prems(1)] d(1)] obtain del where del:
        "db' = fold delete_message del (delete_message r db)" "deleted' = map m_hash del" "distinct del"
        "set del = {x \<in> set (messages (delete_message r db)). m_owner x = owner \<and> m_hash x \<in> set hashes}"
      by blast
    have "set (messages (delete_message r db)) = set (messages db) - {r}"
      using sorted_map_inj [OF tables_ok_distinct(2) [OF Cons.prems(1)] _ r(1)] r(1)
      by (auto simp: delete_message_frame)
    moreover have "x = r" if "x \<in> set (messages db)" "m_hash x = h" for x
      using distinct_map_inj [OF tables_ok_distinct(1) [OF Cons.prems(1)] that(1) r(1)] that r by simp
    ultimately have "set (r # del) = {x \<in> set (messages db). m_owner x = owner \<and> m_hash x \<in> set (h # hashes)}"
        and "r \<notin> set del"
      using del(4) r by fastforce+
    then show ?thesis using del(1-3) d(2) r(2) by (intro exI [of _ "r # del"]) simp
  qed
qed simp

lemma delete_by_hash_exact:
  assumes inv: "db_inv lb db" and own: "owner_id_of db pk = Some owner" and res: "delete_by_hash pk hashes db = (db', deleted)"
  shows "deleted_exactly (\<lambda>r. m_owner r = owner \<and> m_hash r \<in> set hashes) db db'" and "db_inv lb db'"
    and "distinct deleted"
    and "set deleted = m_hash ` {r \<in> set (messages db). m_owner r = owner \<and> m_hash r \<in> set hashes}"
proof -
  let ?P = "\<lambda>r. m_owner r = owner \<and> m_hash r \<in> set hashes"
  have ok: "tables_ok lb db" "deferred_ok db" "message_count db = int (length (messages db))"
    using db_inv_parts [OF inv] by blast+
  note s = tables_ok_distinct(2) [OF ok(1)]
  obtain db1 gone where l: "delete_hash_loop owner hashes db = (db1, gone)"
    by (cases "delete_hash_loop owner hashes db")
  from delete_hash_loop_spec [OF ok(1) l] obtain del where del: "db1 = fold delete_message del db"
      "gone = map m_hash del" "distinct del" "set del = {r \<in> set (messages db). ?P r}" by blast
  have r: "db' = forget_deferred_all gone (db1\<lparr>message_count := message_count db1 - int (length gone)\<rparr>)" "deleted = gone"
    using res by (auto simp: delete_by_hash_def own l Let_def)
  have "inj_on m_hash (set del)"
    using distinct_map_inj [OF tables_ok_distinct(1) [OF ok(1)]] del(4) by (auto intro!: inj_onI)
  then show "distinct deleted" and "set deleted = m_hash ` {r \<in> set (messages db). ?P r}"
    using del by (simp_all add: r distinct_map)
  have "distinct (messages db)" using s by (simp add: strict_sorted_iff distinct_map)
  then have "distinct (filter ?P (messages db))" by (rule distinct_filter)
  from distinct_card [OF this] distinct_card [OF del(3)]
  have len: "length del = length (filter ?P (messages db))" unfolding del(4) set_filter by simp
  have m: "m_id x \<notin> m_id ` set del \<longleftrightarrow> \<not> ?P x" if "x \<in> set (messages db)" for x
    using sorted_map_inj [OF s that] that del(4) by auto
  have fr: "messages db1 = filter (\<lambda>x. \<not> ?P x) (messages db)" "message_count db1 = message_count db"
      "deferred db1 = deferred db" "deferred_queue db1 = deferred_queue db"
    using m by (simp_all add: del(1) fold_delete_message_frame cong: filter_cong)
  have "owners db1 = filter (\<lambda>w. \<not> last_of_owner {r \<in> set (messages db). ?P r} (messages db) (o_id w)) (owners db)"
    using fold_delete_owners [OF s _ del(3)] del(4) unfolding del(1) by auto
  then show "deleted_exactly ?P db db'"
    using fr len del(2,4) by (auto simp: deleted_exactly_def r forget_deferred_all_frame map_of_fold_delete)
  have "deferred_ok db'"
    unfolding r by (intro deferred_ok_forget_all) (use ok(2) deferred_ok_cong [OF fr(3,4)] in simp)
  moreover have "tables_ok lb db'" using fold_delete_message_ok [OF ok(1)] by (simp add: r forget_deferred_all_frame del(1))
  moreover have "count_ok db'"
    using ok(3) length_filter_compl' [of ?P "messages db"] fr len
    by (simp add: r forget_deferred_all_frame count_ok_def del(2))
  ultimately show "db_inv lb db'" by (simp add: db_inv_def db_ok_def)
qed

definition exact_delete :: "(string \<Rightarrow> u64) \<Rightarrow> (message_row \<Rightarrow> bool) \<Rightarrow> database \<Rightarrow> database \<Rightarrow> bool" where
  "exact_delete lb P db db' \<longleftrightarrow> deleted_exactly P db db' \<and> db_inv lb db'"

lemma delete_and_forget_report:
  assumes "db_inv lb db" and "delete_and_forget P db = (db', deleted)"
  shows "exact_delete lb P db db' \<and> deleted = filter P (messages db)"
  using delete_and_forget_exact [OF assms(1), of P] assms(2)
  by (auto simp: exact_delete_def delete_and_forget_eq)

lemma deletes_exact:
  assumes inv: "db_inv lb db" and own: "owner_id_of db pk = Some owner"
  shows "exact_delete lb (\<lambda>r. m_owner r = owner) db (fst (delete_all pk db))
       \<and> snd (delete_all pk db) =
           map (\<lambda>r. (word_of_int (m_namespace r), m_hash r)) (filter (\<lambda>r. m_owner r = owner) (messages db))"
    "exact_delete lb (\<lambda>r. m_owner r = owner \<and> m_namespace r = to_int ns) db (fst (delete_all_in pk ns db))
       \<and> snd (delete_all_in pk ns db) =
           map m_hash (filter (\<lambda>r. m_owner r = owner \<and> m_namespace r = to_int ns) (messages db))"
    "exact_delete lb (\<lambda>r. m_owner r = owner \<and> m_timestamp r \<le> to_epoch_ms t) db (fst (delete_by_timestamp pk t db))
       \<and> snd (delete_by_timestamp pk t db) =
           map (\<lambda>r. (word_of_int (m_namespace r), m_hash r))
             (filter (\<lambda>r. m_owner r = owner \<and> m_timestamp r \<le> to_epoch_ms t) (messages db))"
    "exact_delete lb (\<lambda>r. m_owner r = owner \<and> m_timestamp r \<le> to_epoch_ms t \<and> m_namespace r = to_int ns) db
         (fst (delete_by_timestamp_in pk ns t db))
       \<and> snd (delete_by_timestamp_in pk ns t db) =
           map m_hash (filter (\<lambda>r. m_owner r = owner \<and> m_timestamp r \<le> to_epoch_ms t
             \<and> m_namespace r = to_int ns) (messages db))"
    "exact_delete lb (\<lambda>r. m_owner r = owner \<and> m_hash r \<in> set hashes) db (fst (delete_by_hash pk hashes db))
       \<and> distinct (snd (delete_by_hash pk hashes db))
       \<and> set (snd (delete_by_hash pk hashes db)) =
           m_hash ` {r \<in> set (messages db). m_owner r = owner \<and> m_hash r \<in> set hashes}"
  using delete_and_forget_report [OF inv] delete_by_hash_exact [OF inv own prod.collapse [symmetric]]
  by (auto simp: delete_all_def delete_all_in_def delete_by_timestamp_def delete_by_timestamp_in_def own
      exact_delete_def split: prod.splits)

text \<open>For an account that is not known nothing happens.\<close>

lemma deletes_unknown:
  assumes "owner_id_of db pk = None"
  shows "fst (delete_all pk db) = db" "fst (delete_all_in pk ns db) = db" "fst (delete_by_timestamp pk t db) = db"
    "fst (delete_by_timestamp_in pk ns t db) = db" "fst (delete_by_hash pk hashes db) = db"
  using assms
  by (simp_all add: delete_all_def delete_all_in_def delete_by_timestamp_def delete_by_timestamp_in_def
      delete_by_hash_def delete_and_forget_def delete_messages_def forget_deferred_all_def)

lemma deletes_inv [inv_intros]:
  assumes "db_inv lb db"
  shows "db_inv lb (fst (delete_all pk db))" "db_inv lb (fst (delete_all_in pk ns db))"
    "db_inv lb (fst (delete_by_timestamp pk t db))" "db_inv lb (fst (delete_by_timestamp_in pk ns t db))"
    "db_inv lb (fst (delete_by_hash pk hashes db))"
  using deletes_exact [OF assms, of pk] deletes_unknown [of db pk] assms
  by (cases "owner_id_of db pk"; fastforce simp: exact_delete_def)+

text \<open>
  C30: Each deletion removes exactly the messages it is asked to, of the given account only,
  reports exactly those, keeps the message count and the deferred extensions in step, removes
  the accounts that have no message left, and keeps the constraints.
\<close>

theorem deletes_are_exact:
  assumes "db_inv lb db" and "owner_id_of db pk = Some owner"
  shows "(exact_delete lb (\<lambda>r. m_owner r = owner) db (fst (delete_all pk db))
       \<and> snd (delete_all pk db) =
           map (\<lambda>r. (word_of_int (m_namespace r), m_hash r)) (filter (\<lambda>r. m_owner r = owner) (messages db)))
    \<and> (exact_delete lb (\<lambda>r. m_owner r = owner \<and> m_namespace r = to_int ns) db (fst (delete_all_in pk ns db))
       \<and> snd (delete_all_in pk ns db) =
           map m_hash (filter (\<lambda>r. m_owner r = owner \<and> m_namespace r = to_int ns) (messages db)))
    \<and> (exact_delete lb (\<lambda>r. m_owner r = owner \<and> m_timestamp r \<le> to_epoch_ms t) db (fst (delete_by_timestamp pk t db))
       \<and> snd (delete_by_timestamp pk t db) =
           map (\<lambda>r. (word_of_int (m_namespace r), m_hash r))
             (filter (\<lambda>r. m_owner r = owner \<and> m_timestamp r \<le> to_epoch_ms t) (messages db)))
    \<and> (exact_delete lb (\<lambda>r. m_owner r = owner \<and> m_timestamp r \<le> to_epoch_ms t \<and> m_namespace r = to_int ns) db
         (fst (delete_by_timestamp_in pk ns t db))
       \<and> snd (delete_by_timestamp_in pk ns t db) =
           map m_hash (filter (\<lambda>r. m_owner r = owner \<and> m_timestamp r \<le> to_epoch_ms t
             \<and> m_namespace r = to_int ns) (messages db)))
    \<and> (exact_delete lb (\<lambda>r. m_owner r = owner \<and> m_hash r \<in> set hashes) db (fst (delete_by_hash pk hashes db))
       \<and> distinct (snd (delete_by_hash pk hashes db))
       \<and> set (snd (delete_by_hash pk hashes db)) =
           m_hash ` {r \<in> set (messages db). m_owner r = owner \<and> m_hash r \<in> set hashes})"
  by (intro conjI deletes_exact [OF assms, THEN conjunct1] deletes_exact [OF assms, THEN conjunct2]
      deletes_exact(5) [OF assms, THEN conjunct2, THEN conjunct1]
      deletes_exact(5) [OF assms, THEN conjunct2, THEN conjunct2])

theorem deletes_are_exact_witness:
  "map m_hash (messages (fst (delete_by_hash sample_pubkey [''first''] sample_db))) = [''second'']
   \<and> messages (fst (delete_all sample_pubkey sample_db)) = []"
proof -
  note d = deletes_are_exact [OF sample_db_inv sample_db_owner, of 0 0 "[''first'']"]
  have m: "messages sample_db = [sample_row 1 ''first'', sample_row 2 ''second'']" by (simp add: sample_db_def)
  have "messages (fst (delete_by_hash sample_pubkey [''first''] sample_db)) =
      filter (\<lambda>r. \<not> (m_owner r = 1 \<and> m_hash r \<in> set [''first''])) (messages sample_db)"
    using d unfolding exact_delete_def deleted_exactly_def by blast
  moreover have "messages (fst (delete_all sample_pubkey sample_db)) = filter (\<lambda>r. \<not> m_owner r = 1) (messages sample_db)"
    using d unfolding exact_delete_def deleted_exactly_def by blast
  ultimately show ?thesis by (simp add: m sample_row_def)
qed

section \<open>Deleting in chunks\<close>

text \<open>
  The contract of a statement that deletes at most a chunk of what is due: it deletes a full
  chunk unless there is less. Then running it until it deletes less than a chunk ends, with
  nothing due left and all of it counted.
\<close>

locale chunked_delete =
  fixes stmt :: "'db \<Rightarrow> 'db \<times> nat" and due :: "'db \<Rightarrow> nat" and good :: "'db \<Rightarrow> bool"
  assumes stmt_progress: "good db \<Longrightarrow> stmt db = (db', n) \<Longrightarrow>
      n = min EXPIRY_DELETE_CHUNK (due db) \<and> due db' = due db - n \<and> good db'"
begin

lemma chunks_done:
  assumes "good db"
  shows "\<exists>db'. delete_in_chunks stmt db k = Some (db', k + due db) \<and> due db' = 0 \<and> good db'"
  using assms
proof (induction "due db" arbitrary: db k rule: less_induct)
  case less
  obtain db' n where s: "stmt db = (db', n)" by (cases "stmt db")
  note p = stmt_progress [OF less.prems s]
  show ?case
  proof (cases "n = EXPIRY_DELETE_CHUNK")
    case True
    with p have "due db' < due db" by (auto simp: EXPIRY_DELETE_CHUNK_def min_def split: if_splits)
    from less.hyps [OF this, of "k + n"] p True show ?thesis
      by (subst delete_in_chunks.simps) (auto simp: s)
  next
    case False
    with p have "n = due db" "due db' = 0" by (auto simp: min_def)
    with False p show ?thesis by (subst delete_in_chunks.simps) (auto simp: s)
  qed
qed

end

text \<open>
  What \<open>ORDER BY\<close> promises of the order it gives to rows.
\<close>

definition sorts_by :: "('r \<Rightarrow> int) \<Rightarrow> ('r list \<Rightarrow> 'r list) \<Rightarrow> bool" where
  "sorts_by key f \<longleftrightarrow> (\<forall>rows. mset (f rows) = mset rows \<and> sorted (map key (f rows)))"

lemma sorts_by_sort_key: "sorts_by key (sort_key key)"
  by (simp add: sorts_by_def)

lemma sorts_by_simps:
  assumes "sorts_by key f"
  shows "set (f rows) = set rows" "length (f rows) = length rows" "distinct (f rows) = distinct rows"
  using assms unfolding sorts_by_def by (metis set_mset_mset, metis size_mset, metis mset_eq_imp_distinct_iff)

definition expired_rows :: "int \<Rightarrow> database \<Rightarrow> message_row list" where
  "expired_rows cutoff db = filter (\<lambda>r. m_expiry r \<le> cutoff) (messages db)"

text \<open>The state in the middle of a cleaning that started from \<open>db0\<close>.\<close>

definition cleaning :: "(string \<Rightarrow> u64) \<Rightarrow> (message_row list \<Rightarrow> message_row list) \<Rightarrow> int \<Rightarrow> database \<Rightarrow> database \<Rightarrow> bool" where
  "cleaning lb by_expiry cutoff db0 db \<longleftrightarrow>
     sorts_by m_expiry by_expiry \<and> tables_ok lb db
     \<and> filter (\<lambda>r. \<not> m_expiry r \<le> cutoff) (messages db) = filter (\<lambda>r. \<not> m_expiry r \<le> cutoff) (messages db0)
     \<and> message_count db = message_count db0 \<and> deferred db = deferred db0 \<and> deferred_queue db = deferred_queue db0"

lemma clean_statement_progress:
  assumes good: "cleaning lb by_expiry cutoff db0 db" and st: "clean_statement by_expiry cutoff db = (db', n)"
  shows "n = min EXPIRY_DELETE_CHUNK (length (expired_rows cutoff db))
     \<and> length (expired_rows cutoff db') = length (expired_rows cutoff db) - n \<and> cleaning lb by_expiry cutoff db0 db'"
proof -
  have ok: "tables_ok lb db" and so: "sorts_by m_expiry by_expiry" using good by (simp_all add: cleaning_def)
  note s = tables_ok_distinct(2) [OF ok]
  let ?chunk = "take EXPIRY_DELETE_CHUNK (by_expiry (expired_rows cutoff db))"
  define P where "P r = (m_id r \<in> m_id ` set ?chunk)" for r :: message_row
  have db': "db' = fst (delete_messages P db)" and n: "n = length (filter P (messages db))"
    using st delete_messages_deleted [of P db]
    by (auto simp: clean_statement_def Let_def expired_rows_def P_def [abs_def] split: prod.splits)
  have sub: "set ?chunk \<subseteq> set (expired_rows cutoff db)" using sorts_by_simps(1) [OF so] set_take_subset by metis
  then have P: "P r \<longleftrightarrow> r \<in> set ?chunk" if "r \<in> set (messages db)" for r
    using sorted_map_inj [OF s that] by (auto simp: expired_rows_def P_def)
  have dm: "distinct (messages db)" using s by (simp add: strict_sorted_iff distinct_map)
  have dc: "distinct ?chunk" using dm by (simp add: sorts_by_simps [OF so] expired_rows_def)
  have "set (filter P (messages db)) = set ?chunk" using P sub by (auto simp: expired_rows_def)
  then have "n = length ?chunk" using distinct_card [OF dc] distinct_card [OF distinct_filter [OF dm, of P]] n by simp
  then have n': "n = min EXPIRY_DELETE_CHUNK (length (expired_rows cutoff db))" by (simp add: sorts_by_simps [OF so])
  have m: "messages db' = filter (\<lambda>r. \<not> P r) (messages db)" unfolding db' by (rule delete_messages_messages [OF s])
  have e: "m_expiry r \<le> cutoff" if "r \<in> set (messages db)" "P r" for r
    using P [OF that(1)] that(2) sub by (auto simp: expired_rows_def)
  have "filter (\<lambda>r. \<not> m_expiry r \<le> cutoff) (messages db') = filter (\<lambda>r. \<not> m_expiry r \<le> cutoff) (messages db)"
    unfolding m filter_filter using e by (intro filter_cong refl) blast
  moreover have "length (expired_rows cutoff db') + n = length (expired_rows cutoff db)"
  proof -
    have a: "expired_rows cutoff db' = filter (\<lambda>r. \<not> P r) (expired_rows cutoff db)"
      unfolding expired_rows_def m filter_filter by (intro filter_cong refl) blast
    have "filter P (messages db) = filter P (expired_rows cutoff db)"
      unfolding expired_rows_def filter_filter using e by (intro filter_cong refl) blast
    then show ?thesis using length_filter_compl' [of P "expired_rows cutoff db"] a n by simp
  qed
  moreover have "tables_ok lb db'" unfolding db' by (rule delete_messages_ok [OF ok])
  ultimately show ?thesis
    using n' good by (auto simp: cleaning_def) (simp_all add: db' delete_messages_deferred)
qed

interpretation expired_messages: chunked_delete "clean_statement by_expiry cutoff"
    "\<lambda>db. length (expired_rows cutoff db)" "cleaning lb by_expiry cutoff db0"
  for by_expiry cutoff lb db0
  by unfold_locales (rule clean_statement_progress)

lemma clean_expired_spec:
  assumes inv: "db_inv lb db" and so: "sorts_by m_expiry by_expiry"
  shows "\<exists>db'. clean_expired by_expiry now db = Some db' \<and> db_inv lb db'
     \<and> messages db' = filter (\<lambda>r. m_expiry r > to_epoch_ms now) (messages db)"
proof -
  let ?c = "to_epoch_ms now"
  have "cleaning lb by_expiry ?c db db" using so db_inv_parts [OF inv] by (simp add: cleaning_def)
  from expired_messages.chunks_done [OF this, of 0] obtain db' where d:
      "delete_in_chunks (clean_statement by_expiry ?c) db 0 = Some (db', length (expired_rows ?c db))"
      "length (expired_rows ?c db') = 0" "cleaning lb by_expiry ?c db db'"
    by auto
  have none: "\<forall>r \<in> set (messages db'). \<not> m_expiry r \<le> ?c"
    using d(2) by (simp add: expired_rows_def filter_empty_conv)
  have "messages db' = filter (\<lambda>r. \<not> m_expiry r \<le> ?c) (messages db)"
    using d(3) filter_True [OF none] by (simp add: cleaning_def)
  moreover from this have "length (messages db') + length (expired_rows ?c db) = length (messages db)"
    using length_filter_compl' [of "\<lambda>r. m_expiry r \<le> ?c" "messages db"] by (simp add: expired_rows_def)
  ultimately show ?thesis
    using d(1,3) db_inv_parts [OF inv]
    by (auto simp: clean_expired_def cleaning_def db_inv_def db_ok_def count_ok_def not_le
        deferred_ok_def tables_ok_count)
qed

text \<open>
  C33: Cleaning ends, whatever the number of expired messages and however they are cut into
  chunks, and then exactly the messages whose stored expiry has passed are gone.
\<close>

theorem clean_expired_exact:
  assumes "db_inv lb db" and "sorts_by m_expiry by_expiry"
  shows "\<exists>db'. clean_expired by_expiry now db = Some db' \<and> db_inv lb db'
     \<and> messages db' = filter (\<lambda>r. m_expiry r > to_epoch_ms now) (messages db)"
  using assms by (rule clean_expired_spec)

theorem clean_expired_exact_witness:
  "\<exists>db'. clean_expired (sort_key m_expiry) 150000000 sample_db = Some db' \<and> map m_hash (messages db') = [''second'']"
  using clean_expired_exact [OF sample_db_inv sorts_by_sort_key, of 150000000]
  by (auto simp: sample_db_def sample_row_def to_epoch_ms_nonneg)

section \<open>Counting\<close>

lemma group_count_sum:
  "sum_list (map snd (filter (\<lambda>g. Q (fst g)) (group_count key xs))) = length (filter (\<lambda>x. Q (key x)) xs)"
proof -
  have aux: "sum_list (map (\<lambda>k. length (filter (\<lambda>x. key x = k) xs)) ks) = length (filter (\<lambda>x. key x \<in> set ks) xs)"
    if "distinct ks" for ks
    using that
  proof (induction ks)
    case (Cons k ks)
    have "length (filter (\<lambda>x. key x = k \<or> key x \<in> set ks) xs) =
        length (filter (\<lambda>x. key x = k) xs) + length (filter (\<lambda>x. key x \<in> set ks) xs)"
      using Cons.prems by (induction xs) auto
    then show ?case using Cons by simp
  qed simp
  have "map snd (filter (\<lambda>g. Q (fst g)) (group_count key xs)) =
      map (\<lambda>k. length (filter (\<lambda>x. key x = k) xs)) (filter Q (remdups (map key xs)))"
    by (simp add: group_count_def filter_map comp_def)
  moreover have "filter (\<lambda>x. key x \<in> set (filter Q (remdups (map key xs)))) xs = filter (\<lambda>x. Q (key x)) xs"
    by (intro filter_cong refl) auto
  ultimately show ?thesis using aux [of "filter Q (remdups (map key xs))"] by simp
qed

lemma namespace_groups:
  "map (\<lambda>ns. (ns, sum_list (map snd (filter (\<lambda>g. fst g = ns) (map (\<lambda>((_, ns), n). (ns, n)) gs)))))
     (remdups (map fst (map (\<lambda>((_, ns), n). (ns, n)) gs))) =
   map (\<lambda>ns. (ns, sum_list (map snd (filter (\<lambda>g. snd (fst g) = ns) gs)))) (remdups (map (\<lambda>g. snd (fst g)) gs))"
  by (simp add: filter_map comp_def case_prod_beta)

lemma get_namespace_counts_eq:
  "get_namespace_counts db =
     map (\<lambda>ns. (ns, length (filter (\<lambda>r. m_namespace r = ns) (messages db))))
       (remdups (map (\<lambda>g. snd (fst g)) (group_count (\<lambda>r. (m_owner r, m_namespace r)) (messages db))))"
  unfolding get_namespace_counts_def Let_def namespace_groups
  by (simp add: group_count_sum [of "\<lambda>k. snd k = ns" for ns])

text \<open>
  Counting by account and namespace first and then adding up, as the statement does to
  use an index, gives the number of messages of every namespace, each namespace with messages
  listed once.
\<close>

theorem namespace_counts_direct:
  "distinct (map fst (get_namespace_counts db))
   \<and> (\<forall>ns n. (ns, n) \<in> set (get_namespace_counts db) \<longleftrightarrow>
         n = length (filter (\<lambda>r. m_namespace r = ns) (messages db)) \<and> 0 < n)"
proof -
  have "ns \<in> (\<lambda>g. snd (fst g)) ` set (group_count (\<lambda>r. (m_owner r, m_namespace r)) (messages db)) \<longleftrightarrow>
      0 < length (filter (\<lambda>r. m_namespace r = ns) (messages db))" for ns
    by (auto simp: group_count_def image_iff filter_empty_conv)
  then show ?thesis unfolding get_namespace_counts_eq by (auto simp: comp_def)
qed

section \<open>Retrieving page by page\<close>

text \<open>
  The loop takes rows up to the first that is over one of the limits.
\<close>

definition page_fits :: "nat option \<Rightarrow> nat option \<Rightarrow> (message_row \<Rightarrow> nat) \<Rightarrow> message_row list \<Rightarrow> nat \<Rightarrow> bool" where
  "page_fits max_results max_size sz rows k \<longleftrightarrow>
     (case max_results of Some n \<Rightarrow> k \<le> n | None \<Rightarrow> True)
     \<and> (k = 1 \<or> (case max_size of Some m \<Rightarrow> sum_list (map sz (take k rows)) \<le> m | None \<Rightarrow> True))"

lemma retrieve_loop_invariant:
  assumes "retrieve_loop max_results max_size sz rows acc agg = (res, trunc)"
    and "agg = (if max_size = None then 0 else sum_list (map sz acc))"
    and "acc = [] \<or> page_fits max_results max_size sz (acc @ rows) (length acc)"
    and "max_results \<noteq> Some 0"
  shows "\<exists>k \<le> length rows. res = acc @ take k rows \<and> trunc = (k < length rows)
     \<and> (rows \<noteq> [] \<and> acc = [] \<longrightarrow> 0 < k)
     \<and> (res \<noteq> [] \<longrightarrow> page_fits max_results max_size sz (acc @ rows) (length acc + k))
     \<and> (k < length rows \<longrightarrow> \<not> page_fits max_results max_size sz (acc @ rows) (Suc (length acc + k)))"
  using assms
proof (induction max_results max_size sz rows acc agg rule: retrieve_loop.induct)
  case (1 max_results max_size sz results agg)
  then show ?case by auto
next
  case (2 max_results max_size sz r rows results agg)
  let ?full = "case max_results of Some n \<Rightarrow> length results \<ge> n | None \<Rightarrow> False"
  let ?agg = "if max_size = None then agg else agg + sz r"
  let ?over = "results \<noteq> [] \<and> (case max_size of Some m \<Rightarrow> ?agg > m | None \<Rightarrow> False)"
  show ?case
  proof (cases "?full \<or> ?over")
    case True
    then have r: "res = results" "trunc" using "2.prems"(1) by (auto simp: Let_def split: if_splits)
    have ne: "results \<noteq> []" using True "2.prems"(4) by (auto split: option.splits)
    have "\<not> page_fits max_results max_size sz (results @ r # rows) (Suc (length results))"
      using True "2.prems"(2) ne by (auto simp: page_fits_def split: option.splits)
    then show ?thesis using r ne "2.prems"(3) by (intro exI [of _ 0]) auto
  next
    case False
    then have l: "retrieve_loop max_results max_size sz rows (results @ [r]) ?agg = (res, trunc)"
      using "2.prems"(1) by (simp add: Let_def split: if_splits)
    have "page_fits max_results max_size sz ((results @ [r]) @ rows) (length (results @ [r]))"
      using False "2.prems"(2,4) by (auto simp: page_fits_def not_le split: option.splits)
    moreover have "?agg = (if max_size = None then 0 else sum_list (map sz (results @ [r])))"
      using "2.prems"(2) by simp
    ultimately obtain k where k: "k \<le> length rows" "res = (results @ [r]) @ take k rows" "trunc = (k < length rows)"
        "page_fits max_results max_size sz (results @ r # rows) (Suc (length results) + k)"
        "k < length rows \<longrightarrow> \<not> page_fits max_results max_size sz (results @ r # rows) (Suc (Suc (length results) + k))"
      using "2.IH" [OF _ refl _ l _ _ "2.prems"(4)] False by force
    then show ?thesis by (intro exI [of _ "Suc k"]) auto
  qed
qed

lemma retrieve_loop_page:
  assumes "max_results \<noteq> Some 0"
  obtains k where "retrieve_loop max_results max_size sz rows [] 0 = (take k rows, k < length rows)"
    "k \<le> length rows" "rows \<noteq> [] \<Longrightarrow> 0 < k"
    "0 < k \<Longrightarrow> page_fits max_results max_size sz rows k"
    "k < length rows \<Longrightarrow> \<not> page_fits max_results max_size sz rows (Suc k)"
proof -
  obtain res trunc where l: "retrieve_loop max_results max_size sz rows [] 0 = (res, trunc)"
    by (cases "retrieve_loop max_results max_size sz rows [] 0")
  have z: "0 = (if max_size = None then 0 else sum_list (map sz []))" by simp
  obtain k where "k \<le> length rows" "res = take k rows" "trunc = (k < length rows)" "rows \<noteq> [] \<longrightarrow> 0 < k"
      "res \<noteq> [] \<longrightarrow> page_fits max_results max_size sz rows k"
      "k < length rows \<longrightarrow> \<not> page_fits max_results max_size sz rows (Suc k)"
    using retrieve_loop_invariant [OF l z _ assms] by auto
  with l that [of k] show ?thesis by auto
qed

text \<open>
  The rows a page is taken from: the unexpired messages of the account in the namespace after
  the last one the client has.
\<close>

definition rows_after :: "time \<Rightarrow> database \<Rightarrow> int \<Rightarrow> namespace_id \<Rightarrow> string \<Rightarrow> message_row list" where
  "rows_after now db owner ns last_hash = retrieve_rows now db owner ns (last_id_of db owner ns last_hash)"

lemma to_c_int_small: "n < 2 ^ 31 \<Longrightarrow> to_c_int n = int n"
  by (simp add: to_c_int_def signed_of_nat signed_take_bit_int_eq_self)

lemma sql_limit_fits:
  assumes "case mr of Some n \<Rightarrow> n < 2 ^ 31 - 1 | None \<Rightarrow> True"
  shows "sql_limit (case mr of Some n \<Rightarrow> to_c_int n + 1 | None \<Rightarrow> - 1) rows =
     (case mr of Some n \<Rightarrow> take (Suc n) rows | None \<Rightarrow> rows)"
  using assms by (auto simp: sql_limit_def to_c_int_small nat_add_distrib split: option.splits)

lemma page_fits_take: "k \<le> j \<Longrightarrow> page_fits mr ms sz (take j rows) k = page_fits mr ms sz rows k"
  unfolding page_fits_def take_take by (simp only: min_absorb1)

lemma drop_filter_greater:
  fixes f :: "'a \<Rightarrow> 'b::linorder"
  assumes "sorted_wrt (<) (map f xs)" and "0 < k" and "k \<le> length xs"
  shows "filter (\<lambda>x. f x > f (xs ! (k - 1))) xs = drop k xs"
proof -
  have s: "f (xs ! i) < f (xs ! j)" if "i < j" "j < length xs" for i j
    using sorted_wrt_nth_less [OF assms(1) that(1)] that by simp
  have "filter (\<lambda>x. f x > f (xs ! (k - 1))) (take k xs) = []"
  proof (rule filter_False, rule ballI)
    fix x assume "x \<in> set (take k xs)"
    then obtain i where "i < k" "x = xs ! i" using assms(3) by (auto simp: in_set_conv_nth)
    moreover from this have "i = k - 1 \<or> f (xs ! i) < f (xs ! (k - 1))" using s [of i "k - 1"] assms(2,3) by linarith
    ultimately show "\<not> f x > f (xs ! (k - 1))" by auto
  qed
  moreover have "filter (\<lambda>x. f x > f (xs ! (k - 1))) (drop k xs) = drop k xs"
  proof (rule filter_True, rule ballI)
    fix x assume "x \<in> set (drop k xs)"
    then obtain i where "i < length xs - k" "x = xs ! (k + i)" by (auto simp: in_set_conv_nth)
    then show "f x > f (xs ! (k - 1))" using s [of "k - 1" "k + i"] assms(2) by simp
  qed
  ultimately show ?thesis using filter_append [of "\<lambda>x. f x > f (xs ! (k - 1))" "take k xs" "drop k xs"] by simp
qed

text \<open>The page after a page starts right behind it.\<close>

lemma rows_after_in:
  "r \<in> set (rows_after now db owner ns last_hash) \<longleftrightarrow>
     r \<in> set (messages db) \<and> m_owner r = owner \<and> m_namespace r = to_int ns \<and> m_expiry r > to_epoch_ms now
     \<and> (case last_id_of db owner ns last_hash of Some l \<Rightarrow> m_id r > l | None \<Rightarrow> True)"
  by (simp add: rows_after_def retrieve_rows_def)

lemma rows_after_filter:
  assumes "last_id_of db owner ns hash = Some i"
    and "case last_id_of db owner ns last_hash of Some l \<Rightarrow> i > l | None \<Rightarrow> True"
  shows "rows_after now db owner ns hash = filter (\<lambda>x. m_id x > i) (rows_after now db owner ns last_hash)"
  unfolding rows_after_def retrieve_rows_def filter_filter using assms
  by (intro filter_cong refl) (auto split: option.splits)

lemma rows_after_page:
  assumes ok: "tables_ok lb db" and k: "0 < k" "k \<le> length (rows_after now db owner ns last_hash)"
    and h: "m_hash (rows_after now db owner ns last_hash ! (k - 1)) \<noteq> []"
  shows "rows_after now db owner ns (m_hash (rows_after now db owner ns last_hash ! (k - 1))) =
     drop k (rows_after now db owner ns last_hash)"
proof -
  let ?rows = "rows_after now db owner ns last_hash" and ?l = "last_id_of db owner ns last_hash"
  let ?r = "?rows ! (k - 1)"
  have r: "?r \<in> set ?rows" using k by simp
  then have rm: "?r \<in> set (messages db)" "m_owner ?r = owner" "m_namespace ?r = to_int ns"
      "case ?l of Some l \<Rightarrow> m_id ?r > l | None \<Rightarrow> True"
    using rows_after_in [of ?r now db owner ns last_hash] by blast+
  have "List.find (\<lambda>x. m_owner x = owner \<and> m_namespace x = to_int ns \<and> m_hash x = m_hash ?r) (messages db) = Some ?r"
  proof -
    have "List.find (\<lambda>x. m_owner x = owner \<and> m_namespace x = to_int ns \<and> m_hash x = m_hash ?r) (messages db)
        = List.find (\<lambda>x. m_hash x = m_hash ?r) (messages db)"
      using distinct_map_inj [OF tables_ok_distinct(1) [OF ok] _ rm(1)] rm by (intro find_cong refl) auto
    then show ?thesis using find_unique [OF tables_ok_distinct(1) [OF ok] rm(1)] by simp
  qed
  then have "last_id_of db owner ns (m_hash ?r) = Some (m_id ?r)" using h by (simp add: last_id_of_def)
  then have "rows_after now db owner ns (m_hash ?r) = filter (\<lambda>x. m_id x > m_id ?r) ?rows"
    using rm(4) by (rule rows_after_filter)
  moreover have "sorted_wrt (<) (map m_id ?rows)"
    using tables_ok_distinct(2) [OF ok] by (simp add: rows_after_def retrieve_rows_def sorted_wrt_map_filter)
  ultimately show ?thesis using drop_filter_greater [of m_id ?rows k] k by simp
qed



end
