(* ===== verification/Expiries.thy ===== *)
theory Expiries
  imports Message_Facts
begin

text \<open>
  Reading and changing expiries (\<open>oxenss/storage/database.cpp\<close>, \<open>update_expiry\<close>, \<open>get_expiries\<close>
  and \<open>update_all_expiries\<close>, with the limits of \<open>oxenss/common/ttl.h\<close>). The table and the cache
  of deferred extensions together refine one abstract table of effective expiries.
\<close>

section \<open>Limits\<close>

definition seconds :: "int \<Rightarrow> time" where "seconds n = n * 1000000000"

definition TTL_MINIMUM :: time where "TTL_MINIMUM = seconds 10"
definition TTL_MAXIMUM :: time where "TTL_MAXIMUM = seconds (14 * 24 * 3600)"
definition TTL_MAXIMUM_PRIVATE :: time where "TTL_MAXIMUM_PRIVATE = seconds (30 * 24 * 3600)"
definition EXPIRY_DEFER_WINDOW :: time where "EXPIRY_DEFER_WINDOW = seconds (30 * 60)"

section \<open>Operations\<close>

text \<open>
  The local state of \<open>update_expiry\<close>: the expiries it has looked at, the changes of the cache
  to make at the end, the hashes seen (if repetitions are skipped), the table, and the result.
\<close>

record expiry_state =
  xs_current :: "(string \<times> int) list"
  xs_pending :: "(string \<times> int option) list"
  xs_seen :: "string list"
  xs_db :: database
  xs_result :: "(string \<times> time) list"

datatype expiry_error = Logic_Error

definition current_of_deferred :: "database \<Rightarrow> int \<Rightarrow> string list \<Rightarrow> (string \<times> int) list" where
  "current_of_deferred db owner hashes =
     fold (\<lambda>hash cs. case deferred_expiry_of db hash owner of
             Some e \<Rightarrow> if map_of cs hash = None then (hash, e) # cs else cs | None \<Rightarrow> cs) hashes []"

definition stored_expiry :: "time \<Rightarrow> int \<Rightarrow> string \<Rightarrow> database \<Rightarrow> int option" where
  "stored_expiry now owner hash db =
     map_option m_expiry
       (List.find (\<lambda>r. m_hash r = hash \<and> m_owner r = owner \<and> m_expiry r > to_epoch_ms now) (messages db))"

definition not_wanted :: "bool \<Rightarrow> bool \<Rightarrow> int \<Rightarrow> int \<Rightarrow> bool" where
  "not_wanted extend_only shorten_only exp_ms current =
     (if extend_only then exp_ms \<le> current else if shorten_only then exp_ms \<ge> current else False)"

definition within_window :: "time \<Rightarrow> int \<Rightarrow> bool" where
  "within_window now current =
     (current > to_epoch_ms (now + TTL_MAXIMUM_PRIVATE) - EXPIRY_DEFER_WINDOW div 1000000)"

definition update_expiry_one ::
    "time \<Rightarrow> int \<Rightarrow> bool \<Rightarrow> bool \<Rightarrow> string \<times> time \<Rightarrow> expiry_state \<Rightarrow> expiry_state" where
  "update_expiry_one now owner extend_only shorten_only = (\<lambda>(hash, exp) st.
     case (case map_of (xs_current st) hash of
             Some c \<Rightarrow> Some c | None \<Rightarrow> stored_expiry now owner hash (xs_db st)) of
       None \<Rightarrow> st
     | Some current \<Rightarrow>
         let exp_ms = to_epoch_ms exp;
             st1 = st\<lparr>xs_current := AList.update hash current (xs_current st)\<rparr>
         in if not_wanted extend_only shorten_only exp_ms current then st1
            else let st2 =
                   (if exp_ms > current \<and> within_window now current
                    then st1\<lparr>xs_pending := AList.update hash (Some exp_ms) (xs_pending st1)\<rparr>
                    else if exp_ms \<noteq> current
                    then st1\<lparr>xs_db := update_messages (\<lambda>r. m_hash r = hash \<and> m_owner r = owner)
                                       (\<lambda>r. r\<lparr>m_expiry := exp_ms\<rparr>) (xs_db st1),
                             xs_pending := AList.update hash None (xs_pending st1)\<rparr>
                    else st1)
                 in st2\<lparr>xs_current := AList.update hash exp_ms (xs_current st2),
                        xs_result := xs_result st2 @ [(hash, exp)]\<rparr>)"

fun update_expiry_loop ::
    "time \<Rightarrow> int \<Rightarrow> bool \<Rightarrow> bool \<Rightarrow> bool \<Rightarrow> (string \<times> time) list \<Rightarrow> expiry_state \<Rightarrow> expiry_state" where
  "update_expiry_loop now owner extend_only shorten_only dedupe [] st = st"
| "update_expiry_loop now owner extend_only shorten_only dedupe ((hash, exp) # items) st =
     (if dedupe \<and> hash \<in> set (xs_seen st)
      then update_expiry_loop now owner extend_only shorten_only dedupe items st
      else update_expiry_loop now owner extend_only shorten_only dedupe items
             (update_expiry_one now owner extend_only shorten_only (hash, exp)
                (if dedupe then st\<lparr>xs_seen := hash # xs_seen st\<rparr> else st)))"

text \<open>One change of the cache at the end.\<close>

definition apply_pending :: "time \<Rightarrow> int \<Rightarrow> string \<times> int option \<Rightarrow> database \<Rightarrow> database" where
  "apply_pending now owner = (\<lambda>(hash, change) db.
     case change of
       None \<Rightarrow> forget_deferred hash db
     | Some e \<Rightarrow>
         (case map_of (deferred db) hash of
            Some old \<Rightarrow> db\<lparr>deferred := AList.update hash (old\<lparr>df_owner := owner, df_expiry := e\<rparr>) (deferred db)\<rparr>
          | None \<Rightarrow>
              let commit_at = now + EXPIRY_DEFER_WINDOW
              in db\<lparr>deferred := AList.update hash \<lparr>df_owner = owner, df_expiry = e, df_commit_at = commit_at\<rparr> (deferred db),
                    deferred_queue := deferred_queue db @ [(commit_at, hash)]\<rparr>))"

definition expiry_items :: "string list \<Rightarrow> time list \<Rightarrow> (string \<times> time) list" where
  "expiry_items hashes new_exp =
     (if length new_exp = 1 then map (\<lambda>hash. (hash, hd new_exp)) hashes else zip hashes new_exp)"

definition update_expiry ::
    "time \<Rightarrow> user_pubkey \<Rightarrow> string list \<Rightarrow> time list \<Rightarrow> bool \<Rightarrow> bool \<Rightarrow> database \<Rightarrow>
     expiry_error + database \<times> (string \<times> time) list" where
  "update_expiry now pk hashes new_exp extend_only shorten_only db =
     (if length new_exp \<noteq> 1 \<and> length new_exp \<noteq> length hashes then Inl Logic_Error
      else if hashes = [] then Inr (db, [])
      else case owner_id_of db pk of
        None \<Rightarrow> Inr (db, [])
      | Some owner \<Rightarrow>
          let dedupe = (length new_exp = 1 \<and> \<not> extend_only \<and> \<not> shorten_only);
              st = update_expiry_loop now owner extend_only shorten_only dedupe (expiry_items hashes new_exp)
                     \<lparr>xs_current = current_of_deferred db owner hashes, xs_pending = [], xs_seen = [],
                      xs_db = db, xs_result = []\<rparr>
          in Inr (fold (apply_pending now owner) (xs_pending st) (xs_db st), xs_result st))"

text \<open>
  \<open>get_expiries\<close>: a \<open>std::map\<close> is the association list of its entries.
\<close>

definition get_expiries :: "time \<Rightarrow> user_pubkey \<Rightarrow> string list \<Rightarrow> database \<Rightarrow> (string \<times> int) list" where
  "get_expiries now pk hashes db =
     (case owner_id_of db pk of
        None \<Rightarrow> []
      | Some owner \<Rightarrow>
          apply_deferred_expiries db owner
            (fold (\<lambda>hash res. case stored_expiry now owner hash db of
                     Some e \<Rightarrow> if map_of res hash = None then res @ [(hash, e)] else res
                   | None \<Rightarrow> res) hashes []))"

definition get_expiries_in :: "time \<Rightarrow> user_pubkey \<Rightarrow> namespace_id \<Rightarrow> database \<Rightarrow> (string \<times> int) list" where
  "get_expiries_in now pk ns db =
     (case owner_id_of db pk of
        None \<Rightarrow> []
      | Some owner \<Rightarrow>
          apply_deferred_expiries db owner
            (map (\<lambda>r. (m_hash r, m_expiry r))
               (filter (\<lambda>r. m_owner r = owner \<and> m_namespace r = to_int ns \<and> m_expiry r > to_epoch_ms now)
                  (messages db))))"

definition shorten_expiries :: "int \<Rightarrow> (message_row \<Rightarrow> bool) \<Rightarrow> database \<Rightarrow> database \<times> message_row list" where
  "shorten_expiries new_exp_ms P db =
     (let sel = (\<lambda>r. m_expiry r > new_exp_ms \<and> P r)
      in (update_messages sel (\<lambda>r. r\<lparr>m_expiry := new_exp_ms\<rparr>) db, filter sel (messages db)))"

definition update_all_expiries ::
    "user_pubkey \<Rightarrow> time \<Rightarrow> database \<Rightarrow> database \<times> (namespace_id \<times> string) list" where
  "update_all_expiries pk new_exp db =
     (case owner_id_of db pk of
        None \<Rightarrow> (db, [])
      | Some owner \<Rightarrow>
          let (taken, db1) = take_deferred owner db;
              (db2, rows) = shorten_expiries (to_epoch_ms new_exp) (\<lambda>r. m_owner r = owner) (write_deferred taken db1)
          in (db2, map (\<lambda>r. (word_of_int (m_namespace r), m_hash r)) rows))"

definition update_all_expiries_in ::
    "user_pubkey \<Rightarrow> namespace_id \<Rightarrow> time \<Rightarrow> database \<Rightarrow> database \<times> string list" where
  "update_all_expiries_in pk ns new_exp db =
     (case owner_id_of db pk of
        None \<Rightarrow> (db, [])
      | Some owner \<Rightarrow>
          let (taken, db1) = take_deferred owner db;
              (db2, rows) = shorten_expiries (to_epoch_ms new_exp) (\<lambda>r. m_owner r = owner \<and> m_namespace r = to_int ns)
                              (write_deferred taken db1)
          in (db2, map m_hash rows))"

section \<open>The abstract table\<close>

text \<open>
  What \<open>update_expiry\<close> promises, stated on the table of effective expiries alone: the messages
  of the account that are alive when it is called are considered one after the other.
\<close>

definition set_expiry :: "string \<Rightarrow> int \<Rightarrow> message_row list \<Rightarrow> message_row list" where
  "set_expiry h e T = map (\<lambda>x. if m_hash x = h then x\<lparr>m_expiry := e\<rparr> else x) T"

definition abs_update_one ::
    "string set \<Rightarrow> int \<Rightarrow> bool \<Rightarrow> bool \<Rightarrow> string \<times> time \<Rightarrow> message_row list \<times> (string \<times> time) list \<Rightarrow>
     message_row list \<times> (string \<times> time) list" where
  "abs_update_one live owner extend_only shorten_only = (\<lambda>(hash, exp) (T, res).
     case List.find (\<lambda>r. m_hash r = hash) T of
       None \<Rightarrow> (T, res)
     | Some r \<Rightarrow>
         if hash \<notin> live \<or> not_wanted extend_only shorten_only (to_epoch_ms exp) (m_expiry r) then (T, res)
         else (set_expiry hash (to_epoch_ms exp) T, res @ [(hash, exp)]))"

definition live_hashes :: "time \<Rightarrow> int \<Rightarrow> message_row list \<Rightarrow> string set" where
  "live_hashes now owner T = set (map m_hash (filter (\<lambda>r. m_owner r = owner \<and> m_expiry r > to_epoch_ms now) T))"

fun keep_first :: "string set \<Rightarrow> (string \<times> time) list \<Rightarrow> (string \<times> time) list" where
  "keep_first seen [] = []"
| "keep_first seen ((h, e) # xs) = (if h \<in> seen then keep_first seen xs else (h, e) # keep_first (insert h seen) xs)"

definition abs_update_expiry ::
    "time \<Rightarrow> int \<Rightarrow> (string \<times> time) list \<Rightarrow> bool \<Rightarrow> bool \<Rightarrow> message_row list \<Rightarrow>
     message_row list \<times> (string \<times> time) list" where
  "abs_update_expiry now owner items extend_only shorten_only T =
     fold (abs_update_one (live_hashes now owner T) owner extend_only shorten_only) items (T, [])"

text \<open>
  The relation between the cache and the table that makes the refinement work: every entry is
  of a stored message of the same account that has not expired, and is ahead of the table.
\<close>

definition deferred_fresh :: "time \<Rightarrow> database \<Rightarrow> bool" where
  "deferred_fresh now db \<longleftrightarrow>
     (\<forall>hash e. map_of (deferred db) hash = Some e \<longrightarrow> (\<exists>r \<in> set (messages db).
        m_hash r = hash \<and> m_owner r = df_owner e \<and> to_epoch_ms now < m_expiry r \<and> m_expiry r \<le> df_expiry e))"

section \<open>The loop refines the abstract table\<close>

text \<open>The effective expiry of a row, given the entry of its hash, and the entry that the pending changes will leave.\<close>

definition entry_expiry :: "deferred_expiry option \<Rightarrow> message_row \<Rightarrow> int" where
  "entry_expiry e r = (case e of Some d \<Rightarrow> if df_owner d = m_owner r then max (m_expiry r) (df_expiry d) else m_expiry r
                       | None \<Rightarrow> m_expiry r)"

definition entry_after ::
    "time \<Rightarrow> int \<Rightarrow> (string \<times> int option) list \<Rightarrow> (string \<times> deferred_expiry) list \<Rightarrow> string \<Rightarrow> deferred_expiry option" where
  "entry_after now owner pend cache h =
     (case map_of pend h of
        None \<Rightarrow> map_of cache h
      | Some None \<Rightarrow> None
      | Some (Some e) \<Rightarrow> Some \<lparr>df_owner = owner, df_expiry = e,
          df_commit_at = (case map_of cache h of Some old \<Rightarrow> df_commit_at old | None \<Rightarrow> now + EXPIRY_DEFER_WINDOW)\<rparr>)"

lemma cache_expiry_entry: "cache_expiry c r = entry_expiry (map_of c (m_hash r)) r"
  by (simp add: cache_expiry_def entry_expiry_def)

lemma apply_pending_messages [simp]: "messages (apply_pending now owner x db) = messages db"
  by (cases x) (auto simp: apply_pending_def forget_deferred_def Let_def split: option.splits)

lemma map_of_alist_update: "map_of (AList.update k v al) h = (if h = k then Some v else map_of al h)"
  by (simp add: update_conv)

lemma apply_pending_entry:
  "map_of (deferred (apply_pending now owner (h', ch) db)) h =
     (if h = h' then entry_after now owner [(h', ch)] (deferred db) h else map_of (deferred db) h)"
  by (cases "map_of (deferred db) h'"; cases ch)
     (auto simp: apply_pending_def forget_deferred_def entry_after_def map_of_alist_delete map_of_alist_update Let_def
        split: option.splits)

lemma fold_apply_pending:
  assumes "distinct (map fst pend)"
  shows "map_of (deferred (fold (apply_pending now owner) pend db)) h = entry_after now owner pend (deferred db) h
     \<and> messages (fold (apply_pending now owner) pend db) = messages db"
  using assms
proof (induction pend arbitrary: db)
  case Nil
  then show ?case by (simp add: entry_after_def)
next
  case (Cons x pend)
  obtain h' ch where x: "x = (h', ch)" by (cases x)
  have "map_of pend h' = None" using Cons.prems by (auto simp: x map_of_eq_None_iff)
  then show ?case
    using Cons.IH [of "apply_pending now owner x db"] Cons.prems
    by (auto simp: x entry_after_def apply_pending_entry split: option.splits)
qed

definition loop_inv :: "time \<Rightarrow> int \<Rightarrow> (string \<times> deferred_expiry) list \<Rightarrow> string set \<Rightarrow> string set \<Rightarrow> expiry_state \<Rightarrow> message_row list \<Rightarrow> bool" where
  "loop_inv now owner cache H live st T \<longleftrightarrow>
     distinct (map m_hash (messages (xs_db st)))
     \<and> T = map (\<lambda>r. r\<lparr>m_expiry := entry_expiry (entry_after now owner (xs_pending st) cache (m_hash r)) r\<rparr>) (messages (xs_db st))
     \<and> (\<forall>h c. map_of (xs_current st) h = Some c \<longrightarrow>
          h \<in> live \<and> (\<exists>r \<in> set (messages (xs_db st)). m_hash r = h \<and> m_owner r = owner
             \<and> entry_expiry (entry_after now owner (xs_pending st) cache h) r = c))
     \<and> (\<forall>h \<in> H. map_of (xs_current st) h = None \<longrightarrow>
          map_of (xs_pending st) h = None \<and> (\<forall>e. map_of cache h = Some e \<longrightarrow> df_owner e \<noteq> owner)
          \<and> (\<forall>r \<in> set (messages (xs_db st)). m_hash r = h \<and> m_owner r = owner \<longrightarrow> (to_epoch_ms now < m_expiry r \<longleftrightarrow> h \<in> live)))
     \<and> (\<forall>h \<in> live. \<exists>r \<in> set (messages (xs_db st)). m_hash r = h \<and> m_owner r = owner)
     \<and> (\<forall>h e. entry_after now owner (xs_pending st) cache h = Some e \<longrightarrow>
          (\<exists>r \<in> set (messages (xs_db st)). m_hash r = h \<and> m_owner r = df_owner e
             \<and> to_epoch_ms now < m_expiry r \<and> m_expiry r \<le> df_expiry e))
     \<and> distinct (map fst (xs_pending st))"

lemma loop_invD:
  assumes "loop_inv now owner cache H live st T"
  shows "distinct (map m_hash (messages (xs_db st)))"
    and "T = map (\<lambda>r. r\<lparr>m_expiry := entry_expiry (entry_after now owner (xs_pending st) cache (m_hash r)) r\<rparr>) (messages (xs_db st))"
    and "map_of (xs_current st) h = Some c \<Longrightarrow>
          h \<in> live \<and> (\<exists>r \<in> set (messages (xs_db st)). m_hash r = h \<and> m_owner r = owner
             \<and> entry_expiry (entry_after now owner (xs_pending st) cache h) r = c)"
    and "h \<in> H \<Longrightarrow> map_of (xs_current st) h = None \<Longrightarrow>
          map_of (xs_pending st) h = None \<and> (\<forall>e. map_of cache h = Some e \<longrightarrow> df_owner e \<noteq> owner)
          \<and> (\<forall>r \<in> set (messages (xs_db st)). m_hash r = h \<and> m_owner r = owner \<longrightarrow> (to_epoch_ms now < m_expiry r \<longleftrightarrow> h \<in> live))"
    and "h \<in> live \<Longrightarrow> \<exists>r \<in> set (messages (xs_db st)). m_hash r = h \<and> m_owner r = owner"
    and "entry_after now owner (xs_pending st) cache h = Some e \<Longrightarrow>
          (\<exists>r \<in> set (messages (xs_db st)). m_hash r = h \<and> m_owner r = df_owner e
             \<and> to_epoch_ms now < m_expiry r \<and> m_expiry r \<le> df_expiry e)"
    and "distinct (map fst (xs_pending st))"
  using assms unfolding loop_inv_def by blast+

text \<open>Learning the current expiry of a hash.\<close>

lemma stored_expiry_Some:
  "stored_expiry now owner h db = Some c \<Longrightarrow>
   \<exists>r \<in> set (messages db). m_hash r = h \<and> m_owner r = owner \<and> m_expiry r = c \<and> to_epoch_ms now < c"
  by (auto simp: stored_expiry_def dest!: find_Some_in)

lemma stored_expiry_None:
  "stored_expiry now owner h db = None \<longleftrightarrow>
   (\<forall>r \<in> set (messages db). \<not> (m_hash r = h \<and> m_owner r = owner \<and> to_epoch_ms now < m_expiry r))"
  by (auto simp: stored_expiry_def find_None_all)

lemma loop_inv_learn:
  assumes inv: "loop_inv now owner cache H live st T" and h: "h \<in> H"
    and c: "(case map_of (xs_current st) h of Some c \<Rightarrow> Some c | None \<Rightarrow> stored_expiry now owner h (xs_db st)) = Some c"
  shows "loop_inv now owner cache H live (st\<lparr>xs_current := AList.update h c (xs_current st)\<rparr>) T"
proof -
  have "h \<in> live \<and> (\<exists>r \<in> set (messages (xs_db st)). m_hash r = h \<and> m_owner r = owner
      \<and> entry_expiry (entry_after now owner (xs_pending st) cache h) r = c)"
  proof (cases "map_of (xs_current st) h")
    case (Some c')
    then show ?thesis using c loop_invD(3) [OF inv Some] by simp
  next
    case None
    then have "stored_expiry now owner h (xs_db st) = Some c" using c by simp
    then obtain r where r: "r \<in> set (messages (xs_db st))" "m_hash r = h" "m_owner r = owner" "m_expiry r = c"
        "to_epoch_ms now < c"
      using stored_expiry_Some by blast
    note n = loop_invD(4) [OF inv h None]
    have "entry_expiry (entry_after now owner (xs_pending st) cache h) r = c"
      using n r(3,4) by (auto simp: entry_after_def entry_expiry_def split: option.splits)
    moreover have "h \<in> live" using n r by blast
    ultimately show ?thesis using r by blast
  qed
  then show ?thesis using inv unfolding loop_inv_def by (simp add: map_of_alist_update)
qed

lemma unlearned_not_live:
  assumes inv: "loop_inv now owner cache H live st T" and h: "h \<in> H"
    and c: "(case map_of (xs_current st) h of Some c \<Rightarrow> Some c | None \<Rightarrow> stored_expiry now owner h (xs_db st)) = None"
  shows "h \<notin> live"
proof
  assume live: "h \<in> live"
  have none: "map_of (xs_current st) h = None" "stored_expiry now owner h (xs_db st) = None"
    using c by (auto split: option.splits)
  obtain r where "r \<in> set (messages (xs_db st))" "m_hash r = h" "m_owner r = owner"
    using loop_invD(5) [OF inv live] by blast
  then show False using loop_invD(4) [OF inv h none(1)] none(2) live unfolding stored_expiry_None by blast
qed

lemma abs_row:
  assumes inv: "loop_inv now owner cache H live st T" and c: "map_of (xs_current st) h = Some c"
  obtains r where "List.find (\<lambda>x. m_hash x = h) T = Some r" "m_expiry r = c" "m_owner r = owner" "h \<in> live"
proof -
  let ?g = "\<lambda>r. r\<lparr>m_expiry := entry_expiry (entry_after now owner (xs_pending st) cache (m_hash r)) r\<rparr>"
  obtain r where r: "r \<in> set (messages (xs_db st))" "m_hash r = h" "m_owner r = owner"
      "entry_expiry (entry_after now owner (xs_pending st) cache h) r = c" and live: "h \<in> live"
    using loop_invD(3) [OF inv c] by blast
  have "distinct (map m_hash T)" using loop_invD(1,2) [OF inv] by (simp add: comp_def)
  moreover have "?g r \<in> set T" unfolding loop_invD(2) [OF inv] using r(1) by simp
  ultimately have "List.find (\<lambda>x. m_hash x = h) T = Some (?g r)" using r(2) by (intro find_unique) simp_all
  then show ?thesis using that [of "?g r"] r live by simp
qed

lemma entry_after_update:
  "entry_after now owner (AList.update h v pend) cache h' =
     (if h' = h then entry_after now owner [(h, v)] cache h else entry_after now owner pend cache h')"
  by (cases "h' = h") (simp_all add: entry_after_def map_of_alist_update)

lemma distinct_alist_update: "distinct (map fst al) \<Longrightarrow> distinct (map fst (AList.update k v al))"
  by (rule distinct_update)

lemma entry_expiry_ge: "m_expiry r \<le> entry_expiry e r"
  by (simp add: entry_expiry_def split: option.splits)

lemma within_window_live:
  assumes "0 \<le> now" and "within_window now c"
  shows "to_epoch_ms now < c"
  using assms
  by (simp add: within_window_def to_epoch_ms_nonneg TTL_MAXIMUM_PRIVATE_def EXPIRY_DEFER_WINDOW_def seconds_def)

lemma loop_inv_defer:
  assumes now: "0 \<le> now" and inv: "loop_inv now owner cache H live st T" and c: "map_of (xs_current st) h = Some c"
    and e: "c < e" "within_window now c"
  shows "loop_inv now owner cache H live
     (st\<lparr>xs_pending := AList.update h (Some e) (xs_pending st), xs_current := AList.update h e (xs_current st)\<rparr>) (set_expiry h e T)"
proof -
  let ?M = "messages (xs_db st)" and ?F = "entry_after now owner (xs_pending st) cache"
  let ?F' = "entry_after now owner (AList.update h (Some e) (xs_pending st)) cache"
  note d = loop_invD [OF inv]
  obtain r where r: "r \<in> set ?M" "m_hash r = h" "m_owner r = owner" "entry_expiry (?F h) r = c" and live: "h \<in> live"
    using d(3) [OF c] by blast
  have uniq: "x = r" if "x \<in> set ?M" "m_hash x = h" for x
    using distinct_map_inj [OF d(1) that(1) r(1)] that r by simp
  have le: "m_expiry r \<le> c" using entry_expiry_ge [of r "?F h"] r(4) by simp
  have Fh: "?F' h = Some \<lparr>df_owner = owner, df_expiry = e, df_commit_at =
      (case map_of cache h of Some old \<Rightarrow> df_commit_at old | None \<Rightarrow> now + EXPIRY_DEFER_WINDOW)\<rparr>"
    by (simp add: entry_after_update) (simp add: entry_after_def)
  have other: "?F' x = ?F x" if "x \<noteq> h" for x using that by (simp add: entry_after_update)
  have eq: "entry_expiry (?F' h) r = e" using r(3) le e(1) by (simp add: Fh entry_expiry_def)
  have alive: "to_epoch_ms now < m_expiry r"
  proof (cases "?F h")
    case None
    then show ?thesis using r(4) within_window_live [OF now e(2)] by (simp add: entry_expiry_def)
  next
    case (Some x)
    then show ?thesis using d(6) [OF Some] uniq by blast
  qed
  have T: "set_expiry h e T = map (\<lambda>r. r\<lparr>m_expiry := entry_expiry (?F' (m_hash r)) r\<rparr>) ?M"
    unfolding set_expiry_def d(2) map_map
  proof (rule map_cong [OF refl])
    fix x assume x: "x \<in> set ?M"
    show "((\<lambda>x. if m_hash x = h then x\<lparr>m_expiry := e\<rparr> else x) \<circ> (\<lambda>r. r\<lparr>m_expiry := entry_expiry (?F (m_hash r)) r\<rparr>)) x
        = x\<lparr>m_expiry := entry_expiry (?F' (m_hash x)) x\<rparr>"
      using uniq [OF x] eq r(2) other [of "m_hash x"] by (cases "m_hash x = h") simp_all
  qed
  have "\<exists>r \<in> set ?M. m_hash r = h' \<and> m_owner r = df_owner x \<and> to_epoch_ms now < m_expiry r \<and> m_expiry r \<le> df_expiry x"
    if "?F' h' = Some x" for h' x
  proof (cases "h' = h")
    case True
    then show ?thesis using that Fh r alive le e(1) by (intro bexI [of _ r]) auto
  next
    case False
    then show ?thesis using d(6) [of h' x] that other by simp
  qed
  moreover have "h' \<in> live \<and> (\<exists>r \<in> set ?M. m_hash r = h' \<and> m_owner r = owner \<and> entry_expiry (?F' h') r = c')"
    if "map_of (AList.update h e (xs_current st)) h' = Some c'" for h' c'
  proof (cases "h' = h")
    case True
    then show ?thesis using that r live eq by (auto simp: map_of_alist_update)
  next
    case False
    then show ?thesis using d(3) [of h' c'] that other by (simp add: map_of_alist_update)
  qed
  ultimately show ?thesis
    using inv T unfolding loop_inv_def by (simp add: map_of_alist_update distinct_alist_update)
qed

lemma loop_inv_write:
  assumes inv: "loop_inv now owner cache H live st T" and c: "map_of (xs_current st) h = Some c"
  shows "loop_inv now owner cache H live
     (st\<lparr>xs_db := update_messages (\<lambda>r. m_hash r = h \<and> m_owner r = owner) (\<lambda>r. r\<lparr>m_expiry := e\<rparr>) (xs_db st),
         xs_pending := AList.update h None (xs_pending st), xs_current := AList.update h e (xs_current st)\<rparr>) (set_expiry h e T)"
proof -
  let ?M = "messages (xs_db st)" and ?F = "entry_after now owner (xs_pending st) cache"
  let ?F' = "entry_after now owner (AList.update h None (xs_pending st)) cache"
  let ?u = "\<lambda>r. if m_hash r = h \<and> m_owner r = owner then r\<lparr>m_expiry := e\<rparr> else r"
  define M' where "M' = map ?u ?M"
  note d = loop_invD [OF inv]
  obtain r where r: "r \<in> set ?M" "m_hash r = h" "m_owner r = owner" "entry_expiry (?F h) r = c" and live: "h \<in> live"
    using d(3) [OF c] by blast
  have uniq: "x = r" if "x \<in> set ?M" "m_hash x = h" for x
    using distinct_map_inj [OF d(1) that(1) r(1)] that r by simp
  have M': "messages (update_messages (\<lambda>r. m_hash r = h \<and> m_owner r = owner) (\<lambda>r. r\<lparr>m_expiry := e\<rparr>) (xs_db st)) = M'"
    by (simp add: update_messages_def M'_def)
  have Fh: "?F' h = None" by (simp add: entry_after_update) (simp add: entry_after_def)
  have other: "?F' x = ?F x" if "x \<noteq> h" for x using that by (simp add: entry_after_update)
  have keep: "x \<in> set M'" if "x \<in> set ?M" "m_hash x \<noteq> h" for x using that by (force simp: M'_def)
  have orig: "x \<in> set ?M" if "x \<in> set M'" "m_hash x \<noteq> h" for x using that by (auto simp: M'_def split: if_splits)
  have "map m_hash M' = map m_hash ?M" unfolding M'_def map_map by (rule map_cong) simp_all
  then have dist: "distinct (map m_hash M')" using d(1) by (simp only:)
  have T: "set_expiry h e T = map (\<lambda>r. r\<lparr>m_expiry := entry_expiry (?F' (m_hash r)) r\<rparr>) M'"
    unfolding set_expiry_def d(2) map_map M'_def
  proof (rule map_cong [OF refl])
    fix x assume x: "x \<in> set ?M"
    show "((\<lambda>x. if m_hash x = h then x\<lparr>m_expiry := e\<rparr> else x) \<circ> (\<lambda>r. r\<lparr>m_expiry := entry_expiry (?F (m_hash r)) r\<rparr>)) x
        = ((\<lambda>r. r\<lparr>m_expiry := entry_expiry (?F' (m_hash r)) r\<rparr>) \<circ> ?u) x"
      using uniq [OF x] r(2,3) Fh other [of "m_hash x"]
      by (cases "m_hash x = h") (simp_all add: entry_expiry_def)
  qed
  have "\<exists>r \<in> set M'. m_hash r = h' \<and> m_owner r = df_owner x \<and> to_epoch_ms now < m_expiry r \<and> m_expiry r \<le> df_expiry x"
    if F: "?F' h' = Some x" for h' x
  proof -
    have "h' \<noteq> h" using F Fh by auto
    then obtain r' where "r' \<in> set ?M" "m_hash r' = h'" "m_owner r' = df_owner x" "to_epoch_ms now < m_expiry r'"
        "m_expiry r' \<le> df_expiry x"
      using d(6) [of h' x] F other [of h'] by auto
    then show ?thesis using keep [of r'] \<open>h' \<noteq> h\<close> by blast
  qed
  moreover have "h' \<in> live \<and> (\<exists>r \<in> set M'. m_hash r = h' \<and> m_owner r = owner \<and> entry_expiry (?F' h') r = c')"
    if "map_of (AList.update h e (xs_current st)) h' = Some c'" for h' c'
  proof (cases "h' = h")
    case True
    have "?u r \<in> set M'" using r(1) by (auto simp: M'_def)
    then show ?thesis using that r live Fh True
      by (intro conjI bexI [of _ "?u r"]) (auto simp: map_of_alist_update entry_expiry_def)
  next
    case False
    then have "h' \<in> live" and "\<exists>r \<in> set ?M. m_hash r = h' \<and> m_owner r = owner \<and> entry_expiry (?F h') r = c'"
      using d(3) [of h' c'] that by (auto simp: map_of_alist_update)
    then show ?thesis using other [OF False] keep False by auto
  qed
  moreover have "map_of (AList.update h None (xs_pending st)) h' = None \<and> (\<forall>e. map_of cache h' = Some e \<longrightarrow> df_owner e \<noteq> owner)
      \<and> (\<forall>r \<in> set M'. m_hash r = h' \<and> m_owner r = owner \<longrightarrow> (to_epoch_ms now < m_expiry r \<longleftrightarrow> h' \<in> live))"
    if "h' \<in> H" "map_of (AList.update h e (xs_current st)) h' = None" for h'
  proof -
    have "h' \<noteq> h" "map_of (xs_current st) h' = None" using that by (auto simp: map_of_alist_update split: if_splits)
    then show ?thesis using d(4) [OF that(1)] orig by (simp add: map_of_alist_update)
  qed
  moreover have "\<exists>r \<in> set M'. m_hash r = h' \<and> m_owner r = owner" if live': "h' \<in> live" for h'
  proof -
    obtain x where x: "x \<in> set ?M" "m_hash x = h'" "m_owner x = owner" using d(5) [OF live'] by blast
    have "?u x \<in> set M'" unfolding M'_def set_map using x(1) by (rule imageI)
    moreover have "m_hash (?u x) = h'" "m_owner (?u x) = owner" using x by simp_all
    ultimately show ?thesis by blast
  qed
  ultimately show ?thesis
    using dist T d(7) unfolding loop_inv_def by (simp add: M' distinct_alist_update)
qed

lemma loop_inv_same:
  assumes inv: "loop_inv now owner cache H live st T" and c: "map_of (xs_current st) h = Some c"
  shows "loop_inv now owner cache H live (st\<lparr>xs_current := AList.update h c (xs_current st)\<rparr>) (set_expiry h c T)"
proof -
  obtain r where r: "List.find (\<lambda>x. m_hash x = h) T = Some r" "m_expiry r = c" using abs_row [OF inv c] by blast
  have "distinct (map m_hash T)" using loop_invD(1,2) [OF inv] by (simp add: comp_def)
  then have "x = r" if "x \<in> set T" "m_hash x = h" for x
    using find_Some_in [OF r(1)] distinct_map_inj [of m_hash T x r] that by simp
  then have "set_expiry h c T = T" unfolding set_expiry_def using r(2) by (intro map_idI) auto
  moreover have "map_of (AList.update h c (xs_current st)) = map_of (xs_current st)"
    using c by (auto simp: map_of_alist_update)
  ultimately show ?thesis using inv unfolding loop_inv_def by simp
qed

lemma abs_update_eq:
  "abs_update_one live owner ext sho (h, e) (T, res) =
     (case List.find (\<lambda>r. m_hash r = h) T of
        None \<Rightarrow> (T, res)
      | Some r \<Rightarrow> if h \<notin> live \<or> not_wanted ext sho (to_epoch_ms e) (m_expiry r) then (T, res)
                  else (set_expiry h (to_epoch_ms e) T, res @ [(h, e)]))"
  by (simp add: abs_update_one_def)

lemma update_expiry_step:
  assumes now: "0 \<le> now" and inv: "loop_inv now owner cache H live st T" and h: "h \<in> H"
    and a: "abs_update_one live owner ext sho (h, e) (T, xs_result st) = (T', res')"
  shows "loop_inv now owner cache H live (update_expiry_one now owner ext sho (h, e) st) T'
     \<and> xs_result (update_expiry_one now owner ext sho (h, e) st) = res'"
proof (cases "case map_of (xs_current st) h of Some c \<Rightarrow> Some c | None \<Rightarrow> stored_expiry now owner h (xs_db st)")
  case None
  have "h \<notin> live" by (rule unlearned_not_live [OF inv h None])
  then have "T' = T" "res' = xs_result st" using a by (auto simp: abs_update_eq split: option.splits)
  then show ?thesis using inv None by (simp add: update_expiry_one_def)
next
  case (Some c)
  let ?st = "st\<lparr>xs_current := AList.update h c (xs_current st)\<rparr>" and ?e = "to_epoch_ms e"
  have learn: "loop_inv now owner cache H live ?st T" by (rule loop_inv_learn [OF inv h Some])
  have c: "map_of (xs_current ?st) h = Some c" by (simp add: map_of_alist_update)
  obtain r where r: "List.find (\<lambda>x. m_hash x = h) T = Some r" "m_expiry r = c" "h \<in> live" by (rule abs_row [OF learn c])
  have aa: "(if not_wanted ext sho ?e c then (T, xs_result st) else (set_expiry h ?e T, xs_result st @ [(h, e)])) = (T', res')"
    using a r by (simp add: abs_update_eq)
  have res: "loop_inv now owner cache H live (x\<lparr>xs_result := y\<rparr>) z = loop_inv now owner cache H live x z" for x y z
    by (simp add: loop_inv_def)
  have swap: "x\<lparr>xs_pending := p\<rparr>\<lparr>xs_current := q\<rparr> = x\<lparr>xs_pending := p, xs_current := q\<rparr>" for x p q by simp
  consider "not_wanted ext sho ?e c" | "\<not> not_wanted ext sho ?e c" "?e > c" "within_window now c"
    | "\<not> not_wanted ext sho ?e c" "\<not> (?e > c \<and> within_window now c)" "?e \<noteq> c" | "\<not> not_wanted ext sho ?e c" "?e = c"
    by blast
  then show ?thesis
  proof cases
    case 1
    then show ?thesis using aa learn Some by (simp add: update_expiry_one_def Let_def)
  next
    case 2
    then show ?thesis
      using aa Some loop_inv_defer [OF now learn c 2(2,3)] by (simp add: update_expiry_one_def Let_def res)
  next
    case 3
    then show ?thesis
      using aa Some loop_inv_write [OF learn c, of ?e] by (auto simp: update_expiry_one_def Let_def res)
  next
    case 4
    then show ?thesis
      using aa Some loop_inv_same [OF learn c] by (simp add: update_expiry_one_def Let_def res)
  qed
qed

lemma update_expiry_one_seen:
  "update_expiry_one now owner ext sho x (st\<lparr>xs_seen := s\<rparr>) = (update_expiry_one now owner ext sho x st)\<lparr>xs_seen := s\<rparr>"
  "xs_seen (update_expiry_one now owner ext sho x st) = xs_seen st"
  by (auto simp: update_expiry_one_def Let_def split: option.splits prod.splits)

lemma loop_inv_seen [simp]: "loop_inv now owner cache H live (st\<lparr>xs_seen := s\<rparr>) T = loop_inv now owner cache H live st T"
  by (simp add: loop_inv_def)

lemma update_expiry_loop_refines:
  assumes "0 \<le> now" and "loop_inv now owner cache H live st T" and "fst ` set items \<subseteq> H"
    and "fold (abs_update_one live owner ext sho) (if dedupe then keep_first (set (xs_seen st)) items else items) (T, xs_result st) = (T', res')"
  shows "loop_inv now owner cache H live (update_expiry_loop now owner ext sho dedupe items st) T'
     \<and> xs_result (update_expiry_loop now owner ext sho dedupe items st) = res'"
  using assms
proof (induction now owner ext sho dedupe items st arbitrary: T rule: update_expiry_loop.induct)
  case (1 now owner ext sho dedupe st)
  then show ?case by (cases dedupe) simp_all
next
  case (2 now owner ext sho dedupe h e items st)
  let ?st = "if dedupe then st\<lparr>xs_seen := h # xs_seen st\<rparr> else st"
  show ?case
  proof (cases "dedupe \<and> h \<in> set (xs_seen st)")
    case True
    then show ?thesis using "2.IH"(1) [OF True "2.prems"(1,2)] "2.prems"(3,4) by simp
  next
    case False
    obtain T1 res1 where a: "abs_update_one live owner ext sho (h, e) (T, xs_result ?st) = (T1, res1)"
      by (cases "abs_update_one live owner ext sho (h, e) (T, xs_result ?st)")
    have inv: "loop_inv now owner cache H live ?st T" using "2.prems"(2) by simp
    have h: "h \<in> H" using "2.prems"(3) by simp
    note st = update_expiry_step [OF "2.prems"(1) inv h a]
    have "fold (abs_update_one live owner ext sho)
        (if dedupe then keep_first (set (xs_seen (update_expiry_one now owner ext sho (h, e) ?st))) items else items)
        (T1, xs_result (update_expiry_one now owner ext sho (h, e) ?st)) = (T', res')"
      using "2.prems"(4) False a st by (cases dedupe) (auto simp: update_expiry_one_seen)
    then show ?thesis
      using "2.IH"(2) [OF False "2.prems"(1) conjunct1 [OF st]] "2.prems"(3) False by auto
  qed
qed

text \<open>The state the loop starts from.\<close>

lemma current_of_deferred_eq:
  "map_of (current_of_deferred db owner hashes) h = (if h \<in> set hashes then deferred_expiry_of db h owner else None)"
proof -
  have "map_of (fold (\<lambda>hash cs. case deferred_expiry_of db hash owner of
          Some e \<Rightarrow> if map_of cs hash = None then (hash, e) # cs else cs | None \<Rightarrow> cs) hashes cs0) h =
      (case map_of cs0 h of Some c \<Rightarrow> Some c | None \<Rightarrow> if h \<in> set hashes then deferred_expiry_of db h owner else None)" for cs0
  proof (induction hashes arbitrary: cs0)
    case (Cons x hashes)
    show ?case
      by (cases "deferred_expiry_of db x owner"; cases "x = h"; cases "map_of cs0 x"; cases "map_of cs0 h") (simp_all add: Cons.IH)
  qed (simp split: option.splits)
  from this [of "[]"] show ?thesis by (simp add: current_of_deferred_def)
qed

lemma effective_row: "effective_messages db = map (\<lambda>r. r\<lparr>m_expiry := entry_expiry (map_of (deferred db) (m_hash r)) r\<rparr>) (messages db)"
  by (simp add: effective_messages_def effective_expiry_def cache_expiry_entry)

lemma live_hashes_iff:
  "h \<in> live_hashes now owner (effective_messages db) \<longleftrightarrow>
   (\<exists>x \<in> set (messages db). m_hash x = h \<and> m_owner x = owner \<and> to_epoch_ms now < entry_expiry (map_of (deferred db) h) x)"
  by (auto simp: live_hashes_def effective_row filter_map comp_def)

lemma live_hashes_eff:
  assumes "deferred_fresh now db" and "distinct (map m_hash (messages db))"
    and "r \<in> set (messages db)" and "m_owner r = owner"
  shows "m_hash r \<in> live_hashes now owner (effective_messages db) \<longleftrightarrow> to_epoch_ms now < m_expiry r"
proof -
  have "to_epoch_ms now < m_expiry r" if e: "to_epoch_ms now < entry_expiry (map_of (deferred db) (m_hash r)) r"
  proof (cases "map_of (deferred db) (m_hash r)")
    case None
    then show ?thesis using e by (simp add: entry_expiry_def)
  next
    case (Some d)
    from this assms(1) obtain x where "x \<in> set (messages db)" "m_hash x = m_hash r" "to_epoch_ms now < m_expiry x"
      unfolding deferred_fresh_def by blast
    then show ?thesis using distinct_map_inj [OF assms(2) _ assms(3)] by metis
  qed
  moreover have "to_epoch_ms now < entry_expiry (map_of (deferred db) (m_hash r)) r" if "to_epoch_ms now < m_expiry r"
    using that entry_expiry_ge [of r "map_of (deferred db) (m_hash r)"] by simp
  moreover have "m_hash r \<in> live_hashes now owner (effective_messages db) \<longleftrightarrow>
      to_epoch_ms now < entry_expiry (map_of (deferred db) (m_hash r)) r"
    unfolding live_hashes_iff using assms(3,4) distinct_map_inj [OF assms(2) _ assms(3)] by metis
  ultimately show ?thesis by blast
qed

lemma loop_inv_start:
  assumes fresh: "deferred_fresh now db" and dist: "distinct (map m_hash (messages db))"
  shows "loop_inv now owner (deferred db) (set hashes) (live_hashes now owner (effective_messages db))
     \<lparr>xs_current = current_of_deferred db owner hashes, xs_pending = [], xs_seen = [], xs_db = db, xs_result = []\<rparr>
     (effective_messages db)"
proof -
  let ?live = "live_hashes now owner (effective_messages db)"
  have F: "entry_after now owner [] (deferred db) h = map_of (deferred db) h" for h by (simp add: entry_after_def)
  have fr: "\<exists>r \<in> set (messages db). m_hash r = h \<and> m_owner r = df_owner e \<and> to_epoch_ms now < m_expiry r \<and> m_expiry r \<le> df_expiry e"
    if "map_of (deferred db) h = Some e" for h e
    using fresh that unfolding deferred_fresh_def by blast
  have "h \<in> ?live \<and> (\<exists>r \<in> set (messages db). m_hash r = h \<and> m_owner r = owner \<and> entry_expiry (map_of (deferred db) h) r = c)"
    if c: "map_of (current_of_deferred db owner hashes) h = Some c" for h c
  proof -
    obtain e where e: "map_of (deferred db) h = Some e" "df_owner e = owner" "c = df_expiry e"
      using c by (auto simp: current_of_deferred_eq deferred_expiry_of_def split: if_splits option.splits)
    obtain r where r: "r \<in> set (messages db)" "m_hash r = h" "m_owner r = owner" "to_epoch_ms now < m_expiry r" "m_expiry r \<le> df_expiry e"
      using fr [OF e(1)] e(2) by blast
    then have "entry_expiry (map_of (deferred db) h) r = c" using e by (simp add: entry_expiry_def)
    then show ?thesis using r live_hashes_eff [OF fresh dist r(1,3)] by blast
  qed
  moreover have "(\<forall>e. map_of (deferred db) h = Some e \<longrightarrow> df_owner e \<noteq> owner)
      \<and> (\<forall>r \<in> set (messages db). m_hash r = h \<and> m_owner r = owner \<longrightarrow> (to_epoch_ms now < m_expiry r \<longleftrightarrow> h \<in> ?live))"
    if "h \<in> set hashes" "map_of (current_of_deferred db owner hashes) h = None" for h
    using that live_hashes_eff [OF fresh dist]
    by (auto simp: current_of_deferred_eq deferred_expiry_of_def split: if_splits option.splits)
  moreover have "\<exists>r \<in> set (messages db). m_hash r = h \<and> m_owner r = owner" if "h \<in> ?live" for h
    using that by (auto simp: live_hashes_def effective_row)
  ultimately show ?thesis unfolding loop_inv_def using dist fr F by (simp add: effective_row)
qed

lemma update_expiry_one_deferred: "deferred (xs_db (update_expiry_one now owner ext sho x st)) = deferred (xs_db st)"
  by (auto simp: update_expiry_one_def Let_def update_messages_def split: option.splits prod.splits)

lemma update_expiry_loop_deferred:
  "deferred (xs_db (update_expiry_loop now owner ext sho dedupe items st)) = deferred (xs_db st)"
  by (induction now owner ext sho dedupe items st rule: update_expiry_loop.induct)
     (simp_all add: update_expiry_one_deferred)

lemma update_expiry_refine:
  assumes now: "0 \<le> now" and inv: "db_inv lb db" and fresh: "deferred_fresh now db"
    and own: "owner_id_of db pk = Some owner"
    and up: "update_expiry now pk hashes new_exp ext sho db = Inr (db', res)"
  shows "(effective_messages db', res) =
     abs_update_expiry now owner
       (if length new_exp = 1 \<and> \<not> ext \<and> \<not> sho then keep_first {} (expiry_items hashes new_exp) else expiry_items hashes new_exp)
       ext sho (effective_messages db)
     \<and> deferred_fresh now db'"
proof (cases "hashes = []")
  case True
  then have "expiry_items hashes new_exp = []" by (simp add: expiry_items_def)
  then show ?thesis using up True fresh by (auto simp: update_expiry_def abs_update_expiry_def split: if_splits)
next
  case False
  let ?d = "length new_exp = 1 \<and> \<not> ext \<and> \<not> sho" and ?live = "live_hashes now owner (effective_messages db)"
  let ?st0 = "\<lparr>xs_current = current_of_deferred db owner hashes, xs_pending = [], xs_seen = [], xs_db = db, xs_result = []\<rparr>"
  let ?st = "update_expiry_loop now owner ext sho ?d (expiry_items hashes new_exp) ?st0"
  have r: "db' = fold (apply_pending now owner) (xs_pending ?st) (xs_db ?st)" "res = xs_result ?st"
    using up False own by (auto simp: update_expiry_def Let_def split: if_splits)
  have dist: "distinct (map m_hash (messages db))" using db_inv_parts [OF inv] tables_ok_distinct by blast
  have sub: "fst ` set (expiry_items hashes new_exp) \<subseteq> set hashes"
    by (auto simp: expiry_items_def dest: set_zip_leftD)
  obtain T' res' where a: "fold (abs_update_one ?live owner ext sho)
      (if ?d then keep_first {} (expiry_items hashes new_exp) else expiry_items hashes new_exp) (effective_messages db, []) = (T', res')"
    by (cases "fold (abs_update_one ?live owner ext sho)
      (if ?d then keep_first {} (expiry_items hashes new_exp) else expiry_items hashes new_exp) (effective_messages db, [])")
  have l: "loop_inv now owner (deferred db) (set hashes) ?live ?st T' \<and> xs_result ?st = res'"
    by (rule update_expiry_loop_refines [OF now loop_inv_start [OF fresh dist] sub])
       (simp only: expiry_state.simps list.set a)
  note d = loop_invD [OF conjunct1 [OF l]]
  have df: "deferred (xs_db ?st) = deferred db"
    by (subst update_expiry_loop_deferred) simp
  note p = fold_apply_pending [OF d(7), of now owner "xs_db ?st", unfolded df]
  have "effective_messages db' = T'" unfolding effective_row r(1) d(2) using p by simp
  moreover have "\<exists>r \<in> set (messages db'). m_hash r = h \<and> m_owner r = df_owner e \<and> to_epoch_ms now < m_expiry r \<and> m_expiry r \<le> df_expiry e"
    if "map_of (deferred db') h = Some e" for h e
    using d(6) [of h e] that p by (simp add: r(1))
  then have "deferred_fresh now db'" by (simp add: deferred_fresh_def)
  ultimately show ?thesis unfolding abs_update_expiry_def a using l r(2) by simp
qed

section \<open>The constraints are kept\<close>

lemma loop_tables:
  "tables_ok lb (xs_db st) \<Longrightarrow> tables_ok lb (xs_db (update_expiry_one now owner ext sho x st))"
  by (auto simp: update_expiry_one_def Let_def update_expiry_ok split: option.splits prod.splits)

lemma update_messages_frame [row_simps]:
  "owners (update_messages P f db) = owners db" "message_count (update_messages P f db) = message_count db"
  "length (messages (update_messages P f db)) = length (messages db)"
  "deferred (update_messages P f db) = deferred db" "deferred_queue (update_messages P f db) = deferred_queue db"
  by (simp_all add: update_messages_def)

lemma update_expiry_one_frame:
  "message_count (xs_db (update_expiry_one now owner ext sho x st)) = message_count (xs_db st)"
  "length (messages (xs_db (update_expiry_one now owner ext sho x st))) = length (messages (xs_db st))"
  "deferred_queue (xs_db (update_expiry_one now owner ext sho x st)) = deferred_queue (xs_db st)"
  "distinct (map fst (xs_pending st)) \<Longrightarrow> distinct (map fst (xs_pending (update_expiry_one now owner ext sho x st)))"
  by (auto simp: update_expiry_one_def Let_def row_simps distinct_alist_update split: option.splits prod.splits)

lemma update_expiry_loop_inv:
  assumes "tables_ok lb (xs_db st)"
  shows "tables_ok lb (xs_db (update_expiry_loop now owner ext sho dedupe items st))
     \<and> message_count (xs_db (update_expiry_loop now owner ext sho dedupe items st)) = message_count (xs_db st)
     \<and> length (messages (xs_db (update_expiry_loop now owner ext sho dedupe items st))) = length (messages (xs_db st))
     \<and> deferred_queue (xs_db (update_expiry_loop now owner ext sho dedupe items st)) = deferred_queue (xs_db st)"
  using assms
  by (induction now owner ext sho dedupe items st rule: update_expiry_loop.induct)
     (simp_all add: loop_tables update_expiry_one_frame)

lemma set_alist_update_sub: "set (AList.update k v al) \<subseteq> insert (k, v) (set al)"
  by (induction al) auto

lemma apply_pending_ok:
  assumes "deferred_ok db"
  shows "deferred_ok (apply_pending now owner (h, ch) db)"
proof (cases ch)
  case None
  then show ?thesis using assms by (simp add: apply_pending_def deferred_ok_forget)
next
  case (Some e)
  have d: "distinct (map fst (deferred db))" and q: "\<forall>(h, x) \<in> set (deferred db). (df_commit_at x, h) \<in> set (deferred_queue db)"
    using assms by (simp_all add: deferred_ok_def)
  show ?thesis
  proof (cases "map_of (deferred db) h")
    case None
    then show ?thesis
      using d q set_alist_update_sub [of h "\<lparr>df_owner = owner, df_expiry = e, df_commit_at = now + EXPIRY_DEFER_WINDOW\<rparr>" "deferred db"]
      by (fastforce simp: apply_pending_def Some deferred_ok_def Let_def distinct_alist_update)
  next
    case old: (Some x)
    then have "(df_commit_at x, h) \<in> set (deferred_queue db)" using q map_of_SomeD [OF old] by blast
    then show ?thesis
      using d q old set_alist_update_sub [of h "x\<lparr>df_owner := owner, df_expiry := e\<rparr>" "deferred db"]
      by (fastforce simp: apply_pending_def Some deferred_ok_def distinct_alist_update)
  qed
qed

lemma apply_pending_tables: "tables_ok lb (apply_pending now owner x db) = tables_ok lb db"
    "message_count (apply_pending now owner x db) = message_count db"
  by (cases x; auto simp: apply_pending_def Let_def forget_deferred_frame split: option.splits)+

lemma fold_apply_pending_inv:
  "db_inv lb db \<Longrightarrow> db_inv lb (fold (apply_pending now owner) pend db)"
proof (induction pend arbitrary: db)
  case (Cons x pend)
  have "db_inv lb (apply_pending now owner x db)"
    using Cons.prems by (cases x) (simp add: db_inv_def db_ok_def count_ok_def apply_pending_tables apply_pending_ok)
  then show ?case using Cons.IH by simp
qed simp

lemma update_expiry_inv [inv_intros]:
  assumes inv: "db_inv lb db" and up: "update_expiry now pk hashes new_exp ext sho db = Inr (db', res)"
  shows "db_inv lb db'"
proof (cases "hashes = [] \<or> owner_id_of db pk = None")
  case True
  then show ?thesis using up inv by (auto simp: update_expiry_def split: if_splits)
next
  case False
  then obtain owner where own: "owner_id_of db pk = Some owner" by blast
  define st where "st = update_expiry_loop now owner ext sho (length new_exp = 1 \<and> \<not> ext \<and> \<not> sho) (expiry_items hashes new_exp)
      \<lparr>xs_current = current_of_deferred db owner hashes, xs_pending = [], xs_seen = [], xs_db = db, xs_result = []\<rparr>"
  have r: "db' = fold (apply_pending now owner) (xs_pending st) (xs_db st)"
    using up False own by (auto simp: update_expiry_def Let_def st_def split: if_splits)
  note p = db_inv_parts [OF inv]
  have "db_inv lb (xs_db st)"
    using p update_expiry_loop_inv [of lb "\<lparr>xs_current = current_of_deferred db owner hashes, xs_pending = [], xs_seen = [], xs_db = db, xs_result = []\<rparr>"]
      deferred_ok_cong [of "xs_db st" db]
    by (simp add: st_def db_inv_def db_ok_def count_ok_def update_expiry_loop_deferred)
  then show ?thesis unfolding r by (rule fold_apply_pending_inv)
qed

section \<open>Shortening all expiries\<close>

lemma map_of_filter_snd:
  "distinct (map fst al) \<Longrightarrow>
   map_of (filter (\<lambda>(_, e). P e) al) h = (case map_of al h of Some e \<Rightarrow> if P e then Some e else None | None \<Rightarrow> None)"
proof (induction al)
  case (Cons x al)
  then show ?case by (cases x) (auto simp: map_of_eq_None_iff split: option.splits)
qed simp

definition after_taking :: "int \<Rightarrow> database \<Rightarrow> database" where
  "after_taking owner db = write_deferred (fst (take_deferred owner db)) (snd (take_deferred owner db))"

lemma after_taking_eq:
  assumes d: "distinct (map fst (deferred db))"
  shows "after_taking owner db = db\<lparr>messages := map (\<lambda>r. if m_owner r = owner then r\<lparr>m_expiry := effective_expiry db r\<rparr> else r) (messages db),
     deferred := filter (\<lambda>(_, e). df_owner e \<noteq> owner) (deferred db)\<rparr>"
proof -
  let ?t = "filter (\<lambda>(_, e). df_owner e = owner) (deferred db)"
  have "r\<lparr>m_expiry := cache_expiry ?t r\<rparr> = (if m_owner r = owner then r\<lparr>m_expiry := effective_expiry db r\<rparr> else r)" for r
    using map_of_filter_snd [OF d, of "\<lambda>e. df_owner e = owner" "m_hash r"]
    by (auto simp: cache_expiry_def effective_expiry_def split: option.splits)
  moreover have "distinct (map fst ?t)" by (rule distinct_map_filterI [OF d])
  ultimately show ?thesis by (simp add: after_taking_def take_deferred_def write_deferred_messages)
qed

lemma after_taking_effective:
  assumes d: "distinct (map fst (deferred db))"
  shows "effective_messages (after_taking owner db) = effective_messages db"
    and "r \<in> set (messages (after_taking owner db)) \<Longrightarrow> m_owner r = owner \<Longrightarrow> effective_expiry (after_taking owner db) r = m_expiry r"
proof -
  let ?c = "filter (\<lambda>(_, e). df_owner e \<noteq> owner) (deferred db)"
  have o: "cache_expiry ?c r = m_expiry r" if "m_owner r = owner" for r
    using map_of_filter_snd [OF d, of "\<lambda>e. df_owner e \<noteq> owner" "m_hash r"] that
    by (auto simp: cache_expiry_def split: option.splits)
  have n: "cache_expiry ?c r = cache_expiry (deferred db) r" if "m_owner r \<noteq> owner" for r
    using map_of_filter_snd [OF d, of "\<lambda>e. df_owner e \<noteq> owner" "m_hash r"] that
    by (auto simp: cache_expiry_def split: option.splits)
  show "effective_messages (after_taking owner db) = effective_messages db"
    unfolding effective_messages_def after_taking_eq [OF d] effective_expiry_def using o n by simp
  show "r \<in> set (messages (after_taking owner db)) \<Longrightarrow> m_owner r = owner \<Longrightarrow> effective_expiry (after_taking owner db) r = m_expiry r"
    unfolding effective_expiry_def after_taking_eq [OF d] using o by simp
qed

lemma shorten_effective:
  assumes d: "distinct (map fst (deferred db))" and P: "\<And>r. P r \<Longrightarrow> m_owner r = owner" "\<And>r x. P (r\<lparr>m_expiry := x\<rparr>) = P r"
    and s: "shorten_expiries e P (after_taking owner db) = (db2, rows)"
  shows "effective_messages db2 =
       map (\<lambda>r. if P r \<and> m_expiry r > e then r\<lparr>m_expiry := e\<rparr> else r) (effective_messages db)"
    and "rows = filter (\<lambda>r. P r \<and> m_expiry r > e) (effective_messages db)"
proof -
  let ?db = "after_taking owner db" and ?g = "\<lambda>r. r\<lparr>m_expiry := effective_expiry (after_taking owner db) r\<rparr>"
  note a = after_taking_effective [OF d]
  have eff: "effective_messages db = map ?g (messages ?db)" using a(1) [of owner] by (simp add: effective_messages_def)
  have id: "?g r = r" if "r \<in> set (messages ?db)" "P r" for r
    using a(2) [OF that(1) P(1) [OF that(2)]] by simp
  have "filter (\<lambda>r. P r \<and> m_expiry r > e) (effective_messages db) =
      map ?g (filter (\<lambda>r. P r \<and> m_expiry (?g r) > e) (messages ?db))"
    unfolding eff filter_map comp_def by (simp add: P(2))
  also have "filter (\<lambda>r. P r \<and> m_expiry (?g r) > e) (messages ?db) = filter (\<lambda>r. m_expiry r > e \<and> P r) (messages ?db)"
    using id by (intro filter_cong refl) metis
  also have "map ?g \<dots> = \<dots>" using id by (intro map_idI) simp
  finally show "rows = filter (\<lambda>r. P r \<and> m_expiry r > e) (effective_messages db)"
    using s by (simp add: shorten_expiries_def Let_def)
  have db2: "db2 = update_messages (\<lambda>r. m_expiry r > e \<and> P r) (\<lambda>r. r\<lparr>m_expiry := e\<rparr>) ?db"
    using s by (simp add: shorten_expiries_def Let_def)
  have mm: "messages db2 = map (\<lambda>r. if m_expiry r > e \<and> P r then r\<lparr>m_expiry := e\<rparr> else r) (messages ?db)"
    by (simp add: db2 update_messages_def)
  have ce: "effective_expiry db2 r = effective_expiry ?db r" for r by (simp add: effective_expiry_def db2 row_simps)
  have own: "effective_expiry ?db (r\<lparr>m_expiry := x\<rparr>) = x" if "r \<in> set (messages ?db)" "m_owner r = owner" for r x
    using a(2) [OF that] map_of_filter_snd [OF d, of "\<lambda>e. df_owner e \<noteq> owner" "m_hash r"] that(2)
    by (auto simp: effective_expiry_def cache_expiry_def after_taking_eq [OF d] split: option.splits)
  show "effective_messages db2 = map (\<lambda>r. if P r \<and> m_expiry r > e then r\<lparr>m_expiry := e\<rparr> else r) (effective_messages db)"
    unfolding eff unfolding effective_messages_def ce mm map_map
  proof (rule map_cong [OF refl])
    fix r assume r: "r \<in> set (messages ?db)"
    show "(?g \<circ> (\<lambda>r. if m_expiry r > e \<and> P r then r\<lparr>m_expiry := e\<rparr> else r)) r =
        ((\<lambda>r. if P r \<and> m_expiry r > e then r\<lparr>m_expiry := e\<rparr> else r) \<circ> ?g) r"
      using id [OF r] own [OF r, of e] P(1) [of r] P(2) by (cases "P r") simp_all
  qed
qed

lemma update_all_eq:
  "owner_id_of db pk = Some owner \<Longrightarrow>
   update_all_expiries pk new_exp db =
     (let (db2, rows) = shorten_expiries (to_epoch_ms new_exp) (\<lambda>r. m_owner r = owner) (after_taking owner db)
      in (db2, map (\<lambda>r. (word_of_int (m_namespace r), m_hash r)) rows))"
  "owner_id_of db pk = Some owner \<Longrightarrow>
   update_all_expiries_in pk ns new_exp db =
     (let (db2, rows) = shorten_expiries (to_epoch_ms new_exp) (\<lambda>r. m_owner r = owner \<and> m_namespace r = to_int ns) (after_taking owner db)
      in (db2, map m_hash rows))"
  by (simp_all add: update_all_expiries_def update_all_expiries_in_def after_taking_def case_prod_beta)

lemma update_all_unknown:
  "owner_id_of db pk = None \<Longrightarrow> update_all_expiries pk new_exp db = (db, [])"
  "owner_id_of db pk = None \<Longrightarrow> update_all_expiries_in pk ns new_exp db = (db, [])"
  by (simp_all add: update_all_expiries_def update_all_expiries_in_def)

lemma shorten_inv:
  assumes inv: "db_inv lb db"
  shows "db_inv lb (fst (shorten_expiries e P (after_taking owner db)))"
proof -
  note p = db_inv_parts [OF inv]
  have d: "distinct (map fst (deferred db))" using p by (simp add: deferred_ok_def)
  have "tables_ok lb (after_taking owner db)"
    unfolding after_taking_def using p by (intro write_deferred_ok) (simp add: take_deferred_def)
  then have "tables_ok lb (fst (shorten_expiries e P (after_taking owner db)))"
    by (simp add: shorten_expiries_def Let_def update_expiry_ok)
  moreover have "deferred_ok (fst (shorten_expiries e P (after_taking owner db)))"
    using p unfolding shorten_expiries_def Let_def fst_conv deferred_ok_def row_simps after_taking_eq [OF d]
    by (auto intro: distinct_map_filterI)
  ultimately show ?thesis
    using p by (simp add: db_inv_def db_ok_def count_ok_def shorten_expiries_def Let_def row_simps after_taking_eq [OF d])
qed

lemma update_all_inv [inv_intros]:
  assumes "db_inv lb db"
  shows "db_inv lb (fst (update_all_expiries pk e db))" "db_inv lb (fst (update_all_expiries_in pk ns e db))"
proof -
  have s: "\<exists>P. fst (update_all_expiries pk e db) = fst (shorten_expiries (to_epoch_ms e) P (after_taking owner db))"
      "\<exists>P. fst (update_all_expiries_in pk ns e db) = fst (shorten_expiries (to_epoch_ms e) P (after_taking owner db))"
    if "owner_id_of db pk = Some owner" for owner
    unfolding update_all_eq [OF that] Let_def case_prod_beta fst_conv by blast+
  show "db_inv lb (fst (update_all_expiries pk e db))" "db_inv lb (fst (update_all_expiries_in pk ns e db))"
    using s shorten_inv [OF assms] update_all_unknown [of db pk] assms
    by (cases "owner_id_of db pk"; metis fst_conv)+
qed



text \<open>
  \<open>update_all_expiries\<close> only shortens. Of the account's messages (in the namespace, if one is
  given) exactly those whose effective expiry, deferred extensions included, is later than
  the new one get the new one, and exactly those are reported.
\<close>

theorem update_all_shortens:
  assumes inv: "db_inv lb db" and own: "owner_id_of db pk = Some owner"
  shows "effective_messages (fst (update_all_expiries pk e db)) =
       map (\<lambda>r. if m_owner r = owner \<and> m_expiry r > to_epoch_ms e then r\<lparr>m_expiry := to_epoch_ms e\<rparr> else r) (effective_messages db)
     \<and> snd (update_all_expiries pk e db) =
       map (\<lambda>r. (word_of_int (m_namespace r), m_hash r))
         (filter (\<lambda>r. m_owner r = owner \<and> m_expiry r > to_epoch_ms e) (effective_messages db))
     \<and> effective_messages (fst (update_all_expiries_in pk ns e db)) =
       map (\<lambda>r. if (m_owner r = owner \<and> m_namespace r = to_int ns) \<and> m_expiry r > to_epoch_ms e
                then r\<lparr>m_expiry := to_epoch_ms e\<rparr> else r) (effective_messages db)
     \<and> snd (update_all_expiries_in pk ns e db) =
       map m_hash (filter (\<lambda>r. (m_owner r = owner \<and> m_namespace r = to_int ns) \<and> m_expiry r > to_epoch_ms e) (effective_messages db))"
proof -
  have d: "distinct (map fst (deferred db))" using db_inv_parts [OF inv] by (simp add: deferred_ok_def)
  obtain d1 r1 where s1: "shorten_expiries (to_epoch_ms e) (\<lambda>r. m_owner r = owner) (after_taking owner db) = (d1, r1)"
    by (cases "shorten_expiries (to_epoch_ms e) (\<lambda>r. m_owner r = owner) (after_taking owner db)")
  obtain d2 r2 where s2: "shorten_expiries (to_epoch_ms e) (\<lambda>r. m_owner r = owner \<and> m_namespace r = to_int ns) (after_taking owner db) = (d2, r2)"
    by (cases "shorten_expiries (to_epoch_ms e) (\<lambda>r. m_owner r = owner \<and> m_namespace r = to_int ns) (after_taking owner db)")
  note a = shorten_effective [OF d _ _ s1] and b = shorten_effective [OF d _ _ s2]
  show ?thesis using a b by (simp add: update_all_eq [OF own] s1 s2)
qed

theorem update_all_shortens_witness:
  "map m_expiry (effective_messages (fst (update_all_expiries sample_pubkey 150000000 sample_db))) = [100, 150]
   \<and> snd (update_all_expiries sample_pubkey 150000000 sample_db) = [(0, ''second'')]"
proof -
  have "effective_messages sample_db = [sample_row 1 ''first'', sample_row 2 ''second'']"
    by (simp add: effective_row entry_expiry_def sample_row_def sample_db_def empty_database_def)
  then show ?thesis
    using update_all_shortens [OF sample_db_inv sample_db_owner, of 150000000 0]
    by (simp add: sample_row_def to_epoch_ms_nonneg)
qed

section \<open>A replaced outbox message\<close>

text \<open>
  A newer outbox message replaces the row of the old one but leaves the deferred extension of
  the old hash: \<open>update_expiry\<close> then reports a hash as updated that is not stored any more.
\<close>

definition outbox_sample :: database where
  "outbox_sample = sample_db\<lparr>messages := [(sample_row 1 ''old'')\<lparr>m_namespace := - 1\<rparr>], message_count := 1,
     deferred := [(''old'', \<lparr>df_owner = 1, df_expiry = 150, df_commit_at = 5\<rparr>)], deferred_queue := [(5, ''old'')]\<rparr>"

definition outbox_newer :: message where
  "outbox_newer = sample_message\<lparr>msg_hash := ''new'', msg_namespace := - 1\<rparr>"

lemma outbox_sample_ns: "outbox_index_pred (- 1)"
  by code_simp

lemma outbox_stored:
  "fst (store_message big_endian Disk_Ok outbox_newer outbox_sample) =
     outbox_sample\<lparr>messages := [\<lparr>m_id = 1, m_hash = ''new'', m_owner = 1, m_namespace = - 1, m_timestamp = 5, m_expiry = 9, m_data = ''data''\<rparr>]\<rparr>"
  by (simp add: store_message_def store_body_def get_or_insert_owner_def owner_id_of_def Let_def outbox_sample_def
      outbox_newer_def sample_message_def sample_row_def sample_db_def sample_pubkey_def find_hash_def insert_message_def
      outbox_conflict_def to_int_def outbox_sample_ns update_messages_def to_epoch_ms_nonneg)

lemma replaced_outbox_still_extended:
  "find_hash (fst (store_message big_endian Disk_Ok outbox_newer outbox_sample)) ''old'' = None
   \<and> (\<exists>db'. update_expiry 0 sample_pubkey [''old''] [200000000] True False
          (fst (store_message big_endian Disk_Ok outbox_newer outbox_sample)) = Inr (db', [(''old'', 200000000)]))"
  unfolding outbox_stored
  by (simp add: find_hash_def update_expiry_def owner_id_of_def outbox_sample_def sample_db_def sample_pubkey_def Let_def
      expiry_items_def current_of_deferred_def deferred_expiry_of_def update_expiry_one_def to_epoch_ms_nonneg not_wanted_def)

end
