(* ===== verification/Revocations.thy ===== *)
theory Revocations
  imports Expiries
begin

text \<open>
  Revoked subaccount tokens (\<open>oxenss/storage/database.cpp\<close>, \<open>revoke_subaccounts\<close>,
  \<open>unrevoke_subaccounts\<close>, \<open>subaccount_revoked\<close>, \<open>revoked_subaccounts\<close> and the trigger
  \<open>revoked_autoclean\<close>).
\<close>

section \<open>Operations\<close>

text \<open>
  Inserting a tok. A conflict with the primary key, which a NULL owner never has, updates
  the time stamp; only an actual insertion fires the trigger \<open>revoked_autoclean\<close>, which leaves
  the account its newest tokens. The argument \<open>newest\<close> is the sort of the trigger's subquery.
\<close>

definition revoked_of :: "int \<Rightarrow> database \<Rightarrow> revoked_row list" where
  "revoked_of owner db = filter (\<lambda>r. rv_owner r = Some owner) (revoked_subaccounts db)"

definition revoked_autoclean :: "(revoked_row list \<Rightarrow> revoked_row list) \<Rightarrow> int \<Rightarrow> database \<Rightarrow> database" where
  "revoked_autoclean newest owner db =
     (if length (revoked_of owner db) > 50
      then let keep = map rv_token (take 50 (newest (revoked_of owner db)))
           in db\<lparr>revoked_subaccounts :=
                 filter (\<lambda>r. \<not> (rv_owner r = Some owner \<and> rv_token r \<notin> set keep)) (revoked_subaccounts db)\<rparr>
      else db)"

definition insert_revoked ::
    "(revoked_row list \<Rightarrow> revoked_row list) \<Rightarrow> time \<Rightarrow> int option \<Rightarrow> subaccount_token \<Rightarrow> database \<Rightarrow> database" where
  "insert_revoked newest now owner tok db =
     (let ts = to_epoch_ms now
      in if owner \<noteq> None \<and> list_ex (\<lambda>r. rv_owner r = owner \<and> rv_token r = tok) (revoked_subaccounts db)
         then db\<lparr>revoked_subaccounts :=
                map (\<lambda>r. if rv_owner r = owner \<and> rv_token r = tok \<and> rv_timestamp r < ts
                        then r\<lparr>rv_timestamp := ts\<rparr> else r) (revoked_subaccounts db)\<rparr>
         else let db' = db\<lparr>revoked_subaccounts := revoked_subaccounts db @
                            [\<lparr>rv_owner = owner, rv_token = tok, rv_timestamp = ts\<rparr>]\<rparr>
              in case owner of Some i \<Rightarrow> revoked_autoclean newest i db' | None \<Rightarrow> db')"

text \<open>
  \<open>revoke_subaccounts\<close>: one tok is inserted by a single statement that looks the owner up
  itself, several by one statement each; \<open>clock\<close> gives the time each statement runs at.
\<close>

definition revoke_subaccounts ::
    "(revoked_row list \<Rightarrow> revoked_row list) \<Rightarrow> (nat \<Rightarrow> time) \<Rightarrow> user_pubkey \<Rightarrow> subaccount_token list \<Rightarrow> database \<Rightarrow> database" where
  "revoke_subaccounts newest clock pk tokens db =
     (case tokens of
        [] \<Rightarrow> db
      | [tok] \<Rightarrow> insert_revoked newest (clock 0) (owner_id_of db pk) tok db
      | _ \<Rightarrow> (case owner_id_of db pk of
                None \<Rightarrow> db
              | Some owner \<Rightarrow>
                  fold (\<lambda>(i, tok). insert_revoked newest (clock i) (Some owner) tok) (enumerate 0 tokens) db))"

definition unrevoke_subaccounts :: "user_pubkey \<Rightarrow> subaccount_token list \<Rightarrow> database \<Rightarrow> database \<times> nat" where
  "unrevoke_subaccounts pk tokens db =
     (if tokens = [] then (db, 0)
      else let gone = (\<lambda>r. rv_owner r \<noteq> None \<and> rv_owner r = owner_id_of db pk \<and> rv_token r \<in> set tokens)
           in (db\<lparr>revoked_subaccounts := filter (\<lambda>r. \<not> gone r) (revoked_subaccounts db)\<rparr>,
               length (filter gone (revoked_subaccounts db))))"

definition subaccount_revoked :: "user_pubkey \<Rightarrow> subaccount_token \<Rightarrow> database \<Rightarrow> bool" where
  "subaccount_revoked pk tok db =
     (length (filter (\<lambda>r. rv_token r = tok \<and> rv_owner r \<noteq> None \<and> rv_owner r = owner_id_of db pk)
        (revoked_subaccounts db)) > 0)"

definition revoked_tokens :: "user_pubkey \<Rightarrow> database \<Rightarrow> subaccount_token list" where
  "revoked_tokens pk db =
     map rv_token (filter (\<lambda>r. rv_owner r \<noteq> None \<and> rv_owner r = owner_id_of db pk) (revoked_subaccounts db))"

section \<open>The constraints are kept\<close>

lemma revoked_frame:
  "owners (insert_revoked newest now ow tok db) = owners db"
  "messages (insert_revoked newest now ow tok db) = messages db"
  "insert_revoked newest now ow tok db = db\<lparr>revoked_subaccounts := revoked_subaccounts (insert_revoked newest now ow tok db)\<rparr>"
  by (auto simp: insert_revoked_def revoked_autoclean_def Let_def split: option.splits)

definition revoked_rows_ok :: "owner_row list \<Rightarrow> revoked_row list \<Rightarrow> bool" where
  "revoked_rows_ok os rs \<longleftrightarrow>
     distinct (map (\<lambda>r. (rv_owner r, rv_token r)) (filter (\<lambda>r. rv_owner r \<noteq> None) rs))
     \<and> (\<forall>r \<in> set rs. \<forall>i. rv_owner r = Some i \<longrightarrow> i \<in> o_id ` set os)"

lemma revoked_ok_rows: "revoked_ok os rs \<longleftrightarrow> revoked_rows_ok os rs \<and>
    (\<forall>i. length (filter (\<lambda>r. rv_owner r = Some i) rs) \<le> 50)"
  by (auto simp: revoked_ok_def revoked_rows_ok_def MAX_SUBACCOUNT_TOKENS_def)

lemma owner_tokens_distinct:
  "revoked_rows_ok os rs \<Longrightarrow> distinct (map rv_token (filter (\<lambda>r. rv_owner r = Some i) rs))"
proof -
  assume ok: "revoked_rows_ok os rs"
  have f: "filter (\<lambda>r. rv_owner r = Some i) rs = filter (\<lambda>r. rv_owner r = Some i) (filter (\<lambda>r. rv_owner r \<noteq> None) rs)"
    by (auto intro: filter_cong)
  have "distinct (map (\<lambda>r. (rv_owner r, rv_token r)) (filter (\<lambda>r. rv_owner r = Some i) rs))"
    unfolding f by (rule distinct_map_filterI) (use ok in \<open>simp add: revoked_rows_ok_def\<close>)
  then show ?thesis by (auto simp: distinct_map inj_on_def)
qed

lemma insert_new_rows_ok:
  assumes ok: "revoked_rows_ok os rs" and ow: "\<And>i. ow = Some i \<Longrightarrow> i \<in> o_id ` set os"
    and new: "ow \<noteq> None \<Longrightarrow> \<not> list_ex (\<lambda>r. rv_owner r = ow \<and> rv_token r = tok) rs"
  shows "revoked_rows_ok os (rs @ [\<lparr>rv_owner = ow, rv_token = tok, rv_timestamp = ts\<rparr>])"
  using assms by (auto simp: revoked_rows_ok_def list_ex_iff)

lemma update_rows_ok:
  "revoked_rows_ok os rs \<Longrightarrow> revoked_rows_ok os (map (\<lambda>r. if P r then r\<lparr>rv_timestamp := ts\<rparr> else r) rs)"
proof -
  assume ok: "revoked_rows_ok os rs"
  let ?u = "\<lambda>r. if P r then r\<lparr>rv_timestamp := ts\<rparr> else r"
  have s: "rv_owner (?u r) = rv_owner r" "rv_token (?u r) = rv_token r" for r by simp_all
  have "map (\<lambda>r. (rv_owner r, rv_token r)) (filter (\<lambda>r. rv_owner r \<noteq> None) (map ?u rs)) =
      map (\<lambda>r. (rv_owner r, rv_token r)) (filter (\<lambda>r. rv_owner r \<noteq> None) rs)"
    unfolding filter_map map_map comp_def s by simp
  then show ?thesis using ok unfolding revoked_rows_ok_def by (auto simp: s)
qed

lemma filter_rows_ok: "revoked_rows_ok os rs \<Longrightarrow> revoked_rows_ok os (filter P rs)"
proof -
  assume ok: "revoked_rows_ok os rs"
  have f: "filter (\<lambda>r. rv_owner r \<noteq> None) (filter P rs) = filter P (filter (\<lambda>r. rv_owner r \<noteq> None) rs)"
    by (simp add: conj_commute)
  have "distinct (map (\<lambda>r. (rv_owner r, rv_token r)) (filter (\<lambda>r. rv_owner r \<noteq> None) (filter P rs)))"
    unfolding f by (rule distinct_map_filterI) (use ok in \<open>simp add: revoked_rows_ok_def\<close>)
  then show ?thesis using ok unfolding revoked_rows_ok_def by auto
qed

lemma filter_token_count:
  assumes "distinct (map f xs)" and "set ks \<subseteq> f ` set xs" and "distinct ks"
  shows "length (filter (\<lambda>x. f x \<in> set ks) xs) = length ks"
proof -
  have "distinct (map f (filter (\<lambda>x. f x \<in> set ks) xs))" by (rule distinct_map_filterI [OF assms(1)])
  moreover have "set (map f (filter (\<lambda>x. f x \<in> set ks) xs)) = set ks" using assms(2) by auto
  ultimately show ?thesis using assms(3) by (metis distinct_card length_map)
qed

lemma autoclean_count:
  assumes so: "sorts_by key newest" and ok: "revoked_rows_ok os (revoked_subaccounts db)"
  shows "length (revoked_of i (revoked_autoclean newest owner db)) =
     (if i = owner then min 50 (length (revoked_of owner db)) else length (revoked_of i db))"
proof (cases "length (revoked_of owner db) > 50")
  case False
  then show ?thesis by (auto simp: revoked_autoclean_def)
next
  case True
  let ?ks = "map rv_token (take 50 (newest (revoked_of owner db)))"
  have d: "distinct (map rv_token (revoked_of owner db))"
    using owner_tokens_distinct [OF ok] by (simp add: revoked_of_def)
  have "mset (map rv_token (newest (revoked_of owner db))) = mset (map rv_token (revoked_of owner db))"
    using so by (simp add: sorts_by_def)
  then have "distinct (map rv_token (newest (revoked_of owner db)))" using d mset_eq_imp_distinct_iff by blast
  then have dk: "distinct ?ks" by (simp add: take_map [symmetric])
  have sub: "set ?ks \<subseteq> rv_token ` set (revoked_of owner db)"
    using sorts_by_simps(1) [OF so] set_take_subset [of 50 "newest (revoked_of owner db)"] by auto
  have len: "length ?ks = 50" using True by (simp add: sorts_by_simps [OF so])
  have r: "revoked_of i (revoked_autoclean newest owner db) =
      (if i = owner then filter (\<lambda>r. rv_token r \<in> set ?ks) (revoked_of owner db) else revoked_of i db)"
    using True by (auto simp: revoked_autoclean_def revoked_of_def Let_def intro!: filter_cong)
  show ?thesis using True filter_token_count [OF d sub dk] len by (simp add: r)
qed

lemma insert_revoked_ok:
  assumes so: "sorts_by key newest" and ok: "revoked_ok (owners db) (revoked_subaccounts db)"
    and ow: "\<And>i. ow = Some i \<Longrightarrow> i \<in> o_id ` set (owners db)"
  shows "revoked_ok (owners db) (revoked_subaccounts (insert_revoked newest now ow tok db))"
proof (cases "ow \<noteq> None \<and> list_ex (\<lambda>r. rv_owner r = ow \<and> rv_token r = tok) (revoked_subaccounts db)")
  case True
  let ?u = "\<lambda>r. if rv_owner r = ow \<and> rv_token r = tok \<and> rv_timestamp r < to_epoch_ms now then r\<lparr>rv_timestamp := to_epoch_ms now\<rparr> else r"
  have len: "length (filter (\<lambda>r. rv_owner r = Some i) (map ?u rs)) = length (filter (\<lambda>r. rv_owner r = Some i) rs)" for i rs
    by (induction rs) auto
  have "revoked_subaccounts (insert_revoked newest now ow tok db) = map ?u (revoked_subaccounts db)"
    using True by (simp add: insert_revoked_def Let_def)
  then show ?thesis using ok unfolding revoked_ok_rows by (simp only: len update_rows_ok simp_thms)
next
  case False
  define db' where "db' = db\<lparr>revoked_subaccounts := revoked_subaccounts db @ [\<lparr>rv_owner = ow, rv_token = tok, rv_timestamp = to_epoch_ms now\<rparr>]\<rparr>"
  have rows: "revoked_rows_ok (owners db) (revoked_subaccounts db')"
    using insert_new_rows_ok [of "owners db" "revoked_subaccounts db" ow tok] ok ow False by (auto simp: db'_def revoked_ok_rows)
  have c: "length (revoked_of i db) \<le> 50" for i using ok by (simp add: revoked_ok_rows revoked_of_def)
  show ?thesis
  proof (cases ow)
    case None
    then show ?thesis using rows c False by (simp add: insert_revoked_def Let_def revoked_ok_rows db'_def revoked_of_def)
  next
    case (Some j)
    have "insert_revoked newest now ow tok db = revoked_autoclean newest j db'"
      using False Some by (auto simp: insert_revoked_def Let_def db'_def)
    moreover have "revoked_rows_ok (owners db) (revoked_subaccounts (revoked_autoclean newest j db'))"
      using rows filter_rows_ok by (simp add: revoked_autoclean_def Let_def)
    moreover have "length (revoked_of i (revoked_autoclean newest j db')) \<le> 50" for i
      using autoclean_count [OF so rows, of i j] c [of i] Some by (auto simp: db'_def revoked_of_def)
    ultimately show ?thesis by (simp add: revoked_ok_rows revoked_of_def)
  qed
qed

lemma insert_revoked_inv:
  assumes "sorts_by key newest" and inv: "db_inv lb db" and "\<And>i. ow = Some i \<Longrightarrow> i \<in> o_id ` set (owners db)"
  shows "db_inv lb (insert_revoked newest now ow tok db)"
proof -
  have "revoked_ok (owners db) (revoked_subaccounts db)" using inv by (simp add: db_inv_def db_ok_def tables_ok_def)
  note ok = insert_revoked_ok [OF assms(1) this assms(3)]
  have "db_inv lb (db\<lparr>revoked_subaccounts := rs\<rparr>)" if "revoked_ok (owners db) rs" for rs
    using inv that by (simp add: db_inv_def db_ok_def tables_ok_def count_ok_def deferred_ok_def)
  from this [OF ok] show ?thesis by (simp only: revoked_frame(3) [symmetric])
qed

lemma fold_insert_revoked_inv:
  assumes "sorts_by key newest" and "db_inv lb db" and "owner \<in> o_id ` set (owners db)"
  shows "db_inv lb (fold (\<lambda>(i, tok). insert_revoked newest (clock i) (Some owner) tok) xs db)"
  using assms
proof (induction xs arbitrary: db)
  case (Cons x xs)
  show ?case using Cons.IH insert_revoked_inv [OF Cons.prems(1,2), of "Some owner"] Cons.prems
    by (cases x) (simp add: revoked_frame(1))
qed simp

lemma revoke_inv [inv_intros]:
  assumes so: "sorts_by key newest" and inv: "db_inv lb db"
  shows "db_inv lb (revoke_subaccounts newest clock pk toks db)"
proof -
  have own: "i \<in> o_id ` set (owners db)" if "owner_id_of db pk = Some i" for i using owner_id_of_in [OF that] .
  have "db_inv lb (insert_revoked newest (clock 0) (owner_id_of db pk) t db)" for t
    using own by (intro insert_revoked_inv [OF so inv])
  moreover have "db_inv lb (case owner_id_of db pk of None \<Rightarrow> db | Some owner \<Rightarrow>
      fold (\<lambda>(i, tok). insert_revoked newest (clock i) (Some owner) tok) xs db)" for xs
    by (cases "owner_id_of db pk") (simp_all add: fold_insert_revoked_inv [OF so inv own] inv)
  ultimately show ?thesis
    unfolding revoke_subaccounts_def using inv by (auto split: list.split simp del: enumerate_simps)
qed

lemma unrevoke_inv [inv_intros]: "db_inv lb db \<Longrightarrow> db_inv lb (fst (unrevoke_subaccounts pk toks db))"
  by (simp add: unrevoke_subaccounts_def Let_def db_inv_def db_ok_def tables_ok_def count_ok_def deferred_ok_def
      revoked_ok_filter)

section \<open>What revoking and reinstating do\<close>

lemma subaccount_revoked_iff:
  "owner_id_of db pk = Some i \<Longrightarrow> subaccount_revoked pk tok db \<longleftrightarrow> (\<exists>r \<in> set (revoked_subaccounts db). rv_owner r = Some i \<and> rv_token r = tok)"
  "owner_id_of db pk = None \<Longrightarrow> \<not> subaccount_revoked pk tok db"
  by (auto simp: subaccount_revoked_def filter_empty_conv)

lemma newest_kept:
  assumes so: "sorts_by (\<lambda>r. - rv_timestamp r) newest" and x: "x \<in> set rs" and n: "0 < n"
    and m: "\<forall>r \<in> set rs. r \<noteq> x \<longrightarrow> rv_timestamp r < rv_timestamp x"
  shows "x \<in> set (take n (newest rs))"
proof -
  have s: "sorted (map (\<lambda>r. - rv_timestamp r) (newest rs))" and st: "set (newest rs) = set rs"
    using so sorts_by_simps(1) [OF so] by (simp_all add: sorts_by_def)
  then have ne: "newest rs \<noteq> []" using x by auto
  then obtain y ys where y: "newest rs = y # ys" by (cases "newest rs") auto
  have "y \<in> set rs" using st y by auto
  moreover have "x \<in> set (y # ys)" using st x y by simp
  then have "x = y \<or> - rv_timestamp y \<le> - rv_timestamp x" using s y by auto
  ultimately have "x = y" using m by force
  then show ?thesis using n y by (cases n) auto
qed

lemma insert_revoked_effect:
  assumes so: "sorts_by (\<lambda>r. - rv_timestamp r) newest"
    and new: "\<forall>r \<in> set (revoked_of i db). rv_timestamp r < to_epoch_ms now"
  shows "\<exists>r \<in> set (revoked_subaccounts (insert_revoked newest now (Some i) tok db)). rv_owner r = Some i \<and> rv_token r = tok"
proof (cases "list_ex (\<lambda>r. rv_owner r = Some i \<and> rv_token r = tok) (revoked_subaccounts db)")
  case True
  then obtain r where r: "r \<in> set (revoked_subaccounts db)" "rv_owner r = Some i" "rv_token r = tok" by (auto simp: list_ex_iff)
  let ?u = "\<lambda>r. if rv_owner r = Some i \<and> rv_token r = tok \<and> rv_timestamp r < to_epoch_ms now then r\<lparr>rv_timestamp := to_epoch_ms now\<rparr> else r"
  have "?u r \<in> set (map ?u (revoked_subaccounts db))" using r(1) unfolding set_map by (rule imageI)
  moreover have "rv_owner (?u r) = Some i" "rv_token (?u r) = tok" using r by simp_all
  moreover have "revoked_subaccounts (insert_revoked newest now (Some i) tok db) = map ?u (revoked_subaccounts db)"
    using True by (simp add: insert_revoked_def Let_def)
  ultimately have "?u r \<in> set (revoked_subaccounts (insert_revoked newest now (Some i) tok db)) \<and> rv_owner (?u r) = Some i \<and> rv_token (?u r) = tok"
    by (simp only: simp_thms)
  then show ?thesis by blast
next
  case False
  let ?x = "\<lparr>rv_owner = Some i, rv_token = tok, rv_timestamp = to_epoch_ms now\<rparr>"
  define db' where "db' = db\<lparr>revoked_subaccounts := revoked_subaccounts db @ [?x]\<rparr>"
  have res: "insert_revoked newest now (Some i) tok db = revoked_autoclean newest i db'"
    using False by (simp add: insert_revoked_def Let_def db'_def)
  have "?x \<in> set (take 50 (newest (revoked_of i db')))"
    using new by (intro newest_kept [OF so]) (auto simp: db'_def revoked_of_def)
  then have "?x \<in> set (revoked_subaccounts (revoked_autoclean newest i db'))"
    by (force simp: revoked_autoclean_def Let_def db'_def)
  then show ?thesis unfolding res by force
qed

text \<open>What an insertion drops is the account's own and among the oldest.\<close>

definition only_oldest_dropped :: "int \<Rightarrow> database \<Rightarrow> database \<Rightarrow> bool" where
  "only_oldest_dropped i db db' \<longleftrightarrow>
     (\<forall>j tok. (j \<noteq> i \<or> length (revoked_of i db) < 50) \<longrightarrow>
        tok \<in> rv_token ` set (revoked_of j db) \<longrightarrow> tok \<in> rv_token ` set (revoked_of j db'))
     \<and> (\<forall>r \<in> set (revoked_of i db). rv_token r \<notin> rv_token ` set (revoked_of i db') \<longrightarrow>
          (\<forall>x \<in> set (revoked_of i db'). rv_timestamp r \<le> rv_timestamp x))"

lemma autoclean_drops_oldest:
  assumes so: "sorts_by (\<lambda>r. - rv_timestamp r) newest" and ok: "revoked_rows_ok os (revoked_subaccounts db)"
    and r: "r \<in> set (revoked_of i db)" "rv_token r \<notin> rv_token ` set (revoked_of i (revoked_autoclean newest i db))"
    and x: "x \<in> set (revoked_of i (revoked_autoclean newest i db))"
  shows "rv_timestamp r \<le> rv_timestamp x"
proof -
  let ?n = "newest (revoked_of i db)"
  have big: "length (revoked_of i db) > 50" using r by (cases "length (revoked_of i db) > 50") (auto simp: revoked_autoclean_def)
  have kept: "revoked_of i (revoked_autoclean newest i db) =
      filter (\<lambda>r. rv_token r \<in> rv_token ` set (take 50 ?n)) (revoked_of i db)"
    using big by (auto simp: revoked_autoclean_def revoked_of_def Let_def intro!: filter_cong)
  have d: "distinct (map rv_token (revoked_of i db))" using owner_tokens_distinct [OF ok] by (simp add: revoked_of_def)
  have st: "set ?n = set (revoked_of i db)" by (rule sorts_by_simps(1) [OF so])
  have "x \<in> set (take 50 ?n)"
  proof -
    obtain y where y: "y \<in> set (take 50 ?n)" "rv_token y = rv_token x" using x unfolding kept by auto
    then have "y \<in> set (revoked_of i db)" using st set_take_subset [of 50 ?n] by blast
    moreover have "x \<in> set (revoked_of i db)" using x unfolding kept by simp
    ultimately have "y = x" using distinct_map_inj [OF d _ _ y(2)] by blast
    with y(1) show ?thesis by simp
  qed
  moreover have "r \<in> set (drop 50 ?n)"
  proof -
    have "r \<notin> set (take 50 ?n)" using r unfolding kept by auto
    moreover have "r \<in> set (take 50 ?n) \<union> set (drop 50 ?n)" using r(1) st by (metis append_take_drop_id set_append)
    ultimately show ?thesis by blast
  qed
  moreover have "sorted (map (\<lambda>r. - rv_timestamp r) (take 50 ?n @ drop 50 ?n))" using so by (simp add: sorts_by_def)
  ultimately show ?thesis unfolding map_append sorted_append by fastforce
qed

lemma insert_revoked_drops:
  assumes so: "sorts_by (\<lambda>r. - rv_timestamp r) newest" and ok: "revoked_rows_ok (owners db) (revoked_subaccounts db)"
    and i: "i \<in> o_id ` set (owners db)"
  shows "only_oldest_dropped i db (insert_revoked newest now (Some i) tok db)"
proof (cases "list_ex (\<lambda>r. rv_owner r = Some i \<and> rv_token r = tok) (revoked_subaccounts db)")
  case True
  let ?u = "\<lambda>r. if rv_owner r = Some i \<and> rv_token r = tok \<and> rv_timestamp r < to_epoch_ms now then r\<lparr>rv_timestamp := to_epoch_ms now\<rparr> else r"
  have s: "rv_owner (?u r) = rv_owner r" "rv_token (?u r) = rv_token r" for r by simp_all
  have "revoked_subaccounts (insert_revoked newest now (Some i) tok db) = map ?u (revoked_subaccounts db)"
    using True by (simp add: insert_revoked_def Let_def)
  then have "revoked_of j (insert_revoked newest now (Some i) tok db) = map ?u (revoked_of j db)" for j
    unfolding revoked_of_def by (simp only: filter_map comp_def s)
  then have "rv_token ` set (revoked_of j (insert_revoked newest now (Some i) tok db)) = rv_token ` set (revoked_of j db)" for j
    by (simp only: set_map image_image s)
  then show ?thesis unfolding only_oldest_dropped_def by blast
next
  case False
  define db' where "db' = db\<lparr>revoked_subaccounts := revoked_subaccounts db @ [\<lparr>rv_owner = Some i, rv_token = tok, rv_timestamp = to_epoch_ms now\<rparr>]\<rparr>"
  have res: "insert_revoked newest now (Some i) tok db = revoked_autoclean newest i db'"
    using False by (simp add: insert_revoked_def Let_def db'_def)
  have rows: "revoked_rows_ok (owners db) (revoked_subaccounts db')"
    using insert_new_rows_ok [OF ok, of "Some i" tok] i False by (simp add: db'_def)
  have old: "set (revoked_of j db) \<subseteq> set (revoked_of j db')" for j by (auto simp: db'_def revoked_of_def)
  have "tok' \<in> rv_token ` set (revoked_of j (revoked_autoclean newest i db'))"
    if c: "j \<noteq> i \<or> length (revoked_of i db) < 50" and r: "tok' \<in> rv_token ` set (revoked_of j db)" for j tok'
    using c r by (auto simp: revoked_autoclean_def revoked_of_def db'_def Let_def)
  moreover have "rv_timestamp r \<le> rv_timestamp x"
    if "r \<in> set (revoked_of i db)" "rv_token r \<notin> rv_token ` set (revoked_of i (revoked_autoclean newest i db'))"
      "x \<in> set (revoked_of i (revoked_autoclean newest i db'))" for r x
    using autoclean_drops_oldest [OF so rows _ that(2,3)] that(1) old by blast
  ultimately show ?thesis unfolding only_oldest_dropped_def res by blast
qed



text \<open>
  For an account that has nothing stored, revoking one token and revoking several differ:
  several are ignored, one leaves a row without an owner. Whatever accounts exist later, no
  check for a revoked token finds that row, and repeating the request adds another.
\<close>

theorem revoke_unknown_owner:
  assumes "owner_id_of db pk = None"
  shows "revoked_subaccounts (revoke_subaccounts newest clock pk [tok] db) =
       revoked_subaccounts db @ [\<lparr>rv_owner = None, rv_token = tok, rv_timestamp = to_epoch_ms (clock 0)\<rparr>]
     \<and> revoke_subaccounts newest clock pk (tok # tok' # toks) db = db
     \<and> (\<forall>os p. subaccount_revoked p t ((revoke_subaccounts newest clock pk [tok] db)\<lparr>owners := os\<rparr>) =
               subaccount_revoked p t (db\<lparr>owners := os\<rparr>))"
  using assms
  by (simp add: revoke_subaccounts_def insert_revoked_def Let_def subaccount_revoked_def owner_id_of_def)

theorem revoke_unknown_owner_witness:
  "length (revoked_subaccounts (revoke_subaccounts id (\<lambda>_. 0) sample_pubkey [sample_token] empty_database)) = 1
   \<and> revoke_subaccounts id (\<lambda>_. 0) sample_pubkey [sample_token, sample_token] empty_database = empty_database"
  using revoke_unknown_owner [of empty_database sample_pubkey id "\<lambda>_. 0" sample_token sample_token "[]"]
  by (simp add: owner_id_of_def empty_database_def)

end
