(* ===== verification/Retries.thy ===== *)
theory Retries
  imports Revocations
begin

text \<open>
  Requests that other nodes could not be sent and are tried again
  (\<open>oxenss/storage/database.cpp\<close>, the view \<open>retry_node_reqs\<close>, the triggers \<open>retry_node_add\<close>
  and \<open>rr_cleanup\<close>, and the operations on them). The view has one entry for each node that waits
  for a request; every operation is shown as a change of the list of these entries.
\<close>

section \<open>Operations\<close>

definition RETRY_INITIAL_DELAY :: time where "RETRY_INITIAL_DELAY = seconds 15"
definition RETRY_INTERVAL :: time where "RETRY_INTERVAL = seconds 30"
definition RETRY_NO_CONTACT_INTERVAL :: time where "RETRY_NO_CONTACT_INTERVAL = seconds 15"
definition RETRY_EXPIRY :: time where "RETRY_EXPIRY = seconds (15 * 60)"

text \<open>An insertion that violates a constraint raises, and the transaction is rolled back.\<close>

datatype sql_error = Foreign_Key_Violation | Unique_Violation

text \<open>
  The trigger \<open>retry_node_add\<close> of the view: the key is added if it is new, then the row that
  refers to it.
\<close>

definition pubkey_id_of :: "database \<Rightarrow> legacy_pubkey \<Rightarrow> int option" where
  "pubkey_id_of db key = map_option rp_id (List.find (\<lambda>p. rp_pubkey p = key) (retry_pubkeys db))"

definition retry_node_add :: "int \<Rightarrow> legacy_pubkey \<Rightarrow> time \<Rightarrow> database \<Rightarrow> sql_error + database" where
  "retry_node_add rr_id key next_retry db =
     (let (db1, pk_id) = (case pubkey_id_of db key of
            Some i \<Rightarrow> (db, i)
          | None \<Rightarrow> let i = next_rowid (map rp_id (retry_pubkeys db))
                    in (db\<lparr>retry_pubkeys := retry_pubkeys db @ [\<lparr>rp_id = i, rp_pubkey = key\<rparr>]\<rparr>, i))
      in if list_ex (\<lambda>n. rn_rr_id n = rr_id \<and> rn_pk_id n = pk_id) (retry_node_requests db1) then Inl Unique_Violation
         else if \<not> list_ex (\<lambda>q. rq_id q = rr_id) (retry_requests db1) then Inl Foreign_Key_Violation
         else Inr (db1\<lparr>retry_node_requests := retry_node_requests db1 @
                     [\<lparr>rn_id = next_rowid (map rn_id (retry_node_requests db1)), rn_rr_id = rr_id, rn_pk_id = pk_id,
                       rn_next_retry = next_retry\<rparr>]\<rparr>))"

definition add_retry_request ::
    "time \<Rightarrow> time \<Rightarrow> legacy_pubkey \<Rightarrow> string \<Rightarrow> string \<Rightarrow> int \<Rightarrow> database \<Rightarrow> sql_error + database \<times> int" where
  "add_retry_request created now key cmd payload req_id db =
     (let (db1, req_id') =
            (if req_id = 0
             then let i = next_rowid (map rq_id (retry_requests db))
                  in (db\<lparr>retry_requests := retry_requests db @
                        [\<lparr>rq_id = i, rq_command = cmd, rq_payload = payload, rq_created = created\<rparr>]\<rparr>, i)
             else (db, req_id))
      in case retry_node_add req_id' key (now + RETRY_INITIAL_DELAY) db1 of
           Inl e \<Rightarrow> Inl e
         | Inr db2 \<Rightarrow> Inr (db2, req_id'))"

text \<open>
  The view \<open>retry_node_reqs\<close>: the id of the node's row, its next time, the key, the command
  and the payload.
\<close>

record ready_retry =
  rd_id :: int
  rd_key :: legacy_pubkey
  rd_command :: string
  rd_payload :: string
  rd_next_retry :: time

definition retry_node_reqs :: "database \<Rightarrow> ready_retry list" where
  "retry_node_reqs db =
     concat (map (\<lambda>n. concat (map (\<lambda>q. map (\<lambda>p. \<lparr>rd_id = rn_id n, rd_key = rp_pubkey p, rd_command = rq_command q,
                   rd_payload = rq_payload q, rd_next_retry = rn_next_retry n\<rparr>)
                 (filter (\<lambda>p. rp_id p = rn_pk_id n) (retry_pubkeys db)))
               (filter (\<lambda>q. rq_id q = rn_rr_id n) (retry_requests db)))) (retry_node_requests db))"

text \<open>
  \<open>foreach_ready_retry_request\<close>: what is ready is read first, the callback is called for each,
  and the next times are written together at the end. Requests may come and go in between,
  so the two statements are two functions.
\<close>

definition ready_retries :: "time \<Rightarrow> database \<Rightarrow> ready_retry list" where
  "ready_retries now db = filter (\<lambda>r. rd_next_retry r < now) (retry_node_reqs db)"

definition schedule_retry :: "int \<times> time \<Rightarrow> database \<Rightarrow> database" where
  "schedule_retry = (\<lambda>(i, t) db. db\<lparr>retry_node_requests :=
     map (\<lambda>n. if rn_id n = i then n\<lparr>rn_next_retry := t\<rparr> else n) (retry_node_requests db)\<rparr>)"

definition retry_updates :: "time \<Rightarrow> (ready_retry \<Rightarrow> bool) \<Rightarrow> ready_retry list \<Rightarrow> (int \<times> time) list" where
  "retry_updates now callback ready =
     map (\<lambda>r. (rd_id r, if callback r then now + RETRY_INTERVAL else now + RETRY_NO_CONTACT_INTERVAL)) ready"

definition foreach_ready_retry_request ::
    "time \<Rightarrow> time \<Rightarrow> (ready_retry \<Rightarrow> bool) \<Rightarrow> database \<Rightarrow> database \<times> ready_retry list" where
  "foreach_ready_retry_request sql_now now callback db =
     (let ready = ready_retries sql_now db
      in (fold schedule_retry (retry_updates now callback ready) db, ready))"

definition retry_request_count :: "database \<Rightarrow> nat" where
  "retry_request_count db = length (retry_node_reqs db)"

text \<open>Deleting a node's row, with the trigger \<open>rr_cleanup\<close>.\<close>

definition delete_node_request :: "retry_node_row \<Rightarrow> database \<Rightarrow> database" where
  "delete_node_request n db =
     (let ns = filter (\<lambda>x. rn_id x \<noteq> rn_id n) (retry_node_requests db)
      in db\<lparr>retry_node_requests := ns,
            retry_pubkeys := (if list_ex (\<lambda>x. rn_pk_id x = rn_pk_id n) ns then retry_pubkeys db
                              else filter (\<lambda>p. rp_id p \<noteq> rn_pk_id n) (retry_pubkeys db)),
            retry_requests := (if list_ex (\<lambda>x. rn_rr_id x = rn_rr_id n) ns then retry_requests db
                               else filter (\<lambda>q. rq_id q \<noteq> rn_rr_id n) (retry_requests db))\<rparr>)"

definition remove_node_retry_request :: "int \<Rightarrow> database \<Rightarrow> database" where
  "remove_node_retry_request req_id db =
     fold delete_node_request (filter (\<lambda>n. rn_id n = req_id) (retry_node_requests db)) db"

text \<open>Deleting a request deletes the rows that refer to it, which fires their trigger.\<close>

definition delete_request :: "retry_request_row \<Rightarrow> database \<Rightarrow> database" where
  "delete_request q db =
     (let db' = db\<lparr>retry_requests := filter (\<lambda>x. rq_id x \<noteq> rq_id q) (retry_requests db)\<rparr>
      in fold delete_node_request (filter (\<lambda>n. rn_rr_id n = rq_id q) (retry_node_requests db')) db')"

definition expire_statement ::
    "(retry_request_row list \<Rightarrow> retry_request_row list) \<Rightarrow> time \<Rightarrow> database \<Rightarrow> database \<times> nat" where
  "expire_statement by_created cutoff db =
     (let ids = map rq_id (take EXPIRY_DELETE_CHUNK
                  (by_created (filter (\<lambda>q. rq_created q < cutoff) (retry_requests db))));
          sel = filter (\<lambda>q. rq_id q \<in> set ids) (retry_requests db)
      in (fold delete_request sel db, length sel))"

definition remove_expired_retry_requests ::
    "(retry_request_row list \<Rightarrow> retry_request_row list) \<Rightarrow> time \<Rightarrow> database \<Rightarrow> database option" where
  "remove_expired_retry_requests by_created now db =
     map_option fst (delete_in_chunks (expire_statement by_created (now - RETRY_EXPIRY)) db 0)"

section \<open>The constraints are kept\<close>

lemma retries_okD:
  assumes "retries_ok qs ps ns"
  shows "sorted_wrt (<) (map rq_id qs)" "\<forall>q \<in> set qs. 0 < rq_id q" "sorted_wrt (<) (map rp_id ps)"
    "sorted_wrt (<) (map rn_id ns)" "distinct (map rp_pubkey ps)" "distinct (map (\<lambda>n. (rn_rr_id n, rn_pk_id n)) ns)"
    "rn_rr_id ` set ns = rq_id ` set qs" "rn_pk_id ` set ns = rp_id ` set ps"
  using assms by (simp_all add: retries_ok_def)

lemma retries_okI:
  assumes "sorted_wrt (<) (map rq_id qs)" "\<forall>q \<in> set qs. 0 < rq_id q" "sorted_wrt (<) (map rp_id ps)"
    "sorted_wrt (<) (map rn_id ns)" "distinct (map rp_pubkey ps)" "distinct (map (\<lambda>n. (rn_rr_id n, rn_pk_id n)) ns)"
    "rn_rr_id ` set ns = rq_id ` set qs" "rn_pk_id ` set ns = rp_id ` set ps"
  shows "retries_ok qs ps ns"
  using assms by (simp add: retries_ok_def)

lemma image_except: "f ` {x \<in> A. f x \<noteq> i} = f ` A - {i}"
  by auto

text \<open>Removing the last reference removes what is referred to.\<close>

lemma image_cleanup:
  assumes "f ` A = g ` Q" and "n \<in> A"
  shows "f ` (A - {n}) = g ` (if \<exists>x \<in> A - {n}. f x = f n then Q else {q \<in> Q. g q \<noteq> f n})"
proof (cases "\<exists>x \<in> A - {n}. f x = f n")
  case True
  then obtain x where x: "x \<in> A - {n}" "f x = f n" by blast
  have "f ` A = insert (f n) (f ` (A - {n}))" using assms(2) by blast
  also have "\<dots> = f ` (A - {n})" using x by (metis imageI insert_absorb)
  finally have "f ` (A - {n}) = f ` A" by simp
  then show ?thesis using True assms(1) by simp
next
  case False
  then have "f ` (A - {n}) = f ` A - {f n}" by auto
  then show ?thesis using False assms(1) by auto
qed

definition db_retries_ok :: "database \<Rightarrow> bool" where
  "db_retries_ok db = retries_ok (retry_requests db) (retry_pubkeys db) (retry_node_requests db)"

lemma delete_node_sets:
  assumes "sorted_wrt (<) (map rn_id (retry_node_requests db))" and "n \<in> set (retry_node_requests db)"
  shows "set (retry_node_requests (delete_node_request n db)) = set (retry_node_requests db) - {n}"
    and "set (retry_pubkeys (delete_node_request n db)) =
      (if \<exists>x \<in> set (retry_node_requests db) - {n}. rn_pk_id x = rn_pk_id n then set (retry_pubkeys db)
       else {p \<in> set (retry_pubkeys db). rp_id p \<noteq> rn_pk_id n})"
    and "set (retry_requests (delete_node_request n db)) =
      (if \<exists>x \<in> set (retry_node_requests db) - {n}. rn_rr_id x = rn_rr_id n then set (retry_requests db)
       else {q \<in> set (retry_requests db). rq_id q \<noteq> rn_rr_id n})"
proof -
  have s: "set (filter (\<lambda>x. rn_id x \<noteq> rn_id n) (retry_node_requests db)) = set (retry_node_requests db) - {n}"
    using sorted_map_inj [OF assms(1) _ assms(2)] assms(2) by auto
  then show "set (retry_node_requests (delete_node_request n db)) = set (retry_node_requests db) - {n}"
    by (simp add: delete_node_request_def Let_def)
  show "set (retry_pubkeys (delete_node_request n db)) =
      (if \<exists>x \<in> set (retry_node_requests db) - {n}. rn_pk_id x = rn_pk_id n then set (retry_pubkeys db)
       else {p \<in> set (retry_pubkeys db). rp_id p \<noteq> rn_pk_id n})"
    unfolding s [symmetric] by (auto simp: delete_node_request_def Let_def list_ex_iff)
  show "set (retry_requests (delete_node_request n db)) =
      (if \<exists>x \<in> set (retry_node_requests db) - {n}. rn_rr_id x = rn_rr_id n then set (retry_requests db)
       else {q \<in> set (retry_requests db). rq_id q \<noteq> rn_rr_id n})"
    unfolding s [symmetric] by (auto simp: delete_node_request_def Let_def list_ex_iff)
qed

text \<open>
  The constraints with one request exempt, as while it is being deleted.
\<close>

definition retries_except :: "int \<Rightarrow> database \<Rightarrow> bool" where
  "retries_except i db \<longleftrightarrow>
     sorted_wrt (<) (map rq_id (retry_requests db)) \<and> (\<forall>q \<in> set (retry_requests db). 0 < rq_id q)
     \<and> sorted_wrt (<) (map rp_id (retry_pubkeys db)) \<and> sorted_wrt (<) (map rn_id (retry_node_requests db))
     \<and> distinct (map rp_pubkey (retry_pubkeys db))
     \<and> distinct (map (\<lambda>n. (rn_rr_id n, rn_pk_id n)) (retry_node_requests db))
     \<and> rn_rr_id ` set (retry_node_requests db) - {i} = rq_id ` set (retry_requests db) - {i}
     \<and> rn_pk_id ` set (retry_node_requests db) = rp_id ` set (retry_pubkeys db)"

lemma delete_node_sorted:
  assumes "retries_except i db"
  shows "sorted_wrt (<) (map rq_id (retry_requests (delete_node_request n db)))"
    "\<forall>q \<in> set (retry_requests (delete_node_request n db)). 0 < rq_id q"
    "sorted_wrt (<) (map rp_id (retry_pubkeys (delete_node_request n db)))"
    "sorted_wrt (<) (map rn_id (retry_node_requests (delete_node_request n db)))"
    "distinct (map rp_pubkey (retry_pubkeys (delete_node_request n db)))"
    "distinct (map (\<lambda>n. (rn_rr_id n, rn_pk_id n)) (retry_node_requests (delete_node_request n db)))"
  using assms
  by (simp_all add: retries_except_def delete_node_request_def Let_def sorted_wrt_map_filter distinct_map_filterI)

lemma delete_node_except:
  assumes ok: "retries_except i db" and n: "n \<in> set (retry_node_requests db)" and i: "rn_rr_id n = i \<or> rn_rr_id ` set (retry_node_requests db) = rq_id ` set (retry_requests db)"
  shows "retries_except i (delete_node_request n db)"
proof -
  have s: "sorted_wrt (<) (map rn_id (retry_node_requests db))" using ok by (simp add: retries_except_def)
  note sets = delete_node_sets [OF s n]
  have pk: "rn_pk_id ` set (retry_node_requests db) = rp_id ` set (retry_pubkeys db)" using ok by (simp add: retries_except_def)
  have "rn_pk_id ` set (retry_node_requests (delete_node_request n db)) = rp_id ` set (retry_pubkeys (delete_node_request n db))"
    unfolding sets by (rule image_cleanup [OF pk n])
  moreover have "rn_rr_id ` set (retry_node_requests (delete_node_request n db)) - {i} =
      rq_id ` set (retry_requests (delete_node_request n db)) - {i}"
    using i
  proof
    assume e: "rn_rr_id n = i"
    have "rn_rr_id ` (set (retry_node_requests db) - {n}) - {i} = rn_rr_id ` set (retry_node_requests db) - {i}" using e by auto
    also have "\<dots> = rq_id ` set (retry_requests db) - {i}" using ok by (simp add: retries_except_def)
    also have "\<dots> = rq_id ` {q \<in> set (retry_requests db). rq_id q \<noteq> rn_rr_id n} - {i}" using e by auto
    finally show ?thesis unfolding sets by (auto simp: e)
  next
    assume "rn_rr_id ` set (retry_node_requests db) = rq_id ` set (retry_requests db)"
    from image_cleanup [OF this n] show ?thesis unfolding sets by simp
  qed
  ultimately show ?thesis unfolding retries_except_def using delete_node_sorted [OF ok, of n] by blast
qed

lemma delete_node_ok:
  assumes ok: "db_retries_ok db" and n: "n \<in> set (retry_node_requests db)"
  shows "db_retries_ok (delete_node_request n db)"
proof -
  have ex: "retries_except 0 db" using ok by (simp add: db_retries_ok_def retries_ok_def retries_except_def)
  have refs: "rn_rr_id ` set (retry_node_requests db) = rq_id ` set (retry_requests db)"
    using ok by (simp add: db_retries_ok_def retries_ok_def)
  have s: "sorted_wrt (<) (map rn_id (retry_node_requests db))" using ex by (simp add: retries_except_def)
  note sets = delete_node_sets [OF s n]
  have "rn_rr_id ` set (retry_node_requests (delete_node_request n db)) = rq_id ` set (retry_requests (delete_node_request n db))"
    unfolding sets by (rule image_cleanup [OF refs n])
  moreover have "rn_pk_id ` set (retry_node_requests (delete_node_request n db)) = rp_id ` set (retry_pubkeys (delete_node_request n db))"
    using delete_node_except [OF ex n] refs by (simp add: retries_except_def)
  ultimately show ?thesis unfolding db_retries_ok_def by (intro retries_okI delete_node_sorted [OF ex])
qed

lemma delete_node_rows:
  assumes "sorted_wrt (<) (map rn_id (retry_node_requests db))" and "n \<in> set (retry_node_requests db)"
  shows "retry_node_requests (delete_node_request n db) = filter (\<lambda>x. x \<noteq> n) (retry_node_requests db)"
proof -
  have "rn_id x \<noteq> rn_id n \<longleftrightarrow> x \<noteq> n" if "x \<in> set (retry_node_requests db)" for x
    using sorted_map_inj [OF assms(1) that assms(2)] by blast
  then show ?thesis by (simp add: delete_node_request_def Let_def cong: filter_cong)
qed

lemma fold_delete_nodes:
  assumes "retries_except i db" and "i \<notin> rq_id ` set (retry_requests db)" and "set del \<subseteq> set (retry_node_requests db)"
    and "distinct del" and "\<forall>n \<in> set del. rn_rr_id n = i"
  shows "retries_except i (fold delete_node_request del db)
     \<and> retry_node_requests (fold delete_node_request del db) = filter (\<lambda>x. x \<notin> set del) (retry_node_requests db)
     \<and> retry_requests (fold delete_node_request del db) = retry_requests db"
  using assms
proof (induction del arbitrary: db)
  case Nil
  then show ?case by simp
next
  case (Cons n del)
  have n: "n \<in> set (retry_node_requests db)" "rn_rr_id n = i" using Cons.prems by simp_all
  have s: "sorted_wrt (<) (map rn_id (retry_node_requests db))" using Cons.prems(1) by (simp add: retries_except_def)
  note rows = delete_node_rows [OF s n(1)]
  have "filter (\<lambda>q. rq_id q \<noteq> i) (retry_requests db) = retry_requests db"
    using Cons.prems(2) by (intro filter_True) auto
  then have rq: "retry_requests (delete_node_request n db) = retry_requests db"
    using n(2) by (simp add: delete_node_request_def Let_def)
  have "retries_except i (fold delete_node_request del (delete_node_request n db))
     \<and> retry_node_requests (fold delete_node_request del (delete_node_request n db)) =
        filter (\<lambda>x. x \<notin> set del) (retry_node_requests (delete_node_request n db))
     \<and> retry_requests (fold delete_node_request del (delete_node_request n db)) = retry_requests (delete_node_request n db)"
    using Cons.prems n by (intro Cons.IH delete_node_except) (auto simp: rq rows)
  then show ?case by (simp add: rq rows conj_commute)
qed

lemma delete_request_spec:
  assumes ok: "db_retries_ok db"
  shows "db_retries_ok (delete_request q db)"
    and "retry_requests (delete_request q db) = filter (\<lambda>x. rq_id x \<noteq> rq_id q) (retry_requests db)"
    and "retry_node_requests (delete_request q db) = filter (\<lambda>n. rn_rr_id n \<noteq> rq_id q) (retry_node_requests db)"
proof -
  let ?i = "rq_id q"
  define db' where "db' = db\<lparr>retry_requests := filter (\<lambda>x. rq_id x \<noteq> ?i) (retry_requests db)\<rparr>"
  let ?del = "filter (\<lambda>n. rn_rr_id n = ?i) (retry_node_requests db')"
  note d = retries_okD [OF ok [unfolded db_retries_ok_def]]
  have ex: "retries_except ?i db'"
  proof -
    have "rn_rr_id ` set (retry_node_requests db) - {?i} = rq_id ` set (filter (\<lambda>x. rq_id x \<noteq> ?i) (retry_requests db)) - {?i}"
      using d(7) by auto
    then show ?thesis using d by (simp add: retries_except_def db'_def sorted_wrt_map_filter)
  qed
  have i: "?i \<notin> rq_id ` set (retry_requests db')" by (auto simp: db'_def)
  have dist: "distinct ?del" using d(4) by (simp add: db'_def strict_sorted_iff distinct_map)
  have r: "delete_request q db = fold delete_node_request ?del db'" by (simp add: delete_request_def db'_def Let_def)
  have f: "retries_except ?i (delete_request q db)"
      "retry_node_requests (delete_request q db) = filter (\<lambda>x. x \<notin> set ?del) (retry_node_requests db')"
      "retry_requests (delete_request q db) = retry_requests db'"
    unfolding r using fold_delete_nodes [OF ex i filter_is_subset dist] by simp_all
  show rq: "retry_requests (delete_request q db) = filter (\<lambda>x. rq_id x \<noteq> ?i) (retry_requests db)"
    by (simp add: f(3) db'_def)
  show rn: "retry_node_requests (delete_request q db) = filter (\<lambda>n. rn_rr_id n \<noteq> ?i) (retry_node_requests db)"
    unfolding f(2) by (auto simp: db'_def intro: filter_cong)
  have "rn_rr_id ` set (retry_node_requests (delete_request q db)) = rq_id ` set (retry_requests (delete_request q db))"
    unfolding rq rn set_filter image_except d(7) ..
  then show "db_retries_ok (delete_request q db)"
    using f(1) unfolding db_retries_ok_def retries_except_def by (intro retries_okI) simp_all
qed

lemma fold_delete_requests:
  assumes "db_retries_ok db"
  shows "db_retries_ok (fold delete_request qs db)
     \<and> retry_requests (fold delete_request qs db) = filter (\<lambda>x. rq_id x \<notin> rq_id ` set qs) (retry_requests db)
     \<and> retry_node_requests (fold delete_request qs db) = filter (\<lambda>n. rn_rr_id n \<notin> rq_id ` set qs) (retry_node_requests db)"
  using assms
proof (induction qs arbitrary: db)
  case (Cons q qs)
  from Cons.IH [OF delete_request_spec(1) [OF Cons.prems]] delete_request_spec(2,3) [OF Cons.prems]
  show ?case by (simp add: conj_commute)
qed simp

text \<open>The other tables are not touched.\<close>

lemma delete_node_frame:
  "delete_node_request n db = db\<lparr>retry_node_requests := retry_node_requests (delete_node_request n db),
     retry_pubkeys := retry_pubkeys (delete_node_request n db), retry_requests := retry_requests (delete_node_request n db)\<rparr>"
  by (simp add: delete_node_request_def Let_def)

definition retries_only :: "database \<Rightarrow> database \<Rightarrow> bool" where
  "retries_only db db' \<longleftrightarrow> (\<exists>ns ps qs. db' = db\<lparr>retry_node_requests := ns, retry_pubkeys := ps, retry_requests := qs\<rparr>)"

lemma retries_onlyI: "retries_only db (db\<lparr>retry_node_requests := ns, retry_pubkeys := ps, retry_requests := qs\<rparr>)"
  unfolding retries_only_def by blast

lemma retries_only_refl: "retries_only db db"
  using retries_onlyI [where db = db and ns = "retry_node_requests db" and ps = "retry_pubkeys db" and qs = "retry_requests db"] by simp

lemma retries_only_trans: "retries_only a b \<Longrightarrow> retries_only b c \<Longrightarrow> retries_only a c"
proof -
  assume "retries_only a b" "retries_only b c"
  then obtain ns ps qs ns' ps' qs' where "b = a\<lparr>retry_node_requests := ns, retry_pubkeys := ps, retry_requests := qs\<rparr>"
      "c = b\<lparr>retry_node_requests := ns', retry_pubkeys := ps', retry_requests := qs'\<rparr>"
    unfolding retries_only_def by blast
  then have "c = a\<lparr>retry_node_requests := ns', retry_pubkeys := ps', retry_requests := qs'\<rparr>" by simp
  then show ?thesis unfolding retries_only_def by blast
qed

lemma retries_only_inv: "retries_only db db' \<Longrightarrow> db_inv lb db \<Longrightarrow> db_retries_ok db' \<Longrightarrow> db_inv lb db'"
  by (auto simp: retries_only_def db_retries_ok_def db_inv_def db_ok_def tables_ok_def count_ok_def deferred_ok_def)

lemma db_inv_retries: "db_inv lb db \<Longrightarrow> db_retries_ok db"
  by (simp add: db_retries_ok_def db_inv_def db_ok_def tables_ok_def)

lemma delete_node_only: "retries_only db (delete_node_request n db)"
  unfolding delete_node_request_def Let_def by (rule retries_onlyI)

lemma fold_only: "(\<And>x db. retries_only db (f x db)) \<Longrightarrow> retries_only db (fold f xs db)"
  by (induction xs arbitrary: db) (auto simp: retries_only_refl intro: retries_only_trans)

lemma delete_request_only: "retries_only db (delete_request q db)"
proof -
  have "retries_only db (db\<lparr>retry_requests := qs\<rparr>)" for qs
    using retries_onlyI [where db = db and ns = "retry_node_requests db" and ps = "retry_pubkeys db" and qs = qs] by simp
  then show ?thesis unfolding delete_request_def Let_def by (blast intro: retries_only_trans fold_only delete_node_only)
qed

section \<open>The view\<close>

text \<open>Every row of a node has its request and its key, so the view has one entry for each.\<close>

definition view_row :: "database \<Rightarrow> retry_node_row \<Rightarrow> ready_retry" where
  "view_row db n = (let q = the (List.find (\<lambda>q. rq_id q = rn_rr_id n) (retry_requests db));
                        p = the (List.find (\<lambda>p. rp_id p = rn_pk_id n) (retry_pubkeys db))
     in \<lparr>rd_id = rn_id n, rd_key = rp_pubkey p, rd_command = rq_command q, rd_payload = rq_payload q,
         rd_next_retry = rn_next_retry n\<rparr>)"

lemma retry_rows_of:
  assumes ok: "db_retries_ok db" and n: "n \<in> set (retry_node_requests db)"
  obtains q p where "q \<in> set (retry_requests db)" "rq_id q = rn_rr_id n" "p \<in> set (retry_pubkeys db)" "rp_id p = rn_pk_id n"
    "filter (\<lambda>q. rq_id q = rn_rr_id n) (retry_requests db) = [q]" "filter (\<lambda>p. rp_id p = rn_pk_id n) (retry_pubkeys db) = [p]"
    "List.find (\<lambda>q. rq_id q = rn_rr_id n) (retry_requests db) = Some q" "List.find (\<lambda>p. rp_id p = rn_pk_id n) (retry_pubkeys db) = Some p"
proof -
  note d = retries_okD [OF ok [unfolded db_retries_ok_def]]
  obtain q where q: "q \<in> set (retry_requests db)" "rq_id q = rn_rr_id n" using d(7) n by (metis imageE imageI)
  obtain p where p: "p \<in> set (retry_pubkeys db)" "rp_id p = rn_pk_id n" using d(8) n by (metis imageE imageI)
  have dq: "distinct (map rq_id (retry_requests db))" and dp: "distinct (map rp_id (retry_pubkeys db))"
    using d(1,3) by (simp_all add: strict_sorted_iff)
  show ?thesis
    using that [OF q p] filter_unique [OF dq q(1)] filter_unique [OF dp p(1)] find_unique [OF dq q(1)] find_unique [OF dp p(1)] q(2) p(2)
    by simp
qed

lemma view_eq:
  assumes ok: "db_retries_ok db"
  shows "retry_node_reqs db = map (view_row db) (retry_node_requests db)"
proof -
  have "concat (map (\<lambda>q. map (\<lambda>p. \<lparr>rd_id = rn_id n, rd_key = rp_pubkey p, rd_command = rq_command q,
      rd_payload = rq_payload q, rd_next_retry = rn_next_retry n\<rparr>)
      (filter (\<lambda>p. rp_id p = rn_pk_id n) (retry_pubkeys db))) (filter (\<lambda>q. rq_id q = rn_rr_id n) (retry_requests db))) = [view_row db n]"
    if n: "n \<in> set (retry_node_requests db)" for n
    by (rule retry_rows_of [OF ok n]) (simp add: view_row_def)
  then have "retry_node_reqs db = concat (map (\<lambda>n. [view_row db n]) (retry_node_requests db))"
    unfolding retry_node_reqs_def by (intro arg_cong [of _ _ concat] map_cong refl)
  then show ?thesis by simp
qed

lemma view_row_mono:
  assumes "db_retries_ok db" "db_retries_ok db'" "n \<in> set (retry_node_requests db)" "n \<in> set (retry_node_requests db')"
    and sub: "set (retry_requests db) \<subseteq> set (retry_requests db')" "set (retry_pubkeys db) \<subseteq> set (retry_pubkeys db')"
  shows "view_row db n = view_row db' n"
proof -
  note d' = retries_okD [OF assms(2) [unfolded db_retries_ok_def]]
  obtain q p where q: "q \<in> set (retry_requests db)" "rq_id q = rn_rr_id n" "p \<in> set (retry_pubkeys db)" "rp_id p = rn_pk_id n"
      "List.find (\<lambda>q. rq_id q = rn_rr_id n) (retry_requests db) = Some q" "List.find (\<lambda>p. rp_id p = rn_pk_id n) (retry_pubkeys db) = Some p"
    by (rule retry_rows_of [OF assms(1,3)])
  obtain q' p' where q': "q' \<in> set (retry_requests db')" "rq_id q' = rn_rr_id n" "p' \<in> set (retry_pubkeys db')" "rp_id p' = rn_pk_id n"
      "List.find (\<lambda>q. rq_id q = rn_rr_id n) (retry_requests db') = Some q'" "List.find (\<lambda>p. rp_id p = rn_pk_id n) (retry_pubkeys db') = Some p'"
    by (rule retry_rows_of [OF assms(2,4)])
  have "q = q'" by (rule sorted_map_inj [OF d'(1)]) (use q q' sub in auto)
  moreover have "p = p'" by (rule sorted_map_inj [OF d'(3)]) (use q q' sub in auto)
  ultimately show ?thesis using q q' by (simp add: view_row_def)
qed

subsection \<open>Removing a node's request\<close>

lemma delete_node_subsets:
  "set (retry_requests (delete_node_request n db)) \<subseteq> set (retry_requests db)"
  "set (retry_pubkeys (delete_node_request n db)) \<subseteq> set (retry_pubkeys db)"
  by (auto simp: delete_node_request_def Let_def)

lemma remove_node_spec:
  assumes ok: "db_retries_ok db"
  shows "db_retries_ok (remove_node_retry_request i db)"
    and "retry_node_reqs (remove_node_retry_request i db) = filter (\<lambda>r. rd_id r \<noteq> i) (retry_node_reqs db)"
proof -
  note d = retries_okD [OF ok [unfolded db_retries_ok_def]]
  have id: "rd_id (view_row x n) = rn_id n" for x n by (simp add: view_row_def Let_def)
  have v: "filter (\<lambda>r. rd_id r \<noteq> i) (retry_node_reqs db) = map (view_row db) (filter (\<lambda>n. rn_id n \<noteq> i) (retry_node_requests db))"
    unfolding view_eq [OF ok] by (simp add: filter_map comp_def id)
  have "db_retries_ok (remove_node_retry_request i db)
     \<and> retry_node_reqs (remove_node_retry_request i db) = filter (\<lambda>r. rd_id r \<noteq> i) (retry_node_reqs db)"
  proof (cases "\<exists>n \<in> set (retry_node_requests db). rn_id n = i")
    case False
    then have "filter (\<lambda>n. rn_id n = i) (retry_node_requests db) = []" "filter (\<lambda>n. rn_id n \<noteq> i) (retry_node_requests db) = retry_node_requests db"
      by (auto simp: filter_empty_conv intro: filter_True)
    then show ?thesis using ok unfolding v by (simp add: remove_node_retry_request_def view_eq)
  next
    case True
    then obtain n where n: "n \<in> set (retry_node_requests db)" "rn_id n = i" by blast
    have "filter (\<lambda>x. rn_id x = i) (retry_node_requests db) = [n]"
      using filter_unique [of rn_id "retry_node_requests db" n] d(4) n by (simp add: strict_sorted_iff)
    then have r: "remove_node_retry_request i db = delete_node_request n db" by (simp add: remove_node_retry_request_def)
    have ok': "db_retries_ok (delete_node_request n db)" by (rule delete_node_ok [OF ok n(1)])
    have rows: "retry_node_requests (delete_node_request n db) = filter (\<lambda>x. rn_id x \<noteq> i) (retry_node_requests db)"
      using n(2) by (simp add: delete_node_request_def Let_def)
    have "retry_node_reqs (delete_node_request n db) = map (view_row (delete_node_request n db)) (filter (\<lambda>x. rn_id x \<noteq> i) (retry_node_requests db))"
      unfolding view_eq [OF ok'] rows ..
    also have "\<dots> = map (view_row db) (filter (\<lambda>x. rn_id x \<noteq> i) (retry_node_requests db))"
      by (intro map_cong refl view_row_mono [OF ok' ok] delete_node_subsets) (auto simp: rows)
    finally show ?thesis using ok' unfolding r v by simp
  qed
  then show "db_retries_ok (remove_node_retry_request i db)"
    and "retry_node_reqs (remove_node_retry_request i db) = filter (\<lambda>r. rd_id r \<noteq> i) (retry_node_reqs db)" by blast+
qed

subsection \<open>Going through the ready requests\<close>

lemma fold_schedule:
  "fold schedule_retry upd db = db\<lparr>retry_node_requests :=
     map (\<lambda>n. case map_of (rev upd) (rn_id n) of Some t \<Rightarrow> n\<lparr>rn_next_retry := t\<rparr> | None \<Rightarrow> n) (retry_node_requests db)\<rparr>"
proof (induction upd arbitrary: db)
  case Nil
  then show ?case by simp
next
  case (Cons x upd)
  obtain i t where x: "x = (i, t)" by (cases x)
  have *: "(case map_of (rev upd) (rn_id (if rn_id n = i then n\<lparr>rn_next_retry := t\<rparr> else n)) of
        Some t' \<Rightarrow> (if rn_id n = i then n\<lparr>rn_next_retry := t\<rparr> else n)\<lparr>rn_next_retry := t'\<rparr>
      | None \<Rightarrow> if rn_id n = i then n\<lparr>rn_next_retry := t\<rparr> else n) =
      (case map_of (rev (x # upd)) (rn_id n) of Some t \<Rightarrow> n\<lparr>rn_next_retry := t\<rparr> | None \<Rightarrow> n)" for n
    by (auto simp: x map_add_def split: option.splits)
  have "fold schedule_retry (x # upd) db = fold schedule_retry upd (schedule_retry x db)" by simp
  also have "\<dots> = db\<lparr>retry_node_requests :=
     map (\<lambda>n. case map_of (rev (x # upd)) (rn_id n) of Some t \<Rightarrow> n\<lparr>rn_next_retry := t\<rparr> | None \<Rightarrow> n) (retry_node_requests db)\<rparr>"
    unfolding Cons.IH unfolding * [symmetric] by (simp add: x schedule_retry_def comp_def)
  finally show ?case .
qed

lemma foreach_spec:
  assumes ok: "db_retries_ok db" and f: "foreach_ready_retry_request sql_now now callback db = (db', ready)"
  shows "db_retries_ok db'" and "ready = filter (\<lambda>r. rd_next_retry r < sql_now) (retry_node_reqs db)"
    and "retry_node_reqs db' = map (\<lambda>r. if rd_next_retry r < sql_now
       then r\<lparr>rd_next_retry := now + (if callback r then RETRY_INTERVAL else RETRY_NO_CONTACT_INTERVAL)\<rparr> else r) (retry_node_reqs db)"
proof -
  note d = retries_okD [OF ok [unfolded db_retries_ok_def]]
  let ?upd = "retry_updates now callback (ready_retries sql_now db)"
  let ?g = "\<lambda>n. case map_of (rev ?upd) (rn_id n) of Some t \<Rightarrow> n\<lparr>rn_next_retry := t\<rparr> | None \<Rightarrow> n"
  show "ready = filter (\<lambda>r. rd_next_retry r < sql_now) (retry_node_reqs db)"
    using f by (simp add: foreach_ready_retry_request_def Let_def ready_retries_def)
  have db': "db' = db\<lparr>retry_node_requests := map ?g (retry_node_requests db)\<rparr>"
    using f by (auto simp: foreach_ready_retry_request_def Let_def fold_schedule)
  have ids: "rn_id (?g n) = rn_id n" "rn_rr_id (?g n) = rn_rr_id n" "rn_pk_id (?g n) = rn_pk_id n" for n
    by (simp_all split: option.splits)
  have m: "map rn_id (map ?g ns) = map rn_id ns" "map (\<lambda>n. (rn_rr_id n, rn_pk_id n)) (map ?g ns) = map (\<lambda>n. (rn_rr_id n, rn_pk_id n)) ns"
      "rn_rr_id ` set (map ?g ns) = rn_rr_id ` set ns" "rn_pk_id ` set (map ?g ns) = rn_pk_id ` set ns" for ns
    unfolding map_map comp_def set_map image_image ids by (rule refl)+
  have sel: "retry_requests db' = retry_requests db" "retry_pubkeys db' = retry_pubkeys db" "retry_node_requests db' = map ?g (retry_node_requests db)"
    by (simp_all add: db')
  show ok': "db_retries_ok db'"
    unfolding db_retries_ok_def sel using d by (intro retries_okI) (simp_all only: m)
  have fsts: "map fst ?upd = map rn_id (filter (\<lambda>n. rn_next_retry n < sql_now) (retry_node_requests db))"
    by (simp add: retry_updates_def ready_retries_def view_eq [OF ok] filter_map comp_def view_row_def Let_def)
  have dist: "distinct (map fst (rev ?upd))"
    unfolding rev_map [symmetric] fsts using d(4) by (simp add: strict_sorted_iff distinct_map_filterI)
  have upd: "map_of (rev ?upd) (rn_id n) =
      (if rn_next_retry n < sql_now
       then Some (now + (if callback (view_row db n) then RETRY_INTERVAL else RETRY_NO_CONTACT_INTERVAL)) else None)"
    if n: "n \<in> set (retry_node_requests db)" for n
  proof (cases "rn_next_retry n < sql_now")
    case True
    have "(rn_id n, now + (if callback (view_row db n) then RETRY_INTERVAL else RETRY_NO_CONTACT_INTERVAL)) \<in> set (rev ?upd)"
      using n True by (force simp: retry_updates_def ready_retries_def view_eq [OF ok] view_row_def Let_def)
    then have "map_of (rev ?upd) (rn_id n) = Some (now + (if callback (view_row db n) then RETRY_INTERVAL else RETRY_NO_CONTACT_INTERVAL))"
      by (rule map_of_is_SomeI [OF dist])
    then show ?thesis using True by (simp only: if_True)
  next
    case False
    have fs: "fst ` set (rev ?upd) = rn_id ` {x \<in> set (retry_node_requests db). rn_next_retry x < sql_now}"
      using arg_cong [OF fsts, of set] by (simp only: set_map set_rev set_filter)
    have "rn_id n \<notin> fst ` set (rev ?upd)"
    proof
      assume "rn_id n \<in> fst ` set (rev ?upd)"
      then obtain x where x: "x \<in> set (retry_node_requests db)" "rn_next_retry x < sql_now" "rn_id x = rn_id n" unfolding fs by force
      have "x = n" by (rule sorted_map_inj [OF d(4) x(1) n x(3)])
      then show False using x(2) False by simp
    qed
    then have "map_of (rev ?upd) (rn_id n) = None" by (simp only: map_of_eq_None_iff not_False_eq_True)
    then show ?thesis using False by (simp only: if_False)
  qed
  have "view_row db' (?g n) = (let r = view_row db n in if rd_next_retry r < sql_now
       then r\<lparr>rd_next_retry := now + (if callback r then RETRY_INTERVAL else RETRY_NO_CONTACT_INTERVAL)\<rparr> else r)"
    if n: "n \<in> set (retry_node_requests db)" for n
    using upd [OF n] by (simp add: view_row_def sel Let_def)
  then show "retry_node_reqs db' = map (\<lambda>r. if rd_next_retry r < sql_now
       then r\<lparr>rd_next_retry := now + (if callback r then RETRY_INTERVAL else RETRY_NO_CONTACT_INTERVAL)\<rparr> else r) (retry_node_reqs db)"
    unfolding view_eq [OF ok] view_eq [OF ok'] sel(3) map_map by (intro map_cong refl) (simp add: Let_def)
qed

subsection \<open>Adding a request\<close>

definition pubkey_row :: "legacy_pubkey \<Rightarrow> database \<Rightarrow> retry_pubkey_row list" where
  "pubkey_row key db = (if pubkey_id_of db key = None
     then [\<lparr>rp_id = next_rowid (map rp_id (retry_pubkeys db)), rp_pubkey = key\<rparr>] else [])"

definition pubkey_id :: "legacy_pubkey \<Rightarrow> database \<Rightarrow> int" where
  "pubkey_id key db = (case pubkey_id_of db key of Some i \<Rightarrow> i | None \<Rightarrow> next_rowid (map rp_id (retry_pubkeys db)))"

lemma retry_node_add_eq:
  "retry_node_add rr key t db =
     (if \<exists>n \<in> set (retry_node_requests db). rn_rr_id n = rr \<and> rn_pk_id n = pubkey_id key db then Inl Unique_Violation
      else if rr \<notin> rq_id ` set (retry_requests db) then Inl Foreign_Key_Violation
      else Inr (db\<lparr>retry_node_requests := retry_node_requests db @
                  [\<lparr>rn_id = next_rowid (map rn_id (retry_node_requests db)), rn_rr_id = rr, rn_pk_id = pubkey_id key db, rn_next_retry = t\<rparr>],
                retry_pubkeys := retry_pubkeys db @ pubkey_row key db\<rparr>))"
  by (auto simp: retry_node_add_def Let_def pubkey_row_def pubkey_id_def list_ex_iff split: option.splits)

lemma pubkey_id_cases:
  assumes ok: "db_retries_ok db"
  obtains (old) p where "p \<in> set (retry_pubkeys db)" "rp_pubkey p = key" "pubkey_id key db = rp_id p" "pubkey_row key db = []"
  | (new) "key \<notin> rp_pubkey ` set (retry_pubkeys db)" "pubkey_id key db = next_rowid (map rp_id (retry_pubkeys db))"
      "pubkey_row key db = [\<lparr>rp_id = next_rowid (map rp_id (retry_pubkeys db)), rp_pubkey = key\<rparr>]"
proof (cases "List.find (\<lambda>p. rp_pubkey p = key) (retry_pubkeys db)")
  case None
  have "key \<notin> rp_pubkey ` set (retry_pubkeys db)" using None by (auto simp: find_None_all)
  then show ?thesis using None
    by (intro new) (simp_all add: pubkey_id_def pubkey_row_def pubkey_id_of_def)
next
  case (Some p)
  have "p \<in> set (retry_pubkeys db)" "rp_pubkey p = key" using Some by (auto simp: find_Some_iff)
  then show ?thesis using Some
    by (intro old [of p]) (simp_all add: pubkey_id_def pubkey_row_def pubkey_id_of_def)
qed

lemma pubkeys_added:
  assumes ok: "db_retries_ok db"
  shows "sorted_wrt (<) (map rp_id (retry_pubkeys db @ pubkey_row key db))"
    and "distinct (map rp_pubkey (retry_pubkeys db @ pubkey_row key db))"
    and "rp_id ` set (retry_pubkeys db @ pubkey_row key db) = insert (pubkey_id key db) (rp_id ` set (retry_pubkeys db))"
    and "\<exists>p \<in> set (retry_pubkeys db @ pubkey_row key db). rp_id p = pubkey_id key db \<and> rp_pubkey p = key"
proof -
  note d = retries_okD [OF ok [unfolded db_retries_ok_def]]
  have "sorted_wrt (<) (map rp_id (retry_pubkeys db @ pubkey_row key db))
     \<and> distinct (map rp_pubkey (retry_pubkeys db @ pubkey_row key db))
     \<and> rp_id ` set (retry_pubkeys db @ pubkey_row key db) = insert (pubkey_id key db) (rp_id ` set (retry_pubkeys db))
     \<and> (\<exists>p \<in> set (retry_pubkeys db @ pubkey_row key db). rp_id p = pubkey_id key db \<and> rp_pubkey p = key)"
    by (rule pubkey_id_cases [OF ok, of key]) (use d(3,5) in \<open>auto simp: sorted_wrt_append intro: next_rowid_greater\<close>)
  then show "sorted_wrt (<) (map rp_id (retry_pubkeys db @ pubkey_row key db))"
    and "distinct (map rp_pubkey (retry_pubkeys db @ pubkey_row key db))"
    and "rp_id ` set (retry_pubkeys db @ pubkey_row key db) = insert (pubkey_id key db) (rp_id ` set (retry_pubkeys db))"
    and "\<exists>p \<in> set (retry_pubkeys db @ pubkey_row key db). rp_id p = pubkey_id key db \<and> rp_pubkey p = key"
    by blast+
qed

text \<open>
  A request with its first node, or one more node for a request: one more entry in the view.
\<close>

lemma node_added:
  assumes ok: "db_retries_ok db" and add: "retry_node_add (rq_id q) key t (db\<lparr>retry_requests := qs\<rparr>) = Inr db'"
    and qs: "qs = retry_requests db \<and> q \<in> set (retry_requests db)
       \<or> qs = retry_requests db @ [q] \<and> rq_id q = next_rowid (map rq_id (retry_requests db))"
  shows "db_retries_ok db'" and "retries_only db db'"
    and "retry_node_reqs db' = retry_node_reqs db @ [\<lparr>rd_id = next_rowid (map rd_id (retry_node_reqs db)), rd_key = key,
       rd_command = rq_command q, rd_payload = rq_payload q, rd_next_retry = t\<rparr>]"
proof -
  note d = retries_okD [OF ok [unfolded db_retries_ok_def]]
  define n where "n = \<lparr>rn_id = next_rowid (map rn_id (retry_node_requests db)), rn_rr_id = rq_id q, rn_pk_id = pubkey_id key db, rn_next_retry = t\<rparr>"
  have same: "pubkey_id key (db\<lparr>retry_requests := qs\<rparr>) = pubkey_id key db" "pubkey_row key (db\<lparr>retry_requests := qs\<rparr>) = pubkey_row key db"
    by (simp_all add: pubkey_id_def pubkey_row_def pubkey_id_of_def split: option.split)
  have fresh: "\<forall>n \<in> set (retry_node_requests db). \<not> (rn_rr_id n = rq_id q \<and> rn_pk_id n = pubkey_id key db)"
    and db': "db' = db\<lparr>retry_node_requests := retry_node_requests db @ [n], retry_pubkeys := retry_pubkeys db @ pubkey_row key db, retry_requests := qs\<rparr>"
    using add unfolding retry_node_add_eq same by (auto simp: n_def split: if_splits)
  show only: "retries_only db db'" unfolding db' by (rule retries_onlyI)
  have q: "q \<in> set qs" "set (retry_requests db) \<subseteq> set qs" "sorted_wrt (<) (map rq_id qs)" "\<forall>q \<in> set qs. 0 < rq_id q"
      "rq_id ` set qs = insert (rq_id q) (rq_id ` set (retry_requests db))"
    using qs d(1,2) next_rowid_pos [of "map rq_id (retry_requests db)"] next_rowid_greater [of _ "map rq_id (retry_requests db)"]
    by (auto simp: sorted_wrt_append)
  have refs: "rn_rr_id ` set (retry_node_requests db @ [n]) = rq_id ` set qs"
      "rn_pk_id ` set (retry_node_requests db @ [n]) = rp_id ` set (retry_pubkeys db @ pubkey_row key db)"
    unfolding q(5) pubkeys_added(3) [OF ok] using d(7,8) by (simp_all add: n_def)
  have "sorted_wrt (<) (map rn_id (retry_node_requests db @ [n]))"
    using d(4) next_rowid_greater [of _ "map rn_id (retry_node_requests db)"] by (auto simp: sorted_wrt_append n_def)
  moreover have "distinct (map (\<lambda>n. (rn_rr_id n, rn_pk_id n)) (retry_node_requests db @ [n]))"
    using d(6) fresh by (auto simp: n_def)
  ultimately show ok': "db_retries_ok db'"
    unfolding db_retries_ok_def db' using q pubkeys_added [OF ok, of key] refs by (intro retries_okI) simp_all
  have sel: "retry_node_requests db' = retry_node_requests db @ [n]" "retry_requests db' = qs" "retry_pubkeys db' = retry_pubkeys db @ pubkey_row key db"
    by (simp_all add: db')
  have old: "map (view_row db') (retry_node_requests db) = map (view_row db) (retry_node_requests db)"
    by (intro map_cong refl view_row_mono [symmetric, OF ok ok']) (use q(2) in \<open>auto simp: sel\<close>)
  have "rd_id (view_row db x) = rn_id x" for x by (simp add: view_row_def Let_def)
  then have ids: "map rd_id (retry_node_reqs db) = map rn_id (retry_node_requests db)" by (simp add: view_eq [OF ok])
  note d' = retries_okD [OF ok' [unfolded db_retries_ok_def]]
  obtain p where p: "p \<in> set (retry_pubkeys db')" "rp_id p = pubkey_id key db" "rp_pubkey p = key"
    using pubkeys_added(4) [OF ok, of key] unfolding sel by blast
  have "view_row db' n = \<lparr>rd_id = rn_id n, rd_key = key, rd_command = rq_command q, rd_payload = rq_payload q, rd_next_retry = t\<rparr>"
    using find_unique [of rq_id "retry_requests db'" q] find_unique [of rp_id "retry_pubkeys db'" p] d'(1,3) q(1) p
    by (simp add: view_row_def n_def sel(2) strict_sorted_iff)
  then show "retry_node_reqs db' = retry_node_reqs db @ [\<lparr>rd_id = next_rowid (map rd_id (retry_node_reqs db)), rd_key = key,
       rd_command = rq_command q, rd_payload = rq_payload q, rd_next_retry = t\<rparr>]"
    unfolding ids unfolding view_eq [OF ok'] view_eq [OF ok] sel(1) map_append old by (simp add: n_def)
qed

lemma add_new_spec:
  assumes ok: "db_retries_ok db"
  shows "\<exists>db' i. add_retry_request created now key cmd payload 0 db = Inr (db', i) \<and> db_retries_ok db' \<and> retries_only db db'
     \<and> i \<notin> rq_id ` set (retry_requests db) \<and> \<lparr>rq_id = i, rq_command = cmd, rq_payload = payload, rq_created = created\<rparr> \<in> set (retry_requests db')
     \<and> retry_node_reqs db' = retry_node_reqs db @ [\<lparr>rd_id = next_rowid (map rd_id (retry_node_reqs db)), rd_key = key,
       rd_command = cmd, rd_payload = payload, rd_next_retry = now + RETRY_INITIAL_DELAY\<rparr>]"
proof -
  define q where "q = \<lparr>rq_id = next_rowid (map rq_id (retry_requests db)), rq_command = cmd, rq_payload = payload, rq_created = created\<rparr>"
  define db1 where "db1 = db\<lparr>retry_requests := retry_requests db @ [q]\<rparr>"
  note d = retries_okD [OF ok [unfolded db_retries_ok_def]]
  have new: "rq_id q \<notin> rq_id ` set (retry_requests db)"
    using next_rowid_greater [of "rq_id q" "map rq_id (retry_requests db)"] by (auto simp: q_def)
  then have "\<forall>n \<in> set (retry_node_requests db1). rn_rr_id n \<noteq> rq_id q" unfolding d(7) [symmetric] by (force simp: db1_def)
  then obtain db' where db': "retry_node_add (rq_id q) key (now + RETRY_INITIAL_DELAY) db1 = Inr db'"
    unfolding retry_node_add_eq by (auto simp: db1_def)
  then have "add_retry_request created now key cmd payload 0 db = Inr (db', rq_id q)"
    by (simp add: add_retry_request_def Let_def db1_def q_def)
  moreover have "q \<in> set (retry_requests db')"
    using db' unfolding retry_node_add_eq by (auto simp: db1_def split: if_splits)
  moreover note node_added [OF ok db' [unfolded db1_def]]
  ultimately show ?thesis using new by (fastforce simp: q_def)
qed

lemma add_more_spec:
  assumes ok: "db_retries_ok db" and i: "i \<noteq> 0"
    and add: "add_retry_request created now key cmd payload i db = Inr (db', j)"
  shows "j = i \<and> db_retries_ok db' \<and> retries_only db db' \<and> (\<exists>q \<in> set (retry_requests db). rq_id q = i
     \<and> retry_node_reqs db' = retry_node_reqs db @ [\<lparr>rd_id = next_rowid (map rd_id (retry_node_reqs db)), rd_key = key,
       rd_command = rq_command q, rd_payload = rq_payload q, rd_next_retry = now + RETRY_INITIAL_DELAY\<rparr>])"
proof -
  have j: "j = i" and db': "retry_node_add i key (now + RETRY_INITIAL_DELAY) db = Inr db'"
    using add i by (auto simp: add_retry_request_def split: sum.splits)
  then obtain q where q: "q \<in> set (retry_requests db)" "rq_id q = i"
    unfolding retry_node_add_eq by (auto split: if_splits)
  have "retry_node_add (rq_id q) key (now + RETRY_INITIAL_DELAY) (db\<lparr>retry_requests := retry_requests db\<rparr>) = Inr db'"
    using db' q(2) by simp
  from node_added [OF ok this] q j show ?thesis by blast
qed

text \<open>The keys that wait for a request.\<close>

definition waiting_for :: "int \<Rightarrow> database \<Rightarrow> legacy_pubkey set" where
  "waiting_for i db = (\<lambda>n. rd_key (view_row db n)) ` set (filter (\<lambda>n. rn_rr_id n = i) (retry_node_requests db))"

lemma view_key:
  assumes ok: "db_retries_ok db" and n: "n \<in> set (retry_node_requests db)"
  shows "rd_key (view_row db n) = key \<longleftrightarrow> rn_pk_id n = pubkey_id key db"
proof -
  note d = retries_okD [OF ok [unfolded db_retries_ok_def]]
  obtain p where p: "p \<in> set (retry_pubkeys db)" "rp_id p = rn_pk_id n" "rd_key (view_row db n) = rp_pubkey p"
    by (rule retry_rows_of [OF ok n]) (simp add: view_row_def)
  have inj: "inj_on rp_pubkey (set (retry_pubkeys db))" "inj_on rp_id (set (retry_pubkeys db))"
    using d(3,5) by (simp_all add: distinct_map strict_sorted_iff)
  show ?thesis
  proof (rule pubkey_id_cases [OF ok, of key])
    fix p' assume p': "p' \<in> set (retry_pubkeys db)" "rp_pubkey p' = key" "pubkey_id key db = rp_id p'"
    show ?thesis using inj_on_eq_iff [OF inj(1) p(1) p'(1)] inj_on_eq_iff [OF inj(2) p(1) p'(1)] p p' by simp
  next
    assume new: "key \<notin> rp_pubkey ` set (retry_pubkeys db)" "pubkey_id key db = next_rowid (map rp_id (retry_pubkeys db))"
    have "rp_id p < next_rowid (map rp_id (retry_pubkeys db))" using p(1) by (intro next_rowid_greater) simp
    then show ?thesis using p new by auto
  qed
qed

lemma add_more_error:
  assumes ok: "db_retries_ok db" and "i \<noteq> 0"
  shows "(\<exists>e. add_retry_request created now key cmd payload i db = Inl e) \<longleftrightarrow>
     i \<notin> rq_id ` set (retry_requests db) \<or> key \<in> waiting_for i db"
proof -
  have "(\<exists>n \<in> set (retry_node_requests db). rn_rr_id n = i \<and> rn_pk_id n = pubkey_id key db) \<longleftrightarrow> key \<in> waiting_for i db"
    using view_key [OF ok, of _ key] by (auto simp: waiting_for_def)
  then show ?thesis using assms(2) by (auto simp: add_retry_request_def retry_node_add_eq)
qed

subsection \<open>Dropping expired requests\<close>

definition expired_requests :: "time \<Rightarrow> database \<Rightarrow> retry_request_row list" where
  "expired_requests cutoff db = filter (\<lambda>q. rq_created q < cutoff) (retry_requests db)"

text \<open>
  What holds between two chunks: only expired requests are gone, with the rows of their nodes.
\<close>

definition expiring ::
    "(retry_request_row list \<Rightarrow> retry_request_row list) \<Rightarrow> time \<Rightarrow> database \<Rightarrow> database \<Rightarrow> bool" where
  "expiring by_created cutoff db0 db \<longleftrightarrow>
     sorts_by rq_created by_created \<and> db_retries_ok db \<and> retries_only db0 db
     \<and> filter (\<lambda>q. \<not> rq_created q < cutoff) (retry_requests db) = filter (\<lambda>q. \<not> rq_created q < cutoff) (retry_requests db0)
     \<and> retry_node_requests db = filter (\<lambda>n. rn_rr_id n \<in> rq_id ` set (retry_requests db)) (retry_node_requests db0)
     \<and> set (retry_pubkeys db) \<subseteq> set (retry_pubkeys db0)"

lemma delete_request_subsets:
  "set (retry_pubkeys (delete_request q db)) \<subseteq> set (retry_pubkeys db)"
proof -
  have "set (retry_pubkeys (fold delete_node_request ns db)) \<subseteq> set (retry_pubkeys db)" for ns db
    by (induction ns arbitrary: db) (use delete_node_subsets(2) in \<open>fastforce+\<close>)
  from this [of _ "db\<lparr>retry_requests := filter (\<lambda>x. rq_id x \<noteq> rq_id q) (retry_requests db)\<rparr>"]
  show ?thesis by (simp add: delete_request_def Let_def)
qed

lemma fold_delete_requests_subsets: "set (retry_pubkeys (fold delete_request qs db)) \<subseteq> set (retry_pubkeys db)"
  by (induction qs arbitrary: db) (use delete_request_subsets in \<open>fastforce+\<close>)

lemma expire_statement_selects:
  assumes so: "sorts_by rq_created by_created" and ok: "db_retries_ok db" and st: "expire_statement by_created cutoff db = (db', n)"
  obtains sel where "db' = fold delete_request sel db" "n = length sel" "set sel \<subseteq> set (expired_requests cutoff db)" "distinct sel"
    "length sel = min EXPIRY_DELETE_CHUNK (length (expired_requests cutoff db))"
proof -
  note d = retries_okD [OF ok [unfolded db_retries_ok_def]]
  have dist: "distinct (map rq_id (retry_requests db))" using d(1) by (simp add: strict_sorted_iff)
  define del where "del = take EXPIRY_DELETE_CHUNK (by_created (expired_requests cutoff db))"
  define sel where "sel = filter (\<lambda>q. rq_id q \<in> set (map rq_id del)) (retry_requests db)"
  have st': "db' = fold delete_request sel db" "n = length sel"
    using st by (simp_all add: expire_statement_def Let_def sel_def del_def expired_requests_def)
  have sub: "set del \<subseteq> set (expired_requests cutoff db)"
    unfolding del_def using sorts_by_simps(1) [OF so] set_take_subset by metis
  have dd: "distinct del" unfolding del_def
    using dist sorts_by_simps(3) [OF so] by (intro distinct_take) (simp add: expired_requests_def distinct_map)
  have "rq_id q \<in> rq_id ` set del \<longleftrightarrow> q \<in> set del" if "q \<in> set (retry_requests db)" for q
    using inj_on_image_mem_iff [of rq_id "set (retry_requests db)" q "set del"] that sub dist
    by (auto simp: distinct_map expired_requests_def)
  then have seldel: "set sel = set del" using sub unfolding sel_def by (auto simp: expired_requests_def)
  have ds: "distinct sel" using dist by (simp add: sel_def distinct_map)
  then have "length sel = length del" using seldel dd by (metis distinct_card)
  then have "length sel = min EXPIRY_DELETE_CHUNK (length (expired_requests cutoff db))"
    by (simp add: del_def sorts_by_simps(2) [OF so] min.commute)
  with st' sub seldel ds show ?thesis by (intro that [of sel]) simp_all
qed

lemma expire_statement_progress:
  assumes g: "expiring by_created cutoff db0 db" and st: "expire_statement by_created cutoff db = (db', n)"
  shows "n = min EXPIRY_DELETE_CHUNK (length (expired_requests cutoff db))
     \<and> length (expired_requests cutoff db') = length (expired_requests cutoff db) - n \<and> expiring by_created cutoff db0 db'"
proof -
  have so: "sorts_by rq_created by_created" and ok: "db_retries_ok db" and only: "retries_only db0 db"
    and kept: "filter (\<lambda>q. \<not> rq_created q < cutoff) (retry_requests db) = filter (\<lambda>q. \<not> rq_created q < cutoff) (retry_requests db0)"
    and rows: "retry_node_requests db = filter (\<lambda>n. rn_rr_id n \<in> rq_id ` set (retry_requests db)) (retry_node_requests db0)"
    and pks: "set (retry_pubkeys db) \<subseteq> set (retry_pubkeys db0)"
    using g by (simp_all add: expiring_def)
  have dist: "distinct (map rq_id (retry_requests db))"
    using retries_okD(1) [OF ok [unfolded db_retries_ok_def]] by (simp add: strict_sorted_iff)
  obtain sel where sel: "db' = fold delete_request sel db" "n = length sel" "set sel \<subseteq> set (expired_requests cutoff db)"
      "distinct sel" "length sel = min EXPIRY_DELETE_CHUNK (length (expired_requests cutoff db))"
    by (rule expire_statement_selects [OF so ok st])
  note f = fold_delete_requests [OF ok, of sel, folded sel(1)]
  have "rq_id q \<in> rq_id ` set sel \<longleftrightarrow> q \<in> set sel" if "q \<in> set (retry_requests db)" for q
    using inj_on_image_mem_iff [of rq_id "set (retry_requests db)" q "set sel"] that dist sel(3)
    by (auto simp: distinct_map expired_requests_def)
  then have rq: "retry_requests db' = filter (\<lambda>q. q \<notin> set sel) (retry_requests db)"
    using f by (simp cong: filter_cong)
  have ex': "expired_requests cutoff db' = filter (\<lambda>q. q \<notin> set sel) (expired_requests cutoff db)"
    unfolding expired_requests_def rq filter_filter by (intro filter_cong refl) blast
  have "set (filter (\<lambda>q. q \<in> set sel) (expired_requests cutoff db)) = set sel" using sel(3) by auto
  moreover have "distinct (expired_requests cutoff db)" using dist by (simp add: expired_requests_def distinct_map)
  ultimately have "length (filter (\<lambda>q. q \<in> set sel) (expired_requests cutoff db)) = length sel"
    using sel(4) by (metis distinct_card distinct_filter)
  then have len: "length (expired_requests cutoff db') = length (expired_requests cutoff db) - n"
    unfolding ex' using sum_length_filter_compl [of "\<lambda>q. q \<in> set sel" "expired_requests cutoff db"] sel(2) by simp
  have "filter (\<lambda>q. \<not> rq_created q < cutoff) (retry_requests db') = filter (\<lambda>q. \<not> rq_created q < cutoff) (retry_requests db)"
    unfolding rq filter_filter using sel(3) by (intro filter_cong refl) (auto simp: expired_requests_def)
  moreover have "rq_id ` set (retry_requests db') = rq_id ` set (retry_requests db) - rq_id ` set sel" using f by auto
  then have "retry_node_requests db' = filter (\<lambda>n. rn_rr_id n \<in> rq_id ` set (retry_requests db')) (retry_node_requests db0)"
    using f rows by (auto intro: filter_cong)
  moreover have "retries_only db db'" unfolding sel(1) by (rule fold_only) (rule delete_request_only)
  moreover have "set (retry_pubkeys db') \<subseteq> set (retry_pubkeys db)" unfolding sel(1) by (rule fold_delete_requests_subsets)
  ultimately show ?thesis
    using len sel(2,5) so f kept pks retries_only_trans [OF only] by (auto simp: expiring_def)
qed

interpretation expired_retries: chunked_delete "expire_statement by_created cutoff"
    "\<lambda>db. length (expired_requests cutoff db)" "expiring by_created cutoff db0"
  for by_created cutoff db0
  by unfold_locales (rule expire_statement_progress)

lemma remove_expired_spec:
  assumes inv: "db_inv lb db" and so: "sorts_by rq_created by_created"
  shows "\<exists>db'. remove_expired_retry_requests by_created now db = Some db' \<and> db_inv lb db'
     \<and> retry_requests db' = filter (\<lambda>q. rq_created q \<ge> now - RETRY_EXPIRY) (retry_requests db)
     \<and> retry_node_reqs db' = map (view_row db) (filter (\<lambda>n. rn_rr_id n \<in> rq_id ` set (retry_requests db')) (retry_node_requests db))"
proof -
  let ?c = "now - RETRY_EXPIRY"
  note ok = db_inv_retries [OF inv]
  note d = retries_okD [OF ok [unfolded db_retries_ok_def]]
  have "filter (\<lambda>n. rn_rr_id n \<in> rq_id ` set (retry_requests db)) (retry_node_requests db) = retry_node_requests db"
    by (rule filter_True) (simp flip: d(7))
  then have "expiring by_created ?c db db" using so ok by (simp add: expiring_def retries_only_refl)
  from expired_retries.chunks_done [OF this, of 0] obtain db' where d':
      "delete_in_chunks (expire_statement by_created ?c) db 0 = Some (db', length (expired_requests ?c db))"
      "length (expired_requests ?c db') = 0" "expiring by_created ?c db db'"
    by auto
  have none: "\<forall>q \<in> set (retry_requests db'). \<not> rq_created q < ?c"
    using d'(2) by (simp add: expired_requests_def filter_empty_conv)
  have e: "db_retries_ok db'" "retries_only db db'" "set (retry_pubkeys db') \<subseteq> set (retry_pubkeys db)"
      "retry_node_requests db' = filter (\<lambda>n. rn_rr_id n \<in> rq_id ` set (retry_requests db')) (retry_node_requests db)"
    using d'(3) by (simp_all add: expiring_def)
  have rq: "retry_requests db' = filter (\<lambda>q. \<not> rq_created q < ?c) (retry_requests db)"
    using d'(3) filter_True [OF none] by (simp add: expiring_def)
  have "map (view_row db') (retry_node_requests db') = map (view_row db) (retry_node_requests db')"
    by (intro map_cong refl view_row_mono [OF e(1) ok] e(3)) (use e(4) rq in auto)
  then have "retry_node_reqs db' = map (view_row db) (filter (\<lambda>n. rn_rr_id n \<in> rq_id ` set (retry_requests db')) (retry_node_requests db))"
    unfolding view_eq [OF e(1)] by (simp flip: e(4))
  moreover have "retry_requests db' = filter (\<lambda>q. rq_created q \<ge> ?c) (retry_requests db)" using rq by (simp add: not_less)
  ultimately show ?thesis
    using d'(1) retries_only_inv [OF e(2) inv e(1)] by (auto simp: remove_expired_retry_requests_def)
qed

lemma add_retry_inv:
  assumes inv: "db_inv lb db" and "add_retry_request created now key cmd payload i db = Inr (db', j)"
  shows "db_inv lb db'"
proof (cases "i = 0")
  case True
  then show ?thesis
    using add_new_spec [OF db_inv_retries [OF inv], of created now key cmd payload] assms(2) retries_only_inv [OF _ inv] by auto
next
  case False
  then show ?thesis
    using add_more_spec [OF db_inv_retries [OF inv] False assms(2)] retries_only_inv [OF _ inv] by blast
qed

lemma foreach_inv:
  assumes inv: "db_inv lb db" and f: "foreach_ready_retry_request sql_now now callback db = (db', ready)"
  shows "db_inv lb db'"
proof -
  have "retries_only db (schedule_retry x db)" for x db
    using retries_onlyI [where db = db and ps = "retry_pubkeys db" and qs = "retry_requests db"]
    by (cases x) (simp add: schedule_retry_def)
  then have "retries_only db db'" using f by (auto simp: foreach_ready_retry_request_def Let_def intro: fold_only)
  then show ?thesis using foreach_spec(1) [OF db_inv_retries [OF inv] f] inv by (blast intro: retries_only_inv)
qed

lemma remove_node_inv:
  assumes inv: "db_inv lb db"
  shows "db_inv lb (remove_node_retry_request i db)"
proof (rule retries_only_inv [OF _ inv])
  show "retries_only db (remove_node_retry_request i db)"
    unfolding remove_node_retry_request_def by (rule fold_only) (rule delete_node_only)
qed (rule remove_node_spec(1) [OF db_inv_retries [OF inv]])

section \<open>The queue of requests to try again\<close>

lemma retry_queue_add:
  assumes "db_inv lb db"
  shows "\<exists>db' i. add_retry_request created now key cmd payload 0 db = Inr (db', i) \<and> db_inv lb db'
     \<and> i \<notin> rq_id ` set (retry_requests db)
     \<and> retry_node_reqs db' = retry_node_reqs db @ [\<lparr>rd_id = next_rowid (map rd_id (retry_node_reqs db)), rd_key = key,
          rd_command = cmd, rd_payload = payload, rd_next_retry = now + seconds 15\<rparr>]"
  using add_new_spec [OF db_inv_retries [OF assms], of created now key cmd payload] add_retry_inv [OF assms, of created now key cmd payload 0]
  unfolding RETRY_INITIAL_DELAY_def by blast

lemma retry_queue_ready:
  assumes "db_inv lb db"
  shows "\<exists>db'. foreach_ready_retry_request sql_now now callback db =
          (db', filter (\<lambda>r. rd_next_retry r < sql_now) (retry_node_reqs db)) \<and> db_inv lb db'
     \<and> retry_node_reqs db' = map (\<lambda>r. if rd_next_retry r < sql_now
          then r\<lparr>rd_next_retry := now + (if callback r then seconds 30 else seconds 15)\<rparr> else r) (retry_node_reqs db)"
proof -
  obtain db' ready where f: "foreach_ready_retry_request sql_now now callback db = (db', ready)" by (rule prod.exhaust)
  note foreach_spec(2,3) [OF db_inv_retries [OF assms] f, unfolded RETRY_INTERVAL_def RETRY_NO_CONTACT_INTERVAL_def]
  then show ?thesis using f foreach_inv [OF assms f] by blast
qed

definition retry_sample :: database where
  "retry_sample = empty_database\<lparr>
     retry_node_requests := [\<lparr>rn_id = 1, rn_rr_id = 1, rn_pk_id = 1, rn_next_retry = seconds 15\<rparr>,
                             \<lparr>rn_id = 2, rn_rr_id = 1, rn_pk_id = 2, rn_next_retry = seconds 45\<rparr>,
                             \<lparr>rn_id = 3, rn_rr_id = 2, rn_pk_id = 2, rn_next_retry = seconds 815\<rparr>],
     retry_pubkeys := [\<lparr>rp_id = 1, rp_pubkey = ''A''\<rparr>, \<lparr>rp_id = 2, rp_pubkey = ''B''\<rparr>],
     retry_requests := [\<lparr>rq_id = 1, rq_command = ''store'', rq_payload = ''old'', rq_created = 0\<rparr>,
                        \<lparr>rq_id = 2, rq_command = ''store'', rq_payload = ''new'', rq_created = seconds 800\<rparr>]\<rparr>"

lemma retry_sample_inv: "db_inv lb retry_sample"
proof (rule retries_only_inv [OF _ db_inv_empty])
  show "retries_only empty_database retry_sample" unfolding retry_sample_def by (rule retries_onlyI)
  show "db_retries_ok retry_sample" by (auto simp: db_retries_ok_def retries_ok_def retry_sample_def)
qed

text \<open>
  C31: What the sending of retries relies on, on the entries of the view. A request is
  queued with its first node whatever else is queued, under a number not in use, to be tried
  15 seconds later. Going through the ready ones calls back for exactly the entries whose
  time has come, puts each off by 30 seconds, or 15 if it could not be sent, and leaves the
  others. When a node has it, its entry alone goes. All three keep the database consistent,
  so no entry is ever without its request or its key, and no request without an entry.
\<close>

theorem retry_queue:
  assumes "db_inv lb db"
  shows "(\<exists>db' i. add_retry_request created now key cmd payload 0 db = Inr (db', i) \<and> db_inv lb db'
       \<and> i \<notin> rq_id ` set (retry_requests db)
       \<and> retry_node_reqs db' = retry_node_reqs db @ [\<lparr>rd_id = next_rowid (map rd_id (retry_node_reqs db)), rd_key = key,
            rd_command = cmd, rd_payload = payload, rd_next_retry = now + seconds 15\<rparr>])
     \<and> (\<exists>db'. foreach_ready_retry_request sql_now now callback db =
            (db', filter (\<lambda>r. rd_next_retry r < sql_now) (retry_node_reqs db)) \<and> db_inv lb db'
       \<and> retry_node_reqs db' = map (\<lambda>r. if rd_next_retry r < sql_now
            then r\<lparr>rd_next_retry := now + (if callback r then seconds 30 else seconds 15)\<rparr> else r) (retry_node_reqs db))
     \<and> db_inv lb (remove_node_retry_request k db)
     \<and> retry_node_reqs (remove_node_retry_request k db) = filter (\<lambda>r. rd_id r \<noteq> k) (retry_node_reqs db)"
  using retry_queue_add [OF assms] retry_queue_ready [OF assms] remove_node_inv [OF assms] remove_node_spec(2) [OF db_inv_retries [OF assms]]
  by (intro conjI)

theorem retry_queue_witness:
  "map rd_payload (snd (foreach_ready_retry_request (seconds 30) (seconds 30) (\<lambda>r. False) retry_sample)) = [''old'']
   \<and> retry_node_reqs (remove_node_retry_request 2 retry_sample) = filter (\<lambda>r. rd_id r \<noteq> 2) (retry_node_reqs retry_sample)"
proof -
  note q = retry_queue [OF retry_sample_inv [of big_endian], of 0 "seconds 30" "''A''" "''x''" "''y''" "seconds 30" "\<lambda>r. False" 2]
  have "map rd_payload (filter (\<lambda>r. rd_next_retry r < seconds 30) (retry_node_reqs retry_sample)) = [''old'']"
    by (simp add: retry_node_reqs_def retry_sample_def seconds_def)
  with q show ?thesis by (auto simp del: filter_map)
qed

text \<open>
  Adding one more node to a request fails, and then changes nothing, exactly when there is
  no such request (any more) or the node is already waiting for it; otherwise the node's entry
  has the command and the payload the request was first queued with, whatever the caller gives.
\<close>

theorem retry_add_more:
  assumes "db_inv lb db" and "i \<noteq> 0"
  shows "case add_retry_request created now key cmd payload i db of
      Inl e \<Rightarrow> i \<notin> rq_id ` set (retry_requests db) \<or> key \<in> waiting_for i db
    | Inr (db', j) \<Rightarrow> j = i \<and> key \<notin> waiting_for i db \<and> db_inv lb db' \<and> (\<exists>q \<in> set (retry_requests db). rq_id q = i
        \<and> retry_node_reqs db' = retry_node_reqs db @ [\<lparr>rd_id = next_rowid (map rd_id (retry_node_reqs db)), rd_key = key,
            rd_command = rq_command q, rd_payload = rq_payload q, rd_next_retry = now + seconds 15\<rparr>])"
proof (cases "add_retry_request created now key cmd payload i db")
  case (Inl e)
  then show ?thesis using add_more_error [OF db_inv_retries [OF assms(1)] assms(2), of created now key cmd payload] by simp
next
  case (Inr r)
  obtain db' j where r: "r = (db', j)" by (cases r)
  note a = Inr [unfolded r]
  show ?thesis
    using add_more_spec [OF db_inv_retries [OF assms(1)] assms(2) a] add_retry_inv [OF assms(1) a]
      add_more_error [OF db_inv_retries [OF assms(1)] assms(2), of created now key cmd payload]
    by (simp add: a RETRY_INITIAL_DELAY_def)
qed

theorem retry_add_more_witness:
  "\<exists>e. add_retry_request 0 0 ''B'' ''x'' ''y'' 2 retry_sample = Inl e"
proof (cases "add_retry_request 0 0 ''B'' ''x'' ''y'' 2 retry_sample")
  case (Inr r)
  have "''B'' \<in> waiting_for 2 retry_sample"
    by (simp add: waiting_for_def retry_sample_def view_row_def Let_def)
  then show ?thesis
    using retry_add_more [OF retry_sample_inv [of big_endian], where i = 2 and created = 0 and now = 0 and key = "''B''" and cmd = "''x''" and payload = "''y''"] Inr by (auto split: prod.splits)
qed simp

text \<open>
  Dropping expired requests ends, and then exactly the requests created in the last 15
  minutes are left, with the entries of their nodes as they were.
\<close>

theorem retries_expire:
  assumes "db_inv lb db" and "sorts_by rq_created by_created"
  shows "\<exists>db'. remove_expired_retry_requests by_created now db = Some db' \<and> db_inv lb db'
     \<and> retry_requests db' = filter (\<lambda>q. rq_created q \<ge> now - seconds (15 * 60)) (retry_requests db)
     \<and> retry_node_reqs db' = map (view_row db) (filter (\<lambda>n. rn_rr_id n \<in> rq_id ` set (retry_requests db')) (retry_node_requests db))"
  using remove_expired_spec [OF assms] unfolding RETRY_EXPIRY_def .

theorem retries_expire_witness:
  "\<exists>db'. remove_expired_retry_requests (sort_key rq_created) (seconds 1000) retry_sample = Some db'
     \<and> map rd_id (retry_node_reqs db') = [3]"
proof -
  obtain db' where db': "remove_expired_retry_requests (sort_key rq_created) (seconds 1000) retry_sample = Some db'"
     "retry_requests db' = filter (\<lambda>q. rq_created q \<ge> seconds 1000 - seconds (15 * 60)) (retry_requests retry_sample)"
     "retry_node_reqs db' = map (view_row retry_sample) (filter (\<lambda>n. rn_rr_id n \<in> rq_id ` set (retry_requests db')) (retry_node_requests retry_sample))"
    using retries_expire [OF retry_sample_inv [of big_endian] sorts_by_sort_key] by blast
  have "map rq_id (retry_requests db') = [2]" unfolding db'(2) by (simp add: retry_sample_def seconds_def)
  then have "rq_id ` set (retry_requests db') = {2}" by (metis list.set(1,2) list.set_map)
  then have "map rd_id (retry_node_reqs db') = [3]" unfolding db'(3) by (simp add: retry_sample_def view_row_def Let_def)
  with db'(1) show ?thesis by (intro exI conjI)
qed
end
