(* ===== verification/Dumps.thy ===== *)
theory Dumps
  imports Retries
begin

text \<open>
  Sending messages to other nodes of the swarm (\<open>oxenss/storage/database.cpp\<close>): the queries
  over a range of swarm space, dumps, which are sent in batches, and deliveries of single
  messages. The dumps are shown to be a map and the deliveries a set.
\<close>

section \<open>Ranges of swarm space\<close>

text \<open>
  \<open>swarm_range_query\<close> with \<open>bind_swarm_range\<close>: the condition on an owner's stored halves. SQLite
  compares row values lexicographically.
\<close>

definition row_less :: "int \<times> int \<Rightarrow> int \<times> int \<Rightarrow> bool" where
  "row_less x y \<longleftrightarrow> fst x < fst y \<or> fst x = fst y \<and> snd x < snd y"

definition halves :: "u64 \<Rightarrow> int \<times> int" where
  "halves x = (uint (drop_bit 32 x), uint (x AND 0xffffffff))"

definition swarm_range_query :: "u64 \<Rightarrow> u64 \<Rightarrow> owner_row \<Rightarrow> bool" where
  "swarm_range_query lower upper w =
     (let above_lower = row_less (halves lower) (o_hi w, o_lo w);
          at_most_upper = \<not> row_less (halves upper) (o_hi w, o_lo w)
      in if lower = upper then True
         else if lower < upper then above_lower \<and> at_most_upper
         else above_lower \<or> at_most_upper)"

definition has_owners_in_range :: "u64 \<Rightarrow> u64 \<Rightarrow> database \<Rightarrow> bool" where
  "has_owners_in_range lower upper db = list_ex (swarm_range_query lower upper) (owners db)"

definition max_message_id :: "database \<Rightarrow> int" where
  "max_message_id db = (case map m_id (messages db) of [] \<Rightarrow> 0 | i # is \<Rightarrow> fold max is i)"

section \<open>Dumps\<close>

definition recipient_of :: "database \<Rightarrow> legacy_pubkey \<Rightarrow> int option" where
  "recipient_of db pk = map_option pr_id (List.find (\<lambda>r. pr_pubkey r = pk) (pending_recipients db))"

definition insert_pending_recipient :: "legacy_pubkey \<Rightarrow> database \<Rightarrow> database" where
  "insert_pending_recipient pk db =
     (if list_ex (\<lambda>r. pr_pubkey r = pk) (pending_recipients db) then db
      else db\<lparr>pending_recipients := pending_recipients db @
             [\<lparr>pr_id = next_rowid (map pr_id (pending_recipients db)), pr_pubkey = pk\<rparr>]\<rparr>)"

text \<open>The swarm column is a signed integer.\<close>

definition queue_dump :: "legacy_pubkey \<Rightarrow> u64 \<Rightarrow> int \<Rightarrow> database \<Rightarrow> database" where
  "queue_dump pk swarm end_id db =
     (let db1 = insert_pending_recipient pk db
      in case recipient_of db1 pk of
           None \<Rightarrow> db1
         | Some r \<Rightarrow>
             if list_ex (\<lambda>d. pd_recipient d = r \<and> pd_swarm d = sint swarm) (pending_dumps db1)
             then db1\<lparr>pending_dumps := map (\<lambda>d. if pd_recipient d = r \<and> pd_swarm d = sint swarm
                    then d\<lparr>pd_next_id := 1, pd_end_id := max (pd_end_id d) end_id, pd_next_attempt := 0\<rparr> else d)
                  (pending_dumps db1)\<rparr>
             else db1\<lparr>pending_dumps := pending_dumps db1 @ [\<lparr>pd_recipient = r, pd_swarm = sint swarm, pd_next_id = 1,
                    pd_end_id = end_id, pd_next_attempt = 0\<rparr>]\<rparr>)"

text \<open>\<open>struct pending_dump\<close>\<close>

record pending_dump =
  d_pubkey :: legacy_pubkey
  d_swarm :: u64
  d_next_id :: int
  d_end_id :: int
  d_next_attempt :: time

definition list_pending_dumps :: "database \<Rightarrow> pending_dump list" where
  "list_pending_dumps db =
     concat (map (\<lambda>d. map (\<lambda>r. \<lparr>d_pubkey = pr_pubkey r, d_swarm = word_of_int (pd_swarm d), d_next_id = pd_next_id d,
                  d_end_id = pd_end_id d, d_next_attempt = pd_next_attempt d\<rparr>)
               (filter (\<lambda>r. pr_id r = pd_recipient d) (pending_recipients db))) (pending_dumps db))"

definition update_dump :: "legacy_pubkey \<Rightarrow> u64 \<Rightarrow> int \<Rightarrow> time \<Rightarrow> database \<Rightarrow> database" where
  "update_dump pk swarm next_id next_attempt db =
     db\<lparr>pending_dumps := map (\<lambda>d. if Some (pd_recipient d) = recipient_of db pk \<and> pd_swarm d = sint swarm
          then d\<lparr>pd_next_id := next_id, pd_next_attempt := next_attempt\<rparr> else d) (pending_dumps db)\<rparr>"

definition remove_dump :: "legacy_pubkey \<Rightarrow> u64 \<Rightarrow> database \<Rightarrow> database" where
  "remove_dump pk swarm db =
     db\<lparr>pending_dumps := filter (\<lambda>d. \<not> (Some (pd_recipient d) = recipient_of db pk \<and> pd_swarm d = sint swarm))
          (pending_dumps db)\<rparr>"

text \<open>
  Reading a batch: rows are taken while the size so far is below the budget, so the last one
  may go beyond it.
\<close>

definition batch_size :: "message_row \<Rightarrow> nat" where
  "batch_size r = length (m_data r) + length (m_hash r) + 80"

fun batch_loop :: "nat \<Rightarrow> ('w \<times> message_row) list \<Rightarrow> nat \<Rightarrow> ('w \<times> message_row) list" where
  "batch_loop byte_budget [] sz = []"
| "batch_loop byte_budget (x # rows) sz =
     (if sz < byte_budget then x # batch_loop byte_budget rows (sz + batch_size (snd x)) else [])"

definition dump_rows ::
    "time \<Rightarrow> int \<Rightarrow> int \<Rightarrow> u64 \<Rightarrow> u64 \<Rightarrow> database \<Rightarrow> (owner_row \<times> message_row) list" where
  "dump_rows now from_id end_id lower upper db =
     filter (\<lambda>(w, r). m_id r \<ge> from_id \<and> m_id r \<le> end_id \<and> m_expiry r > to_epoch_ms now \<and> swarm_range_query lower upper w)
       (join_owners db)"

definition next_dump_batch ::
    "time \<Rightarrow> int \<Rightarrow> int \<Rightarrow> u64 \<Rightarrow> u64 \<Rightarrow> nat \<Rightarrow> database \<Rightarrow> message list \<times> int" where
  "next_dump_batch now from_id end_id lower upper byte_budget db =
     (let taken = batch_loop byte_budget (dump_rows now from_id end_id lower upper db) 0
      in (apply_deferred db (map (\<lambda>(w, r). row_message (owner_pubkey w) r) taken),
          if taken = [] then 0 else m_id (snd (last taken))))"

section \<open>Deliveries\<close>

text \<open>The statement \<open>queue_delivery_sql\<close>, with the number of rows inserted.\<close>

definition queue_delivery_sql :: "legacy_pubkey \<Rightarrow> string \<Rightarrow> database \<Rightarrow> database \<times> nat" where
  "queue_delivery_sql pk hash db =
     (let new = filter (\<lambda>d. d \<notin> set (pending_deliveries db))
           (concat (map (\<lambda>p. map (\<lambda>r. \<lparr>dl_recipient = pr_id p, dl_message = m_id r\<rparr>)
              (filter (\<lambda>r. m_hash r = hash) (messages db))) (filter (\<lambda>p. pr_pubkey p = pk) (pending_recipients db))))
      in (db\<lparr>pending_deliveries := pending_deliveries db @ new\<rparr>, length new))"

definition queue_delivery :: "legacy_pubkey \<Rightarrow> string \<Rightarrow> database \<Rightarrow> database" where
  "queue_delivery pk hash db =
     (let (db1, n) = queue_delivery_sql pk hash db
      in if n > 0 then db1
         else let (db2, n) = queue_delivery_sql pk hash (insert_pending_recipient pk db)
              in if n > 0 then db2 else db)"

definition delivery_peers :: "database \<Rightarrow> legacy_pubkey list" where
  "delivery_peers db =
     map pr_pubkey (filter (\<lambda>p. list_ex (\<lambda>d. dl_recipient d = pr_id p) (pending_deliveries db)) (pending_recipients db))"

definition clean_pending_recipients :: "database \<Rightarrow> database" where
  "clean_pending_recipients db =
     db\<lparr>pending_recipients := filter (\<lambda>p. list_ex (\<lambda>d. pd_recipient d = pr_id p) (pending_dumps db)
          \<or> list_ex (\<lambda>d. dl_recipient d = pr_id p) (pending_deliveries db)) (pending_recipients db)\<rparr>"

definition delivery_rows :: "time \<Rightarrow> legacy_pubkey \<Rightarrow> database \<Rightarrow> (owner_row \<times> message_row) list" where
  "delivery_rows now pk db =
     sort_key (\<lambda>x. m_id (snd x))
       (concat (map (\<lambda>d. filter (\<lambda>(w, r). m_id r = dl_message d \<and> m_expiry r > to_epoch_ms now) (join_owners db))
          (filter (\<lambda>d. Some (dl_recipient d) = recipient_of db pk) (pending_deliveries db))))"

definition next_delivery_batch :: "time \<Rightarrow> legacy_pubkey \<Rightarrow> nat \<Rightarrow> database \<Rightarrow> message list \<times> int list" where
  "next_delivery_batch now pk byte_budget db =
     (let taken = batch_loop byte_budget (delivery_rows now pk db) 0
      in (apply_deferred db (map (\<lambda>(w, r). row_message (owner_pubkey w) r) taken), map (\<lambda>(w, r). m_id r) taken))"

definition remove_deliveries_ids :: "legacy_pubkey \<Rightarrow> int list \<Rightarrow> database \<Rightarrow> database" where
  "remove_deliveries_ids pk ids db =
     (case recipient_of db pk of
        None \<Rightarrow> db
      | Some r \<Rightarrow> fold (\<lambda>i db. db\<lparr>pending_deliveries :=
            filter (\<lambda>d. \<not> (dl_recipient d = r \<and> dl_message d = i)) (pending_deliveries db)\<rparr>) ids db)"

definition remove_deliveries :: "legacy_pubkey \<Rightarrow> database \<Rightarrow> database" where
  "remove_deliveries pk db =
     db\<lparr>pending_deliveries := filter (\<lambda>d. Some (dl_recipient d) \<noteq> recipient_of db pk) (pending_deliveries db)\<rparr>"

section \<open>The current swarm\<close>

definition update_current_swarm :: "u64 \<Rightarrow> database \<Rightarrow> database" where
  "update_current_swarm swarm db = db\<lparr>state_swarm := Some (sint swarm)\<rparr>"

definition get_current_swarm :: "database \<Rightarrow> u64 option" where
  "get_current_swarm db = map_option word_of_int (state_swarm db)"


section \<open>The halves stand for the position\<close>

lemma halves_eq: "halves x = (uint x div 2 ^ 32, uint x mod 2 ^ 32)"
proof -
  have "x AND 0xffffffff = x mod 2 ^ 32"
    using take_bit_eq_mask [of 32 x] take_bit_eq_mod [of 32 x] by (simp add: mask_eq_exp_minus_1)
  moreover have "drop_bit 32 x = x div 2 ^ 32" by (rule drop_bit_eq_div)
  ultimately show ?thesis by (simp add: halves_def uint_div_distrib uint_mod_distrib)
qed

lemma less_div_mod:
  fixes a b m :: int
  assumes "0 < m"
  shows "a < b \<longleftrightarrow> a div m < b div m \<or> a div m = b div m \<and> a mod m < b mod m"
proof (cases "a div m" "b div m" rule: linorder_cases)
  case less
  then have "a < b" using zdiv_mono1 [OF _ assms, of b a] by linarith
  with less show ?thesis by simp
next
  case equal
  have "a = a div m * m + a mod m" "b = b div m * m + b mod m" by simp_all
  with equal have "a < b \<longleftrightarrow> a mod m < b mod m" by (metis add_less_cancel_left)
  with equal show ?thesis by simp
next
  case greater
  then have "\<not> a < b" using zdiv_mono1 [OF _ assms, of a b] by linarith
  with greater show ?thesis by simp
qed

lemma row_less_halves: "row_less (halves x) (halves y) \<longleftrightarrow> x < y"
  unfolding row_less_def halves_eq word_less_def fst_conv snd_conv by (rule less_div_mod [symmetric]) simp

definition owner_space :: "(string \<Rightarrow> u64) \<Rightarrow> owner_row \<Rightarrow> u64" where
  "owner_space lb w = pubkey_to_swarm_space lb \<lparr>network = 0, pubkey = take 32 (o_pubkey w)\<rparr>"

lemma range_query_position:
  assumes "owners_ok lb os" and "w \<in> set os"
  shows "swarm_range_query lower upper w \<longleftrightarrow> in_swarm_range lower upper (owner_space lb w)"
proof -
  have "(o_hi w, o_lo w) = halves (owner_space lb w)"
    using assms by (simp add: owners_ok_def halves_def owner_space_def swarm_space_hi_def swarm_space_lo_def)
  then show ?thesis
    unfolding swarm_range_query_def in_swarm_range_def by (simp add: row_less_halves not_less Let_def)
qed

section \<open>Batches\<close>

lemma batch_loop_take:
  "\<exists>k \<le> length rows. batch_loop b rows sz = take k rows \<and> (sz < b \<longrightarrow> rows \<noteq> [] \<longrightarrow> 0 < k)"
proof (induction rows arbitrary: sz)
  case (Cons x rows)
  show ?case
  proof (cases "sz < b")
    case True
    from Cons.IH [of "sz + batch_size (snd x)"] obtain k where
      "k \<le> length rows" "batch_loop b rows (sz + batch_size (snd x)) = take k rows" by blast
    then show ?thesis using True by (intro exI [of _ "Suc k"]) simp
  qed (auto intro: exI [of _ 0])
qed simp

text \<open>
  All but the last message of a batch are within the budget.
\<close>

lemma batch_loop_size:
  "batch_loop b rows sz \<noteq> [] \<Longrightarrow> sz + sum_list (map (\<lambda>x. batch_size (snd x)) (butlast (batch_loop b rows sz))) < b"
proof (induction rows arbitrary: sz)
  case (Cons x rows)
  then have "sz < b" by (simp split: if_splits)
  with Cons.IH [of "sz + batch_size (snd x)"] show ?case by (auto simp: add.assoc)
qed simp

text \<open>
  The messages a dump of a range has to send, in the order of their ids.
\<close>

definition in_dump :: "(string \<Rightarrow> u64) \<Rightarrow> time \<Rightarrow> u64 \<Rightarrow> u64 \<Rightarrow> database \<Rightarrow> message_row \<Rightarrow> bool" where
  "in_dump lb now lower upper db r \<longleftrightarrow>
     m_expiry r > to_epoch_ms now \<and> in_swarm_range lower upper (owner_space lb (owner_row_of db r))"

definition dump_ids :: "(string \<Rightarrow> u64) \<Rightarrow> time \<Rightarrow> int \<Rightarrow> int \<Rightarrow> u64 \<Rightarrow> u64 \<Rightarrow> database \<Rightarrow> message_row list" where
  "dump_ids lb now from_id end_id lower upper db =
     filter (\<lambda>r. from_id \<le> m_id r \<and> m_id r \<le> end_id \<and> in_dump lb now lower upper db r) (messages db)"

definition dump_message :: "database \<Rightarrow> message_row \<Rightarrow> message" where
  "dump_message db r = apply_deferred_msg db (row_message (owner_pubkey (owner_row_of db r)) r)"

lemma owner_row_mem:
  assumes ok: "tables_ok lb db" and r: "r \<in> set (messages db)"
  shows "owner_row_of db r \<in> set (owners db)" and "o_id (owner_row_of db r) = m_owner r"
proof -
  obtain w where w: "w \<in> set (owners db)" "o_id w = m_owner r"
    using ok r by (auto simp: tables_ok_def messages_ok_def)
  with owner_row_of_eq [OF ok w] show "owner_row_of db r \<in> set (owners db)" "o_id (owner_row_of db r) = m_owner r" by simp_all
qed

lemma dump_rows_eq:
  assumes ok: "tables_ok lb db"
  shows "dump_rows now from_id end_id lower upper db =
     map (\<lambda>r. (owner_row_of db r, r)) (dump_ids lb now from_id end_id lower upper db)"
proof -
  have q: "swarm_range_query lower upper (owner_row_of db r) = in_swarm_range lower upper (owner_space lb (owner_row_of db r))"
    if "r \<in> set (messages db)" for r
    using ok owner_row_mem(1) [OF ok that] by (intro range_query_position) (auto simp: tables_ok_def)
  show ?thesis
    unfolding dump_rows_def dump_ids_def join_owners_eq [OF ok] filter_map in_dump_def
    by (intro arg_cong [where f = "map _"] filter_cong refl) (auto simp: q)
qed

lemma sorted_filter_take:
  assumes "sorted_wrt (<) (map f xs)" and "0 < k" and "k \<le> length xs" and "l = (f (xs ! (k - 1)) :: int)"
  shows "take k xs = filter (\<lambda>x. f x \<le> l) xs" and "drop k xs = filter (\<lambda>x. l + 1 \<le> f x) xs"
proof -
  have s: "sorted_wrt (<) (map f (take k xs) @ map f (drop k xs))" using assms(1) by (simp flip: map_append)
  have t: "take k xs = take (k - 1) xs @ [xs ! (k - 1)]"
    using assms(2,3) by (metis Suc_diff_1 Suc_le_lessD diff_less less_le_trans take_Suc_conv_app_nth zero_less_one)
  have le: "\<forall>x \<in> set (take k xs). f x \<le> l" using s unfolding t assms(4) by (auto simp: sorted_wrt_append)
  have gt: "\<forall>x \<in> set (drop k xs). l < f x" using s unfolding t assms(4) by (auto simp: sorted_wrt_append)
  have split: "filter P xs = filter P (take k xs) @ filter P (drop k xs)" for P by (simp flip: filter_append)
  have "filter (\<lambda>x. f x \<le> l) (take k xs) = take k xs" "filter (\<lambda>x. f x \<le> l) (drop k xs) = []"
    using le gt by (auto simp: filter_id_conv filter_empty_conv)
  then show "take k xs = filter (\<lambda>x. f x \<le> l) xs" using split [of "\<lambda>x. f x \<le> l"] by simp
  have "filter (\<lambda>x. l + 1 \<le> f x) (take k xs) = []" "filter (\<lambda>x. l + 1 \<le> f x) (drop k xs) = drop k xs"
    using le gt by (force simp: filter_id_conv filter_empty_conv)+
  then show "drop k xs = filter (\<lambda>x. l + 1 \<le> f x) xs" using split [of "\<lambda>x. l + 1 \<le> f x"] by simp
qed

lemma dump_batch_spec:
  assumes ok: "tables_ok lb db" and b: "0 < budget"
    and n: "next_dump_batch now from_id end_id lower upper budget db = (msgs, last_id)"
  shows "if dump_ids lb now from_id end_id lower upper db = [] then msgs = [] \<and> last_id = 0
     else msgs = map (dump_message db) (dump_ids lb now from_id last_id lower upper db) \<and> msgs \<noteq> []
        \<and> from_id \<le> last_id \<and> last_id \<le> end_id
        \<and> dump_ids lb now from_id end_id lower upper db =
            dump_ids lb now from_id last_id lower upper db @ dump_ids lb now (last_id + 1) end_id lower upper db"
proof -
  let ?ids = "\<lambda>f e. dump_ids lb now f e lower upper db"
  obtain k where k: "k \<le> length (?ids from_id end_id)"
      "batch_loop budget (dump_rows now from_id end_id lower upper db) 0 = map (\<lambda>r. (owner_row_of db r, r)) (take k (?ids from_id end_id))"
      "?ids from_id end_id \<noteq> [] \<longrightarrow> 0 < k"
    using batch_loop_take [of "dump_rows now from_id end_id lower upper db" budget 0] b
    unfolding dump_rows_eq [OF ok] by (auto simp: take_map)
  have msgs: "msgs = map (dump_message db) (take k (?ids from_id end_id))"
    and last_id: "last_id = (if take k (?ids from_id end_id) = [] then 0 else m_id (last (take k (?ids from_id end_id))))"
    using n unfolding next_dump_batch_def k(2)
    by (auto simp: Let_def apply_deferred_def dump_message_def last_map)
  show ?thesis
  proof (cases "?ids from_id end_id = []")
    case False
    with k have k0: "0 < k" "take k (?ids from_id end_id) \<noteq> []" by auto
    have l: "last_id = m_id (?ids from_id end_id ! (k - 1))"
      using last_id k0 k(1) by (simp add: last_conv_nth min_def)
    have "sorted_wrt (<) (map m_id (?ids from_id end_id))"
      using ok by (simp add: dump_ids_def tables_ok_def messages_ok_def sorted_wrt_map_filter)
    from sorted_filter_take [OF this k0(1) k(1) l]
    have t: "take k (?ids from_id end_id) = filter (\<lambda>r. m_id r \<le> last_id) (?ids from_id end_id)"
      "drop k (?ids from_id end_id) = filter (\<lambda>r. last_id + 1 \<le> m_id r) (?ids from_id end_id)" by auto
    have "?ids from_id end_id ! (k - 1) \<in> set (?ids from_id end_id)" using k0(1) k(1) by simp
    then have r: "from_id \<le> last_id" "last_id \<le> end_id" unfolding l [symmetric] by (auto simp: dump_ids_def l)
    have t': "take k (?ids from_id end_id) = ?ids from_id last_id"
      unfolding t(1) unfolding dump_ids_def filter_filter using r by (intro filter_cong refl) auto
    have "drop k (?ids from_id end_id) = ?ids (last_id + 1) end_id"
      unfolding t(2) unfolding dump_ids_def filter_filter using r by (intro filter_cong refl) auto
    with t' have app: "?ids from_id end_id = ?ids from_id last_id @ ?ids (last_id + 1) end_id" by (metis append_take_drop_id)
    have m: "msgs = map (dump_message db) (?ids from_id last_id)" "msgs \<noteq> []" using msgs k0(2) t' by simp_all
    show ?thesis unfolding if_not_P [OF False] by (intro conjI m r app)
  qed (use msgs last_id in simp)
qed

section \<open>Dumps by node and swarm\<close>

definition db_pending_ok :: "database \<Rightarrow> bool" where
  "db_pending_ok db = pending_ok (messages db) (pending_recipients db) (pending_dumps db) (pending_deliveries db)"

lemma pendingD:
  assumes "db_pending_ok db"
  shows "sorted_wrt (<) (map pr_id (pending_recipients db))" "\<forall>r \<in> set (pending_recipients db). 0 < pr_id r"
    "distinct (map pr_pubkey (pending_recipients db))" "distinct (map (\<lambda>d. (pd_recipient d, pd_swarm d)) (pending_dumps db))"
    "\<forall>d \<in> set (pending_dumps db). pd_recipient d \<in> pr_id ` set (pending_recipients db) \<and> sint (word_of_int (pd_swarm d) :: u64) = pd_swarm d"
    "distinct (map (\<lambda>d. (dl_recipient d, dl_message d)) (pending_deliveries db))"
    "\<forall>d \<in> set (pending_deliveries db). dl_recipient d \<in> pr_id ` set (pending_recipients db) \<and> dl_message d \<in> m_id ` set (messages db)"
  using assms by (simp_all add: db_pending_ok_def pending_ok_def)

definition pending_only :: "database \<Rightarrow> database \<Rightarrow> bool" where
  "pending_only db db' \<longleftrightarrow> (\<exists>rs ds dl. db' = db\<lparr>pending_recipients := rs, pending_dumps := ds, pending_deliveries := dl\<rparr>)"

lemma pending_only_inv: "pending_only db db' \<Longrightarrow> db_inv lb db \<Longrightarrow> db_pending_ok db' \<Longrightarrow> db_inv lb db'"
  by (auto simp: pending_only_def db_pending_ok_def db_inv_def db_ok_def tables_ok_def count_ok_def deferred_ok_def)

lemma pending_onlyI:
  "pending_only db (db\<lparr>pending_recipients := rs\<rparr>)" "pending_only db (db\<lparr>pending_dumps := ds\<rparr>)" "pending_only db (db\<lparr>pending_deliveries := dl\<rparr>)"
  "pending_only db db"
proof -
  have *: "pending_only db (db\<lparr>pending_recipients := rs, pending_dumps := ds, pending_deliveries := dl\<rparr>)" for rs ds dl
    unfolding pending_only_def by blast
  show "pending_only db (db\<lparr>pending_recipients := rs\<rparr>)" "pending_only db (db\<lparr>pending_dumps := ds\<rparr>)"
      "pending_only db (db\<lparr>pending_deliveries := dl\<rparr>)" "pending_only db db"
    using * [where rs = rs and ds = "pending_dumps db" and dl = "pending_deliveries db"]
      * [where rs = "pending_recipients db" and ds = ds and dl = "pending_deliveries db"]
      * [where rs = "pending_recipients db" and ds = "pending_dumps db" and dl = dl]
      * [where rs = "pending_recipients db" and ds = "pending_dumps db" and dl = "pending_deliveries db"]
    by simp_all
qed

lemma pending_only_trans: "pending_only a b \<Longrightarrow> pending_only b c \<Longrightarrow> pending_only a c"
proof -
  assume "pending_only a b" "pending_only b c"
  then obtain rs ds dl rs' ds' dl' where "b = a\<lparr>pending_recipients := rs, pending_dumps := ds, pending_deliveries := dl\<rparr>"
      "c = b\<lparr>pending_recipients := rs', pending_dumps := ds', pending_deliveries := dl'\<rparr>"
    unfolding pending_only_def by blast
  then have "c = a\<lparr>pending_recipients := rs', pending_dumps := ds', pending_deliveries := dl'\<rparr>" by simp
  then show ?thesis unfolding pending_only_def by blast
qed

lemma db_inv_pending: "db_inv lb db \<Longrightarrow> db_pending_ok db"
  by (simp add: db_pending_ok_def db_inv_def db_ok_def tables_ok_def)

lemma recipient_of_iff:
  assumes "db_pending_ok db"
  shows "recipient_of db pk = Some i \<longleftrightarrow> (\<exists>r \<in> set (pending_recipients db). pr_pubkey r = pk \<and> pr_id r = i)"
proof -
  note d = pendingD [OF assms]
  have "List.find (\<lambda>r. pr_pubkey r = pk) (pending_recipients db) = Some r" if "r \<in> set (pending_recipients db)" "pr_pubkey r = pk" for r
    using find_unique [OF d(3) that(1)] that(2) by simp
  moreover have "r \<in> set (pending_recipients db) \<and> pr_pubkey r = pk" if "List.find (\<lambda>r. pr_pubkey r = pk) (pending_recipients db) = Some r" for r
    using that by (auto simp: find_Some_iff)
  ultimately have "List.find (\<lambda>r. pr_pubkey r = pk) (pending_recipients db) = Some r \<longleftrightarrow> r \<in> set (pending_recipients db) \<and> pr_pubkey r = pk" for r
    by blast
  then show ?thesis unfolding recipient_of_def by auto
qed

lemma recipient_of_None:
  "recipient_of db pk = None \<longleftrightarrow> pk \<notin> pr_pubkey ` set (pending_recipients db)"
  by (auto simp: recipient_of_def find_None_all)

lemma recipient_inj:
  assumes "db_pending_ok db" and "recipient_of db pk = Some i" and "recipient_of db pk' = Some i"
  shows "pk = pk'"
proof -
  obtain r r' where r: "r \<in> set (pending_recipients db)" "pr_pubkey r = pk" "pr_id r = i"
      "r' \<in> set (pending_recipients db)" "pr_pubkey r' = pk'" "pr_id r' = i"
    using assms(2,3) unfolding recipient_of_iff [OF assms(1)] by blast
  have "r = r'" by (rule sorted_map_inj [OF pendingD(1) [OF assms(1)] r(1,4)]) (simp add: r)
  then show ?thesis using r by simp
qed

text \<open>Adding a recipient.\<close>

lemma insert_recipient_spec:
  assumes ok: "db_pending_ok db"
  shows "db_pending_ok (insert_pending_recipient pk db)" and "pending_only db (insert_pending_recipient pk db)"
    and "recipient_of (insert_pending_recipient pk db) pk' =
       (if pk' = pk \<and> recipient_of db pk = None then Some (next_rowid (map pr_id (pending_recipients db))) else recipient_of db pk')"
    and "pending_dumps (insert_pending_recipient pk db) = pending_dumps db"
    and "pending_deliveries (insert_pending_recipient pk db) = pending_deliveries db"
proof -
  note d = pendingD [OF ok]
  show "pending_only db (insert_pending_recipient pk db)"
    by (simp add: insert_pending_recipient_def pending_onlyI)
  show "pending_dumps (insert_pending_recipient pk db) = pending_dumps db"
      "pending_deliveries (insert_pending_recipient pk db) = pending_deliveries db"
    by (simp_all add: insert_pending_recipient_def)
  have n: "x < next_rowid (map pr_id (pending_recipients db))" if "x \<in> pr_id ` set (pending_recipients db)" for x
    using next_rowid_greater [of x "map pr_id (pending_recipients db)"] that by simp
  have rows: "pending_recipients (insert_pending_recipient pk db) = pending_recipients db @
      (if pk \<in> pr_pubkey ` set (pending_recipients db) then [] else [\<lparr>pr_id = next_rowid (map pr_id (pending_recipients db)), pr_pubkey = pk\<rparr>])"
    by (auto simp: insert_pending_recipient_def list_ex_iff)
  show ok': "db_pending_ok (insert_pending_recipient pk db)"
    unfolding db_pending_ok_def pending_ok_def rows
    using d n next_rowid_pos [of "map pr_id (pending_recipients db)"]
    by (auto simp: insert_pending_recipient_def sorted_wrt_append)
  show "recipient_of (insert_pending_recipient pk db) pk' =
       (if pk' = pk \<and> recipient_of db pk = None then Some (next_rowid (map pr_id (pending_recipients db))) else recipient_of db pk')"
  proof (cases "pk \<in> pr_pubkey ` set (pending_recipients db)")
    case True
    then show ?thesis unfolding recipient_of_None unfolding recipient_of_def rows by simp
  next
    case False
    then have "List.find (\<lambda>r. pr_pubkey r = pk) (pending_recipients db) = None" by (auto simp: find_None_all)
    then show ?thesis using False unfolding recipient_of_None unfolding recipient_of_def rows by (auto simp: find_append split: option.splits)
  qed
qed

text \<open>
  The dumps under way as a map: for a node and a swarm, the next and the last id and the time
  of the next attempt.
\<close>

definition dump_row_of :: "database \<Rightarrow> int \<Rightarrow> u64 \<Rightarrow> dump_row option" where
  "dump_row_of db i s = List.find (\<lambda>d. pd_recipient d = i \<and> pd_swarm d = sint s) (pending_dumps db)"

definition dump_map :: "database \<Rightarrow> legacy_pubkey \<times> u64 \<Rightarrow> (int \<times> int \<times> time) option" where
  "dump_map db = (\<lambda>(pk, s). case recipient_of db pk of
       None \<Rightarrow> None
     | Some i \<Rightarrow> map_option (\<lambda>d. (pd_next_id d, pd_end_id d, pd_next_attempt d)) (dump_row_of db i s))"

lemma find_map_key: "(\<And>x. P (f x) = P x) \<Longrightarrow> List.find P (map f xs) = map_option f (List.find P xs)"
  by (induction xs) simp_all

lemma find_filter_keep: "(\<And>x. P x \<Longrightarrow> Q x) \<Longrightarrow> List.find P (filter Q xs) = List.find P xs"
  by (induction xs) auto

lemma sint_u64_inj: "sint (s :: u64) = sint s' \<longleftrightarrow> s = s'"
  by (blast intro: signed_word_eqI)

lemma dump_row_of_iff:
  assumes ok: "db_pending_ok db"
  shows "dump_row_of db i s = Some d \<longleftrightarrow> d \<in> set (pending_dumps db) \<and> pd_recipient d = i \<and> pd_swarm d = sint s"
proof -
  have u: "List.find (\<lambda>d. (pd_recipient d, pd_swarm d) = (pd_recipient d', pd_swarm d')) (pending_dumps db) = Some d'"
    if "d' \<in> set (pending_dumps db)" for d'
    by (rule find_unique [OF pendingD(4) [OF ok] that]) simp
  have "List.find (\<lambda>d. pd_recipient d = i \<and> pd_swarm d = sint s) (pending_dumps db) = Some d"
    if "d \<in> set (pending_dumps db)" "pd_recipient d = i" "pd_swarm d = sint s"
    using u [OF that(1)] that(2,3) by simp
  moreover have "d \<in> set (pending_dumps db) \<and> pd_recipient d = i \<and> pd_swarm d = sint s"
    if "List.find (\<lambda>d. pd_recipient d = i \<and> pd_swarm d = sint s) (pending_dumps db) = Some d"
    using that by (auto simp: find_Some_iff)
  ultimately show ?thesis unfolding dump_row_of_def by blast
qed

text \<open>What \<open>pending_dumps\<close> lists is that map.\<close>

lemma dump_map_eq:
  "dump_map db (pk, s) = Some x \<longleftrightarrow> (\<exists>i d. recipient_of db pk = Some i \<and> dump_row_of db i s = Some d \<and> x = (pd_next_id d, pd_end_id d, pd_next_attempt d))"
  by (auto simp: dump_map_def split: option.splits)

lemma list_pending_dumps_iff:
  assumes ok: "db_pending_ok db"
  shows "d \<in> set (list_pending_dumps db) \<longleftrightarrow> dump_map db (d_pubkey d, d_swarm d) = Some (d_next_id d, d_end_id d, d_next_attempt d)"
proof
  assume "d \<in> set (list_pending_dumps db)"
  then obtain x r where x: "x \<in> set (pending_dumps db)" "r \<in> set (pending_recipients db)" "pr_id r = pd_recipient x"
      "d = \<lparr>d_pubkey = pr_pubkey r, d_swarm = word_of_int (pd_swarm x), d_next_id = pd_next_id x, d_end_id = pd_end_id x, d_next_attempt = pd_next_attempt x\<rparr>"
    by (auto simp: list_pending_dumps_def)
  have "recipient_of db (d_pubkey d) = Some (pd_recipient x)" unfolding recipient_of_iff [OF ok] using x by auto
  moreover have "dump_row_of db (pd_recipient x) (d_swarm d) = Some x"
    unfolding dump_row_of_iff [OF ok] using x(1,4) pendingD(5) [OF ok] by simp
  ultimately show "dump_map db (d_pubkey d, d_swarm d) = Some (d_next_id d, d_end_id d, d_next_attempt d)"
    using x(4) unfolding dump_map_eq by auto
next
  assume "dump_map db (d_pubkey d, d_swarm d) = Some (d_next_id d, d_end_id d, d_next_attempt d)"
  then obtain i x where ix: "recipient_of db (d_pubkey d) = Some i" "dump_row_of db i (d_swarm d) = Some x"
      "d_next_id d = pd_next_id x" "d_end_id d = pd_end_id x" "d_next_attempt d = pd_next_attempt x"
    unfolding dump_map_eq by auto
  obtain r where r: "r \<in> set (pending_recipients db)" "pr_pubkey r = d_pubkey d" "pr_id r = i"
    using ix(1) unfolding recipient_of_iff [OF ok] by blast
  have x: "x \<in> set (pending_dumps db)" "pd_recipient x = i" "pd_swarm x = sint (d_swarm d)"
    using ix(2) unfolding dump_row_of_iff [OF ok] by blast+
  have "d = \<lparr>d_pubkey = pr_pubkey r, d_swarm = word_of_int (pd_swarm x), d_next_id = pd_next_id x, d_end_id = pd_end_id x, d_next_attempt = pd_next_attempt x\<rparr>"
    using ix(3-) r(2) x(3) by (cases d) simp
  moreover have "\<dots> \<in> set (list_pending_dumps db)" using x(1,2) r(1,3) by (force simp: list_pending_dumps_def)
  ultimately show "d \<in> set (list_pending_dumps db)" by metis
qed

lemma update_dump_rows:
  assumes ok: "db_pending_ok db" and key: "\<And>d. pd_recipient (f d) = pd_recipient d \<and> pd_swarm (f d) = pd_swarm d"
  shows "db_pending_ok (db\<lparr>pending_dumps := map f (pending_dumps db)\<rparr>)"
    and "dump_row_of (db\<lparr>pending_dumps := map f (pending_dumps db)\<rparr>) i s = map_option f (dump_row_of db i s)"
proof -
  have "map (\<lambda>d. (pd_recipient d, pd_swarm d)) (map f (pending_dumps db)) = map (\<lambda>d. (pd_recipient d, pd_swarm d)) (pending_dumps db)"
    using key by simp
  then show "db_pending_ok (db\<lparr>pending_dumps := map f (pending_dumps db)\<rparr>)"
    using pendingD [OF ok] key unfolding db_pending_ok_def pending_ok_def by (simp del: map_map)
  show "dump_row_of (db\<lparr>pending_dumps := map f (pending_dumps db)\<rparr>) i s = map_option f (dump_row_of db i s)"
    using key by (simp add: dump_row_of_def find_map_key)
qed

lemma recipient_of_frame [simp]:
  "recipient_of (db\<lparr>pending_dumps := ds\<rparr>) pk = recipient_of db pk" "recipient_of (db\<lparr>pending_deliveries := dl\<rparr>) pk = recipient_of db pk"
  by (simp_all add: recipient_of_def)

lemma update_dump_spec:
  assumes ok: "db_pending_ok db"
  shows "db_pending_ok (update_dump pk s n t db)" and "pending_only db (update_dump pk s n t db)"
    and "dump_map (update_dump pk s n t db) = (case dump_map db (pk, s) of
       None \<Rightarrow> dump_map db | Some (_, e, _) \<Rightarrow> (dump_map db)((pk, s) \<mapsto> (n, e, t)))"
proof -
  define f :: "dump_row \<Rightarrow> dump_row" where "f = (\<lambda>d. if Some (pd_recipient d) = recipient_of db pk \<and> pd_swarm d = sint s then d\<lparr>pd_next_id := n, pd_next_attempt := t\<rparr> else d)"
  have u: "update_dump pk s n t db = db\<lparr>pending_dumps := map f (pending_dumps db)\<rparr>" by (simp add: update_dump_def f_def)
  have key: "pd_recipient (f d) = pd_recipient d \<and> pd_swarm (f d) = pd_swarm d" for d by (simp add: f_def)
  note r = update_dump_rows [OF ok key]
  show "db_pending_ok (update_dump pk s n t db)" unfolding u by (rule r(1))
  show "pending_only db (update_dump pk s n t db)" unfolding u by (rule pending_onlyI)
  have "dump_map (update_dump pk s n t db) (pk', s') = (case dump_map db (pk, s) of
       None \<Rightarrow> dump_map db | Some (_, e, _) \<Rightarrow> (dump_map db)((pk, s) \<mapsto> (n, e, t))) (pk', s')" for pk' s'
  proof (cases "dump_map db (pk', s')")
    case None
    then have "dump_map (update_dump pk s n t db) (pk', s') = None"
      by (auto simp: dump_map_def u r(2) split: option.splits)
    with None show ?thesis by (auto split: option.splits)
  next
    case (Some x)
    then obtain i d where id: "recipient_of db pk' = Some i" "dump_row_of db i s' = Some d" "x = (pd_next_id d, pd_end_id d, pd_next_attempt d)"
      unfolding dump_map_eq by blast
    have d: "pd_recipient d = i" "pd_swarm d = sint s'" using id(2) unfolding dump_row_of_iff [OF ok] by simp_all
    have "dump_map (update_dump pk s n t db) (pk', s') = Some (pd_next_id (f d), pd_end_id (f d), pd_next_attempt (f d))"
      using id by (simp add: dump_map_def u r(2))
    moreover have "Some (pd_recipient d) = recipient_of db pk \<and> pd_swarm d = sint s \<longleftrightarrow> (pk', s') = (pk, s)"
      using d id(1) recipient_inj [OF ok id(1), of pk] by (auto simp: sint_u64_inj)
    ultimately show ?thesis using Some id by (auto simp: f_def split: option.splits)
  qed
  then show "dump_map (update_dump pk s n t db) = (case dump_map db (pk, s) of
       None \<Rightarrow> dump_map db | Some (_, e, _) \<Rightarrow> (dump_map db)((pk, s) \<mapsto> (n, e, t)))" by auto
qed

lemma remove_dump_spec:
  assumes ok: "db_pending_ok db"
  shows "db_pending_ok (remove_dump pk s db)" and "pending_only db (remove_dump pk s db)"
    and "dump_map (remove_dump pk s db) = (dump_map db)((pk, s) := None)"
proof -
  define Q :: "dump_row \<Rightarrow> bool" where "Q = (\<lambda>d. \<not> (Some (pd_recipient d) = recipient_of db pk \<and> pd_swarm d = sint s))"
  have u: "remove_dump pk s db = db\<lparr>pending_dumps := filter Q (pending_dumps db)\<rparr>" by (simp add: remove_dump_def Q_def)
  show ok': "db_pending_ok (remove_dump pk s db)"
    unfolding u using pendingD [OF ok] by (auto simp: db_pending_ok_def pending_ok_def distinct_map_filterI)
  show "pending_only db (remove_dump pk s db)" unfolding u by (rule pending_onlyI)
  have "dump_map (remove_dump pk s db) (pk', s') = Some x \<longleftrightarrow> ((dump_map db)((pk, s) := None)) (pk', s') = Some x" for pk' s' x
  proof -
    have "dump_map (remove_dump pk s db) (pk', s') = Some x \<longleftrightarrow> (\<exists>i d. recipient_of db pk' = Some i \<and> dump_row_of db i s' = Some d \<and> Q d
        \<and> x = (pd_next_id d, pd_end_id d, pd_next_attempt d))"
      unfolding dump_map_eq dump_row_of_iff [OF ok'] dump_row_of_iff [OF ok] by (auto simp: u)
    also have "\<dots> \<longleftrightarrow> (pk', s') \<noteq> (pk, s) \<and> dump_map db (pk', s') = Some x"
    proof -
      have "Q d \<longleftrightarrow> (pk', s') \<noteq> (pk, s)" if "recipient_of db pk' = Some i" "dump_row_of db i s' = Some d" for i d
        using that recipient_inj [OF ok that(1), of pk] unfolding dump_row_of_iff [OF ok] by (auto simp: Q_def sint_u64_inj)
      then show ?thesis unfolding dump_map_eq by blast
    qed
    finally show ?thesis by auto
  qed
  then show "dump_map (remove_dump pk s db) = (dump_map db)((pk, s) := None)"
    by (intro ext) (metis not_Some_eq surj_pair)
qed

lemma insert_recipient_map:
  assumes ok: "db_pending_ok db"
  shows "dump_map (insert_pending_recipient pk db) = dump_map db"
proof -
  note i = insert_recipient_spec [OF ok]
  have row: "dump_row_of (insert_pending_recipient pk db) j s = dump_row_of db j s" for j s
    by (simp add: dump_row_of_def i(4))
  have new: "dump_row_of db (next_rowid (map pr_id (pending_recipients db))) s = None" for s
  proof (rule ccontr)
    assume "dump_row_of db (next_rowid (map pr_id (pending_recipients db))) s \<noteq> None"
    then obtain d where "d \<in> set (pending_dumps db)" "pd_recipient d = next_rowid (map pr_id (pending_recipients db))"
      unfolding not_None_eq dump_row_of_iff [OF ok] by blast
    moreover from this have "pd_recipient d \<in> pr_id ` set (pending_recipients db)" using pendingD(5) [OF ok] by blast
    ultimately show False using next_rowid_greater [of "pd_recipient d" "map pr_id (pending_recipients db)"] by simp
  qed
  show ?thesis unfolding dump_map_def row by (intro ext) (auto simp: i(3) new)
qed

lemma queue_dump_spec:
  assumes ok: "db_pending_ok db"
  shows "db_pending_ok (queue_dump pk s e db)" and "pending_only db (queue_dump pk s e db)"
    and "dump_map (queue_dump pk s e db) =
       (dump_map db)((pk, s) \<mapsto> (1, case dump_map db (pk, s) of Some (_, e', _) \<Rightarrow> max e' e | None \<Rightarrow> e, 0))"
proof -
  define db1 where "db1 = insert_pending_recipient pk db"
  have ok1: "db_pending_ok db1" and only: "pending_only db db1" and m1: "dump_map db1 = dump_map db"
    unfolding db1_def using insert_recipient_spec [OF ok] insert_recipient_map [OF ok] by blast+
  have "recipient_of db1 pk \<noteq> None" unfolding db1_def insert_recipient_spec(3) [OF ok] by simp
  then obtain r where r: "recipient_of db1 pk = Some r" by blast
  have key: "recipient_of db1 pk' = Some r \<longleftrightarrow> pk' = pk" for pk' using recipient_inj [OF ok1 r, of pk'] r by auto
  have "db_pending_ok (queue_dump pk s e db) \<and> pending_only db1 (queue_dump pk s e db)
     \<and> dump_map (queue_dump pk s e db) =
       (dump_map db1)((pk, s) \<mapsto> (1, case dump_map db1 (pk, s) of Some (_, e', _) \<Rightarrow> max e' e | None \<Rightarrow> e, 0))"
  proof (cases "dump_row_of db1 r s")
    case None
    have none: "\<not> list_ex (\<lambda>d. pd_recipient d = r \<and> pd_swarm d = sint s) (pending_dumps db1)"
      using None by (auto simp: dump_row_of_def find_None_all list_ex_iff)
    define d where "d = \<lparr>pd_recipient = r, pd_swarm = sint s, pd_next_id = 1, pd_end_id = e, pd_next_attempt = 0\<rparr>"
    have q: "queue_dump pk s e db = db1\<lparr>pending_dumps := pending_dumps db1 @ [d]\<rparr>"
      using none r by (simp add: queue_dump_def Let_def db1_def [symmetric] d_def)
    have ok2: "db_pending_ok (queue_dump pk s e db)"
      using pendingD [OF ok1] none r unfolding q recipient_of_iff [OF ok1] by (auto simp: db_pending_ok_def pending_ok_def d_def list_ex_iff)
    have row: "dump_row_of (queue_dump pk s e db) i s' = (if i = r \<and> s' = s then Some d else dump_row_of db1 i s')" for i s'
      using None unfolding q dump_row_of_def by (auto simp: find_append d_def sint_u64_inj split: option.splits)
    have "dump_map (queue_dump pk s e db) (pk', s') = ((dump_map db1)((pk, s) \<mapsto> (1, e, 0))) (pk', s')" for pk' s'
      using key [of pk'] r row unfolding dump_map_def by (auto simp: q d_def split: option.splits)
    moreover have "dump_map db1 (pk, s) = None" using None r by (simp add: dump_map_def)
    ultimately show ?thesis using ok2 by (auto simp: q pending_onlyI)
  next
    case (Some d)
    then have some: "list_ex (\<lambda>d. pd_recipient d = r \<and> pd_swarm d = sint s) (pending_dumps db1)"
      unfolding dump_row_of_iff [OF ok1] by (auto simp: list_ex_iff)
    define f :: "dump_row \<Rightarrow> dump_row" where "f = (\<lambda>d. if pd_recipient d = r \<and> pd_swarm d = sint s
        then d\<lparr>pd_next_id := 1, pd_end_id := max (pd_end_id d) e, pd_next_attempt := 0\<rparr> else d)"
    have q: "queue_dump pk s e db = db1\<lparr>pending_dumps := map f (pending_dumps db1)\<rparr>"
      using some r by (simp add: queue_dump_def Let_def db1_def [symmetric] f_def)
    have fk: "pd_recipient (f d) = pd_recipient d \<and> pd_swarm (f d) = pd_swarm d" for d by (simp add: f_def)
    note u = update_dump_rows [OF ok1 fk]
    have row: "dump_row_of (queue_dump pk s e db) i s' = (if i = r \<and> s' = s then Some (f d) else dump_row_of db1 i s')" for i s'
    proof -
      have "f d' = d'" if "dump_row_of db1 i s' = Some d'" "\<not> (i = r \<and> s' = s)" for d'
        using that unfolding dump_row_of_iff [OF ok1] by (auto simp: f_def sint_u64_inj)
      then show ?thesis using Some unfolding q u(2) by (cases "dump_row_of db1 i s'") auto
    qed
    have fd: "f d = d\<lparr>pd_next_id := 1, pd_end_id := max (pd_end_id d) e, pd_next_attempt := 0\<rparr>"
      using Some unfolding dump_row_of_iff [OF ok1] by (simp add: f_def)
    have "dump_map (queue_dump pk s e db) (pk', s') = ((dump_map db1)((pk, s) \<mapsto> (1, max (pd_end_id d) e, 0))) (pk', s')" for pk' s'
      using key [of pk'] r row fd unfolding dump_map_def by (auto simp: q split: option.splits)
    moreover have "dump_map db1 (pk, s) = Some (pd_next_id d, pd_end_id d, pd_next_attempt d)" using Some r by (simp add: dump_map_def)
    ultimately show ?thesis using u(1) by (auto simp: q pending_onlyI)
  qed
  then show "db_pending_ok (queue_dump pk s e db)" and "pending_only db (queue_dump pk s e db)"
    and "dump_map (queue_dump pk s e db) =
       (dump_map db)((pk, s) \<mapsto> (1, case dump_map db (pk, s) of Some (_, e', _) \<Rightarrow> max e' e | None \<Rightarrow> e, 0))"
    using pending_only_trans [OF only] unfolding m1 by blast+
qed

lemma clean_recipients_spec:
  assumes ok: "db_pending_ok db"
  shows "db_pending_ok (clean_pending_recipients db)" and "pending_only db (clean_pending_recipients db)"
    and "dump_map (clean_pending_recipients db) = dump_map db"
proof -
  define db' where "db' = clean_pending_recipients db"
  define used where "used = (\<lambda>i. (\<exists>d \<in> set (pending_dumps db). pd_recipient d = i) \<or> (\<exists>d \<in> set (pending_deliveries db). dl_recipient d = i))"
  have c: "db' = db\<lparr>pending_recipients := filter (\<lambda>p. used (pr_id p)) (pending_recipients db)\<rparr>"
    by (simp add: db'_def clean_pending_recipients_def used_def list_ex_iff)
  have ids: "pr_id ` set (pending_recipients db') = {i \<in> pr_id ` set (pending_recipients db). used i}" by (auto simp: c)
  have refs: "\<forall>d \<in> set (pending_dumps db). used (pd_recipient d)" "\<forall>d \<in> set (pending_deliveries db). used (dl_recipient d)"
    by (auto simp: used_def)
  have "sorted_wrt (<) (map pr_id (pending_recipients db'))" "\<forall>r \<in> set (pending_recipients db'). 0 < pr_id r"
      "distinct (map pr_pubkey (pending_recipients db'))" "pending_dumps db' = pending_dumps db"
      "pending_deliveries db' = pending_deliveries db" "messages db' = messages db"
    using pendingD [OF ok] by (simp_all add: c sorted_wrt_map_filter distinct_map_filterI)
  then have ok': "db_pending_ok db'"
    using pendingD(4-7) [OF ok] refs unfolding db_pending_ok_def pending_ok_def ids by simp
  have rec: "recipient_of db' pk = Some i \<longleftrightarrow> recipient_of db pk = Some i \<and> used i" for pk i
    unfolding recipient_of_iff [OF ok] recipient_of_iff [OF ok'] by (auto simp: c)
  have row: "dump_row_of db' i s = dump_row_of db i s" for i s by (simp add: dump_row_of_def c)
  have "used i" if "dump_row_of db i s = Some d" for i s d
    using that unfolding dump_row_of_iff [OF ok] used_def by blast
  then have "dump_map db' x = Some y \<longleftrightarrow> dump_map db x = Some y" for x y
    by (cases x) (auto simp: dump_map_eq rec row)
  then have "dump_map db' = dump_map db" by (intro ext) (metis not_Some_eq)
  then show "db_pending_ok (clean_pending_recipients db)" and "pending_only db (clean_pending_recipients db)"
    and "dump_map (clean_pending_recipients db) = dump_map db"
    using ok' pending_onlyI(1) unfolding db'_def clean_pending_recipients_def by auto
qed

section \<open>Deliveries by node and message\<close>

text \<open>
  The pending deliveries as pairs of a node and the hash of a message.
\<close>

definition delivery_set :: "database \<Rightarrow> (legacy_pubkey \<times> string) set" where
  "delivery_set db = {(pk, h). \<exists>d \<in> set (pending_deliveries db). recipient_of db pk = Some (dl_recipient d)
     \<and> (\<exists>r \<in> set (messages db). m_id r = dl_message d \<and> m_hash r = h)}"

lemma delivery_set_iff:
  "(pk, h) \<in> delivery_set db \<longleftrightarrow> (\<exists>i. recipient_of db pk = Some i \<and> (\<exists>r \<in> set (messages db). m_hash r = h
     \<and> \<lparr>dl_recipient = i, dl_message = m_id r\<rparr> \<in> set (pending_deliveries db)))"
proof
  assume "(pk, h) \<in> delivery_set db"
  then obtain d r where d: "d \<in> set (pending_deliveries db)" "recipient_of db pk = Some (dl_recipient d)" "r \<in> set (messages db)"
      "m_id r = dl_message d" "m_hash r = h"
    by (auto simp: delivery_set_def)
  then have "d = \<lparr>dl_recipient = dl_recipient d, dl_message = m_id r\<rparr>" by simp
  then show "\<exists>i. recipient_of db pk = Some i \<and> (\<exists>r \<in> set (messages db). m_hash r = h
     \<and> \<lparr>dl_recipient = i, dl_message = m_id r\<rparr> \<in> set (pending_deliveries db))" using d by metis
next
  assume "\<exists>i. recipient_of db pk = Some i \<and> (\<exists>r \<in> set (messages db). m_hash r = h
     \<and> \<lparr>dl_recipient = i, dl_message = m_id r\<rparr> \<in> set (pending_deliveries db))"
  then show "(pk, h) \<in> delivery_set db" by (force simp: delivery_set_def)
qed

lemma queue_sql_None:
  assumes "recipient_of db pk = None"
  shows "queue_delivery_sql pk hash db = (db, 0)"
proof -
  have "filter (\<lambda>p. pr_pubkey p = pk) (pending_recipients db) = []"
    using assms unfolding recipient_of_None by (auto simp: filter_empty_conv)
  then show ?thesis by (simp add: queue_delivery_sql_def)
qed

lemma queue_sql_Some:
  assumes ok: "db_pending_ok db" and ms: "messages_ok os (messages db)" and i: "recipient_of db pk = Some i"
  shows "queue_delivery_sql pk hash db = (case find_hash db hash of
       Some r \<Rightarrow> if \<lparr>dl_recipient = i, dl_message = m_id r\<rparr> \<in> set (pending_deliveries db) then (db, 0)
                 else (db\<lparr>pending_deliveries := pending_deliveries db @ [\<lparr>dl_recipient = i, dl_message = m_id r\<rparr>]\<rparr>, 1)
     | None \<Rightarrow> (db, 0))"
proof -
  obtain p where p: "p \<in> set (pending_recipients db)" "pr_pubkey p = pk" "pr_id p = i"
    using i unfolding recipient_of_iff [OF ok] by blast
  have fp: "filter (\<lambda>p. pr_pubkey p = pk) (pending_recipients db) = [p]"
    using filter_unique [OF pendingD(3) [OF ok] p(1)] p(2) by simp
  have d: "distinct (map m_hash (messages db))" using ms by (simp add: messages_ok_def)
  show ?thesis
  proof (cases "find_hash db hash")
    case None
    then have "filter (\<lambda>r. m_hash r = hash) (messages db) = []" by (auto simp: find_hash_def find_None_all filter_empty_conv)
    then show ?thesis using None by (simp add: queue_delivery_sql_def fp)
  next
    case (Some r)
    then have r: "r \<in> set (messages db)" "m_hash r = hash" by (auto simp: find_hash_def find_Some_iff)
    have "filter (\<lambda>r. m_hash r = hash) (messages db) = [r]" using filter_unique [OF d r(1)] r(2) by simp
    then show ?thesis using Some p(3) by (simp add: queue_delivery_sql_def fp Let_def)
  qed
qed

lemma delivery_set_frame:
  assumes "messages db' = messages db" "pending_deliveries db' = pending_deliveries db"
    and "\<And>pk i. i \<in> dl_recipient ` set (pending_deliveries db) \<Longrightarrow> recipient_of db' pk = Some i \<longleftrightarrow> recipient_of db pk = Some i"
  shows "delivery_set db' = delivery_set db"
  using assms unfolding delivery_set_def by auto

lemma dump_map_frame: "dump_map (db\<lparr>pending_deliveries := dl\<rparr>) = dump_map db"
proof -
  have row: "dump_row_of (db\<lparr>pending_deliveries := dl\<rparr>) i s = dump_row_of db i s" for i s by (simp add: dump_row_of_def)
  show ?thesis unfolding dump_map_def row recipient_of_frame ..
qed

lemma insert_recipient_deliveries:
  assumes ok: "db_pending_ok db"
  shows "delivery_set (insert_pending_recipient pk db) = delivery_set db"
proof (rule delivery_set_frame)
  fix pk' i assume "i \<in> dl_recipient ` set (pending_deliveries db)"
  then have "i < next_rowid (map pr_id (pending_recipients db))"
    using pendingD(7) [OF ok] by (intro next_rowid_greater) auto
  moreover have "recipient_of db pk' = None" if "pk' = pk" "recipient_of db pk = None" using that by simp
  ultimately show "recipient_of (insert_pending_recipient pk db) pk' = Some i \<longleftrightarrow> recipient_of db pk' = Some i"
    unfolding insert_recipient_spec(3) [OF ok] by auto
qed (simp_all add: insert_pending_recipient_def)

lemma add_delivery:
  assumes ok: "db_pending_ok db" and ms: "messages_ok os (messages db)" and i: "recipient_of db pk = Some i" and r: "r \<in> set (messages db)"
    and new: "\<lparr>dl_recipient = i, dl_message = m_id r\<rparr> \<notin> set (pending_deliveries db)"
  defines "db' \<equiv> db\<lparr>pending_deliveries := pending_deliveries db @ [\<lparr>dl_recipient = i, dl_message = m_id r\<rparr>]\<rparr>"
  shows "db_pending_ok db'" and "pending_only db db'" and "delivery_set db' = insert (pk, m_hash r) (delivery_set db)"
proof -
  have "(dl_recipient d, dl_message d) \<noteq> (i, m_id r)" if "d \<in> set (pending_deliveries db)" for d
    using new that by (cases d) auto
  moreover have "i \<in> pr_id ` set (pending_recipients db)" using i unfolding recipient_of_iff [OF ok] by blast
  ultimately show "db_pending_ok db'"
    using pendingD [OF ok] r by (auto simp: db_pending_ok_def pending_ok_def db'_def)
  show "pending_only db db'" unfolding db'_def by (rule pending_onlyI)
  have rk: "recipient_of db pk' = Some i \<longleftrightarrow> pk' = pk" for pk' using recipient_inj [OF ok i, of pk'] i by auto
  have si: "sorted_wrt (<) (map m_id (messages db))" using ms by (simp add: messages_ok_def)
  have rm: "m_id r' = m_id r \<longleftrightarrow> r' = r" if "r' \<in> set (messages db)" for r'
    using sorted_map_inj [OF si that r] by blast
  have mem: "(pk', h) \<in> delivery_set db' \<longleftrightarrow> (pk', h) \<in> delivery_set db \<or> recipient_of db pk' = Some i \<and> (\<exists>r' \<in> set (messages db). m_id r' = m_id r \<and> m_hash r' = h)" for pk' h
    unfolding delivery_set_def db'_def by auto
  have one: "(\<exists>r' \<in> set (messages db). m_id r' = m_id r \<and> m_hash r' = h) \<longleftrightarrow> m_hash r = h" for h
  proof
    assume "\<exists>r' \<in> set (messages db). m_id r' = m_id r \<and> m_hash r' = h"
    then show "m_hash r = h" using rm by blast
  next
    assume "m_hash r = h"
    then show "\<exists>r' \<in> set (messages db). m_id r' = m_id r \<and> m_hash r' = h" using r by blast
  qed
  show "delivery_set db' = insert (pk, m_hash r) (delivery_set db)"
    by (rule set_eqI) (simp only: split_paired_all mem rk one insert_iff prod.inject, blast)
qed

lemma queue_delivery_spec:
  assumes ok: "db_pending_ok db" and ms: "messages_ok os (messages db)"
  shows "db_pending_ok (queue_delivery pk hash db) \<and> pending_only db (queue_delivery pk hash db)
     \<and> delivery_set (queue_delivery pk hash db) =
         (if hash \<in> m_hash ` set (messages db) then insert (pk, hash) (delivery_set db) else delivery_set db)
     \<and> dump_map (queue_delivery pk hash db) = dump_map db
     \<and> (hash \<notin> m_hash ` set (messages db) \<or> (pk, hash) \<in> delivery_set db \<longrightarrow> queue_delivery pk hash db = db)"
proof -
  define db1 where "db1 = insert_pending_recipient pk db"
  have i1: "db_pending_ok db1" "pending_only db db1" "dump_map db1 = dump_map db" "delivery_set db1 = delivery_set db"
    unfolding db1_def using insert_recipient_spec [OF ok] insert_recipient_map [OF ok] insert_recipient_deliveries [OF ok] by blast+
  have m1: "messages db1 = messages db" "pending_deliveries db1 = pending_deliveries db" by (simp_all add: db1_def insert_pending_recipient_def)
  have f1: "find_hash db1 hash = find_hash db hash" by (simp add: find_hash_def m1)
  have "recipient_of db1 pk \<noteq> None" unfolding db1_def insert_recipient_spec(3) [OF ok] by simp
  then obtain i where i: "recipient_of db1 pk = Some i" by blast
  note q1 = queue_sql_Some [OF i1(1) ms [folded m1(1)] i, of hash, unfolded f1]
  show ?thesis
  proof (cases "find_hash db hash")
    case None
    then have "queue_delivery_sql pk hash db = (db, 0)"
      by (cases "recipient_of db pk") (simp_all add: queue_sql_None queue_sql_Some [OF ok ms])
    with None q1 have "queue_delivery pk hash db = db" by (simp add: queue_delivery_def db1_def)
    then show ?thesis using None ok find_hash_None [of db hash] pending_onlyI(4) by simp
  next
    case (Some r)
    note r = find_hash_Some [OF Some]
    have dist: "r' = r" if "r' \<in> set (messages db)" "m_hash r' = hash" for r'
      using ms r that by (auto simp: messages_ok_def distinct_map dest: inj_onD)
    have mem: "(pk, hash) \<in> delivery_set db \<longleftrightarrow> (\<exists>j. recipient_of db pk = Some j \<and> \<lparr>dl_recipient = j, dl_message = m_id r\<rparr> \<in> set (pending_deliveries db))"
      unfolding delivery_set_iff using dist r by blast
    have known: "hash \<in> m_hash ` set (messages db)" using r by blast
    show ?thesis
    proof (cases "recipient_of db pk")
      case None
      with i have "i = next_rowid (map pr_id (pending_recipients db))" unfolding db1_def insert_recipient_spec(3) [OF ok] by simp
      then have new: "\<lparr>dl_recipient = i, dl_message = m_id r\<rparr> \<notin> set (pending_deliveries db1)"
        using pendingD(7) [OF ok] next_rowid_greater [of i "map pr_id (pending_recipients db)"] unfolding m1 by fastforce
      then have "queue_delivery pk hash db = db1\<lparr>pending_deliveries := pending_deliveries db1 @ [\<lparr>dl_recipient = i, dl_message = m_id r\<rparr>]\<rparr>"
        using Some q1 queue_sql_None [OF None] by (simp add: queue_delivery_def db1_def)
      then show ?thesis
        using add_delivery [OF i1(1) ms [folded m1(1)] i _ new] r known mem None i1 pending_only_trans [OF i1(2)] by (simp add: m1 dump_map_frame)
    next
      case rec: (Some j)
      then have "db1 = db" unfolding db1_def insert_pending_recipient_def recipient_of_def by (auto simp: list_ex_iff dest: find_Some_in)
      note q = queue_sql_Some [OF ok ms rec, of hash, unfolded Some option.case]
      show ?thesis
      proof (cases "\<lparr>dl_recipient = j, dl_message = m_id r\<rparr> \<in> set (pending_deliveries db)")
        case True
        then have "queue_delivery pk hash db = db" using q \<open>db1 = db\<close> by (simp add: queue_delivery_def db1_def)
        then show ?thesis using True known mem rec ok pending_onlyI(4) by auto
      next
        case False
        then have "queue_delivery pk hash db = db\<lparr>pending_deliveries := pending_deliveries db @ [\<lparr>dl_recipient = j, dl_message = m_id r\<rparr>]\<rparr>"
          using q by (simp add: queue_delivery_def)
        then show ?thesis using add_delivery [OF ok ms rec _ False] r known mem rec False by (simp add: dump_map_frame)
      qed
    qed
  qed
qed

lemma remove_delivery_rows:
  assumes ok: "db_pending_ok db"
  shows "db_pending_ok (db\<lparr>pending_deliveries := filter P (pending_deliveries db)\<rparr>)"
    and "pending_only db (db\<lparr>pending_deliveries := filter P (pending_deliveries db)\<rparr>)"
  using pendingD [OF ok] by (auto simp: db_pending_ok_def pending_ok_def distinct_map_filterI pending_onlyI)

lemma remove_ids_eq:
  assumes "recipient_of db pk = Some j"
  shows "remove_deliveries_ids pk ids db = db\<lparr>pending_deliveries :=
     filter (\<lambda>d. \<not> (dl_recipient d = j \<and> dl_message d \<in> set ids)) (pending_deliveries db)\<rparr>"
proof -
  have "fold (\<lambda>i db. db\<lparr>pending_deliveries := filter (\<lambda>d. \<not> (dl_recipient d = j \<and> dl_message d = i)) (pending_deliveries db)\<rparr>) ids db =
      db\<lparr>pending_deliveries := filter (\<lambda>d. \<not> (dl_recipient d = j \<and> dl_message d \<in> set ids)) (pending_deliveries db)\<rparr>" for db
  proof (induction ids arbitrary: db)
    case (Cons i ids)
    have "filter (\<lambda>d. \<not> (dl_recipient d = j \<and> dl_message d \<in> set ids)) (filter (\<lambda>d. \<not> (dl_recipient d = j \<and> dl_message d = i)) dl)
        = filter (\<lambda>d. \<not> (dl_recipient d = j \<and> dl_message d \<in> set (i # ids))) dl" for dl :: "delivery_row list"
      unfolding filter_filter by (intro filter_cong refl) auto
    then show ?case unfolding fold_simps(2) Cons.IH by simp
  qed simp
  then show ?thesis using assms by (simp add: remove_deliveries_ids_def)
qed

lemma remove_ids_spec:
  assumes ok: "db_pending_ok db" and ms: "messages_ok os (messages db)"
  shows "db_pending_ok (remove_deliveries_ids pk ids db)" and "pending_only db (remove_deliveries_ids pk ids db)"
    and "delivery_set (remove_deliveries_ids pk ids db) =
       delivery_set db - {pk} \<times> {m_hash r | r. r \<in> set (messages db) \<and> m_id r \<in> set ids}"
    and "dump_map (remove_deliveries_ids pk ids db) = dump_map db"
proof -
  have "db_pending_ok (remove_deliveries_ids pk ids db) \<and> pending_only db (remove_deliveries_ids pk ids db)
    \<and> delivery_set (remove_deliveries_ids pk ids db) =
       delivery_set db - {pk} \<times> {m_hash r | r. r \<in> set (messages db) \<and> m_id r \<in> set ids}
    \<and> dump_map (remove_deliveries_ids pk ids db) = dump_map db"
  proof (cases "recipient_of db pk")
    case None
    then have "remove_deliveries_ids pk ids db = db" by (simp add: remove_deliveries_ids_def)
    moreover have "(pk, h) \<notin> delivery_set db" for h using None by (simp add: delivery_set_iff)
    ultimately show ?thesis using ok pending_onlyI(4) by auto
  next
    case (Some j)
    note e = remove_ids_eq [OF Some, of ids]
    have rk: "recipient_of db pk' = Some j \<longleftrightarrow> pk' = pk" for pk' using recipient_inj [OF ok Some, of pk'] Some by auto
    have rm: "r' = r" if "r \<in> set (messages db)" "r' \<in> set (messages db)" "m_hash r' = m_hash r" for r r'
      using ms that by (auto simp: messages_ok_def distinct_map dest: inj_onD)
    have "(pk', h) \<in> delivery_set (remove_deliveries_ids pk ids db) \<longleftrightarrow>
        (pk', h) \<in> delivery_set db - {pk} \<times> {m_hash r | r. r \<in> set (messages db) \<and> m_id r \<in> set ids}" for pk' h
    proof -
      have "(pk', h) \<in> delivery_set (remove_deliveries_ids pk ids db) \<longleftrightarrow> (\<exists>i. recipient_of db pk' = Some i \<and> (\<exists>r \<in> set (messages db). m_hash r = h
          \<and> \<lparr>dl_recipient = i, dl_message = m_id r\<rparr> \<in> set (pending_deliveries db) \<and> \<not> (i = j \<and> m_id r \<in> set ids)))"
        unfolding delivery_set_iff by (auto simp: e)
      also have "\<dots> \<longleftrightarrow> (\<exists>i. recipient_of db pk' = Some i \<and> (\<exists>r \<in> set (messages db). m_hash r = h
          \<and> \<lparr>dl_recipient = i, dl_message = m_id r\<rparr> \<in> set (pending_deliveries db))) \<and> \<not> (pk' = pk \<and> (\<exists>r \<in> set (messages db). m_hash r = h \<and> m_id r \<in> set ids))"
        using rm unfolding rk [symmetric] by (metis option.inject)
      finally show ?thesis unfolding delivery_set_iff [symmetric] by blast
    qed
    then have "delivery_set (remove_deliveries_ids pk ids db) =
        delivery_set db - {pk} \<times> {m_hash r | r. r \<in> set (messages db) \<and> m_id r \<in> set ids}" by auto
    then show ?thesis using remove_delivery_rows [OF ok] by (simp add: e dump_map_frame)
  qed
  then show "db_pending_ok (remove_deliveries_ids pk ids db)" and "pending_only db (remove_deliveries_ids pk ids db)"
    and "delivery_set (remove_deliveries_ids pk ids db) =
       delivery_set db - {pk} \<times> {m_hash r | r. r \<in> set (messages db) \<and> m_id r \<in> set ids}"
    and "dump_map (remove_deliveries_ids pk ids db) = dump_map db" by blast+
qed

lemma remove_deliveries_spec:
  assumes ok: "db_pending_ok db"
  shows "db_pending_ok (remove_deliveries pk db)" and "pending_only db (remove_deliveries pk db)"
    and "delivery_set (remove_deliveries pk db) = {(pk', h) \<in> delivery_set db. pk' \<noteq> pk}"
    and "dump_map (remove_deliveries pk db) = dump_map db"
proof -
  show "db_pending_ok (remove_deliveries pk db)" "pending_only db (remove_deliveries pk db)"
    unfolding remove_deliveries_def by (rule remove_delivery_rows [OF ok])+
  show "dump_map (remove_deliveries pk db) = dump_map db" unfolding remove_deliveries_def by (rule dump_map_frame)
  have "(pk', h) \<in> delivery_set (remove_deliveries pk db) \<longleftrightarrow> (pk', h) \<in> delivery_set db \<and> pk' \<noteq> pk" for pk' h
  proof -
    have rk: "Some i \<noteq> recipient_of db pk \<longleftrightarrow> pk' \<noteq> pk" if "recipient_of db pk' = Some i" for i
      using recipient_inj [OF ok that, of pk] that by auto
    have "(pk', h) \<in> delivery_set (remove_deliveries pk db) \<longleftrightarrow> (\<exists>i. recipient_of db pk' = Some i \<and> Some i \<noteq> recipient_of db pk
        \<and> (\<exists>r \<in> set (messages db). m_hash r = h \<and> \<lparr>dl_recipient = i, dl_message = m_id r\<rparr> \<in> set (pending_deliveries db)))"
      unfolding delivery_set_iff by (auto simp: remove_deliveries_def)
    then show ?thesis unfolding delivery_set_iff using rk by blast
  qed
  then show "delivery_set (remove_deliveries pk db) = {(pk', h) \<in> delivery_set db. pk' \<noteq> pk}" by auto
qed

lemma clean_recipients_deliveries:
  assumes ok: "db_pending_ok db"
  shows "delivery_set (clean_pending_recipients db) = delivery_set db"
proof (rule delivery_set_frame)
  fix pk i assume "i \<in> dl_recipient ` set (pending_deliveries db)"
  then have "\<exists>d \<in> set (pending_deliveries db). dl_recipient d = i" by blast
  then show "recipient_of (clean_pending_recipients db) pk = Some i \<longleftrightarrow> recipient_of db pk = Some i"
    unfolding recipient_of_iff [OF ok] recipient_of_iff [OF clean_recipients_spec(1) [OF ok]]
    unfolding clean_pending_recipients_def list_ex_iff by fastforce
qed (simp_all add: clean_pending_recipients_def)

lemma delivery_peers_set:
  assumes ok: "db_pending_ok db"
  shows "set (delivery_peers db) = fst ` delivery_set db"
proof -
  have "pk \<in> set (delivery_peers db) \<longleftrightarrow> (\<exists>h. (pk, h) \<in> delivery_set db)" for pk
  proof -
    have "pk \<in> set (delivery_peers db) \<longleftrightarrow> (\<exists>p \<in> set (pending_recipients db). pr_pubkey p = pk \<and> (\<exists>d \<in> set (pending_deliveries db). dl_recipient d = pr_id p))"
      by (auto simp: delivery_peers_def list_ex_iff)
    also have "\<dots> \<longleftrightarrow> (\<exists>d \<in> set (pending_deliveries db). recipient_of db pk = Some (dl_recipient d))"
      unfolding recipient_of_iff [OF ok] by metis
    also have "\<dots> \<longleftrightarrow> (\<exists>d \<in> set (pending_deliveries db). recipient_of db pk = Some (dl_recipient d) \<and> (\<exists>r \<in> set (messages db). m_id r = dl_message d))"
      using pendingD(7) [OF ok] by (metis (no_types, lifting) imageE)
    also have "\<dots> \<longleftrightarrow> (\<exists>h. (pk, h) \<in> delivery_set db)" by (auto simp: delivery_set_def)
    finally show ?thesis .
  qed
  then show ?thesis by force
qed

lemma delivery_rows_set:
  assumes ok: "tables_ok lb db"
  shows "x \<in> set (delivery_rows now pk db) \<longleftrightarrow> (\<exists>r \<in> set (messages db). x = (owner_row_of db r, r) \<and> m_expiry r > to_epoch_ms now
     \<and> (\<exists>i. recipient_of db pk = Some i \<and> \<lparr>dl_recipient = i, dl_message = m_id r\<rparr> \<in> set (pending_deliveries db)))"
proof -
  have row: "(\<exists>d \<in> set (pending_deliveries db). m_id r = dl_message d \<and> Some (dl_recipient d) = recipient_of db pk) \<longleftrightarrow>
      (\<exists>i. recipient_of db pk = Some i \<and> \<lparr>dl_recipient = i, dl_message = m_id r\<rparr> \<in> set (pending_deliveries db))" for r
  proof
    assume "\<exists>d \<in> set (pending_deliveries db). m_id r = dl_message d \<and> Some (dl_recipient d) = recipient_of db pk"
    then obtain d where d: "d \<in> set (pending_deliveries db)" "m_id r = dl_message d" "Some (dl_recipient d) = recipient_of db pk" by blast
    from d(2) have "d = \<lparr>dl_recipient = dl_recipient d, dl_message = m_id r\<rparr>" by simp
    then show "\<exists>i. recipient_of db pk = Some i \<and> \<lparr>dl_recipient = i, dl_message = m_id r\<rparr> \<in> set (pending_deliveries db)"
      using d(1,3) by metis
  qed force
  have "x \<in> set (delivery_rows now pk db) \<longleftrightarrow> (\<exists>r \<in> set (messages db). x = (owner_row_of db r, r) \<and> m_expiry r > to_epoch_ms now
     \<and> (\<exists>d \<in> set (pending_deliveries db). m_id r = dl_message d \<and> Some (dl_recipient d) = recipient_of db pk))"
    unfolding delivery_rows_def join_owners_eq [OF ok] by auto
  then show ?thesis unfolding row .
qed

lemma dump_message_hash [simp]: "msg_hash (dump_message db r) = m_hash r"
  by (simp add: dump_message_def apply_deferred_msg_def row_message_def split: option.splits)

lemma delivery_batch_spec:
  assumes ok: "tables_ok lb db" and b: "0 < budget" and n: "next_delivery_batch now pk budget db = (msgs, ids)"
  shows "\<exists>rs. set rs \<subseteq> set (messages db) \<and> ids = map m_id rs \<and> msgs = map (dump_message db) rs
     \<and> (\<forall>r \<in> set rs. (pk, m_hash r) \<in> delivery_set db \<and> m_expiry r > to_epoch_ms now)
     \<and> (rs = [] \<longrightarrow> (\<forall>r \<in> set (messages db). (pk, m_hash r) \<in> delivery_set db \<longrightarrow> m_expiry r \<le> to_epoch_ms now))"
proof -
  obtain k where k: "batch_loop budget (delivery_rows now pk db) 0 = take k (delivery_rows now pk db)"
      "delivery_rows now pk db \<noteq> [] \<longrightarrow> 0 < k"
    using batch_loop_take [of "delivery_rows now pk db" budget 0] b by auto
  define rs where "rs = map snd (take k (delivery_rows now pk db))"
  have mem: "x \<in> set (delivery_rows now pk db)" if "x \<in> set (take k (delivery_rows now pk db))" for x
    using that by (rule in_set_takeD)
  have pair: "(owner_row_of db r, r) \<in> set (delivery_rows now pk db)" if "r \<in> set rs" for r
    using that mem unfolding rs_def by (force simp: delivery_rows_set [OF ok])
  have "take k (delivery_rows now pk db) = map (\<lambda>r. (owner_row_of db r, r)) rs"
    unfolding rs_def map_map comp_def by (rule map_idI [symmetric]) (use mem in \<open>auto simp: delivery_rows_set [OF ok]\<close>)
  then have "ids = map m_id rs" "msgs = map (dump_message db) rs"
    using n unfolding next_delivery_batch_def k(1) by (auto simp: apply_deferred_def dump_message_def)
  moreover have "set rs \<subseteq> set (messages db) \<and> (\<forall>r \<in> set rs. (pk, m_hash r) \<in> delivery_set db \<and> m_expiry r > to_epoch_ms now)"
    using pair unfolding delivery_rows_set [OF ok] delivery_set_iff by blast
  moreover have "m_expiry r \<le> to_epoch_ms now"
    if h: "rs = []" "r \<in> set (messages db)" "(pk, m_hash r) \<in> delivery_set db" for r
  proof (rule ccontr)
    assume live: "\<not> m_expiry r \<le> to_epoch_ms now"
    obtain i r' where ir: "recipient_of db pk = Some i" "r' \<in> set (messages db)" "m_hash r' = m_hash r"
        "\<lparr>dl_recipient = i, dl_message = m_id r'\<rparr> \<in> set (pending_deliveries db)"
      using h(3) unfolding delivery_set_iff by blast
    have "distinct (map m_hash (messages db))" using ok by (simp add: tables_ok_def messages_ok_def)
    then have "r' = r" using ir(2,3) h(2) by (auto simp: distinct_map dest: inj_onD)
    then have "(owner_row_of db r, r) \<in> set (delivery_rows now pk db)"
      unfolding delivery_rows_set [OF ok] using ir live h(2) by (intro bexI [of _ r]) auto
    then show False using h(1) k(2) by (auto simp: rs_def)
  qed
  ultimately show ?thesis by (intro exI [of _ rs]) blast
qed

section \<open>Bookkeeping\<close>

lemma db_inv_tables: "db_inv lb db \<Longrightarrow> tables_ok lb db"
  by (simp add: db_inv_def db_ok_def)

lemma db_inv_messages: "db_inv lb db \<Longrightarrow> messages_ok (owners db) (messages db)"
  by (simp add: db_inv_def db_ok_def tables_ok_def)

lemma dump_ops_inv:
  assumes inv: "db_inv lb db"
  shows "db_inv lb (queue_dump pk s e db)" "db_inv lb (update_dump pk s n t db)" "db_inv lb (remove_dump pk s db)"
    "db_inv lb (queue_delivery pk hash db)" "db_inv lb (remove_deliveries_ids pk ids db)" "db_inv lb (remove_deliveries pk db)"
    "db_inv lb (clean_pending_recipients db)"
proof -
  note ok = db_inv_pending [OF inv] and ms = db_inv_messages [OF inv]
  show "db_inv lb (queue_dump pk s e db)" by (rule pending_only_inv [OF queue_dump_spec(2) [OF ok] inv queue_dump_spec(1) [OF ok]])
  show "db_inv lb (update_dump pk s n t db)" by (rule pending_only_inv [OF update_dump_spec(2) [OF ok] inv update_dump_spec(1) [OF ok]])
  show "db_inv lb (remove_dump pk s db)" by (rule pending_only_inv [OF remove_dump_spec(2) [OF ok] inv remove_dump_spec(1) [OF ok]])
  show "db_inv lb (queue_delivery pk hash db)" using queue_delivery_spec [OF ok ms] pending_only_inv [OF _ inv] by blast
  show "db_inv lb (remove_deliveries_ids pk ids db)"
    by (rule pending_only_inv [OF remove_ids_spec(2) [OF ok ms] inv remove_ids_spec(1) [OF ok ms]])
  show "db_inv lb (remove_deliveries pk db)"
    by (rule pending_only_inv [OF remove_deliveries_spec(2) [OF ok] inv remove_deliveries_spec(1) [OF ok]])
  show "db_inv lb (clean_pending_recipients db)"
    by (rule pending_only_inv [OF clean_recipients_spec(2) [OF ok] inv clean_recipients_spec(1) [OF ok]])
qed

text \<open>
  C27: A batch of a dump has exactly the unexpired messages, with ids from the one asked for to
  the one it reports as the last, of the accounts whose position is in the range, so that
  asking again from the id after that goes on without a gap or a repetition; it is empty only
  when there is nothing left to send. The position is compared as two stored halves, which is
  the comparison of unsigned 64-bit numbers.
\<close>

theorem dump_batches:
  assumes "db_inv lb db" and "0 < budget"
    and "next_dump_batch now from_id end_id lower upper budget db = (msgs, last_id)"
  shows "if dump_ids lb now from_id end_id lower upper db = [] then msgs = [] \<and> last_id = 0
     else msgs = map (dump_message db) (dump_ids lb now from_id last_id lower upper db) \<and> msgs \<noteq> []
        \<and> from_id \<le> last_id \<and> last_id \<le> end_id
        \<and> dump_ids lb now from_id end_id lower upper db =
            dump_ids lb now from_id last_id lower upper db @ dump_ids lb now (last_id + 1) end_id lower upper db"
  by (rule dump_batch_spec [OF db_inv_tables [OF assms(1)] assms(2,3)])

theorem dump_batches_witness:
  "map msg_hash (fst (next_dump_batch 0 1 2 0 0 1 sample_db)) = [''first''] \<and> snd (next_dump_batch 0 1 2 0 0 1 sample_db) = 1"
proof -
  have e: "next_dump_batch 0 1 2 0 0 1 sample_db =
      (fst (next_dump_batch 0 1 2 0 0 1 sample_db), snd (next_dump_batch 0 1 2 0 0 1 sample_db))" by simp
  have last: "snd (next_dump_batch 0 1 2 0 0 1 sample_db) = 1"
    by (simp add: next_dump_batch_def dump_rows_def join_owners_def sample_db_def sample_row_def swarm_range_query_def
        batch_size_def to_epoch_ms_nonneg Let_def)
  have ids: "map m_hash (dump_ids big_endian 0 1 e 0 0 sample_db) = (if e = 1 then [''first''] else [''first'', ''second''])"
    if "e = 1 \<or> e = 2" for e
    using that by (auto simp: dump_ids_def in_dump_def sample_db_def sample_row_def in_swarm_range_def to_epoch_ms_nonneg)
  have "dump_ids big_endian 0 1 2 0 0 sample_db \<noteq> []" using ids [of 2] by auto
  with dump_batches [OF sample_db_inv _ e] have "fst (next_dump_batch 0 1 2 0 0 1 sample_db) = map (dump_message sample_db) (dump_ids big_endian 0 1 1 0 0 sample_db)"
    unfolding last by simp
  then have "map msg_hash (fst (next_dump_batch 0 1 2 0 0 1 sample_db)) = map m_hash (dump_ids big_endian 0 1 1 0 0 sample_db)"
    by (simp add: comp_def)
  then show ?thesis using ids [of 1] last by simp
qed

text \<open>
  C32: The dumps under way are a map from nodes and swarms to their progress, which
  \<open>pending_dumps\<close> lists. Queueing one that is already under way starts it over from the first
  message, without a delay, and keeps the later of the two ends; an update or a removal is of
  that dump alone and does nothing if it is not there. Clearing recipients that nothing
  refers to changes no dump and no delivery. All keep the database consistent.
\<close>

theorem dump_bookkeeping:
  assumes "db_inv lb db"
  shows "set (list_pending_dumps db) = {d. dump_map db (d_pubkey d, d_swarm d) = Some (d_next_id d, d_end_id d, d_next_attempt d)}
     \<and> dump_map (queue_dump pk s e db) =
         (dump_map db)((pk, s) \<mapsto> (1, case dump_map db (pk, s) of Some (_, e', _) \<Rightarrow> max e' e | None \<Rightarrow> e, 0))
     \<and> dump_map (update_dump pk s n t db) = (case dump_map db (pk, s) of
         None \<Rightarrow> dump_map db | Some (_, e', _) \<Rightarrow> (dump_map db)((pk, s) \<mapsto> (n, e', t)))
     \<and> dump_map (remove_dump pk s db) = (dump_map db)((pk, s) := None)
     \<and> dump_map (clean_pending_recipients db) = dump_map db
     \<and> delivery_set (clean_pending_recipients db) = delivery_set db
     \<and> db_inv lb (queue_dump pk s e db) \<and> db_inv lb (update_dump pk s n t db)
     \<and> db_inv lb (remove_dump pk s db) \<and> db_inv lb (clean_pending_recipients db)"
proof -
  note ok = db_inv_pending [OF assms]
  have "set (list_pending_dumps db) = {d. dump_map db (d_pubkey d, d_swarm d) = Some (d_next_id d, d_end_id d, d_next_attempt d)}"
    using list_pending_dumps_iff [OF ok] by blast
  then show ?thesis
    using queue_dump_spec(3) [OF ok, of pk s e] update_dump_spec(3) [OF ok, of pk s n t] remove_dump_spec(3) [OF ok, of pk s]
      clean_recipients_spec(3) [OF ok] clean_recipients_deliveries [OF ok] dump_ops_inv [OF assms] by (intro conjI)
qed

theorem dump_bookkeeping_witness:
  "dump_map (queue_dump ''A'' 5 2 sample_db) (''A'', 5) = Some (1, 2, 0)"
proof -
  have "dump_map sample_db (''A'', 5) = None" by (simp add: dump_map_def recipient_of_def sample_db_def empty_database_def)
  then show ?thesis using dump_bookkeeping [OF sample_db_inv, where pk = "''A''" and s = 5 and e = 2] by simp
qed

text \<open>
  The pending deliveries are a set of nodes and messages. Queueing adds the pair if the
  message is in the database, and changes nothing at all, not even the recipients, if it is not
  or the pair is already there. A batch for a node has messages that are pending for it and
  unexpired, is empty only if there is none, and removing its ids removes exactly its
  messages for that node. The nodes listed are those with something pending.
\<close>

theorem delivery_bookkeeping:
  assumes "db_inv lb db" and "0 < budget" and "next_delivery_batch now pk budget db = (msgs, ids)"
  shows "delivery_set (queue_delivery pk hash db) =
         (if hash \<in> m_hash ` set (messages db) then insert (pk, hash) (delivery_set db) else delivery_set db)
     \<and> (hash \<notin> m_hash ` set (messages db) \<or> (pk, hash) \<in> delivery_set db \<longrightarrow> queue_delivery pk hash db = db)
     \<and> (\<forall>m \<in> set msgs. (pk, msg_hash m) \<in> delivery_set db)
     \<and> (msgs = [] \<longrightarrow> (\<forall>r \<in> set (messages db). (pk, m_hash r) \<in> delivery_set db \<longrightarrow> m_expiry r \<le> to_epoch_ms now))
     \<and> delivery_set (remove_deliveries_ids pk ids db) = delivery_set db - {pk} \<times> msg_hash ` set msgs
     \<and> delivery_set (remove_deliveries pk db) = {(pk', h) \<in> delivery_set db. pk' \<noteq> pk}
     \<and> set (delivery_peers db) = fst ` delivery_set db
     \<and> db_inv lb (queue_delivery pk hash db) \<and> db_inv lb (remove_deliveries_ids pk ids db) \<and> db_inv lb (remove_deliveries pk db)"
proof -
  note ok = db_inv_pending [OF assms(1)] and ms = db_inv_messages [OF assms(1)]
  obtain rs where rs: "set rs \<subseteq> set (messages db)" "ids = map m_id rs" "msgs = map (dump_message db) rs"
      "\<forall>r \<in> set rs. (pk, m_hash r) \<in> delivery_set db \<and> m_expiry r > to_epoch_ms now"
      "rs = [] \<longrightarrow> (\<forall>r \<in> set (messages db). (pk, m_hash r) \<in> delivery_set db \<longrightarrow> m_expiry r \<le> to_epoch_ms now)"
    using delivery_batch_spec [OF db_inv_tables [OF assms(1)] assms(2,3)] by blast
  have "r \<in> set rs" if "r \<in> set (messages db)" "m_id r \<in> m_id ` set rs" for r
    using that rs(1) sorted_map_inj [of m_id "messages db" r] ms by (auto simp: messages_ok_def)
  then have "{m_hash r | r. r \<in> set (messages db) \<and> m_id r \<in> set ids} = msg_hash ` set msgs"
    using rs(1) unfolding rs(2,3) by (auto simp: image_image)
  then have "delivery_set (remove_deliveries_ids pk ids db) = delivery_set db - {pk} \<times> msg_hash ` set msgs"
    using remove_ids_spec(3) [OF ok ms, of pk ids] by simp
  then show ?thesis
    using queue_delivery_spec [OF ok ms, of pk hash] rs(4,5) remove_deliveries_spec(3) [OF ok, of pk] delivery_peers_set [OF ok]
      dump_ops_inv [OF assms(1)] unfolding rs(3) by simp
qed

theorem delivery_bookkeeping_witness:
  "delivery_set (queue_delivery ''A'' ''first'' sample_db) = {(''A'', ''first'')}"
proof -
  have e: "next_delivery_batch 0 ''A'' 1 sample_db = ([], [])"
    by (simp add: next_delivery_batch_def delivery_rows_def recipient_of_def sample_db_def empty_database_def apply_deferred_def)
  have "delivery_set sample_db = {}" by (simp add: delivery_set_def sample_db_def empty_database_def)
  moreover have "''first'' \<in> m_hash ` set (messages sample_db)" by (simp add: sample_db_def sample_row_def)
  ultimately show ?thesis using delivery_bookkeeping [OF sample_db_inv _ e, where hash = "''first''"] by simp
qed

text \<open>The swarm id is read back as it was written, over the sign of the column.\<close>

lemma current_swarm_roundtrip: "get_current_swarm (update_current_swarm s db) = Some s"
  by (simp add: get_current_swarm_def update_current_swarm_def)

lemma current_swarm_inv: "db_inv lb db \<Longrightarrow> db_inv lb (update_current_swarm s db)"
  by (auto simp: update_current_swarm_def db_inv_def db_ok_def tables_ok_def count_ok_def deferred_ok_def)

text \<open>The range test of a whole database.\<close>

lemma has_owners_iff:
  assumes "db_inv lb db"
  shows "has_owners_in_range lower upper db \<longleftrightarrow> (\<exists>w \<in> set (owners db). in_swarm_range lower upper (owner_space lb w))"
  using range_query_position [of lb "owners db"] db_inv_tables [OF assms] by (auto simp: has_owners_in_range_def list_ex_iff tables_ok_def)

lemma max_message_id_bound:
  assumes "r \<in> set (messages db)"
  shows "m_id r \<le> max_message_id db"
  using assms fold_max_ge by (cases "messages db") (force simp: max_message_id_def)+
end
