(* ===== verification/Swarms.thy ===== *)
theory Swarms
  imports Dumps
begin

text \<open>
  Our own swarm (\<open>oxenss/snode/swarm.h\<close>, \<open>swarm.cpp\<close>): what a new list of swarms means for
  us, which nodes are members of our swarm and what we know of each, and what clients are
  told of a swarm.
\<close>

section \<open>State\<close>

datatype SwarmMemberStatus = ContactDetailsPending | Ready

datatype SwarmRequestedDBDump = Nil_Dump | NeedsToRequest | RequestUnderway

record SwarmMemberState =
  status :: SwarmMemberStatus
  our_ss_requested_db_dump :: SwarmRequestedDBDump
  joined_our_swarm :: bool
  check_contact_info_next_retry :: time

record SwarmEvents =
  ev_our_swarm_id :: swarm_id_t
  ev_dissolved :: bool
  ev_new_swarms :: "swarm_id_t list"
  ev_new_swarm_members :: "legacy_pubkey list"
  ev_our_swarm_members :: "legacy_pubkey list"

text \<open>
  \<open>class Swarm\<close> with the network and the database it refers to. \<open>members_\<close> is an association
  list.
\<close>

record swarm_state =
  our_pk :: legacy_pubkey
  sw_members :: "(legacy_pubkey \<times> SwarmMemberState) list"
  cur_swarm_id :: swarm_id_t
  sw_network :: network_state
  sw_db :: database

definition new_member :: SwarmMemberState where
  "new_member = \<lparr>status = ContactDetailsPending, our_ss_requested_db_dump = Nil_Dump, joined_our_swarm = False,
     check_contact_info_next_retry = 0\<rparr>"

definition initial_swarm :: "legacy_pubkey \<Rightarrow> swarm_id_t option \<Rightarrow> network_state \<Rightarrow> database \<Rightarrow> swarm_state" where
  "initial_swarm pk stored nw db = \<lparr>our_pk = pk, sw_members = [],
     cur_swarm_id = (case stored of Some i \<Rightarrow> i | None \<Rightarrow> INVALID_SWARM_ID), sw_network = nw, sw_db = db\<rparr>"

section \<open>Operations\<close>

definition derive_swarm_events :: "swarms_t \<Rightarrow> swarm_state \<Rightarrow> SwarmEvents" where
  "derive_swarm_events swarms st =
     (let events = (case List.find (\<lambda>(_, members). our_pk st \<in> set members) swarms of
            Some (i, members) \<Rightarrow> \<lparr>ev_our_swarm_id = i, ev_dissolved = False, ev_new_swarms = [], ev_new_swarm_members = [],
                                  ev_our_swarm_members = members\<rparr>
          | None \<Rightarrow> \<lparr>ev_our_swarm_id = INVALID_SWARM_ID, ev_dissolved = False, ev_new_swarms = [], ev_new_swarm_members = [],
                     ev_our_swarm_members = []\<rparr>);
          new_swarm = ev_our_swarm_id events; old_swarm = cur_swarm_id st;
          others = filter (\<lambda>pk. pk \<noteq> our_pk st) (ev_our_swarm_members events);
          old_swarms = nw_swarms (sw_network st)
      in if new_swarm = INVALID_SWARM_ID then events
         else if old_swarm = INVALID_SWARM_ID then events\<lparr>ev_new_swarm_members := others\<rparr>
         else if old_swarm \<noteq> new_swarm
         then events\<lparr>ev_new_swarm_members := others, ev_dissolved := old_swarm \<notin> set (swarm_ids old_swarms)\<rparr>
         else events\<lparr>ev_new_swarm_members := filter (\<lambda>pk. pk \<notin> fst ` set (sw_members st)) others,
                     ev_new_swarms := (if old_swarms \<noteq> []
                        then filter (\<lambda>i. i \<notin> set (swarm_ids old_swarms)) (swarm_ids swarms) else [])\<rparr>)"

text \<open>
  \<open>update_swarms\<close>. The boundaries of our own swarm are asked for only when we are in the new
  list, so that the exception of \<open>swarm_boundaries\<close>, which leaves everything as it was, is
  not met; \<open>None\<close> is that exception.
\<close>

definition add_member :: "bool \<Rightarrow> bool \<Rightarrow> legacy_pubkey \<Rightarrow> (legacy_pubkey \<times> SwarmMemberState) list \<Rightarrow>
    (legacy_pubkey \<times> SwarmMemberState) list" where
  "add_member joined_us first_update pk ms =
     (let state = (case map_of ms pk of Some s \<Rightarrow> s | None \<Rightarrow> new_member);
          state = state\<lparr>joined_our_swarm := joined_us\<rparr>;
          state = (if first_update then state\<lparr>status := Ready\<rparr> else state)
      in AList.update pk state ms)"

definition request_dumps :: "legacy_pubkey \<Rightarrow> (legacy_pubkey \<times> SwarmMemberState) list \<Rightarrow> (legacy_pubkey \<times> SwarmMemberState) list" where
  "request_dumps us ms =
     map (\<lambda>(pk, state). (pk, if pk = us then state
        else state\<lparr>our_ss_requested_db_dump := NeedsToRequest, status := ContactDetailsPending, check_contact_info_next_retry := 0\<rparr>)) ms"

definition update_swarms ::
    "swarms_t \<Rightarrow> (legacy_pubkey \<times> contact) list \<Rightarrow> swarm_state \<Rightarrow> (swarm_state \<times> SwarmEvents) option" where
  "update_swarms swarms new_contacts st =
     (let first_update = nw_swarms (sw_network st) = [];
          events = derive_swarm_events swarms st;
          entered_swarm = (ev_our_swarm_id events \<noteq> INVALID_SWARM_ID \<and> ev_our_swarm_id events \<noteq> cur_swarm_id st);
          members =
            (if ev_our_swarm_id events \<noteq> INVALID_SWARM_ID
             then let ms = filter (\<lambda>(pk, _). pk \<in> set (ev_our_swarm_members events)) (sw_members st);
                      joined_us = (\<not> entered_swarm \<and> \<not> first_update);
                      ms = fold (add_member joined_us first_update) (ev_new_swarm_members events) ms;
                      request_dump =
                        (if first_update
                         then case swarm_boundaries swarms (ev_our_swarm_id events) of
                                Inl e \<Rightarrow> None
                              | Inr (lower, upper) \<Rightarrow> Some (\<not> has_owners_in_range lower upper (sw_db st))
                         else Some entered_swarm)
                  in map_option (\<lambda>r. if r then request_dumps (our_pk st) ms else ms) request_dump
             else Some (sw_members st))
      in map_option (\<lambda>ms.
           (st\<lparr>sw_members := ms, cur_swarm_id := ev_our_swarm_id events,
               sw_db := update_current_swarm (ev_our_swarm_id events) (sw_db st),
               sw_network := fst (network_update_swarms swarms new_contacts (sw_network st))\<rparr>, events)) members)"

definition is_pubkey_for_us :: "(string \<Rightarrow> u64) \<Rightarrow> swarm_state \<Rightarrow> user_pubkey \<Rightarrow> bool" where
  "is_pubkey_for_us load_big st pk \<longleftrightarrow>
     (case get_swarm_id_for load_big (nw_swarms (sw_network st)) pk of Some i \<Rightarrow> cur_swarm_id st = i | None \<Rightarrow> False)"

definition swarm_members :: "swarm_state \<Rightarrow> (legacy_pubkey \<times> SwarmMemberState) list" where
  "swarm_members st = sw_members st"

definition swarm_peers :: "swarm_state \<Rightarrow> (legacy_pubkey \<times> SwarmMemberState) list" where
  "swarm_peers st = AList.delete (our_pk st) (swarm_members st)"

definition is_member :: "swarm_state \<Rightarrow> legacy_pubkey \<Rightarrow> SwarmMemberState option" where
  "is_member st pk = map_of (sw_members st) pk"

definition is_member_x :: "swarm_state \<Rightarrow> x25519_pubkey \<Rightarrow> SwarmMemberState option" where
  "is_member_x st pk = (case lookup_x (nw_contacts (sw_network st)) pk of Some lpk \<Rightarrow> is_member st lpk | None \<Rightarrow> None)"

definition is_member_ed :: "swarm_state \<Rightarrow> ed25519_pubkey \<Rightarrow> SwarmMemberState option" where
  "is_member_ed st pk = (case lookup_ed (nw_contacts (sw_network st)) pk of Some lpk \<Rightarrow> is_member st lpk | None \<Rightarrow> None)"

definition swarm_size :: "swarm_state \<Rightarrow> nat" where
  "swarm_size st = length (sw_members st)"

definition our_swarm_id :: "swarm_state \<Rightarrow> swarm_id_t" where
  "our_swarm_id st = cur_swarm_id st"

definition swarm_is_valid :: "swarm_state \<Rightarrow> bool" where
  "swarm_is_valid st \<longleftrightarrow> our_swarm_id st \<noteq> INVALID_SWARM_ID"

definition NEW_SWARM_MEMBER_RETRY :: time where "NEW_SWARM_MEMBER_RETRY = seconds 30"

definition contact_due :: "time \<Rightarrow> SwarmMemberState \<Rightarrow> bool" where
  "contact_due now s \<longleftrightarrow> status s = ContactDetailsPending \<and> now \<ge> check_contact_info_next_retry s"

definition extract_contact_pending_members :: "time \<Rightarrow> swarm_state \<Rightarrow> swarm_state \<times> legacy_pubkey list" where
  "extract_contact_pending_members now st =
     (st\<lparr>sw_members := map (\<lambda>(pk, s). (pk, if contact_due now s
            then s\<lparr>check_contact_info_next_retry := now + NEW_SWARM_MEMBER_RETRY\<rparr> else s)) (sw_members st)\<rparr>,
      map fst (filter (\<lambda>(pk, s). contact_due now s) (sw_members st)))"


section \<open>Membership\<close>

lemma add_member_keys: "fst ` set (add_member j f pk ms) = insert pk (fst ` set ms)"
proof -
  have "fst ` set (AList.update pk s ms) = insert pk (fst ` set ms)" for s by (induction ms) auto
  then show ?thesis unfolding add_member_def Let_def by simp
qed

lemma add_members_keys: "fst ` set (fold (add_member j f) pks ms) = set pks \<union> fst ` set ms"
  by (induction pks arbitrary: ms) (auto simp: add_member_keys)

lemma add_members_distinct: "distinct (map fst ms) \<Longrightarrow> distinct (map fst (fold (add_member j f) pks ms))"
  by (induction pks arbitrary: ms) (auto simp: add_member_def Let_def distinct_update)

lemma add_members_old: "pk \<notin> set pks \<Longrightarrow> map_of (fold (add_member j f) pks ms) pk = map_of ms pk"
  by (induction pks arbitrary: ms) (auto simp: add_member_def Let_def update_conv)

lemma add_members_new:
  assumes "pk \<in> set pks" and "distinct pks" and "map_of ms pk = None"
  shows "map_of (fold (add_member j f) pks ms) pk =
     Some (new_member\<lparr>joined_our_swarm := j, status := if f then Ready else ContactDetailsPending\<rparr>)"
  using assms
proof (induction pks arbitrary: ms)
  case (Cons a pks)
  show ?case
  proof (cases "a = pk")
    case True
    have "map_of (add_member j f a ms) pk = Some (new_member\<lparr>joined_our_swarm := j, status := if f then Ready else ContactDetailsPending\<rparr>)"
      using Cons.prems(3) True by (simp add: add_member_def Let_def update_conv new_member_def)
    then show ?thesis using Cons.prems(2) True by (simp add: add_members_old)
  next
    case False
    have "map_of (add_member j f a ms) pk = None" using Cons.prems(3) False by (simp add: add_member_def Let_def update_conv)
    then show ?thesis using Cons False by simp
  qed
qed simp

lemma request_dumps_keys: "map fst (request_dumps us ms) = map fst ms"
  by (simp add: request_dumps_def comp_def case_prod_beta)

text \<open>
  What holds of the swarm and the network together: we are not among our members, which are the
  other nodes of our swarm in the current list; the swarm we are in is in the list and is the
  stored one.
\<close>

definition swarm_inv :: "swarm_state \<Rightarrow> bool" where
  "swarm_inv st \<longleftrightarrow>
     distinct (map fst (sw_members st)) \<and> our_pk st \<notin> fst ` set (sw_members st)
     \<and> (nw_swarms (sw_network st) \<noteq> [] \<longrightarrow> get_current_swarm (sw_db st) = Some (cur_swarm_id st)
        \<and> (cur_swarm_id st \<noteq> INVALID_SWARM_ID \<longrightarrow> (\<exists>ms. get_swarm (nw_swarms (sw_network st)) (cur_swarm_id st) = Some ms
             \<and> our_pk st \<in> set ms \<and> fst ` set (sw_members st) = set ms - {our_pk st})))"

lemma events_cases:
  obtains (out) "ev_our_swarm_id (derive_swarm_events swarms st) = INVALID_SWARM_ID"
      "ev_new_swarm_members (derive_swarm_events swarms st) = []" "\<not> ev_dissolved (derive_swarm_events swarms st)"
  | (within) i ms where "(i, ms) \<in> set swarms" "our_pk st \<in> set ms" "i \<noteq> INVALID_SWARM_ID"
      "ev_our_swarm_id (derive_swarm_events swarms st) = i" "ev_our_swarm_members (derive_swarm_events swarms st) = ms"
      "ev_new_swarm_members (derive_swarm_events swarms st) =
         (if cur_swarm_id st = i then filter (\<lambda>pk. pk \<notin> fst ` set (sw_members st)) (filter (\<lambda>pk. pk \<noteq> our_pk st) ms)
          else filter (\<lambda>pk. pk \<noteq> our_pk st) ms)"
      "ev_dissolved (derive_swarm_events swarms st) \<longleftrightarrow>
         cur_swarm_id st \<noteq> INVALID_SWARM_ID \<and> cur_swarm_id st \<noteq> i \<and> cur_swarm_id st \<notin> set (swarm_ids (nw_swarms (sw_network st)))"
proof (cases "List.find (\<lambda>(_, members). our_pk st \<in> set members) swarms")
  case None
  then show ?thesis by (intro out) (simp_all add: derive_swarm_events_def Let_def)
next
  case (Some x)
  obtain i ms where x: "x = (i, ms)" by (cases x)
  have f: "(i, ms) \<in> set swarms" "our_pk st \<in> set ms" using find_Some_in [OF Some] by (auto simp: x)
  show ?thesis
  proof (cases "i = INVALID_SWARM_ID")
    case True
    then show ?thesis using Some x by (intro out) (simp_all add: derive_swarm_events_def Let_def)
  next
    case False
    then show ?thesis using Some x f by (intro within [of i ms]) (simp_all add: derive_swarm_events_def Let_def)
  qed
qed

lemma find_pos_less: "x \<in> set xs \<Longrightarrow> find_pos x xs < length xs"
  by (induction xs) (auto simp: find_pos_def)

lemma boundaries_of_member:
  assumes "(i, ms) \<in> set swarms"
  shows "\<exists>b. swarm_boundaries swarms i = Inr b"
proof -
  have "i \<in> set (swarm_ids swarms)" using assms by (force simp: swarm_ids_def)
  then have "find_pos i (swarm_ids swarms) < length (swarm_ids swarms)" by (rule find_pos_less)
  then show ?thesis unfolding swarm_boundaries_def by (simp add: Let_def case_prod_beta)
qed

text \<open>Whether the swarm's messages are asked for.\<close>

definition wants_dump :: "swarms_t \<Rightarrow> swarm_state \<Rightarrow> bool" where
  "wants_dump swarms st \<longleftrightarrow>
     (let i = ev_our_swarm_id (derive_swarm_events swarms st)
      in i \<noteq> INVALID_SWARM_ID \<and>
         (if nw_swarms (sw_network st) = []
          then (\<forall>lower upper. swarm_boundaries swarms i = Inr (lower, upper) \<longrightarrow> \<not> has_owners_in_range lower upper (sw_db st))
          else i \<noteq> cur_swarm_id st))"

definition kept_members :: "swarms_t \<Rightarrow> swarm_state \<Rightarrow> (legacy_pubkey \<times> SwarmMemberState) list" where
  "kept_members swarms st =
     (let events = derive_swarm_events swarms st; first_update = (nw_swarms (sw_network st) = []) in
      fold (add_member (ev_our_swarm_id events = cur_swarm_id st \<and> \<not> first_update) first_update) (ev_new_swarm_members events)
        (filter (\<lambda>(pk, _). pk \<in> set (ev_our_swarm_members events)) (sw_members st)))"

lemma update_swarms_eq:
  "update_swarms swarms cs st = Some
     (st\<lparr>sw_members := (if ev_our_swarm_id (derive_swarm_events swarms st) = INVALID_SWARM_ID then sw_members st
           else if wants_dump swarms st then request_dumps (our_pk st) (kept_members swarms st) else kept_members swarms st),
         cur_swarm_id := ev_our_swarm_id (derive_swarm_events swarms st),
         sw_db := update_current_swarm (ev_our_swarm_id (derive_swarm_events swarms st)) (sw_db st),
         sw_network := fst (network_update_swarms swarms cs (sw_network st))\<rparr>, derive_swarm_events swarms st)"
proof (rule events_cases [of swarms st])
  assume "ev_our_swarm_id (derive_swarm_events swarms st) = INVALID_SWARM_ID"
  then show ?thesis by (simp add: update_swarms_def Let_def)
next
  fix i ms assume i: "(i, ms) \<in> set swarms" "i \<noteq> INVALID_SWARM_ID" "ev_our_swarm_id (derive_swarm_events swarms st) = i"
  obtain lower upper where b: "swarm_boundaries swarms i = Inr (lower, upper)" using boundaries_of_member [OF i(1)] by fastforce
  show ?thesis using i b by (auto simp: update_swarms_def Let_def wants_dump_def kept_members_def)
qed

lemma map_fst_filter: "map_of (filter (\<lambda>(k, _). P k) xs) k = (if P k then map_of xs k else None)"
  by (induction xs) auto

lemma kept_members_keys:
  assumes inv: "swarm_inv st" and w: "(i, ms) \<in> set swarms" "our_pk st \<in> set ms"
    "ev_our_swarm_members (derive_swarm_events swarms st) = ms"
    "ev_new_swarm_members (derive_swarm_events swarms st) =
         (if cur_swarm_id st = i then filter (\<lambda>pk. pk \<notin> fst ` set (sw_members st)) (filter (\<lambda>pk. pk \<noteq> our_pk st) ms)
          else filter (\<lambda>pk. pk \<noteq> our_pk st) ms)"
  shows "fst ` set (kept_members swarms st) = set ms - {our_pk st}" and "distinct (map fst (kept_members swarms st))"
proof -
  have d: "distinct (map fst (sw_members st))" and us: "our_pk st \<notin> fst ` set (sw_members st)" using inv by (simp_all add: swarm_inv_def)
  have "fst ` set (filter (\<lambda>(pk, _). pk \<in> set ms) (sw_members st)) = fst ` set (sw_members st) \<inter> set ms" by force
  then show "fst ` set (kept_members swarms st) = set ms - {our_pk st}"
    using us unfolding kept_members_def Let_def add_members_keys w(3,4) by auto
  show "distinct (map fst (kept_members swarms st))"
    unfolding kept_members_def Let_def by (intro add_members_distinct distinct_map_filterI d)
qed

lemma network_swarms: "nw_swarms (fst (network_update_swarms swarms cs nw)) = swarms"
  by (simp add: network_update_swarms_def Let_def case_prod_beta)

lemma update_swarms_inv:
  assumes inv: "swarm_inv st" and wf: "swarms_wf swarms" and u: "update_swarms swarms cs st = Some (st', ev)"
  shows "swarm_inv st'"
proof (rule events_cases [of swarms st])
  assume "ev_our_swarm_id (derive_swarm_events swarms st) = INVALID_SWARM_ID"
  then have "sw_members st' = sw_members st" "our_pk st' = our_pk st" "cur_swarm_id st' = INVALID_SWARM_ID"
      "get_current_swarm (sw_db st') = Some INVALID_SWARM_ID"
    using u unfolding update_swarms_eq by (auto simp: current_swarm_roundtrip)
  then show ?thesis using inv by (simp add: swarm_inv_def)
next
  fix i ms assume w: "(i, ms) \<in> set swarms" "our_pk st \<in> set ms" "i \<noteq> INVALID_SWARM_ID"
      "ev_our_swarm_id (derive_swarm_events swarms st) = i" "ev_our_swarm_members (derive_swarm_events swarms st) = ms"
      "ev_new_swarm_members (derive_swarm_events swarms st) =
         (if cur_swarm_id st = i then filter (\<lambda>pk. pk \<notin> fst ` set (sw_members st)) (filter (\<lambda>pk. pk \<noteq> our_pk st) ms)
          else filter (\<lambda>pk. pk \<noteq> our_pk st) ms)"
  note k = kept_members_keys [OF inv w(1,2,5,6)]
  have "map fst (sw_members st') = map fst (kept_members swarms st)"
    using u w(3,4) unfolding update_swarms_eq by (auto simp: request_dumps_keys)
  then have m: "fst ` set (sw_members st') = set ms - {our_pk st}" "distinct (map fst (sw_members st'))"
    using k by (metis list.set_map, metis)
  have "distinct (map fst swarms)" using wf by (simp add: swarms_wf_def swarm_ids_def strict_sorted_iff)
  then have "map_of swarms i = Some ms" using w(1) by (rule map_of_is_SomeI)
  moreover have "our_pk st' = our_pk st" "cur_swarm_id st' = i" "nw_swarms (sw_network st') = swarms" "get_current_swarm (sw_db st') = Some i"
    using u w(4) unfolding update_swarms_eq by (auto simp: network_swarms current_swarm_roundtrip)
  ultimately show ?thesis using m w(2) by (auto simp: swarm_inv_def get_swarm_def)
qed

lemma extract_keys: "map fst (sw_members (fst (extract_contact_pending_members now st))) = map fst (sw_members st)"
  by (simp add: extract_contact_pending_members_def comp_def case_prod_beta)

lemma extract_inv: "swarm_inv st \<Longrightarrow> swarm_inv (fst (extract_contact_pending_members now st))"
proof -
  let ?st = "fst (extract_contact_pending_members now st)"
  have "fst ` set (sw_members ?st) = fst ` set (sw_members st)" using extract_keys by (metis list.set_map)
  moreover have "our_pk ?st = our_pk st" "sw_network ?st = sw_network st" "sw_db ?st = sw_db st" "cur_swarm_id ?st = cur_swarm_id st"
    by (simp_all add: extract_contact_pending_members_def)
  moreover assume "swarm_inv st"
  ultimately show "swarm_inv ?st" unfolding swarm_inv_def extract_keys by simp
qed

datatype swarm_op =
    Swarm_Update swarms_t "(legacy_pubkey \<times> contact) list"
  | Swarm_Extract time

text \<open>The lists that arrive are ordered maps of ordered sets.\<close>

fun swarm_step :: "swarm_op \<Rightarrow> swarm_state \<Rightarrow> swarm_state" where
  "swarm_step (Swarm_Update swarms cs) st =
     (if swarms_wf swarms then case update_swarms swarms cs st of Some (st', _) \<Rightarrow> st' | None \<Rightarrow> st else st)"
| "swarm_step (Swarm_Extract now) st = fst (extract_contact_pending_members now st)"

lemma swarm_step_inv: "swarm_inv st \<Longrightarrow> swarm_inv (swarm_step x st)"
  by (cases x) (auto simp: extract_inv intro: update_swarms_inv split: option.splits)

interpretation swarm_comp: invariant_component
    "\<lambda>st. \<exists>pk stored db. st = initial_swarm pk stored empty_network db" swarm_step swarm_inv
proof unfold_locales
  fix st assume "\<exists>pk stored db. st = initial_swarm pk stored empty_network db"
  then show "swarm_inv st" by (auto simp: swarm_inv_def initial_swarm_def empty_network_def)
qed (rule swarm_step_inv)

lemma swarm_step_pk: "our_pk (swarm_step x st) = our_pk st"
  by (cases x) (auto simp: update_swarms_eq extract_contact_pending_members_def)

lemma swarm_run_pk: "our_pk (fold swarm_step ops st) = our_pk st"
  by (induction ops arbitrary: st) (simp_all add: swarm_step_pk)

lemma swarm_reached:
  assumes "st = fold swarm_step ops (initial_swarm pk stored empty_network db)"
  shows "swarm_inv st" and "our_pk st = pk"
  unfolding assms by (rule swarm_comp.reached_invar, blast) (simp add: swarm_run_pk initial_swarm_def)

definition two_swarms :: swarms_t where
  "two_swarms = [(1, [''A'', ''B'']), (2, [''C'', ''D''])]"

definition running_swarm :: swarm_state where
  "running_swarm = fold swarm_step [Swarm_Update two_swarms []] (initial_swarm ''A'' None empty_network empty_database)"

lemma running_swarm_state:
  "nw_swarms (sw_network running_swarm) = two_swarms" "cur_swarm_id running_swarm = 1" "our_pk running_swarm = ''A''"
  unfolding running_swarm_def
  by (simp_all add: two_swarms_def update_swarms_eq initial_swarm_def network_swarms derive_swarm_events_def INVALID_SWARM_ID_def
      swarms_wf_def swarm_ids_def Let_def)



text \<open>
  A swarm that dissolves while the node is running goes unnoticed: the test looks for our
  old swarm in the old list, where it always is, so the event that makes us pass on the
  messages of the dissolved swarm is raised only by the first list after a start.
\<close>

theorem dissolution_unnoticed:
  assumes "st = fold swarm_step ops (initial_swarm pk stored empty_network db)" and "nw_swarms (sw_network st) \<noteq> []"
  shows "\<not> ev_dissolved (derive_swarm_events swarms st)"
proof (rule events_cases [of swarms st])
  fix i assume d: "ev_dissolved (derive_swarm_events swarms st) \<longleftrightarrow>
      cur_swarm_id st \<noteq> INVALID_SWARM_ID \<and> cur_swarm_id st \<noteq> i \<and> cur_swarm_id st \<notin> set (swarm_ids (nw_swarms (sw_network st)))"
  have "cur_swarm_id st \<in> set (swarm_ids (nw_swarms (sw_network st)))" if "cur_swarm_id st \<noteq> INVALID_SWARM_ID"
    using swarm_reached(1) [OF assms(1)] assms(2) that
    by (auto simp: swarm_inv_def get_swarm_def swarm_ids_def dest!: map_of_SomeD) force
  with d show ?thesis by blast
qed

theorem dissolution_unnoticed_witness:
  "\<not> ev_dissolved (derive_swarm_events [(2, [''A'', ''B'', ''C'', ''D''])] running_swarm)
   \<and> ev_our_swarm_id (derive_swarm_events [(2, [''A'', ''B'', ''C'', ''D''])] running_swarm) = 2
   \<and> our_swarm_id running_swarm = 1"
  using dissolution_unnoticed [OF running_swarm_def, of "[(2, [''A'', ''B'', ''C'', ''D''])]"]
  by (simp add: running_swarm_state two_swarms_def derive_swarm_events_def our_swarm_id_def INVALID_SWARM_ID_def Let_def)

lemma request_dumps_lookup:
  "map_of (request_dumps us ms) pk = map_option (\<lambda>s. if pk = us then s
     else s\<lparr>our_ss_requested_db_dump := NeedsToRequest, status := ContactDetailsPending, check_contact_info_next_retry := 0\<rparr>) (map_of ms pk)"
  by (induction ms) (auto simp: request_dumps_def)

lemma kept_members_lookup:
  assumes inv: "swarm_inv st" and wf: "swarms_wf swarms" and ne: "ev_our_swarm_id (derive_swarm_events swarms st) \<noteq> INVALID_SWARM_ID"
    and s: "map_of (kept_members swarms st) pk = Some s"
  shows "pk \<noteq> our_pk st"
    and "case map_of (sw_members st) pk of
        Some old \<Rightarrow> ev_our_swarm_id (derive_swarm_events swarms st) = cur_swarm_id st \<longrightarrow> s = old
      | None \<Rightarrow> s = new_member\<lparr>joined_our_swarm := ev_our_swarm_id (derive_swarm_events swarms st) = cur_swarm_id st \<and> nw_swarms (sw_network st) \<noteq> [],
          status := if nw_swarms (sw_network st) = [] then Ready else ContactDetailsPending\<rparr>"
proof -
  have "pk \<noteq> our_pk st \<and> (case map_of (sw_members st) pk of
        Some old \<Rightarrow> ev_our_swarm_id (derive_swarm_events swarms st) = cur_swarm_id st \<longrightarrow> s = old
      | None \<Rightarrow> s = new_member\<lparr>joined_our_swarm := ev_our_swarm_id (derive_swarm_events swarms st) = cur_swarm_id st \<and> nw_swarms (sw_network st) \<noteq> [],
          status := if nw_swarms (sw_network st) = [] then Ready else ContactDetailsPending\<rparr>)"
  proof (rule events_cases [of swarms st])
    fix i ms assume w: "(i, ms) \<in> set swarms" "our_pk st \<in> set ms"
        "ev_our_swarm_id (derive_swarm_events swarms st) = i" "ev_our_swarm_members (derive_swarm_events swarms st) = ms"
        "ev_new_swarm_members (derive_swarm_events swarms st) =
           (if cur_swarm_id st = i then filter (\<lambda>pk. pk \<notin> fst ` set (sw_members st)) (filter (\<lambda>pk. pk \<noteq> our_pk st) ms)
            else filter (\<lambda>pk. pk \<noteq> our_pk st) ms)"
    let ?new = "ev_new_swarm_members (derive_swarm_events swarms st)"
    have "pk \<in> fst ` set (kept_members swarms st)" using s by (metis domI dom_map_of_conv_image_fst)
    then have pk: "pk \<in> set ms" "pk \<noteq> our_pk st" using kept_members_keys(1) [OF inv w(1,2,4,5)] by auto
    have dist: "distinct ?new" using wf w(1) unfolding w(5) by (auto simp: swarms_wf_def list_all_iff)
    have f: "map_of (filter (\<lambda>(pk, _). pk \<in> set ms) (sw_members st)) pk = map_of (sw_members st) pk"
      using pk(1) map_fst_filter [of "\<lambda>k. k \<in> set ms" "sw_members st" pk] by simp
    show ?thesis
    proof (cases "map_of (sw_members st) pk")
      case None
      then have "pk \<in> set ?new" using pk unfolding w(5) by (simp add: map_of_eq_None_iff)
      from add_members_new [OF this dist f [unfolded None]] s pk(2) None show ?thesis
        unfolding kept_members_def Let_def w(4) by (simp add: w(3))
    next
      case (Some old)
      then have "pk \<in> fst ` set (sw_members st)" by (metis domI dom_map_of_conv_image_fst)
      then have "pk \<notin> set ?new" if "i = cur_swarm_id st" using that unfolding w(5) by simp
      then have "s = old" if "i = cur_swarm_id st" using that s f Some unfolding kept_members_def Let_def w(4) by (simp add: add_members_old)
      then show ?thesis using pk(2) Some w(3) by simp
    qed
  qed (use ne in simp)
  then show "pk \<noteq> our_pk st"
    and "case map_of (sw_members st) pk of
        Some old \<Rightarrow> ev_our_swarm_id (derive_swarm_events swarms st) = cur_swarm_id st \<longrightarrow> s = old
      | None \<Rightarrow> s = new_member\<lparr>joined_our_swarm := ev_our_swarm_id (derive_swarm_events swarms st) = cur_swarm_id st \<and> nw_swarms (sw_network st) \<noteq> [],
          status := if nw_swarms (sw_network st) = [] then Ready else ContactDetailsPending\<rparr>"
    by blast+
qed

text \<open>
  The swarm's messages are asked for when a swarm is entered while running, and by the
  first list after a start if no account of the swarm is held, and at no other time. Then
  every member is due to be contacted at once with the request. Otherwise the members that stay
  are as they were, and the new ones wait for a first contact, except after a start, and are
  marked as having joined us exactly if we were there before.
\<close>

theorem swarm_entry_requests_dump:
  assumes "swarm_inv st" and "swarms_wf swarms" and "update_swarms swarms cs st = Some (st', ev)"
    and "ev_our_swarm_id ev \<noteq> INVALID_SWARM_ID" and "is_member st' pk = Some s"
  shows "if wants_dump swarms st
     then our_ss_requested_db_dump s = NeedsToRequest \<and> (\<forall>now \<ge> 0. contact_due now s)
     else case is_member st pk of
          Some old \<Rightarrow> nw_swarms (sw_network st) \<noteq> [] \<longrightarrow> s = old
        | None \<Rightarrow> our_ss_requested_db_dump s = Nil_Dump
            \<and> status s = (if nw_swarms (sw_network st) = [] then Ready else ContactDetailsPending)
            \<and> joined_our_swarm s = (nw_swarms (sw_network st) \<noteq> [])"
proof -
  have ev: "ev_our_swarm_id (derive_swarm_events swarms st) \<noteq> INVALID_SWARM_ID" using assms(3,4) unfolding update_swarms_eq by auto
  have ms: "sw_members st' = (if wants_dump swarms st then request_dumps (our_pk st) (kept_members swarms st) else kept_members swarms st)"
    using assms(3) ev unfolding update_swarms_eq by auto
  show ?thesis
  proof (cases "wants_dump swarms st")
    case True
    then obtain s0 where "map_of (kept_members swarms st) pk = Some s0"
        "s = (if pk = our_pk st then s0 else s0\<lparr>our_ss_requested_db_dump := NeedsToRequest, status := ContactDetailsPending, check_contact_info_next_retry := 0\<rparr>)"
      using assms(5) unfolding is_member_def ms by (auto simp: request_dumps_lookup)
    with kept_members_lookup(1) [OF assms(1,2) ev this(1)] True show ?thesis by (simp add: contact_due_def)
  next
    case False
    have k: "map_of (kept_members swarms st) pk = Some s" using assms(5) False unfolding is_member_def ms by simp
    have same: "ev_our_swarm_id (derive_swarm_events swarms st) = cur_swarm_id st" if "nw_swarms (sw_network st) \<noteq> []"
      using False ev that by (simp add: wants_dump_def Let_def)
    show ?thesis
      using kept_members_lookup(2) [OF assms(1,2) ev k] False same
      by (auto simp: is_member_def new_member_def split: option.splits)
  qed
qed

theorem swarm_entry_requests_dump_witness:
  "\<exists>s. is_member running_swarm ''B'' = Some s \<and> our_ss_requested_db_dump s = NeedsToRequest \<and> contact_due 0 s"
proof -
  let ?st = "initial_swarm ''A'' None empty_network empty_database"
  have wf: "swarms_wf two_swarms" by (simp add: swarms_wf_def two_swarms_def swarm_ids_def)
  have inv: "swarm_inv ?st" by (rule swarm_comp.start_invar) blast
  have ev: "derive_swarm_events two_swarms ?st = \<lparr>ev_our_swarm_id = 1, ev_dissolved = False, ev_new_swarms = [],
      ev_new_swarm_members = [''B''], ev_our_swarm_members = [''A'', ''B'']\<rparr>"
    by (simp add: derive_swarm_events_def initial_swarm_def two_swarms_def INVALID_SWARM_ID_def Let_def)
  have sel: "nw_swarms (sw_network ?st) = []" "owners (sw_db ?st) = []" "sw_members ?st = []" "our_pk ?st = ''A''"
    by (simp_all add: initial_swarm_def empty_network_def empty_database_def)
  have want: "wants_dump two_swarms ?st"
    by (simp add: wants_dump_def ev Let_def sel has_owners_in_range_def INVALID_SWARM_ID_def)
  have run: "update_swarms two_swarms [] ?st = Some (running_swarm, derive_swarm_events two_swarms ?st)"
    using wf unfolding running_swarm_def by (simp add: update_swarms_eq)
  have "is_member running_swarm ''B'' \<noteq> None"
    unfolding running_swarm_def using wf
    by (simp add: update_swarms_eq is_member_def want request_dumps_lookup kept_members_def ev Let_def sel add_member_def INVALID_SWARM_ID_def)
  then obtain s where s: "is_member running_swarm ''B'' = Some s" by blast
  from swarm_entry_requests_dump [OF inv wf run _ s] want s show ?thesis by (auto simp: ev INVALID_SWARM_ID_def)
qed

text \<open>Nobody is contacted twice within 30 seconds.\<close>

lemma extract_not_again:
  assumes "distinct (map fst (sw_members st))" and "now \<le> later" and "later < now + seconds 30"
    and "extract_contact_pending_members now st = (st', due)" and "extract_contact_pending_members later st' = (st'', due')"
  shows "set due \<inter> set due' = {}"
proof -
  let ?f = "\<lambda>s. if contact_due now s then s\<lparr>check_contact_info_next_retry := now + NEW_SWARM_MEMBER_RETRY\<rparr> else s"
  have no: "\<not> contact_due later (?f s)" if "contact_due now s" for s
    using that assms(3) by (simp add: contact_due_def NEW_SWARM_MEMBER_RETRY_def)
  have "False" if h: "pk \<in> set due" "pk \<in> set due'" for pk
  proof -
    obtain s where s: "(pk, s) \<in> set (sw_members st)" "contact_due now s"
      using h(1) assms(4) by (auto simp: extract_contact_pending_members_def)
    obtain s' where s': "(pk, s') \<in> set (sw_members st)" "contact_due later (?f s')"
      using h(2) assms(4,5) by (auto simp: extract_contact_pending_members_def simp del: map_map)
    have "s' = s" by (rule eq_key_imp_eq_value [OF assms(1) s'(1) s(1)])
    then show False using no [OF s(2)] s'(2) by blast
  qed
  then show ?thesis by blast
qed

section \<open>Describing a swarm to clients\<close>

text \<open>
  \<open>snode_fields\<close>: the keys and values published about a member. The text forms, of oxenc, fmt
  and the address class, are arguments.
\<close>

datatype snode_value = F_String string | F_Int nat

record text_forms =
  to_base32z :: "string \<Rightarrow> string"
  key_hex :: "string \<Rightarrow> string"
  ip_string :: "u32 \<Rightarrow> string"
  decimal :: "nat \<Rightarrow> string"
  hex_number :: "u64 \<Rightarrow> string"

definition snode_fields :: "text_forms \<Rightarrow> legacy_pubkey \<Rightarrow> contact \<Rightarrow> (string \<times> snode_value) list" where
  "snode_fields F snpk ct =
     [(''address'', F_String (to_base32z F snpk @ ''.snode'')),
      (''ip'', F_String (ip_string F (ip ct))),
      (''port'', F_String (decimal F (unat (https_port ct)))),
      (''port_https'', F_Int (unat (https_port ct))),
      (''port_omq'', F_Int (unat (omq_quic_port ct))),
      (''port_quic'', F_Int (unat (omq_quic_port ct))),
      (''pubkey_ed25519'', F_String (key_hex F (pubkey_ed25519 ct))),
      (''pubkey_legacy'', F_String (key_hex F snpk)),
      (''pubkey_x25519'', F_String (key_hex F (pubkey_x25519 ct)))]"

definition each_contactable_member ::
    "(swarm_id_t \<times> legacy_pubkey list) option \<Rightarrow> contact_table \<Rightarrow> (legacy_pubkey \<times> contact) list" where
  "each_contactable_member swarm contacts =
     (case swarm of None \<Rightarrow> []
      | Some (_, ms) \<Rightarrow> concat (map (\<lambda>pk. case find_contact contacts pk of
            Some ct \<Rightarrow> if contactable ct then [(pk, ct)] else [] | None \<Rightarrow> []) ms))"

definition swarm_id_hex :: "text_forms \<Rightarrow> (swarm_id_t \<times> legacy_pubkey list) option \<Rightarrow> string" where
  "swarm_id_hex F swarm = hex_number F (case swarm of Some (i, _) \<Rightarrow> i | None \<Rightarrow> INVALID_SWARM_ID)"

text \<open>
  \<open>swarm_to_json\<close> and \<open>swarm_to_bt\<close>, which append the same keys in the same order.
\<close>

definition swarm_description ::
    "text_forms \<Rightarrow> (swarm_id_t \<times> legacy_pubkey list) option \<Rightarrow> contact_table \<Rightarrow> (string \<times> snode_value) list list \<times> string" where
  "swarm_description F swarm contacts =
     (map (\<lambda>(pk, ct). snode_fields F pk ct) (each_contactable_member swarm contacts), swarm_id_hex F swarm)"

text \<open>
  The keys are in ascending order, as a bt dict requires, and only nodes with an address, both
  ports and a key are described.
\<close>

lemma snode_fields_ascending: "sorted_wrt (<) (map fst (snode_fields F snpk ct))"
  by (simp add: snode_fields_def)

lemma described_contactable:
  "(pk, ct) \<in> set (each_contactable_member (Some (i, ms)) contacts) \<longleftrightarrow>
     pk \<in> set ms \<and> find_contact contacts pk = Some ct \<and> contactable ct"
  by (auto simp: each_contactable_member_def split: option.splits if_splits)
end
