(* ===== verification/Serialization.thy ===== *)
theory Serialization
  imports Message_Store
begin

text \<open>
  Messages on the wire between nodes (\<open>oxenss/snode/serialization.cpp\<close>): written in parts of
  limited size and read back. The bt-encoding of oxenc is an argument.
\<close>

section \<open>The encoding of oxenc\<close>

text \<open>
  What the program uses of \<open>bt_list_producer\<close> and \<open>bt_list_consumer\<close>: the encodings of a string,
  of an integer and of a list made of encoded elements, and the reading of what is at the
  front of the rest of a list, which fails with an exception.
\<close>

record bt_codec =
  put_string :: "string \<Rightarrow> string"
  put_int :: "int \<Rightarrow> string"
  put_list :: "string list \<Rightarrow> string"
  open_list :: "string \<Rightarrow> string option"
  is_finished :: "string \<Rightarrow> bool"
  consume_string :: "string \<Rightarrow> (string \<times> string) option"
  consume_integer :: "int \<Rightarrow> int \<Rightarrow> string \<Rightarrow> (int \<times> string) option"
  consume_list :: "string \<Rightarrow> (string \<times> string) option"

text \<open>
  The documented behaviour: a list is its elements between \<open>l\<close> and \<open>e\<close>; reading inverts writing,
  for integers within the bounds asked for, and for lists of strings and integers; a list is
  finished at its \<open>e\<close> and not before an element.
\<close>

definition bt_ok :: "bt_codec \<Rightarrow> bool" where
  "bt_ok C \<longleftrightarrow>
     (\<forall>xs. put_list C xs = ''l'' @ concat xs @ ''e'')
     \<and> (\<forall>rest. open_list C (''l'' @ rest) = Some rest)
     \<and> (\<forall>rest. is_finished C (''e'' @ rest))
     \<and> (\<forall>s rest. \<not> is_finished C (put_string C s @ rest) \<and> consume_string C (put_string C s @ rest) = Some (s, rest))
     \<and> (\<forall>i lo hi rest. \<not> is_finished C (put_int C i @ rest)
          \<and> (lo \<le> i \<and> i \<le> hi \<longrightarrow> consume_integer C lo hi (put_int C i @ rest) = Some (i, rest)))
     \<and> (\<forall>xs rest. set xs \<subseteq> range (put_string C) \<union> range (put_int C) \<longrightarrow>
          \<not> is_finished C (put_list C xs @ rest) \<and> consume_list C (put_list C xs @ rest) = Some (concat xs @ ''e'', rest))"

section \<open>Operations\<close>

definition SERIALIZATION_BATCH_SIZE :: nat where "SERIALIZATION_BATCH_SIZE = 9000000"
definition SERIALIZATION_VERSION_BT :: nat where "SERIALIZATION_VERSION_BT = 1"

datatype serialize_error = Invalid_Version | Bt_Error

definition serialize_item :: "bt_codec \<Rightarrow> message \<Rightarrow> string" where
  "serialize_item C msg =
     put_list C [put_string C (prefixed_raw (msg_pubkey msg)), put_string C (msg_hash msg),
       put_int C (to_epoch_ms (msg_timestamp msg)), put_int C (to_epoch_ms (msg_expiry msg)),
       put_string C (msg_data msg), put_int C (to_int (msg_namespace msg))]"

text \<open>
  The loop of \<open>serialize_batch\<close>: the size is that of the outer list as it stands, with the ends
  of both lists.
\<close>

fun serialize_batch_loop :: "bt_codec \<Rightarrow> message list \<Rightarrow> string list \<Rightarrow> string list \<times> message list" where
  "serialize_batch_loop C [] items = (items, [])"
| "serialize_batch_loop C (msg # msgs) items =
     (if length (put_list C [put_list C items]) < SERIALIZATION_BATCH_SIZE
      then serialize_batch_loop C msgs (items @ [serialize_item C msg]) else (items, msg # msgs))"

definition serialize_batch :: "bt_codec \<Rightarrow> message list \<Rightarrow> string \<times> message list" where
  "serialize_batch C msgs =
     (let (items, msgs') = serialize_batch_loop C msgs [];
          payload = put_list C [put_list C items]
      in (butlast (payload[0 := char_of SERIALIZATION_VERSION_BT]), msgs'))"

text \<open>A batch without a message would be repeated for ever.\<close>

partial_function (option) serialize_batches :: "bt_codec \<Rightarrow> message list \<Rightarrow> string list \<Rightarrow> string list option" where
  "serialize_batches C msgs res =
     (if msgs = [] then Some res
      else let (part, msgs') = serialize_batch C msgs in serialize_batches C msgs' (res @ [part]))"

definition serialize_messages :: "bt_codec \<Rightarrow> message list \<Rightarrow> nat \<Rightarrow> (serialize_error + string list) option" where
  "serialize_messages C msgs ver =
     (if ver = SERIALIZATION_VERSION_BT then map_option Inr (serialize_batches C msgs [])
      else Some (Inl Invalid_Version))"

text \<open>The first byte is compared as a signed \<open>char\<close>.\<close>

definition signed_char :: "char \<Rightarrow> int" where
  "signed_char c = (let n = of_char c in if n \<ge> 128 then n - 256 else n)"

definition int64_min :: int where "int64_min = - (2 ^ 63)"
definition int64_max :: int where "int64_max = 2 ^ 63 - 1"

text \<open>
  One message. The inner \<open>None\<close> is an account key that does not load, which ends the reading
  with no messages at all. A message without a namespace has that of a new \<open>struct message\<close>.
\<close>

definition deserialize_item :: "bt_codec \<Rightarrow> bool \<Rightarrow> hex_codec \<Rightarrow> string \<Rightarrow> message option option" where
  "deserialize_item C is_mainnet H m =
     (case consume_string C m of None \<Rightarrow> None | Some (pk, m) \<Rightarrow>
        if \<not> pubkey_bool (load_pubkey is_mainnet H pk) then Some None
        else case consume_string C m of None \<Rightarrow> None | Some (hash, m) \<Rightarrow>
          (case consume_integer C int64_min int64_max m of None \<Rightarrow> None | Some (ts, m) \<Rightarrow>
             (case consume_integer C int64_min int64_max m of None \<Rightarrow> None | Some (ex, m) \<Rightarrow>
                (case consume_string C m of None \<Rightarrow> None | Some (dat, m) \<Rightarrow>
                   (let item = \<lparr>msg_pubkey = load_pubkey is_mainnet H pk, msg_hash = hash, msg_namespace = 0,
                                msg_timestamp = from_epoch_ms ts, msg_expiry = from_epoch_ms ex, msg_data = dat\<rparr>
                    in if \<not> is_finished C m
                       then case consume_integer C (- (2 ^ 15)) (2 ^ 15 - 1) m of None \<Rightarrow> None
                            | Some (ns, m) \<Rightarrow> Some (Some (item\<lparr>msg_namespace := word_of_int ns\<rparr>))
                       else Some (Some item))))))"

partial_function (option) deserialize_loop ::
    "bt_codec \<Rightarrow> bool \<Rightarrow> hex_codec \<Rightarrow> string \<Rightarrow> message list \<Rightarrow> (serialize_error + message list) option" where
  "deserialize_loop C is_mainnet H l result =
     (if is_finished C l then Some (Inr result)
      else case consume_list C l of
             None \<Rightarrow> Some (Inl Bt_Error)
           | Some (m, l') \<Rightarrow>
               (case deserialize_item C is_mainnet H m of
                  None \<Rightarrow> Some (Inl Bt_Error)
                | Some None \<Rightarrow> Some (Inr [])
                | Some (Some item) \<Rightarrow> deserialize_loop C is_mainnet H l' (result @ [item])))"

definition deserialize_messages ::
    "bt_codec \<Rightarrow> bool \<Rightarrow> hex_codec \<Rightarrow> string \<Rightarrow> (serialize_error + message list) option" where
  "deserialize_messages C is_mainnet H blob =
     (let (ver, blob) =
            (if blob \<noteq> [] \<and> signed_char (hd blob) < signed_char (CHR ''0'') \<and> signed_char (hd blob) \<noteq> 0
             then (of_char (hd blob), tl blob) else (0, blob))
      in if ver \<noteq> SERIALIZATION_VERSION_BT then Some (Inr [])
         else case open_list C blob of
                None \<Rightarrow> Some (Inl Bt_Error)
              | Some l \<Rightarrow> deserialize_loop C is_mainnet H l [])"

section \<open>Batches\<close>

lemma bt_list: "bt_ok C \<Longrightarrow> put_list C xs = ''l'' @ concat xs @ ''e''"
  unfolding bt_ok_def by blast

lemma bt_read:
  assumes "bt_ok C"
  shows "open_list C (''l'' @ rest) = Some rest" "is_finished C (''e'' @ rest)"
    "\<not> is_finished C (put_string C s @ rest)" "consume_string C (put_string C s @ rest) = Some (s, rest)"
    "\<not> is_finished C (put_int C i @ rest)" "lo \<le> i \<Longrightarrow> i \<le> hi \<Longrightarrow> consume_integer C lo hi (put_int C i @ rest) = Some (i, rest)"
    "set xs \<subseteq> range (put_string C) \<union> range (put_int C) \<Longrightarrow> \<not> is_finished C (put_list C xs @ rest)"
    "set xs \<subseteq> range (put_string C) \<union> range (put_int C) \<Longrightarrow> consume_list C (put_list C xs @ rest) = Some (concat xs @ ''e'', rest)"
  using assms unfolding bt_ok_def by blast+

lemma batch_loop_split:
  "\<exists>k \<le> length msgs. serialize_batch_loop C msgs items = (items @ map (serialize_item C) (take k msgs), drop k msgs)"
proof (induction msgs arbitrary: items)
  case (Cons msg msgs)
  show ?case
  proof (cases "length (put_list C [put_list C items]) < SERIALIZATION_BATCH_SIZE")
    case True
    with Cons.IH [of "items @ [serialize_item C msg]"] obtain k where
      "k \<le> length msgs" "serialize_batch_loop C (msg # msgs) items = (items @ map (serialize_item C) (take (Suc k) (msg # msgs)), drop (Suc k) (msg # msgs))"
      by auto
    then show ?thesis by (intro exI [of _ "Suc k"]) simp
  qed (auto intro: exI [of _ 0])
qed simp

text \<open>
  A batch takes at least one message, and only the last one of it goes beyond the size.
\<close>

lemma serialize_batch_spec:
  assumes C: "bt_ok C" and ne: "msgs \<noteq> []"
  obtains k where "0 < k" "k \<le> length msgs"
    "serialize_batch C msgs = (char_of SERIALIZATION_VERSION_BT # ''l'' @ concat (map (serialize_item C) (take k msgs)) @ ''e'', drop k msgs)"
proof -
  obtain msg msgs' where m: "msgs = msg # msgs'" using ne by (cases msgs) auto
  have s: "length (put_list C [put_list C []]) < SERIALIZATION_BATCH_SIZE"
    by (simp add: bt_list [OF C] SERIALIZATION_BATCH_SIZE_def)
  obtain k where k: "k \<le> length msgs'" "serialize_batch_loop C msgs' [serialize_item C msg] = ([serialize_item C msg] @ map (serialize_item C) (take k msgs'), drop k msgs')"
    using batch_loop_split by blast
  have "serialize_batch_loop C msgs [] = (map (serialize_item C) (take (Suc k) msgs), drop (Suc k) msgs)"
    using s k(2) by (simp add: m)
  then have "serialize_batch C msgs = (char_of SERIALIZATION_VERSION_BT # ''l'' @ concat (map (serialize_item C) (take (Suc k) msgs)) @ ''e'', drop (Suc k) msgs)"
    by (simp add: serialize_batch_def bt_list [OF C] butlast_append)
  with k(1) show ?thesis by (intro that [of "Suc k"]) (simp_all add: m)
qed

text \<open>A part holds a run of the messages.\<close>

definition part_of :: "bt_codec \<Rightarrow> message list \<Rightarrow> string" where
  "part_of C ms = char_of SERIALIZATION_VERSION_BT # ''l'' @ concat (map (serialize_item C) ms) @ ''e''"

lemma serialize_batches_spec:
  assumes C: "bt_ok C"
  shows "\<exists>runs. serialize_batches C msgs res = Some (res @ map (part_of C) runs) \<and> concat runs = msgs \<and> [] \<notin> set runs"
proof (induction "length msgs" arbitrary: msgs res rule: less_induct)
  case less
  show ?case
  proof (cases "msgs = []")
    case True
    then show ?thesis by (intro exI [of _ "[]"]) (simp add: serialize_batches.simps)
  next
    case False
    obtain k where k: "0 < k" "k \<le> length msgs" "serialize_batch C msgs = (part_of C (take k msgs), drop k msgs)"
      using serialize_batch_spec [OF C False] unfolding part_of_def by blast
    have "length (drop k msgs) < length msgs" using k(1) False by simp
    from less [OF this, of "res @ [part_of C (take k msgs)]"] obtain runs where
      r: "serialize_batches C (drop k msgs) (res @ [part_of C (take k msgs)]) = Some (res @ [part_of C (take k msgs)] @ map (part_of C) runs)"
        "concat runs = drop k msgs" "[] \<notin> set runs" by auto
    have "serialize_batches C msgs res = Some (res @ map (part_of C) (take k msgs # runs))"
      using False k(3) r(1) by (subst serialize_batches.simps) simp
    moreover have "concat (take k msgs # runs) = msgs" "[] \<notin> set (take k msgs # runs)" using r(2,3) k(1) False by auto
    ultimately show ?thesis by blast
  qed
qed

section \<open>Reading back what was written\<close>

text \<open>
  What can be sent: a valid account key and times whose milliseconds fit an \<open>int64_t\<close>. The
  receiver has the times in whole milliseconds.
\<close>

definition sendable :: "message \<Rightarrow> bool" where
  "sendable m \<longleftrightarrow> pubkey_valid (msg_pubkey m)
     \<and> to_epoch_ms (msg_timestamp m) \<in> {int64_min..int64_max} \<and> to_epoch_ms (msg_expiry m) \<in> {int64_min..int64_max}"

definition in_millis :: "message \<Rightarrow> message" where
  "in_millis m = m\<lparr>msg_timestamp := from_epoch_ms (to_epoch_ms (msg_timestamp m)),
     msg_expiry := from_epoch_ms (to_epoch_ms (msg_expiry m))\<rparr>"

lemma to_int_bounds: "- (2 ^ 15) \<le> to_int ns" "to_int ns \<le> 2 ^ 15 - 1" "word_of_int (to_int ns) = ns"
  using sint_ge [of ns] sint_lt [of ns] by (simp_all add: to_int_def)

lemma deserialize_item_roundtrip:
  assumes C: "bt_ok C" and m: "sendable m"
  shows "deserialize_item C net H (concat [put_string C (prefixed_raw (msg_pubkey m)), put_string C (msg_hash m),
       put_int C (to_epoch_ms (msg_timestamp m)), put_int C (to_epoch_ms (msg_expiry m)),
       put_string C (msg_data m), put_int C (to_int (msg_namespace m))] @ ''e'') = Some (Some (in_millis m))"
proof -
  have pk: "load_pubkey net H (prefixed_raw (msg_pubkey m)) = msg_pubkey m" "pubkey_bool (msg_pubkey m)"
    using m load_raw_key [of "msg_pubkey m"] valid_nonempty [of "msg_pubkey m"] by (simp_all add: sendable_def pubkey_bool_def)
  have t: "int64_min \<le> to_epoch_ms (msg_timestamp m)" "to_epoch_ms (msg_timestamp m) \<le> int64_max"
      "int64_min \<le> to_epoch_ms (msg_expiry m)" "to_epoch_ms (msg_expiry m) \<le> int64_max"
    using m by (simp_all add: sendable_def)
  show ?thesis
    unfolding deserialize_item_def
    by (simp only: concat.simps append.simps append_assoc append_Nil2 bt_read [OF C] t to_int_bounds option.case prod.case pk
        if_True if_False not_False_eq_True simp_thms Let_def) (simp add: in_millis_def)
qed

lemma deserialize_loop_roundtrip:
  assumes C: "bt_ok C" and "\<forall>m \<in> set ms. sendable m"
  shows "deserialize_loop C net H (concat (map (serialize_item C) ms) @ ''e'') res = Some (Inr (res @ map in_millis ms))"
  using assms(2)
proof (induction ms arbitrary: res)
  case Nil
  then show ?case using bt_read(2) [OF C, of "[]"] by (subst deserialize_loop.simps) simp
next
  case (Cons m ms)
  let ?xs = "[put_string C (prefixed_raw (msg_pubkey m)), put_string C (msg_hash m),
       put_int C (to_epoch_ms (msg_timestamp m)), put_int C (to_epoch_ms (msg_expiry m)),
       put_string C (msg_data m), put_int C (to_int (msg_namespace m))]"
  let ?rest = "concat (map (serialize_item C) ms) @ ''e''"
  have xs: "set ?xs \<subseteq> range (put_string C) \<union> range (put_int C)" by simp
  have f: "\<not> is_finished C (put_list C ?xs @ ?rest)" by (rule bt_read(7) [OF C xs])
  have c: "consume_list C (put_list C ?xs @ ?rest) = Some (concat ?xs @ ''e'', ?rest)" by (rule bt_read(8) [OF C xs])
  have i: "deserialize_item C net H (concat ?xs @ ''e'') = Some (Some (in_millis m))"
    using Cons.prems by (intro deserialize_item_roundtrip [OF C]) simp
  have "deserialize_loop C net H (put_list C ?xs @ ?rest) res = deserialize_loop C net H ?rest (res @ [in_millis m])"
    by (subst deserialize_loop.simps) (simp only: f c i option.case prod.case if_False)
  also have "\<dots> = Some (Inr (res @ map in_millis (m # ms)))" using Cons by simp
  finally show ?case unfolding serialize_item_def [of C m, symmetric] by simp
qed

lemma deserialize_part:
  assumes C: "bt_ok C" and "\<forall>m \<in> set ms. sendable m"
  shows "deserialize_messages C net H (part_of C ms) = Some (Inr (map in_millis ms))"
proof -
  have c: "char_of SERIALIZATION_VERSION_BT = CHR 0x01" by (simp add: SERIALIZATION_VERSION_BT_def char_of_def bit_0)
  then have v: "signed_char (char_of SERIALIZATION_VERSION_BT) = 1" "signed_char (CHR ''0'') = 48"
      "of_char (char_of SERIALIZATION_VERSION_BT) = SERIALIZATION_VERSION_BT"
    by (simp_all add: signed_char_def Let_def SERIALIZATION_VERSION_BT_def)
  then show ?thesis
    using deserialize_loop_roundtrip [OF assms, of net H "[]"] bt_read(1) [OF C]
    by (simp add: deserialize_messages_def part_of_def v)
qed

section \<open>A codec\<close>

text \<open>
  An encoding that behaves as documented: every character of a string is preceded by \<open>x\<close>, and
  an integer is written in unary after its sign.
\<close>

fun get_plain :: "string \<Rightarrow> (string \<times> string) option" where
  "get_plain (k # s) =
     (if k = CHR ''.'' then Some ([], s)
      else case s of [] \<Rightarrow> None | c # s' \<Rightarrow> map_option (\<lambda>(a, r). (c # a, r)) (get_plain s'))"
| "get_plain [] = None"

definition put_plain :: "string \<Rightarrow> string" where
  "put_plain s = concat (map (\<lambda>c. [CHR ''x'', c]) s) @ ''.''"

lemma get_put_plain [simp]: "get_plain (put_plain s @ rest) = Some (s, rest)"
  by (induction s) (simp_all add: put_plain_def)

definition int_digits :: "int \<Rightarrow> string" where
  "int_digits i = (if i < 0 then CHR ''-'' else CHR ''+'') # replicate (nat \<bar>i\<bar>) CHR ''1''"

definition digits_int :: "string \<Rightarrow> int" where
  "digits_int s = (if hd s = CHR ''-'' then - int (length s - 1) else int (length s - 1))"

lemma digits_int_digits [simp]: "digits_int (int_digits i) = i"
  by (simp add: digits_int_def int_digits_def)

fun skip_scalars :: "nat \<Rightarrow> string \<Rightarrow> (string \<times> string) option" where
  "skip_scalars n (c # s) =
     (if c = CHR ''e'' then Some (''e'', s)
      else case n of 0 \<Rightarrow> None
         | Suc m \<Rightarrow> (case get_plain s of None \<Rightarrow> None | Some (a, r) \<Rightarrow>
             map_option (\<lambda>(b, r'). (c # put_plain a @ b, r')) (skip_scalars m r)))"
| "skip_scalars n [] = None"

definition plain_bt :: bt_codec where
  "plain_bt = \<lparr>put_string = (\<lambda>s. CHR ''s'' # put_plain s),
     put_int = (\<lambda>i. CHR ''i'' # put_plain (int_digits i)),
     put_list = (\<lambda>xs. ''l'' @ concat xs @ ''e''),
     open_list = (\<lambda>s. if s \<noteq> [] \<and> hd s = CHR ''l'' then Some (tl s) else None),
     is_finished = (\<lambda>s. s \<noteq> [] \<and> hd s = CHR ''e''),
     consume_string = (\<lambda>s. if s \<noteq> [] \<and> hd s = CHR ''s'' then get_plain (tl s) else None),
     consume_integer = (\<lambda>lo hi s. if s \<noteq> [] \<and> hd s = CHR ''i'' then map_option (\<lambda>(a, r). (digits_int a, r)) (get_plain (tl s)) else None),
     consume_list = (\<lambda>s. if s \<noteq> [] \<and> hd s = CHR ''l'' then skip_scalars (length s) (tl s) else None)\<rparr>"

lemma skip_scalars_concat:
  assumes "set xs \<subseteq> range (put_string plain_bt) \<union> range (put_int plain_bt)" and "length xs \<le> n"
  shows "skip_scalars n (concat xs @ ''e'' @ rest) = Some (concat xs @ ''e'', rest)"
  using assms
proof (induction xs arbitrary: n)
  case (Cons x xs)
  then obtain m where n: "n = Suc m" "length xs \<le> m" by (cases n) auto
  obtain c a where x: "x = c # put_plain a" "c = CHR ''s'' \<or> c = CHR ''i''" using Cons.prems(1) by (auto simp: plain_bt_def)
  have "skip_scalars m (concat xs @ ''e'' @ rest) = Some (concat xs @ ''e'', rest)" using Cons n(2) by simp
  then show ?case using x(2) by (auto simp: n(1) x(1))
qed simp

lemma plain_bt_ok: "bt_ok plain_bt"
proof -
  have "length xs \<le> length (put_list plain_bt xs @ rest)" if "set xs \<subseteq> range (put_string plain_bt) \<union> range (put_int plain_bt)" for xs rest
  proof -
    have "length xs \<le> length (concat xs)" using that
      by (induction xs) (auto simp: plain_bt_def put_plain_def)
    then show ?thesis by (simp add: plain_bt_def)
  qed
  then have "consume_list plain_bt (put_list plain_bt xs @ rest) = Some (concat xs @ ''e'', rest)"
    if "set xs \<subseteq> range (put_string plain_bt) \<union> range (put_int plain_bt)" for xs rest
    using skip_scalars_concat [OF that, of "length (put_list plain_bt xs @ rest)" rest] that by (simp add: plain_bt_def)
  then show ?thesis unfolding bt_ok_def by (auto simp: plain_bt_def)
qed

text \<open>
  C29: Serialising always ends, for messages of any number and size, and every part it makes,
  read by the receiver, gives the messages that went into it, in order, with their
  times in whole milliseconds; nothing is lost between parts and no part is empty.
\<close>

theorem serialize_roundtrip:
  assumes "bt_ok C" and "\<forall>m \<in> set msgs. sendable m"
  shows "\<exists>parts runs. serialize_messages C msgs SERIALIZATION_VERSION_BT = Some (Inr parts)
     \<and> concat runs = map in_millis msgs \<and> [] \<notin> set runs
     \<and> map (deserialize_messages C is_mainnet H) parts = map (\<lambda>r. Some (Inr r)) runs"
proof -
  obtain runs where r: "serialize_batches C msgs [] = Some (map (part_of C) runs)" "concat runs = msgs" "[] \<notin> set runs"
    using serialize_batches_spec [OF assms(1), of msgs "[]"] by auto
  have "deserialize_messages C is_mainnet H (part_of C run) = Some (Inr (map in_millis run))" if "run \<in> set runs" for run
    using assms(2) r(2) that by (intro deserialize_part [OF assms(1)]) auto
  then have "map (deserialize_messages C is_mainnet H) (map (part_of C) runs) = map (\<lambda>r. Some (Inr r)) (map (map in_millis) runs)"
    by simp
  moreover have "concat (map (map in_millis) runs) = map in_millis msgs" "[] \<notin> set (map (map in_millis) runs)"
    using r(2,3) by (auto simp flip: map_concat)
  ultimately show ?thesis using r(1) unfolding serialize_messages_def by auto
qed

theorem serialize_roundtrip_witness:
  "\<exists>parts runs. serialize_messages plain_bt [sample_message] SERIALIZATION_VERSION_BT = Some (Inr parts)
     \<and> concat runs = [sample_message] \<and> [] \<notin> set runs
     \<and> map (deserialize_messages plain_bt True plain_hex) parts = map (\<lambda>r. Some (Inr r)) runs"
proof -
  have "sendable sample_message"
    by (simp add: sendable_def sample_message_def sample_pubkey_def pubkey_valid_def to_epoch_ms_nonneg int64_min_def int64_max_def)
  moreover have "map in_millis [sample_message] = [sample_message]"
    by (simp add: in_millis_def sample_message_def to_epoch_ms_nonneg from_epoch_ms_def)
  ultimately show ?thesis using serialize_roundtrip [OF plain_bt_ok, of "[sample_message]" True plain_hex] by simp
qed

text \<open>
  The other ways out: a version that is not known, and an account key that does not load, give
  no messages, and are not errors.
\<close>

lemma deserialize_other_version:
  assumes "blob = [] \<or> of_char (hd blob) \<noteq> SERIALIZATION_VERSION_BT"
  shows "deserialize_messages C is_mainnet H blob = Some (Inr [])"
  using assms by (auto simp: deserialize_messages_def SERIALIZATION_VERSION_BT_def)

end
