(* ===== verification/Dump_Windows.thy ===== *)
theory Dump_Windows
  imports Swarms Serialization
begin

text \<open>
  Sending dumps to other nodes (\<open>oxenss/snode/service_node.cpp\<close>, the dump part): each dump has
  its cursor in the database and, while it is being sent, a window of batches in flight, which
  are acknowledged one by one and in any order. The second half is the system of the node, the
  network and everything that was sent, as a step relation, and the invariant that ties the
  windows to what was sent.
\<close>

section \<open>State\<close>

definition DUMP_BATCH_BYTES :: nat where "DUMP_BATCH_BYTES = 1000000"
definition DUMP_WINDOW :: int where "DUMP_WINDOW = 5"
definition DUMP_RETRY_DELAY :: time where "DUMP_RETRY_DELAY = seconds 15"

type_synonym dump_key = "legacy_pubkey \<times> swarm_id_t"

text \<open>
  \<open>struct dump_window\<close>. \<open>batches\<close> is an ordered map, the generation a counter that does not
  reach the end of its 64 bits.
\<close>

record dump_window =
  w_next_id :: int
  w_end_id :: int
  w_sent_next_id :: int
  w_batches :: "(int \<times> int) list"
  w_in_flight :: int
  w_exhausted :: bool
  w_generation :: nat
  w_sent_messages :: nat
  w_failed_batch :: "int option"

record dump_state =
  dn_db :: database
  dump_windows :: "dump_key \<rightharpoonup> dump_window"
  dump_generation :: nat

section \<open>Operations\<close>

text \<open>
  What a read of a batch gave, and in how many parts it was sent: the record of what goes out.
  Nothing is sent if it found nothing. An encoder that does not end, which oxenc is not, would
  leave the loop hanging.
\<close>

record dump_read =
  dr_from :: int
  dr_last :: int
  dr_msgs :: "message list"
  dr_parts :: "string list"

definition message_parts :: "bt_codec \<Rightarrow> message list \<Rightarrow> string list" where
  "message_parts C msgs = (case serialize_messages C msgs SERIALIZATION_VERSION_BT of Some (Inr parts) \<Rightarrow> parts | _ \<Rightarrow> [])"

function dump_loop ::
    "bt_codec \<Rightarrow> time \<Rightarrow> u64 \<Rightarrow> u64 \<Rightarrow> database \<Rightarrow> dump_window \<Rightarrow> dump_read list \<Rightarrow> dump_window \<times> dump_read list" where
  "dump_loop C now lower upper db w reads =
     (if w_in_flight w < DUMP_WINDOW
      then let (msgs, last_id) = next_dump_batch now (w_sent_next_id w) (w_end_id w) lower upper DUMP_BATCH_BYTES db
           in if msgs = []
              then (w\<lparr>w_exhausted := True\<rparr>, reads @ [\<lparr>dr_from = w_sent_next_id w, dr_last = w_end_id w, dr_msgs = [], dr_parts = []\<rparr>])
              else let parts = message_parts C msgs
                   in dump_loop C now lower upper db
                        (w\<lparr>w_batches := map_put last_id (int (length parts)) (w_batches w), w_in_flight := w_in_flight w + 1,
                           w_sent_next_id := last_id + 1, w_sent_messages := w_sent_messages w + length msgs\<rparr>)
                        (reads @ [\<lparr>dr_from = w_sent_next_id w, dr_last = last_id, dr_msgs = msgs, dr_parts = parts\<rparr>])
      else (w, reads))"
  by pat_completeness auto
termination by (relation "measure (\<lambda>(C, now, lower, upper, db, w, reads). nat (DUMP_WINDOW - w_in_flight w))") auto

definition erase_window :: "dump_key \<Rightarrow> dump_state \<Rightarrow> dump_state" where
  "erase_window key st = st\<lparr>dump_windows := (dump_windows st)(key := None)\<rparr>"

definition finish_dump :: "dump_key \<Rightarrow> dump_state \<Rightarrow> dump_state" where
  "finish_dump key st = erase_window key (st\<lparr>dn_db := remove_dump (fst key) (snd key) (dn_db st)\<rparr>)"

definition pause_dump :: "time \<Rightarrow> dump_key \<Rightarrow> int \<Rightarrow> dump_state \<Rightarrow> dump_state" where
  "pause_dump now key next_id st =
     erase_window key (st\<lparr>dn_db := update_dump (fst key) (snd key) next_id (now + DUMP_RETRY_DELAY) (dn_db st)\<rparr>)"

definition left_swarm :: "network_state \<Rightarrow> dump_key \<Rightarrow> bool" where
  "left_swarm nw key \<longleftrightarrow> (case get_swarm (nw_swarms nw) (snd key) of Some ms \<Rightarrow> fst key \<notin> set ms | None \<Rightarrow> True)"

definition not_contactable :: "network_state \<Rightarrow> legacy_pubkey \<Rightarrow> bool" where
  "not_contactable nw pk \<longleftrightarrow> (case find_contact (nw_contacts nw) pk of Some ct \<Rightarrow> \<not> contactable ct | None \<Rightarrow> True)"

definition advance_dump ::
    "bt_codec \<Rightarrow> network_state \<Rightarrow> time \<Rightarrow> dump_key \<Rightarrow> dump_window \<Rightarrow> dump_state \<Rightarrow> dump_state \<times> dump_read list" where
  "advance_dump C nw now key w st =
     (if left_swarm nw key then (finish_dump key st, [])
      else if w_failed_batch w \<noteq> None then (st, [])
      else if w_exhausted w then (if w_in_flight w = 0 then finish_dump key st else st, [])
      else if w_in_flight w \<ge> DUMP_WINDOW then (st, [])
      else if not_contactable nw (fst key) then (pause_dump now key (w_next_id w) st, [])
      else case swarm_boundaries (nw_swarms nw) (snd key) of
             Inl e \<Rightarrow> (st, [])
           | Inr (lower, upper) \<Rightarrow>
               let (w', reads) = dump_loop C now lower upper (dn_db st) w []
               in (if w_exhausted w' \<and> w_in_flight w' = 0 then finish_dump key st
                   else st\<lparr>dump_windows := (dump_windows st)(key \<mapsto> w')\<rparr>, reads))"

definition new_window :: "pending_dump \<Rightarrow> nat \<Rightarrow> dump_window" where
  "new_window d generation =
     \<lparr>w_next_id = d_next_id d, w_end_id = d_end_id d, w_sent_next_id = d_next_id d, w_batches = [], w_in_flight = 0,
      w_exhausted = False, w_generation = generation, w_sent_messages = 0, w_failed_batch = None\<rparr>"

definition check_dump ::
    "bt_codec \<Rightarrow> network_state \<Rightarrow> time \<Rightarrow> pending_dump \<Rightarrow> dump_state \<Rightarrow> dump_state \<times> (dump_key \<times> nat \<times> dump_read list) list" where
  "check_dump C nw now d st =
     (let key = (d_pubkey d, d_swarm d) in
      case dump_windows st key of
        Some w \<Rightarrow> (let (st', reads) = advance_dump C nw now key w st in (st', [(key, w_generation w, reads)]))
      | None \<Rightarrow>
          if d_next_attempt d > now then (st, [])
          else let g = dump_generation st + 1; w = new_window d g;
                   (st', reads) = advance_dump C nw now key w
                      (st\<lparr>dump_windows := (dump_windows st)(key \<mapsto> w), dump_generation := g\<rparr>)
               in (st', [(key, g, reads)]))"

fun check_dumps_loop ::
    "bt_codec \<Rightarrow> network_state \<Rightarrow> time \<Rightarrow> pending_dump list \<Rightarrow> dump_state \<Rightarrow> dump_state \<times> (dump_key \<times> nat \<times> dump_read list) list" where
  "check_dumps_loop C nw now [] st = (st, [])"
| "check_dumps_loop C nw now (d # ds) st =
     (let (st', out) = check_dump C nw now d st; (st'', out') = check_dumps_loop C nw now ds st' in (st'', out @ out'))"

definition check_dumps_locked ::
    "bt_codec \<Rightarrow> network_state \<Rightarrow> time \<Rightarrow> dump_state \<Rightarrow> dump_state \<times> (dump_key \<times> nat \<times> dump_read list) list" where
  "check_dumps_locked C nw now st = check_dumps_loop C nw now (list_pending_dumps (dn_db st)) st"

text \<open>The generation is that of the window whose batches were sent.\<close>

definition sn_queue_dump ::
    "bt_codec \<Rightarrow> network_state \<Rightarrow> time \<Rightarrow> legacy_pubkey \<Rightarrow> swarm_id_t \<Rightarrow> dump_state \<Rightarrow>
     dump_state \<times> (dump_key \<times> nat \<times> dump_read list) list" where
  "sn_queue_dump C nw now pk swarm st =
     (let end_id = max_message_id (dn_db st)
      in check_dumps_locked C nw now (erase_window (pk, swarm) (st\<lparr>dn_db := queue_dump pk swarm end_id (dn_db st)\<rparr>)))"

text \<open>
  The cursor goes past the batches at the front that have no part left to be acknowledged, up to
  the first failed one.
\<close>

fun pop_acked :: "int option \<Rightarrow> (int \<times> int) list \<Rightarrow> int \<Rightarrow> int \<times> (int \<times> int) list" where
  "pop_acked failed [] next_id = (next_id, [])"
| "pop_acked failed ((l, n) # bs) next_id =
     (if n = 0 \<and> \<not> (case failed of Some f \<Rightarrow> l \<ge> f | None \<Rightarrow> False) then pop_acked failed bs (l + 1)
      else (next_id, (l, n) # bs))"

definition on_dump_batch_reply ::
    "bt_codec \<Rightarrow> network_state \<Rightarrow> time \<Rightarrow> dump_key \<Rightarrow> int \<Rightarrow> nat \<Rightarrow> bool \<Rightarrow> dump_state \<Rightarrow> dump_state \<times> dump_read list" where
  "on_dump_batch_reply C nw now key last_id generation ok st =
     (case dump_windows st key of
        None \<Rightarrow> (st, [])
      | Some w \<Rightarrow>
          if w_generation w \<noteq> generation then (st, [])
          else case map_of (w_batches w) last_id of
                 None \<Rightarrow> (st, [])
               | Some n \<Rightarrow>
                   let w = (if ok then w else w\<lparr>w_failed_batch :=
                              Some (case w_failed_batch w of Some f \<Rightarrow> min last_id f | None \<Rightarrow> last_id)\<rparr>);
                       w = w\<lparr>w_batches := map_put last_id (n - 1) (w_batches w)\<rparr>
                   in if n - 1 > 0 then (st\<lparr>dump_windows := (dump_windows st)(key \<mapsto> w)\<rparr>, [])
                      else let w = w\<lparr>w_in_flight := w_in_flight w - 1\<rparr>;
                               (next_id, bs) = pop_acked (w_failed_batch w) (w_batches w) (w_next_id w);
                               w = w\<lparr>w_next_id := next_id, w_batches := bs\<rparr>
                           in if w_failed_batch w \<noteq> None \<and> w_in_flight w = 0 then (pause_dump now key next_id st, [])
                              else advance_dump C nw now key w
                                     (st\<lparr>dn_db := update_dump (fst key) (snd key) next_id 0 (dn_db st),
                                         dump_windows := (dump_windows st)(key \<mapsto> w)\<rparr>))"

section \<open>The node and what it has sent\<close>

text \<open>
  A batch that was sent: the ids it covers, how many of its parts are not answered yet, whether
  all answers so far were good, whether it was sent since the dump was last queued, and whether
  since the last start.
\<close>

record sent_batch =
  b_key :: dump_key
  b_gen :: nat
  b_from :: int
  b_last :: int
  b_left :: int
  b_ok :: bool
  b_current :: bool
  b_live :: bool

record dump_system =
  ds_node :: dump_state
  ds_network :: network_state
  ds_sent :: "sent_batch list"
  ds_empty :: "(dump_key \<times> int \<times> int) list"

definition batches_of :: "dump_key \<times> nat \<times> dump_read list \<Rightarrow> sent_batch list" where
  "batches_of = (\<lambda>(key, g, reads). map (\<lambda>r. \<lparr>b_key = key, b_gen = g, b_from = dr_from r, b_last = dr_last r, b_left = int (length (dr_parts r)),
      b_ok = True, b_current = True, b_live = True\<rparr>) (filter (\<lambda>r. dr_msgs r \<noteq> []) reads))"

definition empties_of :: "dump_key \<times> nat \<times> dump_read list \<Rightarrow> (dump_key \<times> int \<times> int) list" where
  "empties_of = (\<lambda>(key, g, reads). map (\<lambda>r. (key, dr_from r, dr_last r)) (filter (\<lambda>r. dr_msgs r = []) reads))"

definition record_reads :: "(dump_key \<times> nat \<times> dump_read list) list \<Rightarrow> dump_system \<Rightarrow> dump_system" where
  "record_reads out s = s\<lparr>ds_sent := ds_sent s @ concat (map batches_of out), ds_empty := ds_empty s @ concat (map empties_of out)\<rparr>"

definition answer :: "sent_batch \<Rightarrow> bool \<Rightarrow> sent_batch \<Rightarrow> sent_batch" where
  "answer b ok x = (if b_live x \<and> (b_key x, b_gen x, b_last x) = (b_key b, b_gen b, b_last b)
     then x\<lparr>b_left := b_left x - 1, b_ok := b_ok x \<and> ok\<rparr> else x)"

definition requeued :: "dump_key \<Rightarrow> dump_system \<Rightarrow> dump_system" where
  "requeued key s = s\<lparr>ds_sent := map (\<lambda>b. if b_key b = key then b\<lparr>b_current := False\<rparr> else b) (ds_sent s),
     ds_empty := filter (\<lambda>(k, _). k \<noteq> key) (ds_empty s)\<rparr>"

text \<open>
  What can happen: a dump is queued, the periodic check runs, a part that is not answered yet
  is, the node restarts, which forgets the windows and what is on the way, and the network and
  the database change. Every part is answered at most once, in any order, or never.
\<close>

inductive dump_step :: "bt_codec \<Rightarrow> (string \<Rightarrow> u64) \<Rightarrow> dump_system \<Rightarrow> dump_system \<Rightarrow> bool" for C lb where
  queue: "sn_queue_dump C (ds_network s) now pk swarm (ds_node s) = (st, out) \<Longrightarrow>
     dump_step C lb s (record_reads out ((requeued (pk, swarm) s)\<lparr>ds_node := st\<rparr>))"
| check: "check_dumps_locked C (ds_network s) now (ds_node s) = (st, out) \<Longrightarrow>
     dump_step C lb s (record_reads out (s\<lparr>ds_node := st\<rparr>))"
| reply: "b \<in> set (ds_sent s) \<Longrightarrow> b_live b \<Longrightarrow> 0 < b_left b \<Longrightarrow>
     on_dump_batch_reply C (ds_network s) now (b_key b) (b_last b) (b_gen b) ok (ds_node s) = (st, reads) \<Longrightarrow>
     dump_step C lb s (record_reads [(b_key b, b_gen b, reads)] (s\<lparr>ds_node := st, ds_sent := map (answer b ok) (ds_sent s)\<rparr>))"
| restart: "dump_step C lb s (s\<lparr>ds_node := (ds_node s)\<lparr>dump_windows := Map.empty, dump_generation := 0\<rparr>,
     ds_sent := map (\<lambda>b. b\<lparr>b_live := False\<rparr>) (ds_sent s)\<rparr>)"
| network: "dump_step C lb s (s\<lparr>ds_network := nw\<rparr>)"
| database: "db_inv lb db \<Longrightarrow> dump_map db = dump_map (dn_db (ds_node s)) \<Longrightarrow>
     dump_step C lb s (s\<lparr>ds_node := (ds_node s)\<lparr>dn_db := db\<rparr>\<rparr>)"

inductive dump_reachable :: "bt_codec \<Rightarrow> (string \<Rightarrow> u64) \<Rightarrow> dump_system \<Rightarrow> bool" for C lb where
  start: "db_inv lb db \<Longrightarrow> dump_map db = Map.empty \<Longrightarrow>
     dump_reachable C lb \<lparr>ds_node = \<lparr>dn_db = db, dump_windows = Map.empty, dump_generation = 0\<rparr>, ds_network = nw, ds_sent = [], ds_empty = []\<rparr>"
| step: "dump_reachable C lb s \<Longrightarrow> dump_step C lb s s' \<Longrightarrow> dump_reachable C lb s'"

text \<open>An id is covered if it is in a batch of which every part was acknowledged.\<close>

definition acked :: "sent_batch \<Rightarrow> bool" where
  "acked b \<longleftrightarrow> b_left b = 0 \<and> b_ok b"

definition covered :: "sent_batch list \<Rightarrow> dump_key \<Rightarrow> int \<Rightarrow> bool" where
  "covered sent key n \<longleftrightarrow> (\<forall>i. 1 \<le> i \<and> i < n \<longrightarrow>
     (\<exists>b \<in> set sent. b_current b \<and> b_key b = key \<and> b_from b \<le> i \<and> i \<le> b_last b \<and> acked b))"

section \<open>The invariant\<close>

text \<open>Consecutive batches.\<close>

fun chain :: "int \<Rightarrow> sent_batch list \<Rightarrow> int \<Rightarrow> bool" where
  "chain a [] z \<longleftrightarrow> a = z"
| "chain a (b # bs) z \<longleftrightarrow> b_from b = a \<and> a \<le> b_last b \<and> chain (b_last b + 1) bs z"

definition in_window :: "dump_key \<Rightarrow> nat \<Rightarrow> sent_batch \<Rightarrow> bool" where
  "in_window key g b \<longleftrightarrow> b_live b \<and> b_key b = key \<and> b_gen b = g"

definition entries :: "sent_batch list \<Rightarrow> (int \<times> int) list" where
  "entries bs = map (\<lambda>b. (b_last b, b_left b)) bs"

definition unanswered :: "sent_batch list \<Rightarrow> int" where
  "unanswered bs = int (length (filter (\<lambda>b. b_left b > 0) bs))"

definition failure_ok :: "int option \<Rightarrow> sent_batch list \<Rightarrow> bool" where
  "failure_ok failed bs \<longleftrightarrow>
     (\<forall>b \<in> set bs. \<not> b_ok b \<longrightarrow> (\<exists>f. failed = Some f \<and> f \<le> b_last b))
     \<and> (\<forall>f. failed = Some f \<longrightarrow> (\<exists>b \<in> set bs. b_last b = f \<and> \<not> b_ok b))"

text \<open>
  A window and the batches that were sent for it: the ones before the cursor are through, the
  others are the entries of its map.
\<close>

definition window_sound :: "sent_batch list \<Rightarrow> dump_key \<Rightarrow> dump_window \<Rightarrow> bool" where
  "window_sound sent key w \<longleftrightarrow> covered sent key (w_next_id w) \<and> w_in_flight w \<le> DUMP_WINDOW \<and>
     (\<exists>old bs. filter (in_window key (w_generation w)) sent = old @ bs
        \<and> (\<forall>b \<in> set old. b_left b = 0 \<and> b_last b < w_next_id w)
        \<and> (\<forall>b \<in> set bs. 0 \<le> b_left b \<and> b_current b)
        \<and> chain (w_next_id w) bs (w_sent_next_id w) \<and> w_batches w = entries bs
        \<and> w_in_flight w = unanswered bs \<and> failure_ok (w_failed_batch w) bs)"

definition window_settled :: "(dump_key \<times> int \<times> int) list \<Rightarrow> dump_key \<Rightarrow> dump_window \<Rightarrow> bool" where
  "window_settled em key w \<longleftrightarrow>
     (w_exhausted w \<longrightarrow> (key, w_sent_next_id w, w_end_id w) \<in> set em)
     \<and> (w_exhausted w \<or> w_failed_batch w \<noteq> None \<longrightarrow> 0 < w_in_flight w)"

definition ident :: "sent_batch \<Rightarrow> dump_key \<times> nat \<times> int" where
  "ident b = (b_key b, b_gen b, b_last b)"

subsection \<open>Chains\<close>

lemma chain_le: "chain a bs z \<Longrightarrow> a \<le> z"
  by (induction bs arbitrary: a) force+

lemma chain_append: "chain a (xs @ ys) z \<longleftrightarrow> (\<exists>m. chain a xs m \<and> chain m ys z)"
  by (induction xs arbitrary: a) auto

lemma chain_bounds: "chain a bs z \<Longrightarrow> b \<in> set bs \<Longrightarrow> a \<le> b_last b \<and> b_last b < z"
proof (induction bs arbitrary: a)
  case (Cons x bs)
  then show ?case using chain_le [of "b_last x + 1" bs z] by fastforce
qed simp

lemma chain_covers: "chain a bs z \<Longrightarrow> a \<le> i \<Longrightarrow> i < z \<Longrightarrow> \<exists>b \<in> set bs. b_from b \<le> i \<and> i \<le> b_last b"
proof (induction bs arbitrary: a)
  case (Cons x bs)
  then show ?case by (cases "i \<le> b_last x") force+
qed simp

lemma chain_distinct: "chain a bs z \<Longrightarrow> distinct (map b_last bs)"
proof (induction bs arbitrary: a)
  case (Cons x bs)
  then show ?case using chain_bounds [of "b_last x + 1" bs z] by force
qed simp

lemma chain_map: "(\<And>b. b_from (f b) = b_from b \<and> b_last (f b) = b_last b) \<Longrightarrow> chain a (map f bs) z = chain a bs z"
  by (induction bs arbitrary: a) auto

subsection \<open>Coverage\<close>

lemma covered_append: "covered sent key n \<Longrightarrow> covered (sent @ new) key n"
  unfolding covered_def by (metis Un_iff set_append)

lemma covered_extend:
  assumes "covered sent key n" and "chain n bs z" and "\<forall>b \<in> set bs. b \<in> set sent \<and> b_current b \<and> b_key b = key \<and> acked b"
  shows "covered sent key z"
  unfolding covered_def
proof (intro allI impI)
  fix i assume i: "1 \<le> i \<and> i < z"
  show "\<exists>b \<in> set sent. b_current b \<and> b_key b = key \<and> b_from b \<le> i \<and> i \<le> b_last b \<and> acked b"
  proof (cases "i < n")
    case True
    then show ?thesis using assms(1) i by (auto simp: covered_def)
  next
    case False
    then show ?thesis using chain_covers [OF assms(2), of i] assms(3) i by (metis not_less)
  qed
qed

subsection \<open>Sending\<close>

lemma map_put_last: "(\<forall>x \<in> set m. fst x < k) \<Longrightarrow> map_put k v m = m @ [(k, v)]"
  by (induction k v m rule: map_put.induct) auto

lemma message_parts_nonempty:
  assumes "bt_ok C" and "msgs \<noteq> []"
  shows "message_parts C msgs \<noteq> []"
proof -
  obtain runs where r: "serialize_batches C msgs [] = Some (map (part_of C) runs)" "concat runs = msgs"
    using serialize_batches_spec [OF assms(1), of msgs "[]"] by auto
  then have "message_parts C msgs = map (part_of C) runs" by (simp add: message_parts_def serialize_messages_def)
  then show ?thesis using r(2) assms(2) by auto
qed

definition fresh_batch :: "dump_key \<Rightarrow> dump_window \<Rightarrow> int \<Rightarrow> int \<Rightarrow> sent_batch" where
  "fresh_batch key w l n = \<lparr>b_key = key, b_gen = w_generation w, b_from = w_sent_next_id w, b_last = l, b_left = n,
     b_ok = True, b_current = True, b_live = True\<rparr>"

lemma window_sound_send:
  assumes ws: "window_sound sent key w" and nf: "w_failed_batch w = None" and fl: "w_in_flight w < DUMP_WINDOW"
    and l: "w_sent_next_id w \<le> l" and n: "0 < n" and di: "distinct (map ident (filter b_live sent))"
  defines "b \<equiv> fresh_batch key w l n"
  shows "window_sound (sent @ [b]) key (w\<lparr>w_batches := map_put l n (w_batches w), w_in_flight := w_in_flight w + 1,
            w_sent_next_id := l + 1, w_sent_messages := m\<rparr>)"
    and "distinct (map ident (filter b_live (sent @ [b])))"
proof -
  obtain old bs where B: "filter (in_window key (w_generation w)) sent = old @ bs"
      "\<forall>b \<in> set old. b_left b = 0 \<and> b_last b < w_next_id w" "\<forall>b \<in> set bs. 0 \<le> b_left b \<and> b_current b"
      "chain (w_next_id w) bs (w_sent_next_id w)" "w_batches w = entries bs" "w_in_flight w = unanswered bs"
      "failure_ok (w_failed_batch w) bs" and cov: "covered sent key (w_next_id w)"
    using ws unfolding window_sound_def by blast
  have nb: "b_from b = w_sent_next_id w" "b_last b = l" "b_left b = n" "b_ok b" "b_current b" "in_window key (w_generation w) b" "b_live b"
    by (simp_all add: b_def fresh_batch_def in_window_def)
  have lt: "b_last x < l" if "x \<in> set (old @ bs)" for x
    using that B(2) chain_bounds [OF B(4)] chain_le [OF B(4)] l by force
  have "map_put l n (w_batches w) = entries (bs @ [b])"
    unfolding B(5) using lt by (subst map_put_last) (auto simp: entries_def nb)
  moreover have "unanswered (bs @ [b]) = w_in_flight w + 1" using B(6) n by (simp add: unanswered_def nb)
  moreover have "chain (w_next_id w) (bs @ [b]) (l + 1)" using B(4) l by (auto simp: chain_append nb)
  moreover have "failure_ok None (bs @ [b])" using B(7) nf by (simp add: failure_ok_def nb)
  moreover have "filter (in_window key (w_generation w)) (sent @ [b]) = old @ (bs @ [b])" by (simp add: B(1) nb)
  ultimately show "window_sound (sent @ [b]) key (w\<lparr>w_batches := map_put l n (w_batches w), w_in_flight := w_in_flight w + 1,
            w_sent_next_id := l + 1, w_sent_messages := m\<rparr>)"
    unfolding window_sound_def using covered_append [OF cov] fl B(2,3) nf n nb(3,5)
    by (intro conjI exI [of _ old] exI [of _ "bs @ [b]"]) (simp_all add: ball_Un)
  have "ident b \<noteq> ident x" if x: "x \<in> set (filter b_live sent)" for x
  proof
    assume "ident b = ident x"
    then have "x \<in> set (filter (in_window key (w_generation w)) sent)" "b_last x = l"
      using x by (auto simp: ident_def b_def fresh_batch_def in_window_def)
    then show False using lt [of x] unfolding B(1) by simp
  qed
  then have "ident b \<notin> ident ` set (filter b_live sent)" by blast
  then show "distinct (map ident (filter b_live (sent @ [b])))" using di by (simp add: nb)
qed

text \<open>What the loop keeps of the window, and how it ends.\<close>

lemma dump_loop_spec:
  assumes "bt_ok C" and "tables_ok lb db" and "window_sound sent key w" and "w_failed_batch w = None" and "\<not> w_exhausted w"
    and "distinct (map ident (filter b_live sent))" and "dump_loop C now lower upper db w reads = (w', reads')"
  shows "\<exists>new. reads' = reads @ new \<and> window_sound (sent @ batches_of (key, w_generation w, new)) key w'
     \<and> distinct (map ident (filter b_live (sent @ batches_of (key, w_generation w, new))))
     \<and> w_failed_batch w' = None \<and> w_generation w' = w_generation w \<and> w_end_id w' = w_end_id w \<and> w_next_id w' = w_next_id w
     \<and> (if w_exhausted w' then (key, w_sent_next_id w', w_end_id w) \<in> set (empties_of (key, w_generation w, new))
        else w_in_flight w' = DUMP_WINDOW)"
  using assms
proof (induction C now lower upper db w reads arbitrary: sent rule: dump_loop.induct)
  case (1 C now lower upper db w reads)
  show ?case
  proof (cases "w_in_flight w < DUMP_WINDOW")
    case False
    then have "w' = w" "reads' = reads" using "1.prems"(7) by (simp_all del: dump_loop.simps add: dump_loop.simps [of C now lower upper db w])
    moreover have "w_in_flight w = DUMP_WINDOW" using False "1.prems"(3) by (simp add: window_sound_def)
    ultimately show ?thesis using "1.prems" by (intro exI [of _ "[]"]) (simp add: batches_of_def)
  next
    case True
    obtain msgs last_id where nb: "next_dump_batch now (w_sent_next_id w) (w_end_id w) lower upper DUMP_BATCH_BYTES db = (msgs, last_id)"
      by (rule prod.exhaust)
    show ?thesis
    proof (cases "msgs = []")
      case empty: True
      let ?r = "\<lparr>dr_from = w_sent_next_id w, dr_last = w_end_id w, dr_msgs = [], dr_parts = []\<rparr>"
      have "w' = w\<lparr>w_exhausted := True\<rparr>" "reads' = reads @ [?r]"
        using "1.prems"(7) True empty nb by (simp_all del: dump_loop.simps add: dump_loop.simps [of C now lower upper db w])
      then show ?thesis using "1.prems"
        by (intro exI [of _ "[?r]"]) (simp add: batches_of_def empties_of_def window_sound_def)
    next
      case False
      let ?n = "int (length (message_parts C msgs))"
      define w1 where "w1 = w\<lparr>w_batches := map_put last_id ?n (w_batches w), w_in_flight := w_in_flight w + 1,
          w_sent_next_id := last_id + 1, w_sent_messages := w_sent_messages w + length msgs\<rparr>"
      let ?r = "\<lparr>dr_from = w_sent_next_id w, dr_last = last_id, dr_msgs = msgs, dr_parts = message_parts C msgs\<rparr>"
      let ?b = "fresh_batch key w last_id ?n"
      have l: "w_sent_next_id w \<le> last_id"
        using dump_batch_spec [OF "1.prems"(2) _ nb] False by (auto simp: DUMP_BATCH_BYTES_def split: if_splits)
      have n: "0 < ?n" using message_parts_nonempty [OF "1.prems"(1) False] by simp
      note ws1 = window_sound_send(1) [OF "1.prems"(3,4) True l n "1.prems"(6), where m = "w_sent_messages w + length msgs", folded w1_def]
      note ws2 = window_sound_send(2) [OF "1.prems"(3,4) True l n "1.prems"(6)]
      have sel: "w_generation w1 = w_generation w" "w_end_id w1 = w_end_id w" "w_next_id w1 = w_next_id w" by (simp_all add: w1_def)
      have rec: "dump_loop C now lower upper db w1 (reads @ [?r]) = (w', reads')"
        using "1.prems"(7) True False nb by (simp del: dump_loop.simps add: dump_loop.simps [of C now lower upper db w] Let_def w1_def)
      have "w_failed_batch w1 = None" "\<not> w_exhausted w1" using "1.prems"(4,5) by (simp_all add: w1_def)
      from "1.IH" [OF True nb [symmetric] refl False refl, folded w1_def, OF "1.prems"(1,2) ws1 this ws2 rec, unfolded sel] obtain new where new:
          "reads' = (reads @ [?r]) @ new" "window_sound ((sent @ [?b]) @ batches_of (key, w_generation w, new)) key w'"
          "distinct (map ident (filter b_live ((sent @ [?b]) @ batches_of (key, w_generation w, new))))"
          "w_failed_batch w' = None \<and> w_generation w' = w_generation w \<and> w_end_id w' = w_end_id w \<and> w_next_id w' = w_next_id w"
          "if w_exhausted w' then (key, w_sent_next_id w', w_end_id w) \<in> set (empties_of (key, w_generation w, new)) else w_in_flight w' = DUMP_WINDOW"
        by blast
      have bo: "batches_of (key, w_generation w, ?r # new) = ?b # batches_of (key, w_generation w, new)"
        using False by (simp add: batches_of_def fresh_batch_def)
      have eo: "empties_of (key, w_generation w, ?r # new) = empties_of (key, w_generation w, new)"
        using False by (simp add: empties_of_def)
      show ?thesis using new by (intro exI [of _ "?r # new"]) (simp add: bo eo)
    qed
  qed
qed

subsection \<open>The whole node\<close>

definition node_db :: "dump_system \<Rightarrow> database" where "node_db s = dn_db (ds_node s)"
definition node_windows :: "dump_system \<Rightarrow> dump_key \<rightharpoonup> dump_window" where "node_windows s = dump_windows (ds_node s)"
definition node_generation :: "dump_system \<Rightarrow> nat" where "node_generation s = dump_generation (ds_node s)"

lemmas node_defs = node_db_def node_windows_def node_generation_def

definition sys_ok :: "(string \<Rightarrow> u64) \<Rightarrow> dump_system \<Rightarrow> bool" where
  "sys_ok lb s \<longleftrightarrow> db_inv lb (node_db s) \<and> (\<forall>b \<in> set (ds_sent s). b_live b \<longrightarrow> b_gen b \<le> node_generation s)
     \<and> distinct (map ident (filter b_live (ds_sent s)))
     \<and> (\<forall>key n e t. dump_map (node_db s) key = Some (n, e, t) \<longrightarrow> covered (ds_sent s) key n)"

definition has_dump :: "database \<Rightarrow> dump_key \<Rightarrow> int \<Rightarrow> bool" where
  "has_dump db key e \<longleftrightarrow> (\<exists>n t. dump_map db key = Some (n, e, t))"

definition win_ok :: "dump_system \<Rightarrow> dump_key \<Rightarrow> dump_window \<Rightarrow> bool" where
  "win_ok s key w \<longleftrightarrow> window_sound (ds_sent s) key w \<and> window_settled (ds_empty s) key w
     \<and> w_generation w \<le> node_generation s \<and> has_dump (node_db s) key (w_end_id w)"

definition others_ok :: "dump_key \<Rightarrow> dump_system \<Rightarrow> bool" where
  "others_ok key s \<longleftrightarrow> (\<forall>k w. k \<noteq> key \<longrightarrow> node_windows s k = Some w \<longrightarrow> win_ok s k w)"

definition sys_inv :: "(string \<Rightarrow> u64) \<Rightarrow> dump_system \<Rightarrow> bool" where
  "sys_inv lb s \<longleftrightarrow> sys_ok lb s \<and> (\<forall>k w. node_windows s k = Some w \<longrightarrow> win_ok s k w)"

lemma sys_invI:
  "sys_ok lb s \<Longrightarrow> others_ok key s \<Longrightarrow> (\<And>w. node_windows s key = Some w \<Longrightarrow> win_ok s key w) \<Longrightarrow> sys_inv lb s"
  unfolding sys_inv_def others_ok_def by metis

lemma sys_invD: "sys_inv lb s \<Longrightarrow> sys_ok lb s \<and> others_ok key s"
  unfolding sys_inv_def others_ok_def by blast

text \<open>A window of another dump is not affected by what is sent for this one.\<close>

lemma window_sound_other:
  assumes "window_sound sent k w" and "\<forall>b \<in> set new. b_key b \<noteq> k"
  shows "window_sound (sent @ new) k w"
proof -
  have "filter (in_window k (w_generation w)) new = []" using assms(2) by (auto simp: filter_empty_conv in_window_def)
  then have "filter (in_window k (w_generation w)) (sent @ new) = filter (in_window k (w_generation w)) sent" by simp
  then show ?thesis using assms(1) covered_append unfolding window_sound_def by metis
qed

lemma window_settled_append: "window_settled em k w \<Longrightarrow> window_settled (em @ new) k w"
  by (auto simp: window_settled_def)

lemma batches_of_key: "b \<in> set (batches_of (key, g, reads)) \<Longrightarrow> b_key b = key \<and> b_gen b = g \<and> b_current b \<and> b_live b"
  by (auto simp: batches_of_def)

lemma record_nothing: "record_reads [(key, g, [])] s = s"
  by (simp add: record_reads_def batches_of_def empties_of_def)

text \<open>Changing one dump in the database, and its window.\<close>

lemma others_ok_change:
  assumes "others_ok key s" and "ds_sent s' = ds_sent s @ new" "\<forall>b \<in> set new. b_key b = key" "ds_empty s' = ds_empty s @ em"
    and "\<forall>k. k \<noteq> key \<longrightarrow> node_windows s' k = node_windows s k" "node_generation s' = node_generation s"
    and "\<forall>k. k \<noteq> key \<longrightarrow> dump_map (node_db s') k = dump_map (node_db s) k"
  shows "others_ok key s'"
  unfolding others_ok_def
proof (intro allI impI)
  fix k w assume k: "k \<noteq> key" "node_windows s' k = Some w"
  have "node_windows s k = Some w" using assms(5) k by metis
  then have w: "win_ok s k w" using assms(1) k(1) unfolding others_ok_def by blast
  have "window_sound (ds_sent s') k w"
    unfolding assms(2) using w assms(3) k(1) by (intro window_sound_other) (auto simp: win_ok_def)
  moreover have "window_settled (ds_empty s') k w"
    unfolding assms(4) using w by (intro window_settled_append) (simp add: win_ok_def)
  moreover have "dump_map (node_db s') k = dump_map (node_db s) k" using assms(7) k(1) by blast
  ultimately show "win_ok s' k w" using w assms(6) by (simp add: win_ok_def has_dump_def)
qed

lemma sys_ok_change:
  assumes "sys_ok lb s" and "db_inv lb (node_db s')" and "ds_sent s' = ds_sent s @ new" "\<forall>b \<in> set new. b_gen b \<le> node_generation s'"
    and "node_generation s' = node_generation s" and "distinct (map ident (filter b_live (ds_sent s')))"
    and "\<forall>k. k \<noteq> key \<longrightarrow> dump_map (node_db s') k = dump_map (node_db s) k"
    and "\<And>n e t. dump_map (node_db s') key = Some (n, e, t) \<Longrightarrow> covered (ds_sent s') key n"
  shows "sys_ok lb s'"
proof -
  have "covered (ds_sent s') k n" if d: "dump_map (node_db s') k = Some (n, e, t)" for k n e t
  proof (cases "k = key")
    case False
    then have "dump_map (node_db s) k = Some (n, e, t)" using d assms(7) by metis
    then have "covered (ds_sent s) k n" using assms(1) unfolding sys_ok_def by blast
    then show ?thesis unfolding assms(3) by (rule covered_append)
  qed (use assms(8) d in blast)
  then show ?thesis using assms(1,2,4,5,6) unfolding sys_ok_def assms(3) by auto
qed

lemma finish_inv:
  assumes ok: "sys_ok lb s" and oth: "others_ok key s"
  shows "sys_inv lb (s\<lparr>ds_node := finish_dump key (ds_node s)\<rparr>)"
proof -
  let ?s = "s\<lparr>ds_node := finish_dump key (ds_node s)\<rparr>"
  have inv: "db_inv lb (node_db s)" using ok by (simp add: sys_ok_def)
  have db: "node_db ?s = remove_dump (fst key) (snd key) (node_db s)" "node_windows ?s = (node_windows s)(key := None)"
      "node_generation ?s = node_generation s"
    by (simp_all add: node_defs finish_dump_def erase_window_def)
  have dm: "dump_map (node_db ?s) = (dump_map (node_db s))(key := None)"
    unfolding db using remove_dump_spec(3) [OF db_inv_pending [OF inv], of "fst key" "snd key"] by simp
  have "db_inv lb (node_db ?s)" unfolding db by (rule dump_ops_inv(3) [OF inv])
  then have "sys_ok lb ?s"
    using ok dm by (intro sys_ok_change [OF ok, where new = "[]" and key = key]) (simp_all add: db(3) sys_ok_def)
  moreover have "others_ok key ?s"
    by (rule others_ok_change [OF oth, where new = "[]" and em = "[]"]) (simp_all add: db(2,3) dm)
  ultimately show ?thesis by (rule sys_invI) (simp add: db)
qed

lemma pause_inv:
  assumes ok: "sys_ok lb s" and oth: "others_ok key s" and cov: "covered (ds_sent s) key n"
  shows "sys_inv lb (s\<lparr>ds_node := pause_dump now key n (ds_node s)\<rparr>)"
proof -
  let ?s = "s\<lparr>ds_node := pause_dump now key n (ds_node s)\<rparr>"
  have inv: "db_inv lb (node_db s)" using ok by (simp add: sys_ok_def)
  have db: "node_db ?s = update_dump (fst key) (snd key) n (now + DUMP_RETRY_DELAY) (node_db s)" "node_windows ?s = (node_windows s)(key := None)"
      "node_generation ?s = node_generation s"
    by (simp_all add: node_defs pause_dump_def erase_window_def)
  have dm: "dump_map (node_db ?s) = (case dump_map (node_db s) key of
       None \<Rightarrow> dump_map (node_db s) | Some (_, e, _) \<Rightarrow> (dump_map (node_db s))(key \<mapsto> (n, e, now + DUMP_RETRY_DELAY)))"
    unfolding db update_dump_spec(3) [OF db_inv_pending [OF inv]] prod.collapse ..
  then have other: "\<forall>k. k \<noteq> key \<longrightarrow> dump_map (node_db ?s) k = dump_map (node_db s) k" by (auto split: option.splits)
  have mine: "m = n" if "dump_map (node_db ?s) key = Some (m, e, t)" for m e t using that unfolding dm by (auto split: option.splits)
  have "db_inv lb (node_db ?s)" unfolding db by (rule dump_ops_inv(2) [OF inv])
  then have "sys_ok lb ?s"
    using ok cov mine other by (intro sys_ok_change [OF ok, where new = "[]" and key = key]) (auto simp: db(3) sys_ok_def)
  moreover have "others_ok key ?s"
    by (rule others_ok_change [OF oth, where new = "[]" and em = "[]"]) (use other in \<open>simp_all add: db(2,3)\<close>)
  ultimately show ?thesis by (rule sys_invI) (simp add: db)
qed

text \<open>Advancing a dump whose window is in order.\<close>

lemma advance_cases:
  assumes a: "advance_dump C nw now key w st0 = (st, reads)"
  obtains (fin) "st = finish_dump key st0" "reads = []" "left_swarm nw key \<or> w_failed_batch w = None \<and> w_exhausted w \<and> w_in_flight w = 0"
    | (pause) "st = pause_dump now key (w_next_id w) st0" "reads = []" "not_contactable nw (fst key)"
    | (same) "st = st0" "reads = []" "w_failed_batch w = None \<longrightarrow> w_exhausted w \<longrightarrow> w_in_flight w \<noteq> 0"
        "w_failed_batch w \<noteq> None \<or> w_exhausted w \<or> w_in_flight w \<ge> DUMP_WINDOW \<or> (\<exists>e. swarm_boundaries (nw_swarms nw) (snd key) = Inl e)"
    | (loop) lower upper w' where "w_failed_batch w = None" "\<not> w_exhausted w" "dump_loop C now lower upper (dn_db st0) w [] = (w', reads)"
        "st = (if w_exhausted w' \<and> w_in_flight w' = 0 then finish_dump key st0 else st0\<lparr>dump_windows := (dump_windows st0)(key \<mapsto> w')\<rparr>)"
proof -
  consider (left) "left_swarm nw key" | (full) "\<not> left_swarm nw key" "w_failed_batch w \<noteq> None \<or> w_exhausted w \<or> w_in_flight w \<ge> DUMP_WINDOW"
    | (pau) "\<not> left_swarm nw key" "w_failed_batch w = None" "\<not> w_exhausted w" "w_in_flight w < DUMP_WINDOW" "not_contactable nw (fst key)"
    | (go) "\<not> left_swarm nw key" "w_failed_batch w = None" "\<not> w_exhausted w" "w_in_flight w < DUMP_WINDOW" "\<not> not_contactable nw (fst key)"
    by fastforce
  then show ?thesis
  proof cases
    case left
    then show ?thesis using a fin by (simp add: advance_dump_def)
  next
    case full
    then show ?thesis using a fin same unfolding advance_dump_def by (auto split: if_splits)
  next
    case pau
    then show ?thesis using a pause by (simp add: advance_dump_def)
  next
    case go
    show ?thesis
    proof (cases "swarm_boundaries (nw_swarms nw) (snd key)")
      case (Inl e)
      then show ?thesis using a go same by (simp add: advance_dump_def)
    next
      case (Inr x)
      obtain lower upper where x: "x = (lower, upper)" by (cases x)
      obtain w' reads' where "dump_loop C now lower upper (dn_db st0) w [] = (w', reads')" by (rule prod.exhaust)
      then show ?thesis using a go Inr x loop by (simp add: advance_dump_def Let_def del: dump_loop.simps)
    qed
  qed
qed

lemma advance_inv:
  assumes C: "bt_ok C" and ok: "sys_ok lb s" and oth: "others_ok key s" and w: "node_windows s key = Some w"
    and ws: "window_sound (ds_sent s) key w" and ex: "w_exhausted w \<Longrightarrow> (key, w_sent_next_id w, w_end_id w) \<in> set (ds_empty s)"
    and fa: "w_failed_batch w \<noteq> None \<Longrightarrow> 0 < w_in_flight w" and g: "w_generation w \<le> node_generation s"
    and e: "has_dump (node_db s) key (w_end_id w)"
    and a: "advance_dump C nw now key w (ds_node s) = (st, reads)"
  shows "sys_inv lb (record_reads [(key, w_generation w, reads)] (s\<lparr>ds_node := st\<rparr>))"
proof -
  have keep: "sys_inv lb s" if "w_exhausted w \<Longrightarrow> 0 < w_in_flight w"
    by (rule sys_invI [OF ok oth]) (use that w ws ex fa g e in \<open>auto simp: win_ok_def window_settled_def\<close>)
  have cov: "covered (ds_sent s) key (w_next_id w)" using ws by (simp add: window_sound_def)
  have nn: "0 \<le> w_in_flight w" using ws by (auto simp: window_sound_def unanswered_def)
  from a show ?thesis
  proof (cases rule: advance_cases)
    case fin
    then show ?thesis using finish_inv [OF ok oth] by (simp add: record_nothing)
  next
    case pause
    then show ?thesis using pause_inv [OF ok oth cov, of now] by (simp add: record_nothing)
  next
    case same
    then have "w_exhausted w \<Longrightarrow> 0 < w_in_flight w" using fa nn by auto
    then show ?thesis using keep same by (simp add: record_nothing)
  next
    case (loop lower upper w')
    have tb: "tables_ok lb (dn_db (ds_node s))" using ok db_inv_tables by (auto simp: sys_ok_def node_defs)
    have di: "distinct (map ident (filter b_live (ds_sent s)))" using ok by (simp add: sys_ok_def)
    let ?new = "batches_of (key, w_generation w, reads)"
    let ?s = "record_reads [(key, w_generation w, reads)] s"
    have l: "window_sound (ds_sent s @ ?new) key w'" "distinct (map ident (filter b_live (ds_sent s @ ?new)))"
        "w_failed_batch w' = None" "w_generation w' = w_generation w" "w_end_id w' = w_end_id w" "w_next_id w' = w_next_id w"
        "if w_exhausted w' then (key, w_sent_next_id w', w_end_id w) \<in> set (empties_of (key, w_generation w, reads)) else w_in_flight w' = DUMP_WINDOW"
      using dump_loop_spec [OF C tb ws loop(1,2) di loop(3)] by auto
    have sel: "ds_sent ?s = ds_sent s @ ?new" "ds_empty ?s = ds_empty s @ empties_of (key, w_generation w, reads)" "ds_node ?s = ds_node s"
        "node_db ?s = node_db s" "node_windows ?s = node_windows s" "node_generation ?s = node_generation s"
      by (simp_all add: record_reads_def node_defs)
    have ok': "sys_ok lb ?s"
    proof (rule sys_ok_change [OF ok, where new = ?new and key = key])
      fix n e t assume "dump_map (node_db ?s) key = Some (n, e, t)"
      then have "covered (ds_sent s) key n" using ok unfolding sel sys_ok_def by blast
      then show "covered (ds_sent ?s) key n" unfolding sel by (rule covered_append)
    qed (use ok l(2) batches_of_key [of _ key "w_generation w" reads] g in \<open>auto simp: sel sys_ok_def\<close>)
    have oth': "others_ok key ?s"
      by (rule others_ok_change [OF oth, where new = ?new]) (auto simp: sel dest: batches_of_key)
    show ?thesis
    proof (cases "w_exhausted w' \<and> w_in_flight w' = 0")
      case True
      then have "record_reads [(key, w_generation w, reads)] (s\<lparr>ds_node := st\<rparr>) = ?s\<lparr>ds_node := finish_dump key (ds_node ?s)\<rparr>"
        using loop(4) by (simp add: record_reads_def)
      then show ?thesis using finish_inv [OF ok' oth'] by simp
    next
      case False
      define s' where "s' = record_reads [(key, w_generation w, reads)] (s\<lparr>ds_node := st\<rparr>)"
      have sel': "ds_sent s' = ds_sent ?s" "ds_empty s' = ds_empty ?s" "node_db s' = node_db ?s" "node_generation s' = node_generation ?s"
          "node_windows s' = (node_windows ?s)(key \<mapsto> w')"
        unfolding s'_def loop(4) if_not_P [OF False] by (simp_all add: record_reads_def node_defs)
      have okS: "sys_ok lb s'" using ok' by (simp add: sys_ok_def sel')
      have othS: "others_ok key s'" using oth' by (simp add: others_ok_def win_ok_def sel')
      have winS: "win_ok s' key w'"
      proof -
        have "0 \<le> w_in_flight w'" using l(1) by (auto simp: window_sound_def unanswered_def)
        then have "window_settled (ds_empty s') key w'" using l(3,5,7) False by (auto simp: window_settled_def sel' sel)
        then show ?thesis using l g e by (simp add: win_ok_def sel' sel)
      qed
      have "sys_inv lb s'" by (rule sys_invI [OF okS othS]) (use winS in \<open>simp add: sel'\<close>)
      then show ?thesis by (simp add: s'_def)
    qed
  qed
qed

lemma advance_other:
  assumes inv: "db_inv lb (dn_db st0)" and a: "advance_dump C nw now key w st0 = (st, reads)" and k: "k \<noteq> key"
  shows "dump_map (dn_db st) k = dump_map (dn_db st0) k" and "dump_windows st k = dump_windows st0 k"
proof -
  have fin: "dump_map (dn_db (finish_dump key st0)) k = dump_map (dn_db st0) k"
    using remove_dump_spec(3) [OF db_inv_pending [OF inv], of "fst key" "snd key"] k by (simp add: finish_dump_def erase_window_def)
  have pau: "dump_map (dn_db (pause_dump now key n st0)) k = dump_map (dn_db st0) k" for n
    using update_dump_spec(3) [OF db_inv_pending [OF inv], of "fst key" "snd key" n "now + DUMP_RETRY_DELAY"] k
    by (auto simp: pause_dump_def erase_window_def split: option.splits)
  from a show "dump_map (dn_db st) k = dump_map (dn_db st0) k" by (rule advance_cases) (use fin pau in simp_all)
  from a show "dump_windows st k = dump_windows st0 k"
    by (rule advance_cases) (use k in \<open>simp_all add: finish_dump_def pause_dump_def erase_window_def\<close>)
qed

text \<open>What advancing a dump relies on.\<close>

definition ready :: "(string \<Rightarrow> u64) \<Rightarrow> dump_system \<Rightarrow> dump_key \<Rightarrow> dump_window \<Rightarrow> bool" where
  "ready lb s key w \<longleftrightarrow> sys_ok lb s \<and> others_ok key s \<and> node_windows s key = Some w \<and> window_sound (ds_sent s) key w
     \<and> (w_exhausted w \<longrightarrow> (key, w_sent_next_id w, w_end_id w) \<in> set (ds_empty s)) \<and> (w_failed_batch w \<noteq> None \<longrightarrow> 0 < w_in_flight w)
     \<and> w_generation w \<le> node_generation s \<and> has_dump (node_db s) key (w_end_id w)"

lemma ready_advance:
  assumes "bt_ok C" and "ready lb s key w" and "advance_dump C nw now key w (ds_node s) = (st, reads)"
  shows "sys_inv lb (record_reads [(key, w_generation w, reads)] (s\<lparr>ds_node := st\<rparr>))"
  using assms(2) by (intro advance_inv [OF assms(1) _ _ _ _ _ _ _ _ assms(3)]) (simp_all add: ready_def)

text \<open>The periodic check of one dump.\<close>

lemma check_dump_cases:
  assumes inv: "sys_inv lb s" and d: "covered (ds_sent s) (d_pubkey d, d_swarm d) (d_next_id d)"
      "has_dump (node_db s) (d_pubkey d, d_swarm d) (d_end_id d)"
    and c: "check_dump C nw now d (ds_node s) = (st, out)"
  obtains (skip) "st = ds_node s" "out = []" "node_windows s (d_pubkey d, d_swarm d) = None" "d_next_attempt d > now"
    | (go) s3 w reads where "ready lb s3 (d_pubkey d, d_swarm d) w" "advance_dump C nw now (d_pubkey d, d_swarm d) w (ds_node s3) = (st, reads)"
        "out = [((d_pubkey d, d_swarm d), w_generation w, reads)]" "s3\<lparr>ds_node := st\<rparr> = s\<lparr>ds_node := st\<rparr>" "node_db s3 = node_db s"
        "\<forall>k. k \<noteq> (d_pubkey d, d_swarm d) \<longrightarrow> node_windows s3 k = node_windows s k"
proof -
  define key where "key = (d_pubkey d, d_swarm d)"
  note ok = sys_invD [OF inv, of key, THEN conjunct1] and oth = sys_invD [OF inv, of key, THEN conjunct2]
  note c' = c [unfolded check_dump_def Let_def, folded key_def] and skip = skip [folded key_def] and go = go [folded key_def]
  show ?thesis
  proof (cases "node_windows s key")
    case (Some w)
    then obtain reads where a: "advance_dump C nw now key w (ds_node s) = (st, reads)" and out: "out = [(key, w_generation w, reads)]"
      using c' by (auto simp: node_defs split: prod.splits)
    have "win_ok s key w" using inv Some unfolding sys_inv_def by blast
    then have "ready lb s key w" using ok oth Some unfolding ready_def win_ok_def window_settled_def by blast
    then show ?thesis by (rule go [OF _ a out]) simp_all
  next
    case None
    show ?thesis
    proof (cases "d_next_attempt d > now")
      case True
      then show ?thesis using c' None by (intro skip) (simp_all add: node_defs)
    next
      case False
      define g where "g = node_generation s + 1"
      define w where "w = new_window d g"
      define s1 where "s1 = s\<lparr>ds_node := (ds_node s)\<lparr>dump_windows := (dump_windows (ds_node s))(key \<mapsto> w), dump_generation := g\<rparr>\<rparr>"
      obtain reads where a: "advance_dump C nw now key w (ds_node s1) = (st, reads)" and out: "out = [(key, g, reads)]"
        using c' None False by (auto simp: node_defs s1_def w_def g_def split: prod.splits)
      have sel: "ds_sent s1 = ds_sent s" "ds_empty s1 = ds_empty s" "node_db s1 = node_db s" "node_generation s1 = g"
          "node_windows s1 = (node_windows s)(key \<mapsto> w)"
        by (simp_all add: s1_def node_defs)
      have wsel: "w_generation w = g" "w_next_id w = d_next_id d" "w_end_id w = d_end_id d" "\<not> w_exhausted w" "w_failed_batch w = None"
        by (simp_all add: w_def new_window_def)
      have le: "b_gen b \<le> node_generation s" if "b \<in> set (ds_sent s)" "b_live b" for b using ok that by (simp add: sys_ok_def)
      have ok1: "sys_ok lb s1" using ok by (auto simp: sys_ok_def sel g_def)
      have oth1: "others_ok key s1"
        using oth unfolding others_ok_def win_ok_def sel g_def by (simp add: le_SucI)
      have "filter (in_window key g) (ds_sent s) = []" using le by (force simp: filter_empty_conv in_window_def g_def)
      then have ws1: "window_sound (ds_sent s1) key w" using d(1) unfolding window_sound_def sel w_def new_window_def key_def
        by (intro conjI exI [of _ "[]"]) (simp_all add: DUMP_WINDOW_def entries_def unanswered_def failure_ok_def)
      have "ready lb s1 key w" unfolding ready_def using ok1 oth1 ws1 d(2) by (simp add: sel wsel key_def)
      then show ?thesis by (rule go [OF _ a]) (simp_all add: out wsel sel, simp add: s1_def)
    qed
  qed
qed

lemma check_dump_inv:
  assumes C: "bt_ok C" and inv: "sys_inv lb s" and d: "covered (ds_sent s) (d_pubkey d, d_swarm d) (d_next_id d)"
      "has_dump (node_db s) (d_pubkey d, d_swarm d) (d_end_id d)"
    and c: "check_dump C nw now d (ds_node s) = (st, out)"
  shows "sys_inv lb (record_reads out (s\<lparr>ds_node := st\<rparr>))"
  using inv d c
proof (cases rule: check_dump_cases)
  case skip
  then show ?thesis using inv by (simp add: record_reads_def)
next
  case (go s3 w reads)
  then show ?thesis using ready_advance [OF C go(1,2)] by simp
qed

lemma record_reads_append: "record_reads (out @ out') s = record_reads out' (record_reads out s)"
  by (simp add: record_reads_def)

lemma record_reads_node: "(record_reads out s)\<lparr>ds_node := st\<rparr> = record_reads out (s\<lparr>ds_node := st\<rparr>)"
    "ds_node (record_reads out s) = ds_node s" "ds_network (record_reads out s) = ds_network s"
  by (simp_all add: record_reads_def)

lemma check_dump_other:
  assumes "db_inv lb (dn_db st0)" and "check_dump C nw now d st0 = (st, out)" and "k \<noteq> (d_pubkey d, d_swarm d)"
  shows "dump_map (dn_db st) k = dump_map (dn_db st0) k" and "dump_windows st k = dump_windows st0 k"
proof -
  have "dump_map (dn_db st) k = dump_map (dn_db st0) k \<and> dump_windows st k = dump_windows st0 k"
  proof (cases "dump_windows st0 (d_pubkey d, d_swarm d)")
    case None
    show ?thesis
    proof (cases "d_next_attempt d > now")
      case True
      then show ?thesis using assms None by (simp add: check_dump_def)
    next
      case False
      define st1 where "st1 = st0\<lparr>dump_windows := (dump_windows st0)((d_pubkey d, d_swarm d) \<mapsto> new_window d (dump_generation st0 + 1)),
          dump_generation := dump_generation st0 + 1\<rparr>"
      obtain reads where "advance_dump C nw now (d_pubkey d, d_swarm d) (new_window d (dump_generation st0 + 1)) st1 = (st, reads)"
        using assms(2) None False by (auto simp: check_dump_def Let_def st1_def split: prod.splits)
      moreover have "dn_db st1 = dn_db st0" "dump_windows st1 k = dump_windows st0 k" using assms(3) by (simp_all add: st1_def)
      ultimately show ?thesis using advance_other [of lb st1 C nw now] assms(1,3) by metis
    qed
  next
    case (Some w)
    then obtain reads where "advance_dump C nw now (d_pubkey d, d_swarm d) w st0 = (st, reads)"
      using assms(2) by (auto simp: check_dump_def Let_def split: prod.splits)
    then show ?thesis using advance_other [OF assms(1) _ assms(3)] by blast
  qed
  then show "dump_map (dn_db st) k = dump_map (dn_db st0) k" and "dump_windows st k = dump_windows st0 k" by simp_all
qed

text \<open>The listed dumps that are still to be checked are as they were listed.\<close>

definition key_of :: "pending_dump \<Rightarrow> dump_key" where "key_of d = (d_pubkey d, d_swarm d)"

definition listed :: "dump_system \<Rightarrow> pending_dump list \<Rightarrow> bool" where
  "listed s ds \<longleftrightarrow> distinct (map key_of ds)
     \<and> (\<forall>d \<in> set ds. dump_map (node_db s) (key_of d) = Some (d_next_id d, d_end_id d, d_next_attempt d))"

lemma listed_dump:
  assumes "sys_inv lb s" and "listed s ds" and "d \<in> set ds"
  shows "covered (ds_sent s) (key_of d) (d_next_id d)" and "has_dump (node_db s) (key_of d) (d_end_id d)"
proof -
  have "dump_map (node_db s) (key_of d) = Some (d_next_id d, d_end_id d, d_next_attempt d)" using assms by (simp add: listed_def)
  then show "covered (ds_sent s) (key_of d) (d_next_id d)" "has_dump (node_db s) (key_of d) (d_end_id d)"
    using assms(1) unfolding sys_inv_def sys_ok_def has_dump_def by blast+
qed

lemma listed_step:
  assumes C: "bt_ok C" and inv: "sys_inv lb s" and ls: "listed s (d # ds)" and c: "check_dump C nw now d (ds_node s) = (st, out)"
  shows "sys_inv lb (record_reads out (s\<lparr>ds_node := st\<rparr>))" and "listed (record_reads out (s\<lparr>ds_node := st\<rparr>)) ds"
proof -
  note ld = listed_dump [OF inv ls list.set_intros(1), unfolded key_of_def]
  show "sys_inv lb (record_reads out (s\<lparr>ds_node := st\<rparr>))" by (rule check_dump_inv [OF C inv ld c])
  have db: "db_inv lb (dn_db (ds_node s))" using inv by (simp add: sys_inv_def sys_ok_def node_defs)
  have "dump_map (dn_db st) (key_of d') = dump_map (dn_db (ds_node s)) (key_of d')" if "d' \<in> set ds" for d'
  proof -
    have "key_of d' \<noteq> key_of d" using ls imageI [OF that, of key_of] unfolding listed_def by auto
    then show ?thesis by (intro check_dump_other(1) [OF db c]) (simp add: key_of_def)
  qed
  then show "listed (record_reads out (s\<lparr>ds_node := st\<rparr>)) ds" using ls unfolding listed_def by (simp add: record_reads_def node_defs)
qed

lemma check_loop_inv:
  assumes C: "bt_ok C" and "sys_inv lb s" and "listed s ds" and "check_dumps_loop C nw now ds (ds_node s) = (st, out)"
  shows "sys_inv lb (record_reads out (s\<lparr>ds_node := st\<rparr>))"
  using assms(2-)
proof (induction ds arbitrary: s st out)
  case Nil
  then show ?case by (auto simp: record_reads_def)
next
  case (Cons d ds)
  obtain st1 out1 where c1: "check_dump C nw now d (ds_node s) = (st1, out1)" by (rule prod.exhaust)
  obtain st2 out2 where c2: "check_dumps_loop C nw now ds st1 = (st2, out2)" by (rule prod.exhaust)
  have st: "st = st2" "out = out1 @ out2" using Cons.prems(3) c1 c2 by simp_all
  from Cons.IH [OF listed_step [OF C Cons.prems(1,2) c1], of st2 out2] c2 show ?case
    by (simp add: st record_reads_append record_reads_node)
qed

end
