(* ===== verification/Dump_Progress.thy ===== *)
theory Dump_Progress
  imports Dump_Windows
begin

text \<open>
  What holds of every dump however its batches are answered: the invariant of the sending system is
  kept by every step, the cursor is safe, a dump ends only when it is complete, and none gets
  stuck.
\<close>

section \<open>Each step keeps the invariant\<close>

subsection \<open>The periodic check\<close>

lemma pending_keys_distinct:
  assumes "distinct (map pr_id rs)" "distinct (map pr_pubkey rs)" and "distinct (map (\<lambda>d. (pd_recipient d, pd_swarm d)) ds)"
    and "\<forall>d \<in> set ds. sint (word_of_int (pd_swarm d) :: u64) = pd_swarm d"
  shows "distinct (concat (map (\<lambda>d. map (\<lambda>r. (pr_pubkey r, word_of_int (pd_swarm d) :: u64)) (filter (\<lambda>r. pr_id r = pd_recipient d) rs)) ds))"
  using assms(3,4)
proof (induction ds)
  case (Cons d ds)
  let ?f = "\<lambda>d. map (\<lambda>r. (pr_pubkey r, word_of_int (pd_swarm d) :: u64)) (filter (\<lambda>r. pr_id r = pd_recipient d) rs)"
  have inj: "inj_on pr_pubkey (set rs)" using assms(2) by (simp add: distinct_map)
  have "distinct rs" using assms(2) by (simp add: distinct_map)
  then have 1: "distinct (?f d)" using inj by (auto simp: distinct_map inj_on_def)
  have "x \<notin> set (?f d')" if x: "x \<in> set (?f d)" and d': "d' \<in> set ds" for x d'
  proof
    assume "x \<in> set (?f d')"
    then obtain r r' where r: "r \<in> set rs" "r' \<in> set rs" "pr_id r = pd_recipient d" "pr_id r' = pd_recipient d'" "pr_pubkey r = pr_pubkey r'"
        and sw: "word_of_int (pd_swarm d) = (word_of_int (pd_swarm d') :: u64)"
      using x by auto
    have "r = r'" using r(1,2,5) inj by (simp add: inj_on_def)
    moreover have "pd_swarm d = pd_swarm d'" using Cons.prems(2) d' sw by (metis list.set_intros)
    ultimately have "(pd_recipient d, pd_swarm d) = (pd_recipient d', pd_swarm d')" using r(3,4) by simp
    then show False using Cons.prems(1) d' by (fastforce simp: image_iff)
  qed
  then have "set (?f d) \<inter> set (concat (map ?f ds)) = {}" unfolding set_concat by fastforce
  then show ?case using 1 Cons by simp
qed simp

lemma list_pending_dumps_distinct:
  assumes "db_pending_ok db"
  shows "distinct (map (\<lambda>d. (d_pubkey d, d_swarm d)) (list_pending_dumps db))"
proof -
  have "distinct (map pr_id (pending_recipients db))" using pendingD(1) [OF assms] by (simp add: strict_sorted_iff)
  from pending_keys_distinct [OF this pendingD(3) [OF assms] pendingD(4) [OF assms]] pendingD(5) [OF assms]
  show ?thesis by (simp add: list_pending_dumps_def map_concat comp_def)
qed

lemma listed_start:
  assumes "sys_inv lb s"
  shows "listed s (list_pending_dumps (dn_db (ds_node s)))"
proof -
  have p: "db_pending_ok (dn_db (ds_node s))" using assms db_inv_pending by (auto simp: sys_inv_def sys_ok_def node_defs)
  have "key_of = (\<lambda>d. (d_pubkey d, d_swarm d))" by (simp add: key_of_def fun_eq_iff)
  then have "distinct (map key_of (list_pending_dumps (dn_db (ds_node s))))" using list_pending_dumps_distinct [OF p] by simp
  then show ?thesis using list_pending_dumps_iff [OF p] unfolding listed_def node_db_def by (simp add: key_of_def)
qed

lemma check_inv:
  assumes "bt_ok C" and "sys_inv lb s" and "check_dumps_locked C nw now (ds_node s) = (st, out)"
  shows "sys_inv lb (record_reads out (s\<lparr>ds_node := st\<rparr>))"
  by (rule check_loop_inv [OF assms(1,2) listed_start [OF assms(2)] assms(3) [unfolded check_dumps_locked_def]])

subsection \<open>Queueing\<close>

definition outdate :: "dump_key \<Rightarrow> sent_batch \<Rightarrow> sent_batch" where
  "outdate key b = (if b_key b = key then b\<lparr>b_current := False\<rparr> else b)"

lemma outdate_fields:
  "b_key (outdate key b) = b_key b" "b_gen (outdate key b) = b_gen b" "b_last (outdate key b) = b_last b" "b_live (outdate key b) = b_live b"
  "b_key b \<noteq> key \<Longrightarrow> outdate key b = b"
  by (simp_all add: outdate_def)

lemma requeued_sent: "ds_sent (requeued key s) = map (outdate key) (ds_sent s)"
  by (simp add: requeued_def outdate_def)

lemma outdate_filter: "k \<noteq> key \<Longrightarrow> filter (in_window k g) (map (outdate key) sent) = filter (in_window k g) sent"
  by (induction sent) (auto simp: in_window_def outdate_def)

lemma outdate_covered: "k \<noteq> key \<Longrightarrow> covered sent k n \<Longrightarrow> covered (map (outdate key) sent) k n"
  unfolding covered_def set_map by (metis image_eqI outdate_fields(5))

lemma filter_ident_map:
  assumes "\<And>b. ident (f b) = ident b" and "\<And>b. b_live (f b) = b_live b"
  shows "map ident (filter b_live (map f sent)) = map ident (filter b_live sent)"
  using assms by (induction sent) simp_all

lemma requeued_inv:
  assumes inv: "sys_inv lb s"
  shows "sys_inv lb ((requeued key s)\<lparr>ds_node := erase_window key ((ds_node s)\<lparr>dn_db := queue_dump (fst key) (snd key) e (dn_db (ds_node s))\<rparr>)\<rparr>)"
    (is "sys_inv lb ?s")
proof -
  note ok = sys_invD [OF inv, of key, THEN conjunct1] and oth = sys_invD [OF inv, of key, THEN conjunct2]
  have db: "db_inv lb (node_db s)" using ok by (simp add: sys_ok_def)
  have sel: "ds_sent ?s = map (outdate key) (ds_sent s)" "node_db ?s = queue_dump (fst key) (snd key) e (node_db s)"
      "node_generation ?s = node_generation s" "node_windows ?s = (node_windows s)(key := None)"
      "ds_empty ?s = filter (\<lambda>(k, _). k \<noteq> key) (ds_empty s)"
    by (simp_all add: requeued_sent erase_window_def node_defs) (simp add: requeued_def)
  have dm: "\<exists>e'. dump_map (node_db ?s) = (dump_map (node_db s))(key \<mapsto> (1, e', 0))"
    unfolding sel using queue_dump_spec(3) [OF db_inv_pending [OF db], of "fst key" "snd key" e] by auto
  then have dmo: "dump_map (node_db ?s) k = dump_map (node_db s) k" if "k \<noteq> key" for k using that by fastforce
  have cov: "covered (ds_sent ?s) k n" if d: "dump_map (node_db ?s) k = Some (n, e', t)" for k n e' t
  proof (cases "k = key")
    case True
    then have "n = 1" using dm d by fastforce
    then show ?thesis unfolding covered_def by force
  next
    case False
    then have "covered (ds_sent s) k n" using ok d dmo [OF False] unfolding sys_ok_def by metis
    then show ?thesis unfolding sel by (rule outdate_covered [OF False])
  qed
  have "distinct (map ident (filter b_live (ds_sent ?s)))"
    unfolding sel by (subst filter_ident_map) (use ok in \<open>simp_all add: sys_ok_def ident_def outdate_fields\<close>)
  then have ok': "sys_ok lb ?s"
    using ok cov dump_ops_inv(1) [OF db] unfolding sys_ok_def sel by (auto simp: outdate_fields)
  have "others_ok key ?s" unfolding others_ok_def
  proof (intro allI impI)
    fix k w assume k: "k \<noteq> key" "node_windows ?s k = Some w"
    then have "node_windows s k = Some w" by (simp add: sel)
    then have w: "win_ok s k w" using oth k(1) unfolding others_ok_def by blast
    have "window_sound (ds_sent ?s) k w"
      using w outdate_covered [OF k(1)] unfolding sel win_ok_def window_sound_def outdate_filter [OF k(1)] by blast
    moreover have "window_settled (ds_empty ?s) k w" using w k(1) by (auto simp: win_ok_def window_settled_def sel)
    ultimately show "win_ok ?s k w" using w dmo [OF k(1)] unfolding win_ok_def has_dump_def sel(3) by simp
  qed
  then show ?thesis by (rule sys_invI [OF ok']) (simp add: sel)
qed

lemma queue_inv:
  assumes C: "bt_ok C" and inv: "sys_inv lb s" and q: "sn_queue_dump C nw now pk swarm (ds_node s) = (st, out)"
  shows "sys_inv lb (record_reads out ((requeued (pk, swarm) s)\<lparr>ds_node := st\<rparr>))"
proof -
  let ?st = "erase_window (pk, swarm) ((ds_node s)\<lparr>dn_db := queue_dump pk swarm (max_message_id (dn_db (ds_node s))) (dn_db (ds_node s))\<rparr>)"
  have "check_dumps_locked C nw now (ds_node ((requeued (pk, swarm) s)\<lparr>ds_node := ?st\<rparr>)) = (st, out)"
    using q by (simp add: sn_queue_dump_def Let_def)
  from check_inv [OF C _ this] requeued_inv [OF inv, of "(pk, swarm)"] show ?thesis by simp
qed

subsection \<open>Answers\<close>

lemma answer_fields:
  "b_key (answer b ok x) = b_key x" "b_gen (answer b ok x) = b_gen x" "b_last (answer b ok x) = b_last x" "b_from (answer b ok x) = b_from x"
  "b_live (answer b ok x) = b_live x" "b_current (answer b ok x) = b_current x" "ident (answer b ok x) = ident x"
  by (simp_all add: answer_def ident_def)

lemma answer_only:
  assumes "distinct (map ident (filter b_live sent))" and "b \<in> set sent" "b_live b" and "x \<in> set sent"
  shows "answer b ok x = (if x = b then b\<lparr>b_left := b_left b - 1, b_ok := b_ok b \<and> ok\<rparr> else x)"
proof (cases "b_live x \<and> ident x = ident b")
  case True
  then have "x = b" using assms by (auto simp: distinct_map inj_on_def)
  then show ?thesis using assms(3) by (simp add: answer_def)
next
  case False
  then show ?thesis using assms(3) by (auto simp: answer_def ident_def)
qed

lemma answer_covered:
  assumes "distinct (map ident (filter b_live sent))" "b \<in> set sent" "b_live b" "0 < b_left b" and "covered sent k n"
  shows "covered (map (answer b ok) sent) k n"
  unfolding covered_def
proof (intro allI impI)
  fix i assume "1 \<le> i \<and> i < n"
  then obtain x where x: "x \<in> set sent" "b_current x \<and> b_key x = k \<and> b_from x \<le> i \<and> i \<le> b_last x \<and> acked x"
    using assms(5) unfolding covered_def by blast
  then have "x \<noteq> b" using assms(4) by (auto simp: acked_def)
  then have "answer b ok x = x" using answer_only [OF assms(1-3) x(1)] by simp
  then show "\<exists>b \<in> set (map (answer b ok) sent). b_current b \<and> b_key b = k \<and> b_from b \<le> i \<and> i \<le> b_last b \<and> acked b"
    using x by (metis image_eqI set_map)
qed

lemma answer_window:
  "filter (in_window k g) (map (answer b ok) sent) = map (answer b ok) (filter (in_window k g) sent)"
  by (induction sent) (simp_all add: in_window_def answer_fields)

text \<open>A window of another dump, or an earlier or later one of this dump, does not notice.\<close>

lemma answer_other_window:
  assumes d: "distinct (map ident (filter b_live sent))" "b \<in> set sent" "b_live b" "0 < b_left b"
    and w: "window_sound sent k w" and other: "(b_key b, b_gen b) \<noteq> (k, w_generation w)"
  shows "window_sound (map (answer b ok) sent) k w"
proof -
  have "answer b ok x = x" if "x \<in> set (filter (in_window k (w_generation w)) sent)" for x
    using that other by (auto simp: answer_def in_window_def)
  then have "filter (in_window k (w_generation w)) (map (answer b ok) sent) = filter (in_window k (w_generation w)) sent"
    unfolding answer_window by (rule map_idI)
  then show ?thesis using w answer_covered [OF d] unfolding window_sound_def by metis
qed

lemma map_put_entries:
  assumes "chain a bs z" and "b \<in> set bs"
  shows "map_put (b_last b) n (entries bs) = entries (map (\<lambda>x. if x = b then b\<lparr>b_left := n, b_ok := v\<rparr> else x) bs)"
  using assms
proof (induction bs arbitrary: a)
  case (Cons x bs)
  show ?case
  proof (cases "x = b")
    case True
    then have "b \<notin> set bs" using chain_bounds [of "b_last x + 1" bs z b] Cons.prems(1) by auto
    then have "map (\<lambda>x. if x = b then b\<lparr>b_left := n, b_ok := v\<rparr> else x) bs = bs" by (intro map_idI) auto
    then show ?thesis using True by (simp add: entries_def comp_def)
  next
    case False
    then have b: "b \<in> set bs" using Cons.prems(2) by simp
    then have "b_last x < b_last b" using chain_bounds [of "b_last x + 1" bs z b] Cons.prems(1) by auto
    then show ?thesis using Cons.IH [OF _ b] Cons.prems(1) False by (auto simp: entries_def)
  qed
qed simp

lemma entries_lookup: "chain a bs z \<Longrightarrow> b \<in> set bs \<Longrightarrow> map_of (entries bs) (b_last b) = Some (b_left b)"
  using chain_distinct by (fastforce simp: entries_def comp_def intro: map_of_is_SomeI)

definition lower_failed :: "int \<Rightarrow> int option \<Rightarrow> int option" where
  "lower_failed l failed = Some (case failed of Some f \<Rightarrow> min l f | None \<Rightarrow> l)"

lemma failure_ok_answer:
  assumes "failure_ok failed (p @ b # q)" and "b' = b\<lparr>b_left := n, b_ok := b_ok b \<and> ok\<rparr>"
  shows "failure_ok (if ok then failed else lower_failed (b_last b) failed) (p @ b' # q)"
proof (cases ok)
  case True
  then show ?thesis using assms by (simp add: failure_ok_def)
next
  case False
  obtain m where m: "lower_failed (b_last b) failed = Some m" "m \<le> b_last b" "\<forall>f. failed = Some f \<longrightarrow> m \<le> f"
      "m = b_last b \<or> failed = Some m"
    by (cases failed) (auto simp: lower_failed_def min_def)
  have "m \<le> b_last x" if "x \<in> set (p @ b' # q)" "\<not> b_ok x" for x
  proof (cases "x = b'")
    case True
    then show ?thesis using m(2) assms(2) by simp
  next
    case False
    then have "x \<in> set (p @ b # q)" using that(1) by auto
    then show ?thesis using assms(1) that(2) m(3) unfolding failure_ok_def by fastforce
  qed
  moreover have "\<exists>x \<in> set (p @ b' # q). b_last x = m \<and> \<not> b_ok x"
  proof (cases "failed = Some m")
    case True
    then obtain x where x: "x \<in> set (p @ b # q)" "b_last x = m" "\<not> b_ok x" using assms(1) unfolding failure_ok_def by blast
    then show ?thesis using assms(2) by (cases "x = b") auto
  next
    case f: False
    then have "b_last b' = m" "\<not> b_ok b'" using m(4) False assms(2) by auto
    then show ?thesis by auto
  qed
  ultimately show ?thesis unfolding failure_ok_def using False m(1) by auto
qed

lemma reply_window:
  assumes d: "distinct (map ident (filter b_live sent))" "b \<in> set sent" "b_live b" "0 < b_left b"
    and w: "window_sound sent key w" and m: "b_key b = key" "b_gen b = w_generation w"
  shows "map_of (w_batches w) (b_last b) = Some (b_left b)"
    and "window_sound (map (answer b ok) sent) key (w\<lparr>w_failed_batch := if ok then w_failed_batch w else lower_failed (b_last b) (w_failed_batch w),
           w_batches := map_put (b_last b) (b_left b - 1) (w_batches w), w_in_flight := w_in_flight w - (if b_left b = 1 then 1 else 0)\<rparr>)"
proof -
  obtain old bs where B: "filter (in_window key (w_generation w)) sent = old @ bs"
      "\<forall>b \<in> set old. b_left b = 0 \<and> b_last b < w_next_id w" "\<forall>b \<in> set bs. 0 \<le> b_left b \<and> b_current b"
      "chain (w_next_id w) bs (w_sent_next_id w)" "w_batches w = entries bs" "w_in_flight w = unanswered bs"
      "failure_ok (w_failed_batch w) bs" and cov: "covered sent key (w_next_id w)" and fl: "w_in_flight w \<le> DUMP_WINDOW"
    using w unfolding window_sound_def by blast
  define b' where "b' = b\<lparr>b_left := b_left b - 1, b_ok := b_ok b \<and> ok\<rparr>"
  have "b \<in> set (old @ bs)" unfolding B(1) [symmetric] using d(2,3) m by (simp add: in_window_def)
  then have b: "b \<in> set bs" using B(2) d(4) by auto
  then show "map_of (w_batches w) (b_last b) = Some (b_left b)" unfolding B(5) by (rule entries_lookup [OF B(4)])
  have sub: "x \<in> set sent" if "x \<in> set (old @ bs)" for x using that B(1) by (metis filter_is_subset subsetD)
  have an: "answer b ok x = (if x = b then b' else x)" if "x \<in> set (old @ bs)" for x
    unfolding b'_def by (rule answer_only [OF d(1-3) sub [OF that]])
  have old: "map (answer b ok) old = old" using an B(2) d(4) by (intro map_idI) auto
  obtain p q where pq: "bs = p @ b # q" by (meson b split_list)
  have nb: "b \<notin> set p" "b \<notin> set q" using chain_distinct [OF B(4)] by (auto simp: pq)
  have bs: "map (answer b ok) bs = p @ b' # q" using nb an by (auto simp: pq intro!: map_idI)
  have "filter (in_window key (w_generation w)) (map (answer b ok) sent) = old @ (p @ b' # q)"
    unfolding answer_window B(1) map_append old bs ..
  moreover have "map_put (b_last b) (b_left b - 1) (w_batches w) = entries (p @ b' # q)"
  proof -
    have "map (\<lambda>x. if x = b then b' else x) bs = p @ b' # q" using nb by (auto simp: pq intro!: map_idI)
    then show ?thesis unfolding B(5) using map_put_entries [OF B(4) b, of "b_left b - 1" "b_ok b \<and> ok", folded b'_def] by simp
  qed
  moreover have "chain (w_next_id w) (p @ b' # q) (w_sent_next_id w)"
    unfolding bs [symmetric] using chain_map [of "answer b ok" "w_next_id w" bs] B(4) by (simp add: answer_fields)
  moreover have "unanswered (p @ b' # q) = w_in_flight w - (if b_left b = 1 then 1 else 0)"
    using B(6) d(4) by (simp add: unanswered_def pq b'_def)
  moreover have "failure_ok (if ok then w_failed_batch w else lower_failed (b_last b) (w_failed_batch w)) (p @ b' # q)"
    using B(7) unfolding pq by (rule failure_ok_answer) (simp add: b'_def)
  moreover have "\<forall>b \<in> set (p @ b' # q). 0 \<le> b_left b \<and> b_current b" using B(3) d(4) by (auto simp: pq b'_def)
  moreover have "covered (map (answer b ok) sent) key (w_next_id w)" by (rule answer_covered [OF d cov])
  ultimately show "window_sound (map (answer b ok) sent) key (w\<lparr>w_failed_batch := if ok then w_failed_batch w else lower_failed (b_last b) (w_failed_batch w),
           w_batches := map_put (b_last b) (b_left b - 1) (w_batches w), w_in_flight := w_in_flight w - (if b_left b = 1 then 1 else 0)\<rparr>)"
    using B(2) fl unfolding window_sound_def by (intro conjI exI [of _ old] exI [of _ "p @ b' # q"]) simp_all
qed

text \<open>The cursor moves over batches that are through.\<close>

lemma pop_acked_spec:
  assumes "pop_acked failed (entries bs) a = (a', es)" and "chain a bs z" and "\<forall>b \<in> set bs. \<not> b_ok b \<longrightarrow> (\<exists>f. failed = Some f \<and> f \<le> b_last b)"
  shows "\<exists>p q. bs = p @ q \<and> es = entries q \<and> chain a p a' \<and> chain a' q z \<and> (\<forall>b \<in> set p. acked b)"
  using assms
proof (induction bs arbitrary: a)
  case Nil
  then show ?case by (auto simp: entries_def)
next
  case (Cons b bs)
  show ?case
  proof (cases "b_left b = 0 \<and> \<not> (case failed of Some f \<Rightarrow> b_last b \<ge> f | None \<Rightarrow> False)")
    case True
    then have "pop_acked failed (entries bs) (b_last b + 1) = (a', es)" using Cons.prems(1) by (simp add: entries_def)
    from Cons.IH [OF this] Cons.prems(2,3) obtain p q where
        "bs = p @ q \<and> es = entries q \<and> chain (b_last b + 1) p a' \<and> chain a' q z \<and> (\<forall>b \<in> set p. acked b)" by auto
    moreover have "acked b" using True Cons.prems(3) by (auto simp: acked_def)
    ultimately show ?thesis using Cons.prems(2) by (intro exI [of _ "b # p"] exI [of _ q]) simp
  next
    case False
    then have "a' = a" "es = entries (b # bs)" using Cons.prems(1) by (auto simp: entries_def)
    then show ?thesis using Cons.prems(2) by (intro exI [of _ "[]"] exI [of _ "b # bs"]) simp
  qed
qed

lemma pop_window:
  assumes w: "window_sound sent key w" and pop: "pop_acked (w_failed_batch w) (w_batches w) (w_next_id w) = (n', es)"
  shows "window_sound sent key (w\<lparr>w_next_id := n', w_batches := es\<rparr>)"
proof -
  obtain old bs where B: "filter (in_window key (w_generation w)) sent = old @ bs"
      "\<forall>b \<in> set old. b_left b = 0 \<and> b_last b < w_next_id w" "\<forall>b \<in> set bs. 0 \<le> b_left b \<and> b_current b"
      "chain (w_next_id w) bs (w_sent_next_id w)" "w_batches w = entries bs" "w_in_flight w = unanswered bs"
      "failure_ok (w_failed_batch w) bs" and cov: "covered sent key (w_next_id w)" and fl: "w_in_flight w \<le> DUMP_WINDOW"
    using w unfolding window_sound_def by blast
  from pop_acked_spec [OF pop [unfolded B(5)] B(4)] B(7) obtain p q where
      pq: "bs = p @ q" "es = entries q" "chain (w_next_id w) p n'" "chain n' q (w_sent_next_id w)" "\<forall>b \<in> set p. acked b"
    unfolding failure_ok_def by blast
  have sub: "x \<in> set sent \<and> in_window key (w_generation w) x" if "x \<in> set bs" for x
  proof -
    have "x \<in> set (filter (in_window key (w_generation w)) sent)" unfolding B(1) using that by simp
    then show ?thesis by simp
  qed
  have "covered sent key n'"
    by (rule covered_extend [OF cov pq(3)]) (use sub B(3) pq(1,5) in \<open>auto simp: in_window_def\<close>)
  moreover have "b_left b = 0 \<and> b_last b < n'" if "b \<in> set (old @ p)" for b
    using that B(2) chain_le [OF pq(3)] chain_bounds [OF pq(3), of b] pq(5) by (auto simp: acked_def)
  moreover have "unanswered q = w_in_flight w" using B(6) pq(5) by (simp add: pq(1) unanswered_def acked_def)
  moreover have "failure_ok (w_failed_batch w) q" using B(7) pq(5) unfolding failure_ok_def pq(1) by (auto simp: acked_def)
  ultimately show ?thesis using pq(2,4) B(1,3) fl unfolding window_sound_def pq(1)
    by (intro conjI exI [of _ "old @ p"] exI [of _ q]) simp_all
qed

lemma in_flight_pos:
  assumes "window_sound sent key w" and "b \<in> set sent" "b_live b" "0 < b_left b" "b_key b = key" "b_gen b = w_generation w"
  shows "0 < w_in_flight w"
proof -
  obtain old bs where B: "filter (in_window key (w_generation w)) sent = old @ bs" "\<forall>b \<in> set old. b_left b = 0"
      "w_in_flight w = unanswered bs"
    using assms(1) unfolding window_sound_def by blast
  have "b \<in> set (old @ bs)" unfolding B(1) [symmetric] using assms(2-) by (simp add: in_window_def)
  then have "b \<in> set (filter (\<lambda>b. 0 < b_left b) bs)" using B(2) assms(4) by auto
  then show ?thesis unfolding B(3) unanswered_def by (metis length_pos_if_in_set of_nat_0_less_iff)
qed

definition answered :: "int \<Rightarrow> int \<Rightarrow> bool \<Rightarrow> dump_window \<Rightarrow> dump_window" where
  "answered l n ok w = w\<lparr>w_failed_batch := if ok then w_failed_batch w else lower_failed l (w_failed_batch w),
     w_batches := map_put l (n - 1) (w_batches w), w_in_flight := w_in_flight w - (if n = 1 then 1 else 0)\<rparr>"

lemma answered_fields:
  "w_next_id (answered l n ok w) = w_next_id w" "w_end_id (answered l n ok w) = w_end_id w" "w_exhausted (answered l n ok w) = w_exhausted w"
  "w_generation (answered l n ok w) = w_generation w" "w_sent_next_id (answered l n ok w) = w_sent_next_id w"
  by (simp_all add: answered_def)

lemma reply_unfold:
  assumes "dump_windows st key = Some w" and "w_generation w = g" and "map_of (w_batches w) l = Some n" and "0 < n"
  shows "on_dump_batch_reply C nw now key l g ok st =
     (let w1 = answered l n ok w; (next_id, bs) = pop_acked (w_failed_batch w1) (w_batches w1) (w_next_id w1);
          w2 = w1\<lparr>w_next_id := next_id, w_batches := bs\<rparr>
      in if n \<noteq> 1 then (st\<lparr>dump_windows := (dump_windows st)(key \<mapsto> w1)\<rparr>, [])
         else if w_failed_batch w2 \<noteq> None \<and> w_in_flight w2 = 0 then (pause_dump now key next_id st, [])
         else advance_dump C nw now key w2 (st\<lparr>dn_db := update_dump (fst key) (snd key) next_id 0 (dn_db st),
                 dump_windows := (dump_windows st)(key \<mapsto> w2)\<rparr>))"
  using assms by (cases ok; cases "n = 1") (simp_all add: on_dump_batch_reply_def answered_def lower_failed_def Let_def split: prod.splits)

lemma set_window_inv:
  assumes ok: "sys_ok lb s" and oth: "others_ok key s" and w: "win_ok s key w"
  shows "sys_inv lb (s\<lparr>ds_node := (ds_node s)\<lparr>dump_windows := (dump_windows (ds_node s))(key \<mapsto> w)\<rparr>\<rparr>)" (is "sys_inv lb ?s")
proof -
  have sel: "ds_sent ?s = ds_sent s" "ds_empty ?s = ds_empty s" "node_db ?s = node_db s" "node_generation ?s = node_generation s"
      "node_windows ?s = (node_windows s)(key \<mapsto> w)"
    by (simp_all add: node_defs)
  show ?thesis by (rule sys_invI [of lb _ key]) (use ok oth w in \<open>simp_all add: sys_ok_def others_ok_def win_ok_def sel\<close>)
qed

lemma update_has_dump: "db_inv lb db \<Longrightarrow> has_dump (update_dump pk sw n t db) k e = has_dump db k e"
  unfolding has_dump_def update_dump_spec(3) [OF db_inv_pending] by (auto split: option.splits)

text \<open>The row of a dump follows the cursor of its window.\<close>

lemma move_cursor:
  assumes ok: "sys_ok lb s" and oth: "others_ok key s" and cov: "covered (ds_sent s) key n"
    and s': "s' = s\<lparr>ds_node := (ds_node s)\<lparr>dn_db := update_dump (fst key) (snd key) n t (dn_db (ds_node s)),
       dump_windows := (dump_windows (ds_node s))(key \<mapsto> w)\<rparr>\<rparr>"
  shows "sys_ok lb s'" and "others_ok key s'"
proof -
  have inv: "db_inv lb (node_db s)" using ok by (simp add: sys_ok_def)
  have sel: "node_db s' = update_dump (fst key) (snd key) n t (node_db s)" "node_windows s' = (node_windows s)(key \<mapsto> w)"
      "node_generation s' = node_generation s" "ds_sent s' = ds_sent s" "ds_empty s' = ds_empty s"
    by (simp_all add: node_defs s')
  have dm: "dump_map (node_db s') = (case dump_map (node_db s) key of
       None \<Rightarrow> dump_map (node_db s) | Some (_, e, _) \<Rightarrow> (dump_map (node_db s))(key \<mapsto> (n, e, t)))"
    unfolding sel update_dump_spec(3) [OF db_inv_pending [OF inv]] prod.collapse ..
  then have other: "\<forall>k. k \<noteq> key \<longrightarrow> dump_map (node_db s') k = dump_map (node_db s) k" by (auto split: option.splits)
  have mine: "m = n" if "dump_map (node_db s') key = Some (m, e, t)" for m e t using that unfolding dm by (auto split: option.splits)
  have "db_inv lb (node_db s')" unfolding sel by (rule dump_ops_inv(2) [OF inv])
  then show "sys_ok lb s'"
    using ok cov mine other by (intro sys_ok_change [OF ok, where new = "[]" and key = key]) (auto simp: sel(3-5) sys_ok_def)
  show "others_ok key s'"
    by (rule others_ok_change [OF oth, where new = "[]" and em = "[]"]) (use other in \<open>simp_all add: sel(2-5)\<close>)
qed

lemma answer_sys:
  assumes inv: "sys_inv lb s" and b: "b \<in> set (ds_sent s)" "b_live b" "0 < b_left b"
    and s1: "s1 = s\<lparr>ds_sent := map (answer b ok) (ds_sent s)\<rparr>"
  shows "sys_ok lb s1" and "others_ok (b_key b) s1"
    and "node_windows s (b_key b) = Some w \<Longrightarrow> w_generation w \<noteq> b_gen b \<Longrightarrow> win_ok s1 (b_key b) w"
proof -
  have sel: "ds_sent s1 = map (answer b ok) (ds_sent s)" "ds_empty s1 = ds_empty s" "node_db s1 = node_db s"
      "node_windows s1 = node_windows s" "node_generation s1 = node_generation s"
    by (simp_all add: s1 node_defs)
  note ok = sys_invD [OF inv, of "b_key b", THEN conjunct1] and oth = sys_invD [OF inv, of "b_key b", THEN conjunct2]
  have di: "distinct (map ident (filter b_live (ds_sent s)))" using ok by (simp add: sys_ok_def)
  note d = di b
  have cov1: "covered (ds_sent s1) k n" if "covered (ds_sent s) k n" for k n unfolding sel by (rule answer_covered [OF d that])
  have "distinct (map ident (filter b_live (ds_sent s1)))"
    unfolding sel by (subst filter_ident_map) (use di in \<open>simp_all add: answer_fields\<close>)
  then show "sys_ok lb s1" using ok cov1 unfolding sys_ok_def sel(3-5) by (auto simp: sel(1) answer_fields)
  show "others_ok (b_key b) s1" using oth answer_other_window [OF d] unfolding others_ok_def win_ok_def sel by blast
  assume w: "node_windows s (b_key b) = Some w" "w_generation w \<noteq> b_gen b"
  then have "win_ok s (b_key b) w" using inv unfolding sys_inv_def by blast
  then show "win_ok s1 (b_key b) w" using answer_other_window [OF d, of "b_key b" w] w(2) unfolding win_ok_def sel by auto
qed

text \<open>An answer is ignored, noted in the window, ends the window, or makes the dump go on.\<close>

lemma reply_cases:
  assumes inv: "sys_inv lb s" and b: "b \<in> set (ds_sent s)" "b_live b" "0 < b_left b"
    and r: "on_dump_batch_reply C nw now (b_key b) (b_last b) (b_gen b) ok (ds_node s) = (st, reads)"
    and s1: "s1 = s\<lparr>ds_sent := map (answer b ok) (ds_sent s)\<rparr>"
  obtains (quiet) "sys_inv lb (s1\<lparr>ds_node := st\<rparr>)" "reads = []" "\<forall>k e. has_dump (dn_db st) k e = has_dump (node_db s) k e"
    | (go) s3 w where "ready lb s3 (b_key b) w" "advance_dump C nw now (b_key b) w (ds_node s3) = (st, reads)" "w_generation w = b_gen b"
        "s3\<lparr>ds_node := st\<rparr> = s1\<lparr>ds_node := st\<rparr>" "\<forall>k e. has_dump (node_db s3) k e = has_dump (node_db s) k e"
proof -
  define key where "key = b_key b"
  note r = r [folded key_def] and quiet = quiet [folded key_def] and go = go [folded key_def]
  have sel: "ds_sent s1 = map (answer b ok) (ds_sent s)" "ds_empty s1 = ds_empty s" "ds_node s1 = ds_node s" "node_db s1 = node_db s"
      "node_windows s1 = node_windows s" "node_generation s1 = node_generation s"
    by (simp_all add: s1 node_defs)
  note ok1 = answer_sys(1) [OF inv b s1] and oth1 = answer_sys(2) [OF inv b s1, folded key_def]
  have di: "distinct (map ident (filter b_live (ds_sent s)))" and db: "db_inv lb (node_db s)" using inv by (simp_all add: sys_inv_def sys_ok_def)
  show ?thesis
  proof (cases "\<exists>w. node_windows s key = Some w \<and> w_generation w = b_gen b")
    case False
    then have st: "st = ds_node s1" "reads = []" using r by (auto simp: on_dump_batch_reply_def node_defs sel split: option.splits)
    have "sys_inv lb s1"
      by (rule sys_invI [OF ok1 oth1]) (use answer_sys(3) [OF inv b s1] False in \<open>auto simp: sel key_def\<close>)
    then have "sys_inv lb (s1\<lparr>ds_node := st\<rparr>)" unfolding st by simp
    then show ?thesis by (rule quiet [OF _ st(2)]) (simp add: st node_defs sel(3))
  next
    case True
    then obtain w where w: "node_windows s key = Some w" "w_generation w = b_gen b" by blast
    define w1 where "w1 = answered (b_last b) (b_left b) ok w"
    have wo: "win_ok s key w" using inv w(1) unfolding sys_inv_def by blast
    then have ws: "window_sound (ds_sent s) key w" by (simp add: win_ok_def)
    note d' = di b ws key_def [symmetric] w(2) [symmetric]
    note ws1 = reply_window(2) [OF d', of ok, folded answered_def w1_def sel]
    note r' = r [unfolded reply_unfold [OF w(1) [unfolded node_defs] w(2) reply_window(1) [OF d'] b(3)], folded w1_def]
    obtain n' bs where pop: "pop_acked (w_failed_batch w1) (w_batches w1) (w_next_id w1) = (n', bs)" by (rule prod.exhaust)
    define w2 where "w2 = w1\<lparr>w_next_id := n', w_batches := bs\<rparr>"
    have ws2: "window_sound (ds_sent s1) key w2" unfolding w2_def by (rule pop_window [OF ws1 pop])
    have cov: "covered (ds_sent s1) key n'" using ws2 by (simp add: window_sound_def w2_def)
    consider (part) "b_left b \<noteq> 1" | (stop) "b_left b = 1" "w_failed_batch w2 \<noteq> None \<and> w_in_flight w2 = 0"
      | (more) "b_left b = 1" "\<not> (w_failed_batch w2 \<noteq> None \<and> w_in_flight w2 = 0)" by blast
    then show ?thesis
    proof cases
      case part
      then have st: "st = (ds_node s)\<lparr>dump_windows := (dump_windows (ds_node s))(key \<mapsto> w1)\<rparr>" "reads = []"
        using r' pop by (simp_all add: Let_def)
      have a: "answer b ok b \<in> set (ds_sent s1)" "b_live (answer b ok b)" "0 < b_left (answer b ok b)" "b_key (answer b ok b) = key"
          "b_gen (answer b ok b) = w_generation w1"
        using b part w(2) by (simp_all add: sel answer_fields key_def w1_def answered_fields) (simp add: answer_def)
      have "win_ok s1 key w1"
        using wo ws1 in_flight_pos [OF ws1 a] unfolding win_ok_def window_settled_def sel(2-) by (simp add: w1_def answered_fields)
      from set_window_inv [OF ok1 oth1 this] show ?thesis using quiet by (simp add: st sel node_defs)
    next
      case stop
      then have st: "st = pause_dump now key n' (ds_node s1)" "reads = []" using r' pop by (simp_all add: Let_def w2_def sel)
      then show ?thesis using quiet pause_inv [OF ok1 oth1 cov, of now] update_has_dump [OF db]
        by (simp add: pause_dump_def erase_window_def sel node_defs)
    next
      case more
      let ?s = "s1\<lparr>ds_node := (ds_node s1)\<lparr>dn_db := update_dump (fst key) (snd key) n' 0 (dn_db (ds_node s1)),
         dump_windows := (dump_windows (ds_node s1))(key \<mapsto> w2)\<rparr>\<rparr>"
      have a: "advance_dump C nw now key w2 (ds_node ?s) = (st, reads)" using r' more pop by (simp add: Let_def w2_def sel split: if_splits)
      have wf: "w_exhausted w2 = w_exhausted w" "w_sent_next_id w2 = w_sent_next_id w" "w_end_id w2 = w_end_id w" "w_generation w2 = w_generation w"
        by (simp_all add: w2_def w1_def answered_fields)
      have nn: "0 \<le> w_in_flight w2" using ws2 by (auto simp: window_sound_def unanswered_def)
      have hd: "has_dump (node_db ?s) k e = has_dump (node_db s) k e" for k e using update_has_dump [OF db] by (simp add: sel node_defs)
      have sel3: "ds_sent ?s = ds_sent s1" "ds_empty ?s = ds_empty s" "node_windows ?s key = Some w2" "node_generation ?s = node_generation s"
        by (simp_all add: sel node_defs)
      have "ready lb ?s key w2" unfolding ready_def sel3 hd wf
        using move_cursor [OF ok1 oth1 cov refl] wo more(2) nn ws2 by (auto simp: win_ok_def window_settled_def)
      then show ?thesis using go [OF _ a] hd wf(4) w(2) by simp
    qed
  qed
qed

lemma reply_inv:
  assumes C: "bt_ok C" and inv: "sys_inv lb s" and b: "b \<in> set (ds_sent s)" "b_live b" "0 < b_left b"
    and r: "on_dump_batch_reply C nw now (b_key b) (b_last b) (b_gen b) ok (ds_node s) = (st, reads)"
  shows "sys_inv lb (record_reads [(b_key b, b_gen b, reads)] (s\<lparr>ds_node := st, ds_sent := map (answer b ok) (ds_sent s)\<rparr>))"
proof -
  have e: "s\<lparr>ds_node := st, ds_sent := map (answer b ok) (ds_sent s)\<rparr> = (s\<lparr>ds_sent := map (answer b ok) (ds_sent s)\<rparr>)\<lparr>ds_node := st\<rparr>" by simp
  from inv b r refl show ?thesis
  proof (cases rule: reply_cases)
    case quiet
    then show ?thesis unfolding e by (simp only: record_nothing)
  next
    case (go s3 w)
    then show ?thesis unfolding e using ready_advance [OF C go(1,2)] by simp
  qed
qed

subsection \<open>All steps\<close>

lemma restart_inv:
  assumes inv: "sys_inv lb s"
  shows "sys_inv lb (s\<lparr>ds_node := (ds_node s)\<lparr>dump_windows := Map.empty, dump_generation := 0\<rparr>,
     ds_sent := map (\<lambda>b. b\<lparr>b_live := False\<rparr>) (ds_sent s)\<rparr>)" (is "sys_inv lb ?s")
proof -
  have "covered (ds_sent ?s) k n" if cov: "covered (ds_sent s) k n" for k n
    unfolding covered_def
  proof (intro allI impI)
    fix i assume "1 \<le> i \<and> i < n"
    then obtain x where "x \<in> set (ds_sent s)" "b_current x \<and> b_key x = k \<and> b_from x \<le> i \<and> i \<le> b_last x \<and> acked x"
      using cov unfolding covered_def by blast
    then show "\<exists>b \<in> set (ds_sent ?s). b_current b \<and> b_key b = k \<and> b_from b \<le> i \<and> i \<le> b_last b \<and> acked b"
      by (intro bexI [of _ "x\<lparr>b_live := False\<rparr>"]) (simp_all add: acked_def)
  qed
  moreover have "filter b_live (map (\<lambda>b. b\<lparr>b_live := False\<rparr>) (ds_sent s)) = []" by (simp add: filter_empty_conv)
  moreover have "node_db ?s = node_db s" "node_windows ?s = Map.empty" by (simp_all add: node_defs)
  ultimately show ?thesis using inv unfolding sys_inv_def sys_ok_def by auto
qed

lemma sys_inv_cong:
  assumes "sys_inv lb s" and "ds_sent s' = ds_sent s" "ds_empty s' = ds_empty s" "node_windows s' = node_windows s"
    and "node_generation s' = node_generation s" and "db_inv lb (node_db s')" "dump_map (node_db s') = dump_map (node_db s)"
  shows "sys_inv lb s'"
  using assms unfolding sys_inv_def sys_ok_def win_ok_def has_dump_def by simp

lemma step_inv:
  assumes "bt_ok C" and "dump_step C lb s s'" and inv: "sys_inv lb s"
  shows "sys_inv lb s'"
  using assms(2)
proof cases
  case (queue now pk swarm st out)
  then show ?thesis using queue_inv [OF assms(1) inv] by blast
next
  case (check now st out)
  then show ?thesis using check_inv [OF assms(1) inv] by blast
next
  case (reply b now ok st reads)
  then show ?thesis using reply_inv [OF assms(1) inv] by blast
next
  case restart
  then show ?thesis using restart_inv [OF inv] by blast
next
  case (network nw)
  then show ?thesis using inv by (intro sys_inv_cong [OF inv]) (auto simp: node_defs sys_inv_def sys_ok_def)
next
  case (database db)
  then show ?thesis by (intro sys_inv_cong [OF inv]) (simp_all add: node_defs)
qed

lemma reachable_inv:
  assumes "bt_ok C" and "dump_reachable C lb s"
  shows "sys_inv lb s"
  using assms(2)
proof induction
  case (start db nw)
  then show ?case by (simp add: sys_inv_def sys_ok_def node_defs)
next
  case (step s s')
  then show ?case using step_inv [OF assms(1)] by blast
qed

section \<open>Completion and progress\<close>

text \<open>Everything before some id was acknowledged, and a read from there to the end found nothing.\<close>

definition completed :: "dump_system \<Rightarrow> dump_key \<Rightarrow> int \<Rightarrow> bool" where
  "completed s key e \<longleftrightarrow> (\<exists>m. covered (ds_sent s) key m \<and> (key, m, e) \<in> set (ds_empty s))"

lemma completed_record: "completed s key e \<Longrightarrow> completed (record_reads out s) key e"
  unfolding completed_def record_reads_def using covered_append by fastforce

lemma completed_node: "completed (s\<lparr>ds_node := st\<rparr>) = completed s"
  by (simp add: completed_def fun_eq_iff)

lemma window_done:
  assumes "window_sound sent key w" and "w_failed_batch w = None" "w_in_flight w = 0"
  shows "covered sent key (w_sent_next_id w)"
proof -
  obtain old bs where B: "filter (in_window key (w_generation w)) sent = old @ bs" "\<forall>b \<in> set bs. 0 \<le> b_left b \<and> b_current b"
      "chain (w_next_id w) bs (w_sent_next_id w)" "w_in_flight w = unanswered bs" "failure_ok (w_failed_batch w) bs"
      and cov: "covered sent key (w_next_id w)"
    using assms(1) unfolding window_sound_def by blast
  have "filter (\<lambda>b. 0 < b_left b) bs = []" using B(4) assms(3) by (simp add: unanswered_def)
  then have "acked b" if "b \<in> set bs" for b
    using that B(2,5) assms(2) unfolding acked_def failure_ok_def filter_empty_conv by fastforce
  moreover have "b \<in> set sent \<and> in_window key (w_generation w) b" if "b \<in> set bs" for b
  proof -
    have "b \<in> set (filter (in_window key (w_generation w)) sent)" unfolding B(1) using that by simp
    then show ?thesis by simp
  qed
  ultimately show ?thesis using B(2) by (intro covered_extend [OF cov B(3)]) (auto simp: in_window_def)
qed

lemma has_dump_fun: "has_dump db k e \<Longrightarrow> has_dump db k e' \<Longrightarrow> e = e'"
  by (auto simp: has_dump_def)

lemma finish_has_dump: "db_inv lb (dn_db st) \<Longrightarrow> has_dump (dn_db (finish_dump key st)) k e \<longleftrightarrow> k \<noteq> key \<and> has_dump (dn_db st) k e"
  using remove_dump_spec(3) [OF db_inv_pending, of lb "dn_db st" "fst key" "snd key"]
  by (auto simp: has_dump_def finish_dump_def erase_window_def)

lemma pause_has_dump: "db_inv lb (dn_db st) \<Longrightarrow> has_dump (dn_db (pause_dump now key n st)) k e = has_dump (dn_db st) k e"
  using update_has_dump by (simp add: pause_dump_def erase_window_def)

text \<open>A dump that is advanced keeps its row, or is complete, unless the node left.\<close>

lemma advance_done:
  assumes C: "bt_ok C" and rd: "ready lb s key w" and a: "advance_dump C nw now key w (ds_node s) = (st, reads)"
    and h: "has_dump (node_db s) k e"
  shows "has_dump (dn_db st) k e \<or> k = key \<and> (left_swarm nw key \<or> completed (record_reads [(key, w_generation w, reads)] s) key e)"
proof -
  have db: "db_inv lb (dn_db (ds_node s))" using rd by (simp add: ready_def sys_ok_def node_defs)
  have h': "has_dump (dn_db (ds_node s)) k e" using h by (simp add: node_defs)
  have e: "w_end_id w = e" if "k = key" using has_dump_fun [OF h] rd that by (auto simp: ready_def)
  from a show ?thesis
  proof (cases rule: advance_cases)
    case fin
    show ?thesis
    proof (cases "k = key \<and> \<not> left_swarm nw key")
      case True
      then have w: "w_failed_batch w = None" "w_exhausted w" "w_in_flight w = 0" using fin(3) by auto
      have "covered (ds_sent s) key (w_sent_next_id w)" using rd by (intro window_done [OF _ w(1,3)]) (simp add: ready_def)
      then have "completed s key e" unfolding completed_def using rd w(2) e True by (auto simp: ready_def)
      then show ?thesis using True completed_record by blast
    qed (use fin(1) h' finish_has_dump [OF db] in auto)
  next
    case pause
    then show ?thesis using h' pause_has_dump [OF db] by simp
  next
    case same
    then show ?thesis using h' by simp
  next
    case (loop lower upper w')
    show ?thesis
    proof (cases "k = key \<and> w_exhausted w' \<and> w_in_flight w' = 0")
      case True
      have "tables_ok lb (dn_db (ds_node s))" using db db_inv_tables by blast
      moreover have "window_sound (ds_sent s) key w" "distinct (map ident (filter b_live (ds_sent s)))"
        using rd by (simp_all add: ready_def sys_ok_def)
      ultimately have l: "window_sound (ds_sent s @ batches_of (key, w_generation w, reads)) key w'" "w_failed_batch w' = None"
          "(key, w_sent_next_id w', w_end_id w) \<in> set (empties_of (key, w_generation w, reads))"
        using dump_loop_spec [OF C _ _ loop(1,2) _ loop(3)] True by fastforce+
      then have "completed (record_reads [(key, w_generation w, reads)] s) key e"
        unfolding completed_def record_reads_def using window_done [OF l(1,2)] True e by auto
      then show ?thesis using True by blast
    qed (use loop(4) h' finish_has_dump [OF db] in auto)
  qed
qed

lemma check_dump_done:
  assumes C: "bt_ok C" and inv: "sys_inv lb s" and ls: "listed s (d # ds)" and c: "check_dump C nw now d (ds_node s) = (st, out)"
    and h: "has_dump (node_db s) k e"
  shows "has_dump (dn_db st) k e \<or> left_swarm nw k \<or> completed (record_reads out s) k e"
  using inv listed_dump [OF inv ls list.set_intros(1), unfolded key_of_def] c
proof (cases rule: check_dump_cases)
  case skip
  then show ?thesis using h by (simp add: node_defs)
next
  case (go s3 w reads)
  have "completed (record_reads out s3) = completed (record_reads out s)"
    using go(4) completed_node record_reads_node(1) by metis
  then show ?thesis using advance_done [OF C go(1,2), of k e] h go(3,5) by auto
qed

lemma check_loop_done:
  assumes C: "bt_ok C" and "sys_inv lb s" and "listed s ds" and "check_dumps_loop C nw now ds (ds_node s) = (st, out)"
    and "has_dump (node_db s) k e"
  shows "has_dump (dn_db st) k e \<or> left_swarm nw k \<or> completed (record_reads out s) k e"
  using assms(2-)
proof (induction ds arbitrary: s st out)
  case Nil
  then show ?case by (simp add: node_defs)
next
  case (Cons d ds)
  obtain st1 out1 where c1: "check_dump C nw now d (ds_node s) = (st1, out1)" by (rule prod.exhaust)
  obtain st2 out2 where c2: "check_dumps_loop C nw now ds st1 = (st2, out2)" by (rule prod.exhaust)
  have st: "st = st2" "out = out1 @ out2" using Cons.prems(3) c1 c2 by simp_all
  let ?s = "record_reads out1 (s\<lparr>ds_node := st1\<rparr>)"
  have node: "ds_node ?s = st1" by (simp add: record_reads_node)
  from check_dump_done [OF C Cons.prems(1,2) c1 Cons.prems(4)] show ?case
  proof (elim disjE)
    assume "has_dump (dn_db st1) k e"
    then have "has_dump (dn_db st2) k e \<or> left_swarm nw k \<or> completed (record_reads out2 ?s) k e"
      using c2 by (intro Cons.IH [OF listed_step [OF C Cons.prems(1,2) c1]]) (simp_all add: node node_db_def)
    then show ?case unfolding st record_reads_append using completed_node record_reads_node(1) by metis
  qed (use completed_record in \<open>auto simp: st record_reads_append\<close>)
qed

lemma reply_done:
  assumes C: "bt_ok C" and inv: "sys_inv lb s" and b: "b \<in> set (ds_sent s)" "b_live b" "0 < b_left b"
    and r: "on_dump_batch_reply C nw now (b_key b) (b_last b) (b_gen b) ok (ds_node s) = (st, reads)"
    and h: "has_dump (node_db s) k e"
  shows "has_dump (dn_db st) k e \<or> left_swarm nw k
     \<or> completed (record_reads [(b_key b, b_gen b, reads)] (s\<lparr>ds_sent := map (answer b ok) (ds_sent s)\<rparr>)) k e"
  using inv b r refl
proof (cases rule: reply_cases)
  case quiet
  then show ?thesis using h by blast
next
  case (go s3 w)
  let ?s = "s\<lparr>ds_sent := map (answer b ok) (ds_sent s)\<rparr>"
  have "completed (record_reads x s3) = completed (record_reads x ?s)" for x
    using go(4) completed_node record_reads_node(1) by metis
  then show ?thesis using advance_done [OF C go(1,2), of k e] go(3,5) h by auto
qed

text \<open>A dump with batches on their way, or one that waits for its next attempt.\<close>

definition moving :: "time \<Rightarrow> dump_state \<Rightarrow> dump_key \<Rightarrow> bool" where
  "moving now st key \<longleftrightarrow> (case dump_windows st key of Some w \<Rightarrow> 0 < w_in_flight w
     | None \<Rightarrow> \<exists>n e t. dump_map (dn_db st) key = Some (n, e, t) \<and> now < t)"

definition can_send :: "network_state \<Rightarrow> dump_key \<Rightarrow> bool" where
  "can_send nw key \<longleftrightarrow> \<not> not_contactable nw (fst key) \<and> (\<exists>r. swarm_boundaries (nw_swarms nw) (snd key) = Inr r)"

lemma advance_moves:
  assumes C: "bt_ok C" and rd: "ready lb s key w" and a: "advance_dump C nw now key w (ds_node s) = (st, reads)"
    and cs: "can_send nw key" and h: "has_dump (dn_db st) key e"
  shows "moving now st key"
proof -
  have db: "db_inv lb (dn_db (ds_node s))" using rd by (simp add: ready_def sys_ok_def node_defs)
  have ws: "window_sound (ds_sent s) key w" and di: "distinct (map ident (filter b_live (ds_sent s)))"
    using rd by (simp_all add: ready_def sys_ok_def)
  from a show ?thesis
  proof (cases rule: advance_cases)
    case fin
    then show ?thesis using h finish_has_dump [OF db] by simp
  next
    case pause
    then show ?thesis using cs by (simp add: can_send_def)
  next
    case same
    have "0 \<le> w_in_flight w" using ws by (auto simp: window_sound_def unanswered_def)
    then have "0 < w_in_flight w" using same(3,4) cs rd by (auto simp: can_send_def ready_def DUMP_WINDOW_def)
    then show ?thesis using same(1) rd by (simp add: moving_def ready_def node_defs)
  next
    case (loop lower upper w')
    have l: "window_sound (ds_sent s @ batches_of (key, w_generation w, reads)) key w'" "\<not> w_exhausted w' \<longrightarrow> w_in_flight w' = DUMP_WINDOW"
      using dump_loop_spec [OF C db_inv_tables [OF db] ws loop(1,2) di loop(3)] by auto
    have nf: "\<not> (w_exhausted w' \<and> w_in_flight w' = 0)" using loop(4) h finish_has_dump [OF db, of key key e] by auto
    have "0 \<le> w_in_flight w'" using l(1) by (auto simp: window_sound_def unanswered_def)
    then have "0 < w_in_flight w'" using l(2) nf by (auto simp: DUMP_WINDOW_def)
    then show ?thesis unfolding loop(4) if_not_P [OF nf] by (simp add: moving_def)
  qed
qed

lemma check_dump_moves:
  assumes C: "bt_ok C" and inv: "sys_inv lb s" and ls: "listed s (d # ds)" and c: "check_dump C nw now d (ds_node s) = (st, out)"
    and cs: "can_send nw (key_of d)" and h: "has_dump (dn_db st) (key_of d) e"
  shows "moving now st (key_of d)"
  using inv listed_dump [OF inv ls list.set_intros(1), unfolded key_of_def] c
proof (cases rule: check_dump_cases)
  case skip
  then show ?thesis using ls by (simp add: moving_def listed_def node_defs key_of_def)
next
  case (go s3 w reads)
  then show ?thesis using advance_moves [OF C go(1,2)] cs h by (simp add: key_of_def)
qed

lemma check_loop_other:
  assumes C: "bt_ok C" and "sys_inv lb s" and "listed s ds" and "check_dumps_loop C nw now ds (ds_node s) = (st, out)" and "k \<notin> key_of ` set ds"
  shows "dump_map (dn_db st) k = dump_map (node_db s) k \<and> dump_windows st k = node_windows s k"
  using assms(2-)
proof (induction ds arbitrary: s st out)
  case Nil
  then show ?case by (simp add: node_defs)
next
  case (Cons d ds)
  obtain st1 out1 where c1: "check_dump C nw now d (ds_node s) = (st1, out1)" by (rule prod.exhaust)
  obtain st2 out2 where c2: "check_dumps_loop C nw now ds st1 = (st2, out2)" by (rule prod.exhaust)
  have st: "st = st2" using Cons.prems(3) c1 c2 by simp
  let ?s = "record_reads out1 (s\<lparr>ds_node := st1\<rparr>)"
  have node: "ds_node ?s = st1" by (simp add: record_reads_node)
  have db: "db_inv lb (dn_db (ds_node s))" using Cons.prems(1) by (simp add: sys_inv_def sys_ok_def node_defs)
  have k: "k \<noteq> (d_pubkey d, d_swarm d)" using Cons.prems(4) by (simp add: key_of_def)
  have "dump_map (dn_db st2) k = dump_map (node_db ?s) k \<and> dump_windows st2 k = node_windows ?s k"
    using c2 Cons.prems(4) by (intro Cons.IH [OF listed_step [OF C Cons.prems(1,2) c1]]) (simp_all add: node)
  then show ?case using check_dump_other [OF db c1 k] by (simp add: st node_defs node)
qed

lemma check_loop_moves:
  assumes C: "bt_ok C" and "sys_inv lb s" and "listed s ds" and "check_dumps_loop C nw now ds (ds_node s) = (st, out)"
    and "k \<in> key_of ` set ds" and cs: "can_send nw k" and "has_dump (dn_db st) k e"
  shows "moving now st k"
  using assms(2-5,7)
proof (induction ds arbitrary: s st out)
  case (Cons d ds)
  obtain st1 out1 where c1: "check_dump C nw now d (ds_node s) = (st1, out1)" by (rule prod.exhaust)
  obtain st2 out2 where c2: "check_dumps_loop C nw now ds st1 = (st2, out2)" by (rule prod.exhaust)
  have st: "st = st2" using Cons.prems(3) c1 c2 by simp
  let ?s = "record_reads out1 (s\<lparr>ds_node := st1\<rparr>)"
  have node: "ds_node ?s = st1" by (simp add: record_reads_node)
  note next_s = listed_step [OF C Cons.prems(1,2) c1]
  have c2': "check_dumps_loop C nw now ds (ds_node ?s) = (st2, out2)" using c2 node by simp
  show ?case
  proof (cases "k = key_of d")
    case True
    then have "k \<notin> key_of ` set ds" using Cons.prems(2) by (simp add: listed_def)
    from check_loop_other [OF C next_s c2' this]
    have same: "dump_map (dn_db st2) k = dump_map (dn_db st1) k" "dump_windows st2 k = dump_windows st1 k" by (simp_all add: node_defs node)
    then have "has_dump (dn_db st1) (key_of d) e" using Cons.prems(5) True by (simp add: has_dump_def st)
    then have "moving now st1 k" using check_dump_moves [OF C Cons.prems(1,2) c1] cs True by blast
    then show ?thesis unfolding moving_def st same .
  next
    case False
    then show ?thesis using Cons.IH [OF next_s c2'] Cons.prems(4,5) by (simp add: st)
  qed
qed simp

lemma step_done:
  assumes C: "bt_ok C" and inv: "sys_inv lb s" and st: "dump_step C lb s s'" and h: "has_dump (node_db s) key e"
  shows "(\<exists>e'. e \<le> e' \<and> (has_dump (node_db s') key e' \<or> completed s' key e')) \<or> left_swarm (ds_network s) key"
  using st
proof cases
  case (queue now pk swarm st out)
  define e1 where "e1 = max_message_id (node_db s)"
  define s1 where "s1 = (requeued (pk, swarm) s)\<lparr>ds_node := erase_window (pk, swarm) ((ds_node s)\<lparr>dn_db := queue_dump pk swarm e1 (node_db s)\<rparr>)\<rparr>"
  have inv1: "sys_inv lb s1" unfolding s1_def using requeued_inv [OF inv, of "(pk, swarm)" e1] by (simp add: node_db_def)
  have "db_pending_ok (node_db s)" using inv db_inv_pending by (auto simp: sys_inv_def sys_ok_def)
  from queue_dump_spec(3) [OF this, of pk swarm e1]
  have "\<exists>e'. e \<le> e' \<and> has_dump (node_db s1) key e'"
    using h by (cases "key = (pk, swarm)") (auto simp: s1_def erase_window_def has_dump_def node_defs max_def)
  then obtain e' where e': "e \<le> e'" "has_dump (node_db s1) key e'" by blast
  have l: "check_dumps_loop C (ds_network s) now (list_pending_dumps (dn_db (ds_node s1))) (ds_node s1) = (st, out)"
    using queue(2) by (simp add: sn_queue_dump_def Let_def check_dumps_locked_def s1_def e1_def node_db_def)
  have s': "s' = (record_reads out s1)\<lparr>ds_node := st\<rparr>" using queue(1) by (simp add: s1_def record_reads_node)
  from check_loop_done [OF C inv1 listed_start [OF inv1] l e'(2)] e'(1) show ?thesis
    unfolding s' completed_node by (auto simp: node_db_def)
next
  case (check now st out)
  have s': "s' = (record_reads out s)\<lparr>ds_node := st\<rparr>" using check(1) by (simp add: record_reads_node)
  from check_loop_done [OF C inv listed_start [OF inv] check(2) [unfolded check_dumps_locked_def] h] show ?thesis
    unfolding s' completed_node by (auto simp: node_db_def)
next
  case (reply b now ok st reads)
  have s': "s' = (record_reads [(b_key b, b_gen b, reads)] (s\<lparr>ds_sent := map (answer b ok) (ds_sent s)\<rparr>))\<lparr>ds_node := st\<rparr>"
    using reply(1) by (simp add: record_reads_def)
  from reply_done [OF C inv reply(2-5) h] show ?thesis unfolding s' completed_node by (auto simp: node_db_def)
qed (use h in \<open>auto simp: node_defs has_dump_def\<close>)

text \<open>
  C1: The cursor of a dump, in the database and across restarts, never passes a message that was
  not delivered. In every state the node can get into, with batches answered in any order, late
  or never, windows discarded and started over, and swarms and database changing meanwhile,
  each id below the cursor is in a batch sent since the dump was last queued of which the other
  node acknowledged every part.
\<close>

theorem dump_cursor_safe:
  assumes "bt_ok C" and "dump_reachable C lb s" and "dump_map (dn_db (ds_node s)) key = Some (n, e, t)" and "1 \<le> i" "i < n"
  shows "\<exists>b \<in> set (ds_sent s). b_current b \<and> b_key b = key \<and> b_from b \<le> i \<and> i \<le> b_last b \<and> acked b"
proof -
  have "covered (ds_sent s) key n"
    using reachable_inv [OF assms(1,2)] assms(3) unfolding sys_inv_def sys_ok_def node_db_def by blast
  then show ?thesis using assms(4,5) unfolding covered_def by blast
qed

text \<open>
  C21: A dump ends only when it is complete, unless its node leaves the swarm. Whatever step removes
  it, every id up to some point was acknowledged by then, and reading on from there to the end of the
  dump, which is no earlier than the one it was queued with, found nothing.
\<close>

theorem dump_complete:
  assumes "bt_ok C" and "dump_reachable C lb s" and "dump_step C lb s s'"
    and "dump_map (dn_db (ds_node s)) key = Some (n, e, t)" and "dump_map (dn_db (ds_node s')) key = None"
    and "\<not> left_swarm (ds_network s) key"
  shows "\<exists>e'. e \<le> e' \<and> completed s' key e'"
proof -
  have "has_dump (node_db s) key e" using assms(4) by (simp add: has_dump_def node_db_def)
  from step_done [OF assms(1) reachable_inv [OF assms(1,2)] assms(3) this] show ?thesis
    using assms(5,6) by (auto simp: has_dump_def node_db_def)
qed

text \<open>
  C22: No dump gets stuck. After each periodic check, a dump whose node can be sent to has at least
  one and at most five batches in flight, one of them with a part of the current window still to be
  answered, or it waits for a time that is yet to come. So there is always an answer or a timer
  that makes it go on.
\<close>

theorem dump_not_stuck:
  assumes C: "bt_ok C" and "dump_reachable C lb s" and c: "check_dumps_locked C (ds_network s) now (ds_node s) = (st, out)"
    and s': "s' = record_reads out (s\<lparr>ds_node := st\<rparr>)" and d: "dump_map (dn_db st) key = Some (n, e, t)" and cs: "can_send (ds_network s) key"
  shows "(\<exists>w. dump_windows st key = Some w \<and> 1 \<le> w_in_flight w \<and> w_in_flight w \<le> 5
            \<and> (\<exists>b \<in> set (ds_sent s'). b_live b \<and> b_key b = key \<and> b_gen b = w_generation w \<and> 0 < b_left b))
     \<or> dump_windows st key = None \<and> now < t"
proof -
  have inv: "sys_inv lb s" by (rule reachable_inv [OF C assms(2)])
  have inv': "sys_inv lb s'" unfolding s' by (rule check_inv [OF C inv c])
  note ls = listed_start [OF inv] and l = c [unfolded check_dumps_locked_def]
  have hd: "has_dump (dn_db st) key e" using d by (simp add: has_dump_def)
  have "db_pending_ok (dn_db (ds_node s))" using inv db_inv_pending by (auto simp: sys_inv_def sys_ok_def node_db_def)
  from list_pending_dumps_iff [OF this] have "key \<in> key_of ` set (list_pending_dumps (dn_db (ds_node s)))"
    using check_loop_other [OF C inv ls l, of key] d
    by (metis (mono_tags, lifting) image_eqI key_of_def node_db_def pending_dump.select_convs surj_pair)
  from check_loop_moves [OF C inv ls l this cs hd] have mv: "moving now st key" .
  show ?thesis
  proof (cases "dump_windows st key")
    case None
    then show ?thesis using mv d by (auto simp: moving_def)
  next
    case (Some w)
    then have "node_windows s' key = Some w" by (simp add: s' node_windows_def record_reads_node)
    then have w: "window_sound (ds_sent s') key w" using inv' unfolding sys_inv_def win_ok_def by blast
    have fl: "0 < w_in_flight w" using mv Some by (simp add: moving_def)
    obtain old bs where B: "filter (in_window key (w_generation w)) (ds_sent s') = old @ bs" "w_in_flight w = unanswered bs" "w_in_flight w \<le> DUMP_WINDOW"
      using w unfolding window_sound_def by blast
    have "filter (\<lambda>b. 0 < b_left b) bs \<noteq> []" using fl B(2) by (auto simp: unanswered_def)
    then obtain b where b: "b \<in> set bs" "0 < b_left b" by (auto simp: filter_empty_conv)
    have "b \<in> set (filter (in_window key (w_generation w)) (ds_sent s'))" unfolding B(1) using b by simp
    then show ?thesis using Some fl B(3) b by (auto simp: in_window_def DUMP_WINDOW_def)
  qed
qed

section \<open>A dump of two large messages\<close>

definition full_row :: "int \<Rightarrow> string \<Rightarrow> message_row" where
  "full_row i hash = (sample_row i hash)\<lparr>m_data := replicate DUMP_BATCH_BYTES (CHR ''x'')\<rparr>"

definition dump_sample :: database where
  "dump_sample = sample_db\<lparr>messages := [full_row 1 ''first'', full_row 2 ''second'']\<rparr>"

definition dump_queued :: "int \<Rightarrow> database" where
  "dump_queued n = dump_sample\<lparr>pending_recipients := [\<lparr>pr_id = 1, pr_pubkey = ''b''\<rparr>],
     pending_dumps := [\<lparr>pd_recipient = 1, pd_swarm = 5, pd_next_id = n, pd_end_id = 2, pd_next_attempt = 0\<rparr>]\<rparr>"

definition dump_network :: network_state where
  "dump_network = \<lparr>nw_swarms = [(5, [''a'', ''b''])], nw_contacts = fst (update_contact ''b'' sample_contact empty_contacts), nw_blob = None\<rparr>"

lemma dump_sample_inv: "db_inv big_endian dump_sample"
  by (simp add: db_inv_def db_ok_def tables_ok_def count_ok_def deferred_ok_def empty_database_def owners_ok_def
      messages_ok_def outbox_rows_def revoked_ok_def pending_ok_def retries_ok_def dump_sample_def sample_db_def full_row_def sample_row_def
      outbox_index_pred_def)

lemma dump_network_ok: "\<not> left_swarm dump_network (''b'', 5)" "\<not> not_contactable dump_network ''b''"
    "swarm_boundaries (nw_swarms dump_network) 5 = Inr (0, 0)" "can_send dump_network (''b'', 5)"
  using sample_keys
  by (simp_all add: left_swarm_def not_contactable_def can_send_def dump_network_def get_swarm_def swarm_boundaries_def update_contact_def
      contacts_update_def empty_contacts_def find_contact_def sample_contact_def contactable_def swarm_ids_def Let_def)

lemma dump_queued_eq: "queue_dump ''b'' 5 (max_message_id dump_sample) dump_sample = dump_queued 1" "dump_map dump_sample = Map.empty"
    "dump_map (dump_queued n) (''b'', 5) = Some (n, 2, 0)"
    "update_dump ''b'' 5 m 0 (dump_queued n) = dump_queued m" "dump_map (remove_dump ''b'' 5 (dump_queued n)) (''b'', 5) = None"
    "list_pending_dumps (dump_queued n) = [\<lparr>d_pubkey = ''b'', d_swarm = 5, d_next_id = n, d_end_id = 2, d_next_attempt = 0\<rparr>]"
  by (simp_all add: queue_dump_def insert_pending_recipient_def max_message_id_def dump_sample_def dump_queued_def sample_db_def full_row_def sample_row_def
      empty_database_def recipient_of_def dump_map_def dump_row_of_def update_dump_def remove_dump_def list_pending_dumps_def next_rowid_def Let_def fun_eq_iff)

lemma dump_bytes_pos: "0 < DUMP_BATCH_BYTES"
  by (simp add: DUMP_BATCH_BYTES_def)

definition dump_message_of :: "int \<Rightarrow> string \<Rightarrow> message" where
  "dump_message_of i hash = row_message (owner_pubkey (hd (owners sample_db))) (full_row i hash)"

lemma batch_messages:
  "next_dump_batch 0 1 2 0 0 DUMP_BATCH_BYTES (dump_queued n) = ([dump_message_of 1 ''first''], 1)"
  "next_dump_batch 0 2 2 0 0 DUMP_BATCH_BYTES (dump_queued n) = ([dump_message_of 2 ''second''], 2)"
  "next_dump_batch 0 3 2 0 0 DUMP_BATCH_BYTES (dump_queued n) = ([], 0)"
  by (simp_all add: next_dump_batch_def dump_rows_def join_owners_def dump_queued_def dump_sample_def sample_db_def full_row_def sample_row_def
      swarm_range_query_def batch_size_def to_epoch_ms_nonneg Let_def apply_deferred_def apply_deferred_msg_def empty_database_def dump_message_of_def
      row_message_def dump_bytes_pos)

lemma single_part: "length (message_parts plain_bt [m]) = 1"
  by (simp add: message_parts_def serialize_messages_def serialize_batches.simps serialize_batch_def plain_bt_def SERIALIZATION_BATCH_SIZE_def)

definition sample_window :: dump_window where
  "sample_window = \<lparr>w_next_id = 1, w_end_id = 2, w_sent_next_id = 3, w_batches = [(1, 1), (2, 1)], w_in_flight = 2, w_exhausted = True,
     w_generation = 1, w_sent_messages = 2, w_failed_batch = None\<rparr>"

definition sample_reads :: "dump_read list" where
  "sample_reads = [\<lparr>dr_from = 1, dr_last = 1, dr_msgs = [dump_message_of 1 ''first''], dr_parts = message_parts plain_bt [dump_message_of 1 ''first'']\<rparr>,
     \<lparr>dr_from = 2, dr_last = 2, dr_msgs = [dump_message_of 2 ''second''], dr_parts = message_parts plain_bt [dump_message_of 2 ''second'']\<rparr>,
     \<lparr>dr_from = 3, dr_last = 2, dr_msgs = [], dr_parts = []\<rparr>]"

lemma sample_loop: "dump_loop plain_bt 0 0 0 (dump_queued 1)
     (new_window \<lparr>d_pubkey = ''b'', d_swarm = 5, d_next_id = 1, d_end_id = 2, d_next_attempt = 0\<rparr> 1) [] = (sample_window, sample_reads)"
  using single_part by (simp add: new_window_def DUMP_WINDOW_def batch_messages sample_window_def sample_reads_def Let_def)

definition sample_batch :: "int \<Rightarrow> int \<Rightarrow> sent_batch" where
  "sample_batch i left = \<lparr>b_key = (''b'', 5), b_gen = 1, b_from = i, b_last = i, b_left = left, b_ok = True, b_current = True, b_live = True\<rparr>"

definition dump_at :: "database \<Rightarrow> dump_window option \<Rightarrow> sent_batch list \<Rightarrow> dump_system" where
  "dump_at db w sent = \<lparr>ds_node = \<lparr>dn_db = db, dump_windows = (Map.empty)((''b'', 5) := w), dump_generation = 1\<rparr>, ds_network = dump_network,
     ds_sent = sent, ds_empty = [((''b'', 5), 3, 2)]\<rparr>"

lemma sample_check: "check_dumps_locked plain_bt dump_network 0 \<lparr>dn_db = dump_queued 1, dump_windows = Map.empty, dump_generation = 0\<rparr> =
     (\<lparr>dn_db = dump_queued 1, dump_windows = [(''b'', 5) \<mapsto> sample_window], dump_generation = 1\<rparr>, [((''b'', 5), 1, sample_reads)])"
proof -
  have w: "w_failed_batch (new_window d g) = None" "\<not> w_exhausted (new_window d g)" "w_in_flight (new_window d g) = 0" for d g by (simp_all add: new_window_def)
  show ?thesis
    using dump_network_ok sample_loop
    by (simp add: check_dumps_locked_def dump_queued_eq check_dump_def advance_dump_def w Let_def DUMP_WINDOW_def del: dump_loop.simps)
       (simp add: sample_window_def)
qed

lemma sample_reach1: "dump_reachable plain_bt big_endian (dump_at (dump_queued 1) (Some sample_window) [sample_batch 1 1, sample_batch 2 1])"
proof -
  let ?s = "\<lparr>ds_node = \<lparr>dn_db = dump_sample, dump_windows = Map.empty, dump_generation = 0\<rparr>, ds_network = dump_network, ds_sent = [], ds_empty = []\<rparr>"
  have r0: "dump_reachable plain_bt big_endian ?s" by (rule dump_reachable.start [OF dump_sample_inv dump_queued_eq(2)])
  have q: "sn_queue_dump plain_bt (ds_network ?s) 0 ''b'' 5 (ds_node ?s) =
      (\<lparr>dn_db = dump_queued 1, dump_windows = [(''b'', 5) \<mapsto> sample_window], dump_generation = 1\<rparr>, [((''b'', 5), 1, sample_reads)])"
    using sample_check by (simp add: sn_queue_dump_def dump_queued_eq erase_window_def)
  have "batches_of ((''b'', 5), 1, sample_reads) = [sample_batch 1 1, sample_batch 2 1]" "empties_of ((''b'', 5), 1, sample_reads) = [((''b'', 5), 3, 2)]"
    using single_part by (simp_all add: batches_of_def empties_of_def sample_reads_def sample_batch_def)
  then show ?thesis
    using dump_reachable.step [OF r0 dump_step.queue [OF q]] by (simp add: record_reads_def requeued_def dump_at_def)
qed

definition sample_window_2 :: dump_window where
  "sample_window_2 = sample_window\<lparr>w_next_id := 2, w_batches := [(2, 1)], w_in_flight := 1\<rparr>"

lemma sample_reach2: "dump_reachable plain_bt big_endian (dump_at (dump_queued 2) (Some sample_window_2) [sample_batch 1 0, sample_batch 2 1])"
proof -
  let ?s = "dump_at (dump_queued 1) (Some sample_window) [sample_batch 1 1, sample_batch 2 1]" and ?b = "sample_batch 1 1"
  have r: "on_dump_batch_reply plain_bt (ds_network ?s) 0 (b_key ?b) (b_last ?b) (b_gen ?b) True (ds_node ?s) =
      (\<lparr>dn_db = dump_queued 2, dump_windows = [(''b'', 5) \<mapsto> sample_window_2], dump_generation = 1\<rparr>, [])"
    using dump_network_ok(1)
    by (simp add: on_dump_batch_reply_def dump_at_def sample_batch_def sample_window_def sample_window_2_def advance_dump_def dump_queued_eq Let_def)
  have "dump_reachable plain_bt big_endian (record_reads [(b_key ?b, b_gen ?b, [])] (?s\<lparr>ds_node := \<lparr>dn_db = dump_queued 2,
      dump_windows = [(''b'', 5) \<mapsto> sample_window_2], dump_generation = 1\<rparr>, ds_sent := map (answer ?b True) (ds_sent ?s)\<rparr>))"
    by (rule dump_reachable.step [OF sample_reach1 dump_step.reply [OF _ _ _ r]]) (simp_all add: dump_at_def sample_batch_def)
  then show ?thesis unfolding record_nothing by (simp add: dump_at_def answer_def sample_batch_def)
qed

lemma sample_step3: "dump_step plain_bt big_endian (dump_at (dump_queued 2) (Some sample_window_2) [sample_batch 1 0, sample_batch 2 1])
     (dump_at (remove_dump ''b'' 5 (dump_queued 3)) None [sample_batch 1 0, sample_batch 2 0])"
proof -
  let ?s = "dump_at (dump_queued 2) (Some sample_window_2) [sample_batch 1 0, sample_batch 2 1]" and ?b = "sample_batch 2 1"
  have r: "on_dump_batch_reply plain_bt (ds_network ?s) 0 (b_key ?b) (b_last ?b) (b_gen ?b) True (ds_node ?s) =
      (\<lparr>dn_db = remove_dump ''b'' 5 (dump_queued 3), dump_windows = Map.empty, dump_generation = 1\<rparr>, [])"
    using dump_network_ok(1)
    by (simp add: on_dump_batch_reply_def dump_at_def sample_batch_def sample_window_def sample_window_2_def advance_dump_def dump_queued_eq Let_def
        finish_dump_def erase_window_def)
  have "dump_step plain_bt big_endian ?s (record_reads [(b_key ?b, b_gen ?b, [])] (?s\<lparr>ds_node := \<lparr>dn_db = remove_dump ''b'' 5 (dump_queued 3),
      dump_windows = Map.empty, dump_generation = 1\<rparr>, ds_sent := map (answer ?b True) (ds_sent ?s)\<rparr>))"
    by (rule dump_step.reply [OF _ _ _ r]) (simp_all add: dump_at_def sample_batch_def)
  then show ?thesis unfolding record_nothing by (simp add: dump_at_def answer_def sample_batch_def)
qed

theorem dump_cursor_safe_witness:
  "\<exists>b \<in> set [sample_batch 1 0, sample_batch 2 1]. b_from b \<le> 1 \<and> 1 \<le> b_last b \<and> acked b"
  using dump_cursor_safe [OF plain_bt_ok sample_reach2, of "(''b'', 5)" 2 2 0 1] by (auto simp: dump_at_def dump_queued_eq)

theorem dump_complete_witness:
  "\<exists>e. 2 \<le> e \<and> completed (dump_at (remove_dump ''b'' 5 (dump_queued 3)) None [sample_batch 1 0, sample_batch 2 0]) (''b'', 5) e"
  using dump_complete [OF plain_bt_ok sample_reach2 sample_step3, of "(''b'', 5)" 2 2 0] dump_network_ok(1)
  by (simp add: dump_at_def dump_queued_eq)

theorem dump_not_stuck_witness:
  "\<exists>w. dump_windows (fst (check_dumps_locked plain_bt dump_network 0 (ds_node (dump_at (dump_queued 1) (Some sample_window) [sample_batch 1 1, sample_batch 2 1]))))
     (''b'', 5) = Some w \<and> 1 \<le> w_in_flight w \<and> w_in_flight w \<le> 5"
proof -
  let ?s = "dump_at (dump_queued 1) (Some sample_window) [sample_batch 1 1, sample_batch 2 1]"
  obtain out where c: "check_dumps_locked plain_bt (ds_network ?s) 0 (ds_node ?s) = (ds_node ?s, out)"
    using dump_network_ok(1)
    by (simp add: check_dumps_locked_def dump_queued_eq check_dump_def advance_dump_def dump_at_def sample_window_def Let_def)
  have "\<exists>w. dump_windows (ds_node ?s) (''b'', 5) = Some w \<and> 1 \<le> w_in_flight w \<and> w_in_flight w \<le> 5"
    using dump_not_stuck [OF plain_bt_ok sample_reach1 c refl, of "(''b'', 5)" 1 2 0] dump_network_ok(4)
    by (auto simp: dump_at_def dump_queued_eq)
  then show ?thesis using c by (simp add: dump_at_def)
qed

end
