(* ===== verification/Deliveries.thy ===== *)
theory Deliveries
  imports Dump_Progress
begin

text \<open>
  Deliveries of single messages whose forwarding failed (\<open>oxenss/snode/service_node.cpp\<close>): one
  batch at a time is on its way to each node. The second half is the system of the node and what
  it has sent, with what holds of it however it is interleaved.
\<close>

section \<open>Deliveries\<close>

record delivery_state =
  deliveries_in_flight :: "legacy_pubkey \<rightharpoonup> int \<times> bool"
  delivery_retry_after :: "legacy_pubkey \<rightharpoonup> time"

text \<open>
  Each operation works on the database and the two maps, and gives the batches it sends: to which
  node, with which message ids and in how many parts.
\<close>

type_synonym delivery_node = "database \<times> delivery_state"
type_synonym sent_delivery = "legacy_pubkey \<times> int list \<times> string list"

definition retry_later :: "delivery_state \<Rightarrow> time \<Rightarrow> legacy_pubkey \<Rightarrow> bool" where
  "retry_later dv now pk \<longleftrightarrow> (case delivery_retry_after dv pk of Some t \<Rightarrow> t > now | None \<Rightarrow> False)"

definition send_deliveries ::
    "bt_codec \<Rightarrow> swarm_state \<Rightarrow> time \<Rightarrow> legacy_pubkey \<Rightarrow> delivery_node \<Rightarrow> delivery_node \<times> sent_delivery list" where
  "send_deliveries C sw now pk = (\<lambda>(db, dv).
     if deliveries_in_flight dv pk \<noteq> None then ((db, dv), [])
     else if retry_later dv now pk then ((db, dv), [])
     else let dv = dv\<lparr>delivery_retry_after := (delivery_retry_after dv)(pk := None)\<rparr>
          in if is_member sw pk = None then ((remove_deliveries pk db, dv), [])
             else if not_contactable (sw_network sw) pk
             then ((db, dv\<lparr>delivery_retry_after := (delivery_retry_after dv)(pk \<mapsto> now + DUMP_RETRY_DELAY)\<rparr>), [])
             else let (msgs, ids) = next_delivery_batch now pk DUMP_BATCH_BYTES db
                  in if msgs = [] then ((db, dv), [])
                     else let parts = message_parts C msgs
                          in ((db, dv\<lparr>deliveries_in_flight := (deliveries_in_flight dv)(pk \<mapsto> (int (length parts), False))\<rparr>),
                              [(pk, ids, parts)]))"

definition on_delivery_reply ::
    "bt_codec \<Rightarrow> swarm_state \<Rightarrow> time \<Rightarrow> legacy_pubkey \<Rightarrow> int list \<Rightarrow> bool \<Rightarrow> delivery_node \<Rightarrow> delivery_node \<times> sent_delivery list" where
  "on_delivery_reply C sw now pk ids ok = (\<lambda>(db, dv).
     case deliveries_in_flight dv pk of
       None \<Rightarrow> ((db, dv), [])
     | Some (parts, failed) \<Rightarrow>
         let failed = (failed \<or> \<not> ok); parts = parts - 1
         in if parts > 0
            then ((db, dv\<lparr>deliveries_in_flight := (deliveries_in_flight dv)(pk \<mapsto> (parts, failed))\<rparr>), [])
            else let dv = dv\<lparr>deliveries_in_flight := (deliveries_in_flight dv)(pk := None)\<rparr>
                 in if \<not> failed then send_deliveries C sw now pk (remove_deliveries_ids pk ids db, dv)
                    else ((db, dv\<lparr>delivery_retry_after := (delivery_retry_after dv)(pk \<mapsto> now + DUMP_RETRY_DELAY)\<rparr>), []))"

fun send_all :: "bt_codec \<Rightarrow> swarm_state \<Rightarrow> time \<Rightarrow> legacy_pubkey list \<Rightarrow> delivery_node \<Rightarrow> delivery_node \<times> sent_delivery list" where
  "send_all C sw now [] nd = (nd, [])"
| "send_all C sw now (pk # pks) nd =
     (let (nd, out) = send_deliveries C sw now pk nd; (nd, out') = send_all C sw now pks nd in (nd, out @ out'))"

definition check_deliveries_locked ::
    "bt_codec \<Rightarrow> swarm_state \<Rightarrow> time \<Rightarrow> delivery_node \<Rightarrow> delivery_node \<times> sent_delivery list" where
  "check_deliveries_locked C sw now nd = send_all C sw now (delivery_peers (fst nd)) nd"

definition sn_queue_delivery ::
    "bt_codec \<Rightarrow> swarm_state \<Rightarrow> time \<Rightarrow> legacy_pubkey \<Rightarrow> string \<Rightarrow> delivery_node \<Rightarrow> delivery_node \<times> sent_delivery list" where
  "sn_queue_delivery C sw now pk hash = (\<lambda>(db, dv). send_deliveries C sw now pk (queue_delivery pk hash db, dv))"

text \<open>The timer: dumps, deliveries, then the recipients nothing refers to.\<close>

definition check_dumps ::
    "bt_codec \<Rightarrow> swarm_state \<Rightarrow> time \<Rightarrow> dump_state \<times> delivery_state \<Rightarrow>
     (dump_state \<times> delivery_state) \<times> (dump_key \<times> nat \<times> dump_read list) list \<times> sent_delivery list" where
  "check_dumps C sw now = (\<lambda>(st, dv).
     let (st1, reads) = check_dumps_locked C (sw_network sw) now st;
         ((db, dv1), out) = check_deliveries_locked C sw now (dn_db st1, dv)
     in ((st1\<lparr>dn_db := clean_pending_recipients db\<rparr>, dv1), reads, out))"

section \<open>The node and what it has sent\<close>

text \<open>
  The batch on its way to a node: its message ids, how many of its parts have no answer yet, and
  whether all answers so far were good.
\<close>

record delivery_system =
  vs_node :: delivery_node
  vs_swarm :: swarm_state
  vs_out :: "legacy_pubkey \<rightharpoonup> int list \<times> nat \<times> bool"

fun note_sent :: "sent_delivery list \<Rightarrow> (legacy_pubkey \<rightharpoonup> int list \<times> nat \<times> bool) \<Rightarrow> (legacy_pubkey \<rightharpoonup> int list \<times> nat \<times> bool)" where
  "note_sent [] m = m"
| "note_sent ((pk, ids, parts) # out) m = note_sent out (m(pk \<mapsto> (ids, length parts, True)))"

datatype delivery_event = Queue_Delivery legacy_pubkey string | Delivery_Check | Delivery_Reply legacy_pubkey bool | Delivery_Restart
  | Swarm_Change | Database_Change

inductive delivery_step :: "bt_codec \<Rightarrow> (string \<Rightarrow> u64) \<Rightarrow> delivery_event \<Rightarrow> delivery_system \<Rightarrow> delivery_system \<Rightarrow> bool" for C lb where
  queue: "sn_queue_delivery C (vs_swarm s) now pk hash (vs_node s) = (nd, out) \<Longrightarrow>
     delivery_step C lb (Queue_Delivery pk hash) s (s\<lparr>vs_node := nd, vs_out := note_sent out (vs_out s)\<rparr>)"
| check: "check_deliveries_locked C (vs_swarm s) now (vs_node s) = (nd, out) \<Longrightarrow>
     delivery_step C lb Delivery_Check s (s\<lparr>vs_node := nd, vs_out := note_sent out (vs_out s)\<rparr>)"
| reply: "vs_out s pk = Some (ids, Suc left, good) \<Longrightarrow> on_delivery_reply C (vs_swarm s) now pk ids ok (vs_node s) = (nd, out) \<Longrightarrow>
     delivery_step C lb (Delivery_Reply pk ok) s (s\<lparr>vs_node := nd,
       vs_out := note_sent out ((vs_out s)(pk := if left = 0 then None else Some (ids, left, good \<and> ok)))\<rparr>)"
| restart: "delivery_step C lb Delivery_Restart s (s\<lparr>vs_node := (fst (vs_node s), \<lparr>deliveries_in_flight = Map.empty, delivery_retry_after = Map.empty\<rparr>),
     vs_out := Map.empty\<rparr>)"
| swarm: "delivery_step C lb Swarm_Change s (s\<lparr>vs_swarm := sw\<rparr>)"
| database: "db_inv lb db \<Longrightarrow> (\<And>pk r. r \<in> set (messages db) \<Longrightarrow> r \<in> set (messages (fst (vs_node s))) \<Longrightarrow>
       (pk, m_hash r) \<in> delivery_set (fst (vs_node s)) \<Longrightarrow> (pk, m_hash r) \<in> delivery_set db) \<Longrightarrow>
     delivery_step C lb Database_Change s (s\<lparr>vs_node := (db, snd (vs_node s))\<rparr>)"

inductive delivery_reachable :: "bt_codec \<Rightarrow> (string \<Rightarrow> u64) \<Rightarrow> delivery_system \<Rightarrow> bool" for C lb where
  start: "db_inv lb db \<Longrightarrow>
     delivery_reachable C lb \<lparr>vs_node = (db, \<lparr>deliveries_in_flight = Map.empty, delivery_retry_after = Map.empty\<rparr>), vs_swarm = sw, vs_out = Map.empty\<rparr>"
| step: "delivery_reachable C lb s \<Longrightarrow> delivery_step C lb ev s s' \<Longrightarrow> delivery_reachable C lb s'"

section \<open>The entries in flight are the batches on their way\<close>

definition flight_entry :: "int list \<times> nat \<times> bool \<Rightarrow> int \<times> bool" where
  "flight_entry = (\<lambda>(ids, left, good). (int left, \<not> good))"

definition flights_ok :: "delivery_state \<Rightarrow> (legacy_pubkey \<rightharpoonup> int list \<times> nat \<times> bool) \<Rightarrow> bool" where
  "flights_ok dv out \<longleftrightarrow> (\<forall>pk. deliveries_in_flight dv pk = map_option flight_entry (out pk)) \<and> (\<forall>pk ids good. out pk \<noteq> Some (ids, 0, good))"

definition vs_inv :: "(string \<Rightarrow> u64) \<Rightarrow> delivery_system \<Rightarrow> bool" where
  "vs_inv lb s \<longleftrightarrow> db_inv lb (fst (vs_node s)) \<and> flights_ok (snd (vs_node s)) (vs_out s)"

text \<open>Sending removes only what is for a node that is not a member.\<close>

definition members_kept :: "swarm_state \<Rightarrow> database \<Rightarrow> database \<Rightarrow> bool" where
  "members_kept sw db db' \<longleftrightarrow> messages db' = messages db
     \<and> (\<forall>pk h. (pk, h) \<in> delivery_set db \<longrightarrow> is_member sw pk \<noteq> None \<longrightarrow> (pk, h) \<in> delivery_set db')"

lemma send_deliveries_spec:
  assumes C: "bt_ok C" and inv: "db_inv lb db" and fl: "flights_ok dv out" and s: "send_deliveries C sw now pk (db, dv) = ((db', dv'), sent)"
  shows "db_inv lb db'" and "flights_ok dv' (note_sent sent out)" and "members_kept sw db db'"
proof -
  have same: "members_kept sw db db" by (simp add: members_kept_def)
  have rem: "db_inv lb (remove_deliveries pk db)" "is_member sw pk = None \<Longrightarrow> members_kept sw db (remove_deliveries pk db)"
    using dump_ops_inv(6) [OF inv] remove_deliveries_spec(3) [OF db_inv_pending [OF inv], of pk]
    by (auto simp: members_kept_def remove_deliveries_def)
  have fl': "flights_ok (dv\<lparr>delivery_retry_after := r\<rparr>) out" for r using fl by (simp add: flights_ok_def)
  consider (quiet) "db' = db" "flights_ok dv' out" "sent = []" | (gone) "is_member sw pk = None" "db' = remove_deliveries pk db" "flights_ok dv' out" "sent = []"
    | (go) msgs ids r where "msgs \<noteq> []" "db' = db" "sent = [(pk, ids, message_parts C msgs)]"
        "dv' = dv\<lparr>delivery_retry_after := r, deliveries_in_flight := (deliveries_in_flight dv)(pk \<mapsto> (int (length (message_parts C msgs)), False))\<rparr>"
    using s fl fl' unfolding send_deliveries_def Let_def by (auto split: if_splits prod.splits)
  then have "db_inv lb db' \<and> flights_ok dv' (note_sent sent out) \<and> members_kept sw db db'"
  proof cases
    case quiet
    then show ?thesis using inv same by simp
  next
    case gone
    then show ?thesis using rem by simp
  next
    case (go msgs ids r)
    have "message_parts C msgs \<noteq> []" by (rule message_parts_nonempty [OF C go(1)])
    then show ?thesis using go inv same fl by (auto simp: flights_ok_def flight_entry_def)
  qed
  then show "db_inv lb db'" "flights_ok dv' (note_sent sent out)" "members_kept sw db db'" by simp_all
qed

lemma members_kept_trans: "members_kept sw db db' \<Longrightarrow> members_kept sw db' db'' \<Longrightarrow> members_kept sw db db''"
  unfolding members_kept_def by simp

lemma note_sent_append: "note_sent (xs @ ys) m = note_sent ys (note_sent xs m)"
  by (induction xs arbitrary: m) auto

lemma send_all_spec:
  assumes C: "bt_ok C" and "db_inv lb db" and "flights_ok dv out" and "send_all C sw now pks (db, dv) = ((db', dv'), sent)"
  shows "db_inv lb db' \<and> flights_ok dv' (note_sent sent out) \<and> members_kept sw db db'"
  using assms(2-)
proof (induction pks arbitrary: db dv out sent)
  case Nil
  then show ?case by (simp add: members_kept_def)
next
  case (Cons pk pks)
  obtain db1 dv1 out1 where s1: "send_deliveries C sw now pk (db, dv) = ((db1, dv1), out1)" by (metis prod.exhaust)
  obtain out2 where s2: "send_all C sw now pks (db1, dv1) = ((db', dv'), out2)" "sent = out1 @ out2"
    using Cons.prems(3) s1 by (auto split: prod.splits)
  note sp = send_deliveries_spec [OF C Cons.prems(1,2) s1]
  from Cons.IH [OF sp(1,2) s2(1)] show ?case using members_kept_trans [OF sp(3)] by (auto simp: s2(2) note_sent_append)
qed

lemma reply_spec:
  assumes C: "bt_ok C" and inv: "db_inv lb db" and fl: "flights_ok dv out" and o: "out pk = Some (ids, Suc left, good)"
    and r: "on_delivery_reply C sw now pk ids ok (db, dv) = ((db', dv'), sent)"
  shows "db_inv lb db' \<and> flights_ok dv' (note_sent sent (out(pk := if left = 0 then None else Some (ids, left, good \<and> ok))))
     \<and> members_kept sw (if left = 0 \<and> good \<and> ok then remove_deliveries_ids pk ids db else db) db'"
proof -
  have f: "deliveries_in_flight dv pk = Some (int (Suc left), \<not> good)" using fl o by (simp add: flights_ok_def flight_entry_def)
  have same: "members_kept sw db db" by (simp add: members_kept_def)
  consider (part) "left \<noteq> 0" | (bad) "left = 0" "\<not> (good \<and> ok)" | (through) "left = 0" "good \<and> ok" by blast
  then show ?thesis
  proof cases
    case part
    then have e: "db' = db" "sent = []" "dv' = dv\<lparr>deliveries_in_flight := (deliveries_in_flight dv)(pk \<mapsto> (int left, \<not> good \<or> \<not> ok))\<rparr>"
      using r f by (simp_all add: on_delivery_reply_def)
    then have "flights_ok dv' (out(pk \<mapsto> (ids, left, good \<and> ok)))" using fl part by (simp add: flights_ok_def flight_entry_def)
    then show ?thesis using part e inv same by simp
  next
    case bad
    then have e: "db' = db" "sent = []" "deliveries_in_flight dv' = (deliveries_in_flight dv)(pk := None)"
      using r f by (auto simp: on_delivery_reply_def)
    then show ?thesis using fl bad inv same by (auto simp: flights_ok_def)
  next
    case through
    let ?dv = "dv\<lparr>deliveries_in_flight := (deliveries_in_flight dv)(pk := None)\<rparr>"
    have s: "send_deliveries C sw now pk (remove_deliveries_ids pk ids db, ?dv) = ((db', dv'), sent)"
      using r f through by (simp add: on_delivery_reply_def)
    have "flights_ok ?dv (out(pk := None))" using fl by (simp add: flights_ok_def)
    from send_deliveries_spec [OF C dump_ops_inv(5) [OF inv] this s] show ?thesis using through by simp
  qed
qed

lemma delivery_step_inv:
  assumes C: "bt_ok C" and inv: "vs_inv lb s" and st: "delivery_step C lb ev s s'"
  shows "vs_inv lb s'"
proof -
  obtain db dv where n: "vs_node s = (db, dv)" by (rule prod.exhaust)
  have i: "db_inv lb db" "flights_ok dv (vs_out s)" using inv by (simp_all add: vs_inv_def n)
  from st show ?thesis
  proof cases
    case (queue now pk hash nd out)
    obtain db' dv' where nd: "nd = (db', dv')" by (rule prod.exhaust)
    have "send_deliveries C (vs_swarm s) now pk (queue_delivery pk hash db, dv) = ((db', dv'), out)"
      using queue(3) by (simp add: sn_queue_delivery_def n nd)
    from send_deliveries_spec [OF C dump_ops_inv(4) [OF i(1)] i(2) this] show ?thesis by (simp add: queue(2) vs_inv_def nd)
  next
    case (check now nd out)
    obtain db' dv' where nd: "nd = (db', dv')" by (rule prod.exhaust)
    from send_all_spec [OF C i check(3) [unfolded check_deliveries_locked_def n nd]] show ?thesis by (simp add: check(2) vs_inv_def nd)
  next
    case (reply pk ids left good now ok nd out)
    obtain db' dv' where nd: "nd = (db', dv')" by (rule prod.exhaust)
    from reply_spec [OF C i reply(3) reply(4) [unfolded n nd]] show ?thesis by (simp add: reply(2) vs_inv_def nd)
  qed (use i in \<open>auto simp: vs_inv_def n flights_ok_def\<close>)
qed

lemma delivery_reachable_inv:
  assumes "bt_ok C" and "delivery_reachable C lb s"
  shows "vs_inv lb s"
  using assms(2)
proof induction
  case (start db sw)
  then show ?case by (simp add: vs_inv_def flights_ok_def)
next
  case (step s ev s')
  then show ?case using delivery_step_inv [OF assms(1)] by blast
qed


section \<open>A message that is replaced while it is on its way\<close>

lemma send_deliveries_adds_nothing:
  assumes ok: "db_pending_ok db" and s: "send_deliveries C sw now pk (db, dv) = ((db', dv'), sent)"
  shows "delivery_set db' \<subseteq> delivery_set db"
proof -
  have "db' = db \<or> db' = remove_deliveries pk db"
    using s unfolding send_deliveries_def Let_def by (auto split: if_splits prod.splits)
  then show ?thesis using remove_deliveries_spec(3) [OF ok, of pk] by auto
qed

lemma store_replaces:
  assumes inv: "db_inv lb db" and st: "store_message lb Disk_Ok msg db = (db', out)" and n: "so_result out = New"
    and i: "so_id out = Some (m_id old)" "old \<in> set (messages db)"
  shows "(\<exists>r \<in> set (messages db'). m_id r = m_id old \<and> m_hash r = msg_hash msg)"
    and "pending_deliveries db' = pending_deliveries db" and "pending_recipients db' = pending_recipients db"
proof -
  obtain db1 owner where o: "get_or_insert_owner lb (msg_pubkey msg) db = (db1, owner)" by (rule prod.exhaust)
  have f1: "messages db1 = messages db" "pending_deliveries db1 = pending_deliveries db" "pending_recipients db1 = pending_recipients db"
    using o by (auto simp: get_or_insert_owner_def insert_owner_def Let_def split: option.splits)
  obtain db2 added where ins: "insert_message owner msg db1 = (db2, Some (m_id old, added))" and db': "db' = (if added then db2\<lparr>message_count := message_count db2 + 1\<rparr> else db2)"
    using st n i(1) by (auto simp: store_message_def store_body_def o Let_def split: option.splits prod.splits if_splits)
  have new: "next_rowid (map m_id (messages db)) \<noteq> m_id old" using next_rowid_greater [of "m_id old" "map m_id (messages db)"] i(2) by auto
  obtain old' where r: "db2 = update_messages (\<lambda>r. m_id r = m_id old) (\<lambda>r. replace_row r msg) db1"
    using ins new by (cases rule: insert_message_cases [of db1 owner msg]) (auto simp: f1)
  have "replace_row old msg \<in> set (messages db2)" using i(2) by (auto simp: r update_messages_def f1)
  then show "\<exists>r \<in> set (messages db'). m_id r = m_id old \<and> m_hash r = msg_hash msg"
    by (intro bexI [of _ "replace_row old msg"]) (simp_all add: db')
  show "pending_deliveries db' = pending_deliveries db" "pending_recipients db' = pending_recipients db"
    by (simp_all add: db' r update_messages_def f1)
qed

text \<open>
  C37: A newer outbox message is lost to a node that the old one is on its way to. It takes over the
  row and with it the pending delivery, so queueing it again changes nothing, and the answer for the
  old message then drops the delivery although the new one was never sent.
\<close>

theorem replaced_delivery_lost:
  assumes inv: "db_inv lb db" and st: "store_message lb Disk_Ok msg db = (db', out)" and n: "so_result out = New"
    and old: "old \<in> set (messages db)" "so_id out = Some (m_id old)" "(pk, m_hash old) \<in> delivery_set db"
    and fl: "deliveries_in_flight dv pk = Some (1, False)" "m_id old \<in> set ids"
  shows "(pk, msg_hash msg) \<in> delivery_set db' \<and> queue_delivery pk (msg_hash msg) db' = db'
     \<and> (pk, msg_hash msg) \<notin> delivery_set (fst (fst (on_delivery_reply C sw now pk ids True (db', dv))))"
proof -
  have inv': "db_inv lb db'" using store_message_inv [OF inv, of Disk_Ok msg] st by simp
  note ok' = db_inv_pending [OF inv'] and ms' = db_inv_messages [OF inv']
  note sr = store_replaces [OF inv st n old(2,1)]
  obtain r where r: "r \<in> set (messages db')" "m_id r = m_id old" "m_hash r = msg_hash msg" using sr(1) by blast
  obtain i old' where d: "recipient_of db pk = Some i" "old' \<in> set (messages db)" "m_hash old' = m_hash old"
      "\<lparr>dl_recipient = i, dl_message = m_id old'\<rparr> \<in> set (pending_deliveries db)"
    using old(3) unfolding delivery_set_iff by blast
  have "old' = old" using d(2,3) old(1) db_inv_messages [OF inv] by (auto simp: messages_ok_def distinct_map dest: inj_onD)
  then have mem: "(pk, msg_hash msg) \<in> delivery_set db'"
    unfolding delivery_set_iff using d(1,4) r by (intro exI [of _ i] conjI bexI [of _ r]) (simp_all add: recipient_of_def sr(2,3))
  let ?db = "remove_deliveries_ids pk ids db'" and ?dv = "dv\<lparr>deliveries_in_flight := (deliveries_in_flight dv)(pk := None)\<rparr>"
  have gone: "(pk, msg_hash msg) \<notin> delivery_set ?db"
    using remove_ids_spec(3) [OF ok' ms', of pk ids] r fl(2) by auto
  obtain db2 dv2 sent where s: "send_deliveries C sw now pk (?db, ?dv) = ((db2, dv2), sent)" by (metis prod.exhaust)
  then have "delivery_set db2 \<subseteq> delivery_set ?db" by (rule send_deliveries_adds_nothing [OF remove_ids_spec(1) [OF ok' ms']])
  moreover have "fst (fst (on_delivery_reply C sw now pk ids True (db', dv))) = db2" using fl(1) s by (simp add: on_delivery_reply_def)
  ultimately show ?thesis using mem gone queue_delivery_spec [OF ok' ms', of pk "msg_hash msg"] by auto
qed

section \<open>A delivery\<close>

definition delivery_swarm :: swarm_state where
  "delivery_swarm = \<lparr>our_pk = ''a'', sw_members = [(''b'', new_member)], cur_swarm_id = 5, sw_network = dump_network, sw_db = empty_database\<rparr>"

definition delivery_db :: database where
  "delivery_db = sample_db\<lparr>pending_recipients := [\<lparr>pr_id = 1, pr_pubkey = ''b''\<rparr>], pending_deliveries := [\<lparr>dl_recipient = 1, dl_message = 1\<rparr>]\<rparr>"

definition no_deliveries :: delivery_state where
  "no_deliveries = \<lparr>deliveries_in_flight = Map.empty, delivery_retry_after = Map.empty\<rparr>"

lemma delivery_member: "is_member delivery_swarm ''b'' = Some new_member" "\<not> not_contactable (sw_network delivery_swarm) ''b''"
  using dump_network_ok(2) by (simp_all add: delivery_swarm_def is_member_def)

lemma delivery_queued: "queue_delivery ''b'' ''first'' sample_db = delivery_db"
  by (simp add: queue_delivery_def queue_delivery_sql_def insert_pending_recipient_def sample_db_def delivery_db_def empty_database_def sample_row_def
      next_rowid_def Let_def)

lemma delivery_batch:
  "next_delivery_batch 0 ''b'' DUMP_BATCH_BYTES delivery_db = ([row_message (owner_pubkey (hd (owners sample_db))) (sample_row 1 ''first'')], [1])"
  using dump_bytes_pos
  by (simp add: next_delivery_batch_def delivery_rows_def join_owners_def delivery_db_def sample_db_def sample_row_def recipient_of_def
      to_epoch_ms_nonneg apply_deferred_def apply_deferred_msg_def empty_database_def Let_def)

definition delivery_1 :: delivery_system where
  "delivery_1 = \<lparr>vs_node = (delivery_db, no_deliveries\<lparr>deliveries_in_flight := [''b'' \<mapsto> (1, False)]\<rparr>), vs_swarm = delivery_swarm,
     vs_out = [''b'' \<mapsto> ([1], 1, True)]\<rparr>"

definition delivery_2 :: delivery_system where
  "delivery_2 = \<lparr>vs_node = (delivery_db\<lparr>pending_deliveries := []\<rparr>, no_deliveries), vs_swarm = delivery_swarm, vs_out = Map.empty\<rparr>"

lemma delivery_reach1: "delivery_reachable plain_bt big_endian delivery_1"
proof -
  let ?s = "\<lparr>vs_node = (sample_db, no_deliveries), vs_swarm = delivery_swarm, vs_out = Map.empty\<rparr>"
  have r0: "delivery_reachable plain_bt big_endian ?s"
    unfolding no_deliveries_def by (rule delivery_reachable.start [OF sample_db_inv])
  obtain parts where q: "sn_queue_delivery plain_bt (vs_swarm ?s) 0 ''b'' ''first'' (vs_node ?s) =
      ((delivery_db, no_deliveries\<lparr>deliveries_in_flight := [''b'' \<mapsto> (1, False)]\<rparr>), [(''b'', [1], parts)])" and p: "length parts = 1"
    using delivery_member single_part
    by (simp add: sn_queue_delivery_def send_deliveries_def retry_later_def no_deliveries_def delivery_queued delivery_batch)
  from delivery_reachable.step [OF r0 delivery_step.queue [OF q]] show ?thesis by (simp add: delivery_1_def p)
qed

lemma delivery_step2: "delivery_step plain_bt big_endian (Delivery_Reply ''b'' True) delivery_1 delivery_2"
proof -
  have "next_delivery_batch 0 ''b'' DUMP_BATCH_BYTES (delivery_db\<lparr>pending_deliveries := []\<rparr>) = ([], [])"
    by (simp add: next_delivery_batch_def delivery_rows_def apply_deferred_def)
  then have r: "on_delivery_reply plain_bt (vs_swarm delivery_1) 0 ''b'' [1] True (vs_node delivery_1) = (vs_node delivery_2, [])"
    using delivery_member
    by (simp add: on_delivery_reply_def delivery_1_def delivery_2_def send_deliveries_def retry_later_def no_deliveries_def remove_deliveries_ids_def
        delivery_db_def recipient_of_def)
  have "vs_out delivery_1 ''b'' = Some ([1], Suc 0, True)" by (simp add: delivery_1_def)
  from delivery_step.reply [OF this r] show ?thesis by (simp add: delivery_1_def delivery_2_def)
qed


theorem replaced_delivery_lost_witness:
  "(''b'', ''new'') \<notin> delivery_set (fst (fst (on_delivery_reply plain_bt delivery_swarm 0 ''b'' [1] True
     (fst (store_message big_endian Disk_Ok outbox_newer (outbox_sample\<lparr>pending_recipients := [\<lparr>pr_id = 1, pr_pubkey = ''b''\<rparr>],
        pending_deliveries := [\<lparr>dl_recipient = 1, dl_message = 1\<rparr>]\<rparr>)), no_deliveries\<lparr>deliveries_in_flight := [''b'' \<mapsto> (1, False)]\<rparr>))))"
proof -
  let ?db = "outbox_sample\<lparr>pending_recipients := [\<lparr>pr_id = 1, pr_pubkey = ''b''\<rparr>], pending_deliveries := [\<lparr>dl_recipient = 1, dl_message = 1\<rparr>]\<rparr>"
  have inv: "db_inv big_endian ?db"
    by (simp add: db_inv_def db_ok_def tables_ok_def count_ok_def deferred_ok_def empty_database_def owners_ok_def
      messages_ok_def outbox_rows_def revoked_ok_def pending_ok_def retries_ok_def outbox_sample_def sample_db_def sample_row_def)
  have st: "so_result (snd (store_message big_endian Disk_Ok outbox_newer ?db)) = New" "so_id (snd (store_message big_endian Disk_Ok outbox_newer ?db)) = Some 1"
    by (simp_all add: store_message_def store_body_def get_or_insert_owner_def owner_id_of_def Let_def outbox_sample_def
      outbox_newer_def sample_message_def sample_row_def sample_db_def sample_pubkey_def find_hash_def insert_message_def
      outbox_conflict_def to_int_def outbox_sample_ns update_messages_def to_epoch_ms_nonneg)
  have old: "(sample_row 1 ''old'')\<lparr>m_namespace := - 1\<rparr> \<in> set (messages ?db)" by (simp add: outbox_sample_def)
  have "(''b'', ''old'') \<in> delivery_set ?db"
    by (simp add: delivery_set_def recipient_of_def outbox_sample_def sample_row_def)
  then show ?thesis
    using replaced_delivery_lost [OF inv prod.collapse [symmetric] st(1) old, where pk = "''b''" and ids = "[1]" and C = plain_bt and sw = delivery_swarm
        and now = 0 and dv = "no_deliveries\<lparr>deliveries_in_flight := [''b'' \<mapsto> (1, False)]\<rparr>"] st(2)
    by (simp add: sample_row_def outbox_newer_def)
qed

end
