(* ===== verification/Database.thy ===== *)
theory Database
  imports Dumps
begin

text \<open>
  The operations of \<open>class Database\<close> as one set, for what holds of the database whatever is done
  with it and in which order: the constraints of its tables, and that no operation but those of
  the dumps changes the dumps.
\<close>

section \<open>Operations\<close>

text \<open>
  The arguments are those of the methods; the clock readings, where a commit ends a piece of a
  bulk insertion, and where the disk is full are arguments too.
\<close>

datatype db_op =
    Op_Store disk message
  | Op_Bulk_Store "nat \<Rightarrow> bool" "message list"
  | Op_Delete_All user_pubkey
  | Op_Delete_All_In user_pubkey namespace_id
  | Op_Delete_By_Hash user_pubkey "string list"
  | Op_Delete_By_Timestamp user_pubkey time
  | Op_Delete_By_Timestamp_In user_pubkey namespace_id time
  | Op_Update_Expiry time user_pubkey "string list" "time list" bool bool
  | Op_Update_All_Expiries user_pubkey time
  | Op_Update_All_Expiries_In user_pubkey namespace_id time
  | Op_Revoke "nat \<Rightarrow> time" user_pubkey "subaccount_token list"
  | Op_Unrevoke user_pubkey "subaccount_token list"
  | Op_Commit_Deferred bool time
  | Op_Clean_Expired time
  | Op_Add_Retry time time legacy_pubkey string string int
  | Op_Ready_Retries time time "ready_retry \<Rightarrow> bool"
  | Op_Remove_Retry int
  | Op_Expire_Retries time
  | Op_Queue_Delivery legacy_pubkey string
  | Op_Remove_Deliveries_Ids legacy_pubkey "int list"
  | Op_Remove_Deliveries legacy_pubkey
  | Op_Clean_Recipients
  | Op_Current_Swarm u64
  | Op_Queue_Dump legacy_pubkey u64 int
  | Op_Update_Dump legacy_pubkey u64 int time
  | Op_Remove_Dump legacy_pubkey u64

text \<open>
  The orders in which SQLite sorts: expired messages by expiry, expired retries by age, revoked
  tokens by time; ties are in any order.
\<close>

record sql_orders =
  by_expiry :: "message_row list \<Rightarrow> message_row list"
  by_created :: "retry_request_row list \<Rightarrow> retry_request_row list"
  by_revocation :: "revoked_row list \<Rightarrow> revoked_row list"

text \<open>An exception leaves the database as it was, the transaction being rolled back.\<close>

fun run_op :: "(string \<Rightarrow> u64) \<Rightarrow> sql_orders \<Rightarrow> db_op \<Rightarrow> database \<Rightarrow> database" where
  "run_op lb S (Op_Store disk msg) db = fst (store_message lb disk msg db)"
| "run_op lb S (Op_Bulk_Store piece_end items) db = bulk_store lb piece_end items db"
| "run_op lb S (Op_Delete_All pk) db = fst (delete_all pk db)"
| "run_op lb S (Op_Delete_All_In pk ns) db = fst (delete_all_in pk ns db)"
| "run_op lb S (Op_Delete_By_Hash pk hashes) db = fst (delete_by_hash pk hashes db)"
| "run_op lb S (Op_Delete_By_Timestamp pk t) db = fst (delete_by_timestamp pk t db)"
| "run_op lb S (Op_Delete_By_Timestamp_In pk ns t) db = fst (delete_by_timestamp_in pk ns t db)"
| "run_op lb S (Op_Update_Expiry now pk hashes new_exp ext sho) db =
     (case update_expiry now pk hashes new_exp ext sho db of Inl e \<Rightarrow> db | Inr (db', _) \<Rightarrow> db')"
| "run_op lb S (Op_Update_All_Expiries pk e) db = fst (update_all_expiries pk e db)"
| "run_op lb S (Op_Update_All_Expiries_In pk ns e) db = fst (update_all_expiries_in pk ns e db)"
| "run_op lb S (Op_Revoke clock pk toks) db = revoke_subaccounts (by_revocation S) clock pk toks db"
| "run_op lb S (Op_Unrevoke pk toks) db = fst (unrevoke_subaccounts pk toks db)"
| "run_op lb S (Op_Commit_Deferred everything now) db = commit_deferred_expiries everything now db"
| "run_op lb S (Op_Clean_Expired now) db = (case clean_expired (by_expiry S) now db of Some db' \<Rightarrow> db' | None \<Rightarrow> db)"
| "run_op lb S (Op_Add_Retry created now key cmd payload i) db =
     (case add_retry_request created now key cmd payload i db of Inl e \<Rightarrow> db | Inr (db', _) \<Rightarrow> db')"
| "run_op lb S (Op_Ready_Retries sql_now now callback) db = fst (foreach_ready_retry_request sql_now now callback db)"
| "run_op lb S (Op_Remove_Retry i) db = remove_node_retry_request i db"
| "run_op lb S (Op_Expire_Retries now) db = (case remove_expired_retry_requests (by_created S) now db of Some db' \<Rightarrow> db' | None \<Rightarrow> db)"
| "run_op lb S (Op_Queue_Delivery pk hash) db = queue_delivery pk hash db"
| "run_op lb S (Op_Remove_Deliveries_Ids pk ids) db = remove_deliveries_ids pk ids db"
| "run_op lb S (Op_Remove_Deliveries pk) db = remove_deliveries pk db"
| "run_op lb S Op_Clean_Recipients db = clean_pending_recipients db"
| "run_op lb S (Op_Current_Swarm s) db = update_current_swarm s db"
| "run_op lb S (Op_Queue_Dump pk s e) db = queue_dump pk s e db"
| "run_op lb S (Op_Update_Dump pk s n t) db = update_dump pk s n t db"
| "run_op lb S (Op_Remove_Dump pk s) db = remove_dump pk s db"

definition orders_ok :: "sql_orders \<Rightarrow> bool" where
  "orders_ok S \<longleftrightarrow> sorts_by m_expiry (by_expiry S) \<and> sorts_by rq_created (by_created S)
     \<and> sorts_by (\<lambda>r. - rv_timestamp r) (by_revocation S)"

fun of_dumps :: "db_op \<Rightarrow> bool" where
  "of_dumps (Op_Queue_Dump _ _ _) = True"
| "of_dumps (Op_Update_Dump _ _ _ _) = True"
| "of_dumps (Op_Remove_Dump _ _) = True"
| "of_dumps _ = False"

section \<open>The constraints are kept\<close>

lemma commit_deferred_inv:
  assumes "db_inv lb db"
  shows "db_inv lb (commit_deferred_expiries everything now db)"
proof -
  obtain due q c where d: "due_entries everything now (deferred_queue db) (deferred db) = (due, q, c)" by (rule prod_cases3)
  have i: "tables_ok lb db" "count_ok db" "deferred_ok db" using assms by (simp_all add: db_inv_def db_ok_def)
  then have "distinct (map fst (deferred db))" by (simp add: deferred_ok_def)
  from commit_deferred_eq [OF this d] have "count_ok (commit_deferred_expiries everything now db)"
    using i(2) by (simp add: count_ok_def)
  then show ?thesis using commit_deferred_tables_ok [OF i(1)] commit_deferred_ok [OF i(3)] by (simp add: db_inv_def db_ok_def)
qed

lemma remove_expired_inv:
  assumes "db_inv lb db" and "sorts_by rq_created by"
  shows "\<exists>db'. remove_expired_retry_requests by now db = Some db' \<and> db_inv lb db'"
  using remove_expired_spec [OF assms] by blast

lemma run_op_inv:
  assumes S: "orders_ok S" and inv: "db_inv lb db"
  shows "db_inv lb (run_op lb S x db)"
proof (cases x)
  case (Op_Update_Expiry now pk hashes new_exp ext sho)
  then show ?thesis using update_expiry_inv [OF inv] inv by (auto split: sum.splits)
next
  case (Op_Revoke clock pk toks)
  then show ?thesis using revoke_inv [OF _ inv] S by (auto simp: orders_ok_def)
next
  case (Op_Clean_Expired now)
  then show ?thesis using clean_expired_spec [OF inv, of "by_expiry S" now] S by (auto simp: orders_ok_def)
next
  case (Op_Expire_Retries now)
  then show ?thesis using remove_expired_inv [OF inv, of "by_created S" now] S by (auto simp: orders_ok_def)
next
  case (Op_Add_Retry created now key cmd payload i)
  then show ?thesis using add_retry_inv [OF inv] inv by (auto split: sum.splits)
next
  case (Op_Ready_Retries sql_now now callback)
  then show ?thesis using foreach_inv [OF inv prod.collapse [symmetric]] by simp
qed (use inv in \<open>auto intro: inv_intros dump_ops_inv remove_node_inv current_swarm_inv commit_deferred_inv deletes_inv update_all_inv\<close>)


section \<open>The dumps are left alone\<close>

text \<open>What the dumps of a database are read from.\<close>

definition dump_tables :: "database \<Rightarrow> recipient_row list \<times> dump_row list" where
  "dump_tables db = (pending_recipients db, pending_dumps db)"

lemma dump_map_tables: "dump_tables db' = dump_tables db \<Longrightarrow> dump_map db' = dump_map db"
  by (auto simp: dump_tables_def dump_map_def recipient_of_def dump_row_of_def fun_eq_iff split: option.splits)

named_theorems dump_frames
  \<open>operations that do not touch the tables of the dumps\<close>

lemma dump_tables_updates [dump_frames]:
  "dump_tables (update_messages P f db) = dump_tables db" "dump_tables (append_message r db) = dump_tables db"
  "dump_tables (forget_deferred h db) = dump_tables db" "dump_tables (delete_message m db) = dump_tables db"
  "dump_tables (fst (get_or_insert_owner lb pk db)) = dump_tables db" "dump_tables (store_full db) = dump_tables db"
  "dump_tables (db\<lparr>message_count := n\<rparr>) = dump_tables db" "dump_tables (db\<lparr>deferred := c\<rparr>) = dump_tables db"
  "dump_tables (db\<lparr>deferred_queue := q\<rparr>) = dump_tables db" "dump_tables (db\<lparr>revoked_subaccounts := v\<rparr>) = dump_tables db"
  "dump_tables (update_current_swarm s db) = dump_tables db" "dump_tables (db\<lparr>pending_deliveries := dl\<rparr>) = dump_tables db"
  by (auto simp: dump_tables_def update_messages_def append_message_def forget_deferred_def delete_message_def delete_owner_def
      get_or_insert_owner_def insert_owner_def store_full_def update_current_swarm_def Let_def split: option.splits)

lemma dump_tables_fold: "(\<And>x db. dump_tables (f x db) = dump_tables db) \<Longrightarrow> dump_tables (fold f xs db) = dump_tables db"
  by (induction xs arbitrary: db) auto

lemma dump_tables_retries: "retries_only db db' \<Longrightarrow> dump_tables db' = dump_tables db"
  by (auto simp: retries_only_def dump_tables_def)

lemma store_dump_tables [dump_frames]:
  "dump_tables (fst (insert_message owner msg db)) = dump_tables db"
  "dump_tables (fst (store_message lb disk msg db)) = dump_tables db"
  "dump_tables (bulk_store lb piece_end items db) = dump_tables db"
proof -
  show i: "dump_tables (fst (insert_message owner msg db)) = dump_tables db" for owner msg db
    by (auto simp: insert_message_def Let_def dump_frames split: option.splits)
  have g: "dump_tables db1 = dump_tables db" if "get_or_insert_owner lb pk db = (db1, i)" for pk db db1 i
    using dump_tables_updates(5) [of lb pk db] that by simp
  have m: "dump_tables db1 = dump_tables db" if "insert_message owner msg db = (db1, x)" for owner msg db db1 x
    using i [of owner msg db] that by simp
  have body: "dump_tables db' = dump_tables db" if b: "store_body lb msg db = (Some (db', added), out)" for db' added out
  proof -
    obtain db1 i where o: "get_or_insert_owner lb (msg_pubkey msg) db = (db1, i)" by (rule prod.exhaust)
    obtain db2 x where n: "insert_message i msg db1 = (db2, x)" by (rule prod.exhaust)
    show ?thesis
      using b g [OF o] m [OF n] unfolding store_body_def o Let_def prod.case n
      by (cases "find_hash db1 (msg_hash msg)") (auto simp: dump_tables_updates split: option.splits if_splits)
  qed
  obtain y out where y: "store_body lb msg db = (y, out)" by (rule prod.exhaust)
  show "dump_tables (fst (store_message lb disk msg db)) = dump_tables db"
    using body [of _ _ out] y by (cases y) (auto simp: store_message_def dump_tables_updates)
  have b: "dump_tables (fst (bulk_insert owner msg db)) = dump_tables db" for owner msg db
    by (auto simp: bulk_insert_def dump_frames dest!: m split: prod.splits option.splits)
  have "dump_tables (bulk_item lb m db) = dump_tables db" for m db
    using b by (auto simp: bulk_item_def Let_def dump_frames dest!: g split: prod.splits) (metis fst_conv)
  then show "dump_tables (bulk_store lb piece_end items db) = dump_tables db"
    unfolding bulk_store_eq by (rule dump_tables_fold)
qed

lemma delete_dump_tables [dump_frames]:
  "dump_tables (fst (delete_messages P db)) = dump_tables db"
  "dump_tables (fst (delete_and_forget P db)) = dump_tables db"
  "dump_tables (fst (delete_by_hash pk hashes db)) = dump_tables db"
proof -
  show d: "dump_tables (fst (delete_messages P db)) = dump_tables db" for P db
    by (auto simp: delete_messages_def Let_def dump_frames intro: dump_tables_fold)
  have f: "dump_tables (forget_deferred_all hs db) = dump_tables db" for hs db
    by (auto simp: forget_deferred_all_def dump_frames intro: dump_tables_fold)
  show "dump_tables (fst (delete_and_forget P db)) = dump_tables db"
    using d [of P db] by (auto simp: delete_and_forget_def Let_def f dump_frames split: prod.splits)
  have l: "dump_tables (fst (delete_hash_loop owner hs db)) = dump_tables db" for owner hs db
  proof (induction hs arbitrary: db)
    case (Cons h hs)
    obtain db1 gone where "delete_messages (\<lambda>r. m_hash r = h \<and> m_owner r = owner) db = (db1, gone)" by (rule prod.exhaust)
    then show ?case using Cons.IH [of db1] d [of "\<lambda>r. m_hash r = h \<and> m_owner r = owner" db] by (auto split: prod.splits)
  qed simp
  show "dump_tables (fst (delete_by_hash pk hashes db)) = dump_tables db"
    using l [of _ hashes db] by (auto simp: delete_by_hash_def Let_def f dump_frames split: prod.splits option.splits) (metis fst_conv)
qed

lemma delete_in_chunks_keeps:
  assumes r: "delete_in_chunks stmt db n = Some r" and keep: "\<And>db. view (fst (stmt db)) = view db"
  shows "view (fst r) = view db"
proof -
  have "(\<forall>db. view (fst (stmt db)) = view db) \<longrightarrow> view (fst r) = view db"
  proof (rule delete_in_chunks.raw_induct [OF _ r])
    fix rec stmt db n r
    assume ih: "\<And>stmt db n r. rec stmt db n = Some r \<Longrightarrow> (\<forall>db. view (fst (stmt db)) = view db) \<longrightarrow> view (fst r) = view db"
      and body: "(let (db', deleted) = stmt db in if deleted = EXPIRY_DELETE_CHUNK then rec stmt db' (n + deleted)
            else Some (db', n + deleted)) = Some r"
    obtain db1 k where st: "stmt db = (db1, k)" by (rule prod.exhaust)
    then have "(\<forall>db. view (fst (stmt db)) = view db) \<longrightarrow> view db1 = view db" by (metis fst_conv)
    then show "(\<forall>db. view (fst (stmt db)) = view db) \<longrightarrow> view (fst r) = view db"
      using body ih [of stmt db1 "n + k" r] st by (auto split: if_splits)
  qed
  then show ?thesis using keep by blast
qed

lemma chunk_dump_tables [dump_frames]:
  "clean_expired by now db = Some db' \<Longrightarrow> dump_tables db' = dump_tables db"
  "remove_expired_retry_requests by' now db = Some db' \<Longrightarrow> dump_tables db' = dump_tables db"
proof -
  have "dump_tables (fst (clean_statement by c db)) = dump_tables db" for c db
    using delete_dump_tables(1) by (auto simp: clean_statement_def Let_def split: prod.splits) (metis fst_conv)
  from delete_in_chunks_keeps [where view = dump_tables, OF _ this] show "clean_expired by now db = Some db' \<Longrightarrow> dump_tables db' = dump_tables db"
    by (fastforce simp: clean_expired_def dump_frames)
  have "dump_tables (fst (expire_statement by' c db)) = dump_tables db" for c db
    by (auto simp: expire_statement_def Let_def intro!: dump_tables_retries fold_only delete_request_only)
  from delete_in_chunks_keeps [where view = dump_tables, OF _ this] show "remove_expired_retry_requests by' now db = Some db' \<Longrightarrow> dump_tables db' = dump_tables db"
    by (fastforce simp: remove_expired_retry_requests_def)
qed

lemma expiry_dump_tables [dump_frames]:
  "dump_tables (write_deferred es db) = dump_tables db"
  "dump_tables (commit_deferred_expiries everything now db) = dump_tables db"
  "dump_tables (fst (update_all_expiries pk e db)) = dump_tables db"
  "dump_tables (fst (update_all_expiries_in pk ns e db)) = dump_tables db"
proof -
  show w: "dump_tables (write_deferred es db) = dump_tables db" for es db
    unfolding write_deferred_def by (rule dump_tables_fold) (auto simp: write_entry_def dump_tables_updates)
  show "dump_tables (commit_deferred_expiries everything now db) = dump_tables db"
    by (auto simp: commit_deferred_expiries_def Let_def w dump_tables_updates split: prod.splits)
  have "dump_tables (fst (shorten_expiries n P db)) = dump_tables db" for n P db
    by (simp add: shorten_expiries_def Let_def dump_tables_updates)
  then show "dump_tables (fst (update_all_expiries pk e db)) = dump_tables db"
    "dump_tables (fst (update_all_expiries_in pk ns e db)) = dump_tables db"
    by (auto simp: update_all_expiries_def update_all_expiries_in_def take_deferred_def case_prod_unfold Let_def w dump_tables_updates
        split: option.splits)
qed

lemma update_expiry_dump_tables:
  assumes "update_expiry now pk hashes new_exp ext sho db = Inr (db', res)"
  shows "dump_tables db' = dump_tables db"
proof -
  have one: "dump_tables (xs_db (update_expiry_one now o' ext sho x st)) = dump_tables (xs_db st)" for o' x st
    by (cases x) (simp add: update_expiry_one_def Let_def dump_tables_updates split: option.split)
  have loop: "dump_tables (xs_db (update_expiry_loop now o' ext sho dd items st)) = dump_tables (xs_db st)" for o' dd items st
  proof (induction items arbitrary: st)
    case (Cons x items)
    then show ?case by (cases x) (auto simp: one)
  qed simp
  have pending: "dump_tables (fold (apply_pending now o') xs db) = dump_tables db" for o' xs db
    by (rule dump_tables_fold) (auto simp: apply_pending_def Let_def dump_tables_updates split: option.splits prod.splits)
  show ?thesis using assms by (auto simp: update_expiry_def Let_def pending loop split: if_splits option.splits)
qed

lemma revoke_dump_tables [dump_frames]:
  "dump_tables (revoke_subaccounts newest clock pk toks db) = dump_tables db"
  "dump_tables (fst (unrevoke_subaccounts pk toks db)) = dump_tables db"
proof -
  have i: "dump_tables (insert_revoked newest now o' t db) = dump_tables db" for now o' t db
    by (auto simp: insert_revoked_def revoked_autoclean_def Let_def dump_tables_updates split: option.splits)
  have f: "dump_tables (fold (\<lambda>(i, t). insert_revoked newest (clock i) o' t) xs db) = dump_tables db" for o' xs db
    by (rule dump_tables_fold) (auto simp: i)
  show "dump_tables (revoke_subaccounts newest clock pk toks db) = dump_tables db"
    by (auto simp: revoke_subaccounts_def i f split: list.splits option.splits simp del: enumerate_simps)
  show "dump_tables (fst (unrevoke_subaccounts pk toks db)) = dump_tables db"
    by (simp add: unrevoke_subaccounts_def Let_def dump_tables_updates)
qed

lemma retry_dump_map:
  assumes "db_inv lb db" and "add_retry_request created now key cmd payload i db = Inr (db', j)"
  shows "dump_tables db' = dump_tables db"
  using assms(2) add_new_spec [OF db_inv_retries [OF assms(1)], of created now key cmd payload]
    add_more_spec [OF db_inv_retries [OF assms(1)] _ assms(2)]
  by (cases "i = 0") (auto intro: dump_tables_retries)

lemma schedule_dump_tables: "dump_tables (schedule_retry x db) = dump_tables db"
  by (cases x) (simp add: schedule_retry_def dump_tables_def)

lemma foreach_dump_tables [dump_frames]: "dump_tables (fst (foreach_ready_retry_request sql_now now callback db)) = dump_tables db"
  by (auto simp: foreach_ready_retry_request_def Let_def schedule_dump_tables intro: dump_tables_fold)

lemma remove_retry_dump_tables [dump_frames]: "dump_tables (remove_node_retry_request i db) = dump_tables db"
  unfolding remove_node_retry_request_def by (intro dump_tables_retries fold_only delete_node_only)

lemma run_op_dumps:
  assumes inv: "db_inv lb db" and x: "\<not> of_dumps x"
  shows "dump_map (run_op lb S x db) = dump_map db"
proof (cases x)
  case (Op_Update_Expiry now pk hashes new_exp ext sho)
  then show ?thesis using update_expiry_dump_tables by (auto intro: dump_map_tables split: sum.splits)
next
  case (Op_Clean_Expired now)
  then show ?thesis by (auto intro!: dump_map_tables chunk_dump_tables(1) split: option.splits)
next
  case (Op_Expire_Retries now)
  then show ?thesis by (auto intro!: dump_map_tables chunk_dump_tables(2) split: option.splits)
next
  case (Op_Add_Retry created now key cmd payload i)
  then show ?thesis using retry_dump_map [OF inv] by (auto intro: dump_map_tables split: sum.splits)
next
  case (Op_Delete_All pk)
  then show ?thesis by (auto simp: delete_all_def case_prod_unfold Let_def dump_frames intro!: dump_map_tables)
next
  case (Op_Delete_All_In pk ns)
  then show ?thesis by (auto simp: delete_all_in_def case_prod_unfold Let_def dump_frames intro!: dump_map_tables)
next
  case (Op_Delete_By_Timestamp pk t)
  then show ?thesis by (auto simp: delete_by_timestamp_def case_prod_unfold Let_def dump_frames intro!: dump_map_tables)
next
  case (Op_Delete_By_Timestamp_In pk ns t)
  then show ?thesis by (auto simp: delete_by_timestamp_in_def case_prod_unfold Let_def dump_frames intro!: dump_map_tables)
next
  case (Op_Queue_Delivery pk hash)
  then show ?thesis using queue_delivery_spec [OF db_inv_pending [OF inv] db_inv_messages [OF inv]] by simp
next
  case (Op_Remove_Deliveries_Ids pk ids)
  then show ?thesis using remove_ids_spec(4) [OF db_inv_pending [OF inv] db_inv_messages [OF inv]] by simp
next
  case (Op_Remove_Deliveries pk)
  then show ?thesis using remove_deliveries_spec(4) [OF db_inv_pending [OF inv]] by simp
next
  case Op_Clean_Recipients
  then show ?thesis using clean_recipients_spec(3) [OF db_inv_pending [OF inv]] by simp
qed (use x in \<open>auto simp: dump_frames intro!: dump_map_tables\<close>)

section \<open>The invariant of the database\<close>

interpretation database_comp: invariant_component "\<lambda>db. db = empty_database" "run_op lb S" "\<lambda>db. orders_ok S \<longrightarrow> db_inv lb db"
  for lb S
  by unfold_locales (auto intro: db_inv_empty run_op_inv)

definition stable_orders :: sql_orders where
  "stable_orders = \<lparr>by_expiry = sort_key m_expiry, by_created = sort_key rq_created, by_revocation = sort_key (\<lambda>r. - rv_timestamp r)\<rparr>"

lemma stable_orders_ok: "orders_ok stable_orders"
  by (simp add: orders_ok_def stable_orders_def sorts_by_sort_key)

text \<open>
  C8: Whatever operations are run on a new database, and in whatever order: message hashes and
  ids are unique, every message has an account, an outbox has at most one message, an account is
  listed once and with its position in swarm space, the message count in memory is that of the
  table, an account has at most fifty revoked tokens, and every delivery refers to a message and
  a recipient that are there.
\<close>

theorem database_constraints:
  assumes "orders_ok S" and "db = fold (run_op lb S) ops empty_database"
  shows "distinct (map m_hash (messages db)) \<and> sorted_wrt (<) (map m_id (messages db))
     \<and> (\<forall>r \<in> set (messages db). \<exists>!w. w \<in> set (owners db) \<and> o_id w = m_owner r)
     \<and> distinct (map (\<lambda>r. (m_owner r, m_namespace r)) (outbox_rows (messages db)))
     \<and> distinct (map (\<lambda>w. (o_pubkey w, o_type w)) (owners db))
     \<and> (\<forall>w \<in> set (owners db). o_hi w = swarm_space_hi lb (o_pubkey w) \<and> o_lo w = swarm_space_lo lb (o_pubkey w))
     \<and> message_count db = int (length (messages db))
     \<and> (\<forall>i. length (filter (\<lambda>r. rv_owner r = Some i) (revoked_subaccounts db)) \<le> 50)
     \<and> (\<forall>d \<in> set (pending_deliveries db). dl_recipient d \<in> pr_id ` set (pending_recipients db) \<and> dl_message d \<in> m_id ` set (messages db))"
proof -
  have inv: "db_inv lb db" using database_comp.reached_invar [of empty_database S lb ops] assms by blast
  then have t: "owners_ok lb (owners db)" "messages_ok (owners db) (messages db)" "revoked_ok (owners db) (revoked_subaccounts db)"
      "pending_ok (messages db) (pending_recipients db) (pending_dumps db) (pending_deliveries db)" "count_ok db"
    by (simp_all add: db_inv_def db_ok_def tables_ok_def)
  have "distinct (map o_id (owners db))" using t(1) by (simp add: owners_ok_def strict_sorted_iff)
  then have u: "w = w'" if "w \<in> set (owners db)" "w' \<in> set (owners db)" "o_id w = o_id w'" for w w'
    using that by (simp add: distinct_map inj_on_def)
  have "\<exists>!w. w \<in> set (owners db) \<and> o_id w = m_owner r" if "r \<in> set (messages db)" for r
    using t(2) that u unfolding messages_ok_def by (metis (no_types, lifting) imageE)
  then show ?thesis using t by (simp add: owners_ok_def messages_ok_def revoked_ok_def pending_ok_def count_ok_def MAX_SUBACCOUNT_TOKENS_def)
qed

theorem database_constraints_witness:
  "distinct (map m_hash (messages (run_op big_endian stable_orders (Op_Store Disk_Ok sample_message) empty_database)))"
  using database_constraints [OF stable_orders_ok refl, of big_endian "[Op_Store Disk_Ok sample_message]"] by simp

end
