(* ===== verification/Service_Node.thy ===== *)
theory Service_Node
  imports Deliveries Database
begin

text \<open>
  The service node (\<open>oxenss/snode/service_node.h\<close>, \<open>service_node.cpp\<close>): its state, the updates
  it gets from oxend and the bootstrap nodes, the handshakes with new members of the swarm, and
  the entry points through which messages are stored. Every operation gives the new state and
  what it sends, in order.
\<close>

section \<open>State\<close>

type_synonym hf_revision = "int \<times> int"

definition STORAGE_SERVER_HARDFORK :: hf_revision where "STORAGE_SERVER_HARDFORK = (19, 6)"

type_synonym ss_version = "16 word \<times> 16 word \<times> 16 word"

definition NEW_SWARM_MEMBER_HANDSHAKE_VERSION :: ss_version where
  "NEW_SWARM_MEMBER_HANDSHAKE_VERSION = (2, 10, 0)"

datatype SnodeStatus = UNKNOWN | UNSTAKED | DECOMMISSIONED | ACTIVE

text \<open>
  The members that operations change. The database, the network and our keys are those of the
  swarm; its heights are 64 bit numbers.
\<close>

record service_node =
  syncing :: bool
  active :: bool
  got_first_response :: bool
  force_start :: bool
  skip_bootstrap :: bool
  shutting_down :: bool
  updating_swarms :: bool
  hardfork :: hf_revision
  block_height :: u64
  target_height :: u64
  block_hash :: string
  sn_status :: SnodeStatus
  sn_swarm :: swarm_state
  sn_windows :: "dump_key \<rightharpoonup> dump_window"
  sn_generation :: nat
  sn_deliveries :: delivery_state

abbreviation sn_db :: "service_node \<Rightarrow> database" where
  "sn_db sn \<equiv> sw_db (sn_swarm sn)"

abbreviation sn_network :: "service_node \<Rightarrow> network_state" where
  "sn_network sn \<equiv> sw_network (sn_swarm sn)"

definition set_db :: "database \<Rightarrow> service_node \<Rightarrow> service_node" where
  "set_db db sn = sn\<lparr>sn_swarm := (sn_swarm sn)\<lparr>sw_db := db\<rparr>\<rparr>"

text \<open>The part of the state that the dumps work on, and an operation of theirs.\<close>

definition node_dumps :: "service_node \<Rightarrow> dump_state" where
  "node_dumps sn = \<lparr>dn_db = sn_db sn, dump_windows = sn_windows sn, dump_generation = sn_generation sn\<rparr>"

definition set_dumps :: "dump_state \<Rightarrow> service_node \<Rightarrow> service_node" where
  "set_dumps d sn = (set_db (dn_db d) sn)\<lparr>sn_windows := dump_windows d, sn_generation := dump_generation d\<rparr>"

lemma set_dumps_simps [simp]:
  "node_dumps (set_dumps d sn) = d" "sn_network (set_dumps d sn) = sn_network sn" "sn_db (set_dumps d sn) = dn_db d"
  "our_pk (sn_swarm (set_dumps d sn)) = our_pk (sn_swarm sn)"
  by (simp_all add: node_dumps_def set_dumps_def set_db_def)

lemma set_db_simps [simp]:
  "sn_network (set_db db sn) = sn_network sn" "sn_db (set_db db sn) = db" "sn_windows (set_db db sn) = sn_windows sn"
  "sn_generation (set_db db sn) = sn_generation sn" "our_pk (sn_swarm (set_db db sn)) = our_pk (sn_swarm sn)"
  by (simp_all add: set_db_def)

datatype sn_output =
    Data_Ready legacy_pubkey bool
  | Queued_Dump dump_key "(dump_key \<times> nat \<times> dump_read list) list"
  | Dump_Batches "(dump_key \<times> nat \<times> dump_read list) list"
  | Deliver "sent_delivery list"
  | Retry ready_retry
  | Notify message int
  | Drop_Foreign_Monitors
  | Get_Service_Nodes "string option"
  | Ask_Bootstrap_Nodes

definition initial_node :: "bool \<Rightarrow> bool \<Rightarrow> legacy_pubkey \<Rightarrow> network_state \<Rightarrow> database \<Rightarrow> service_node" where
  "initial_node force skip pk nw db =
     \<lparr>syncing = True, active = False, got_first_response = False, force_start = force, skip_bootstrap = skip,
      shutting_down = False, updating_swarms = False, hardfork = (0, 0), block_height = 0, target_height = 0,
      block_hash = [], sn_status = UNKNOWN, sn_swarm = initial_swarm pk (get_current_swarm db) nw db,
      sn_windows = Map.empty, sn_generation = 0,
      sn_deliveries = \<lparr>deliveries_in_flight = Map.empty, delivery_retry_after = Map.empty\<rparr>\<rparr>"

section \<open>Readiness\<close>

definition hf_at_least :: "service_node \<Rightarrow> hf_revision \<Rightarrow> bool" where
  "hf_at_least sn v \<longleftrightarrow> fst (hardfork sn) > fst v \<or> fst (hardfork sn) = fst v \<and> snd (hardfork sn) \<ge> snd v"

fun join_strings :: "string \<Rightarrow> string list \<Rightarrow> string" where
  "join_strings sep [] = []"
| "join_strings sep [s] = s"
| "join_strings sep (s # ss) = s @ sep @ join_strings sep ss"

definition snode_problems :: "service_node \<Rightarrow> string list" where
  "snode_problems sn =
     (if hf_at_least sn STORAGE_SERVER_HARDFORK then []
      else [''not yet on hardfork '' @ to_chars (fst STORAGE_SERVER_HARDFORK) @ ''.'' @ to_chars (snd STORAGE_SERVER_HARDFORK)])
     @ (if syncing sn then [''not done syncing''] else [])"

text \<open>The answer and what is put in \<open>reason\<close>, if anything.\<close>

definition snode_ready :: "service_node \<Rightarrow> bool \<times> string option" where
  "snode_ready sn =
     (if shutting_down sn then (False, Some ''shutting down'')
      else let problems = snode_problems sn
           in (problems = [] \<or> force_start sn, if problems = [] then None else Some (join_strings ''; '' problems)))"

definition node_shutdown :: "service_node \<Rightarrow> service_node" where
  "node_shutdown sn = sn\<lparr>shutting_down := True\<rparr>"

text \<open>The timer that ends the wait for the chain, an hour after the start.\<close>

definition sync_timeout :: "service_node \<Rightarrow> service_node" where
  "sync_timeout sn = (if syncing sn then sn\<lparr>syncing := False\<rparr> else sn)"

section \<open>Dumps, deliveries and retries of the node\<close>

definition node_queue_dump ::
    "bt_codec \<Rightarrow> time \<Rightarrow> legacy_pubkey \<Rightarrow> swarm_id_t \<Rightarrow> service_node \<Rightarrow> service_node \<times> sn_output list" where
  "node_queue_dump C now pk swarm sn =
     (let (d, out) = sn_queue_dump C (sn_network sn) now pk swarm (node_dumps sn)
      in (set_dumps d sn, [Queued_Dump (pk, swarm) out]))"

definition queue_swarm_dump ::
    "bt_codec \<Rightarrow> time \<Rightarrow> legacy_pubkey \<Rightarrow> service_node \<Rightarrow> service_node \<times> sn_output list" where
  "queue_swarm_dump C now pk sn =
     (let swarm = our_swarm_id (sn_swarm sn) in if swarm = INVALID_SWARM_ID then (sn, []) else node_queue_dump C now pk swarm sn)"

definition node_dump_reply ::
    "bt_codec \<Rightarrow> time \<Rightarrow> dump_key \<Rightarrow> int \<Rightarrow> nat \<Rightarrow> bool \<Rightarrow> service_node \<Rightarrow> service_node \<times> sn_output list" where
  "node_dump_reply C now key last_id generation ok sn =
     (let (d, reads) = on_dump_batch_reply C (sn_network sn) now key last_id generation ok (node_dumps sn)
      in (set_dumps d sn, [Dump_Batches [(key, generation, reads)]]))"

definition set_deliveries :: "delivery_node \<Rightarrow> service_node \<Rightarrow> service_node" where
  "set_deliveries = (\<lambda>(db, dv) sn. (set_db db sn)\<lparr>sn_deliveries := dv\<rparr>)"

definition node_queue_delivery ::
    "bt_codec \<Rightarrow> time \<Rightarrow> legacy_pubkey \<Rightarrow> string \<Rightarrow> service_node \<Rightarrow> service_node \<times> sn_output list" where
  "node_queue_delivery C now pk hash sn =
     (let (n, out) = sn_queue_delivery C (sn_swarm sn) now pk hash (sn_db sn, sn_deliveries sn)
      in (set_deliveries n sn, [Deliver out]))"

definition node_delivery_reply ::
    "bt_codec \<Rightarrow> time \<Rightarrow> legacy_pubkey \<Rightarrow> int list \<Rightarrow> bool \<Rightarrow> service_node \<Rightarrow> service_node \<times> sn_output list" where
  "node_delivery_reply C now pk ids ok sn =
     (let (n, out) = on_delivery_reply C (sn_swarm sn) now pk ids ok (sn_db sn, sn_deliveries sn)
      in (set_deliveries n sn, [Deliver out]))"

definition node_check_dumps :: "bt_codec \<Rightarrow> time \<Rightarrow> service_node \<Rightarrow> service_node \<times> sn_output list" where
  "node_check_dumps C now sn =
     (let ((d, dv), reads, out) = check_dumps C (sn_swarm sn) now (node_dumps sn, sn_deliveries sn)
      in ((set_dumps d sn)\<lparr>sn_deliveries := dv\<rparr>, [Dump_Batches reads, Deliver out]))"

text \<open>
  The retry timer. The callback of a request removes it when its node has left the swarm, and
  sends it when the node can be contacted; the times of the next attempts are written after the
  last callback.
\<close>

definition forget_retry :: "swarm_state \<Rightarrow> ready_retry \<Rightarrow> database \<Rightarrow> database" where
  "forget_retry sw r db = (if is_member sw (rd_key r) = None then remove_node_retry_request (rd_id r) db else db)"

definition sends_retry :: "swarm_state \<Rightarrow> ready_retry \<Rightarrow> bool" where
  "sends_retry sw r \<longleftrightarrow> is_member sw (rd_key r) \<noteq> None \<and> \<not> not_contactable (sw_network sw) (rd_key r)"

definition check_retry_requests ::
    "sql_orders \<Rightarrow> time \<Rightarrow> service_node \<Rightarrow> (service_node \<times> sn_output list) option" where
  "check_retry_requests S now sn =
     (case remove_expired_retry_requests (by_created S) now (sn_db sn) of
        None \<Rightarrow> None
      | Some db \<Rightarrow>
          (let sw = sn_swarm sn; ready = ready_retries now db;
               db' = fold (forget_retry sw) ready db;
               db'' = fold schedule_retry (retry_updates now (sends_retry sw) ready) db'
           in Some (set_db db'' sn, map Retry (filter (sends_retry sw) ready))))"

text \<open>
  What an answer to a forwarded request means, and what follows for a retried one. The text
  that says that too much is queued for the peer is the argument \<open>stream_full\<close>.
\<close>

datatype SNStorageCCResult = CC_Good | CC_Timeout | CC_StreamFull | CC_ErrorCodeReason string string | CC_BadPeerResponse

definition interpret_sn_storage_cc_response_parts :: "string \<Rightarrow> bool \<Rightarrow> string list \<Rightarrow> SNStorageCCResult" where
  "interpret_sn_storage_cc_response_parts stream_full success parts =
     (if success \<and> length parts = 1 then CC_Good
      else if \<not> success then (if parts = [stream_full] then CC_StreamFull else CC_Timeout)
      else if length parts = 2 then CC_ErrorCodeReason (parts ! 0) (parts ! 1)
      else CC_BadPeerResponse)"

definition retryable :: "SNStorageCCResult \<Rightarrow> bool" where
  "retryable r \<longleftrightarrow> r = CC_Timeout \<or> r = CC_StreamFull"

definition on_request_done :: "string \<Rightarrow> int \<Rightarrow> bool \<Rightarrow> string list \<Rightarrow> service_node \<Rightarrow> service_node" where
  "on_request_done stream_full req_id success parts sn =
     (if retryable (interpret_sn_storage_cc_response_parts stream_full success parts) then sn
      else set_db (remove_node_retry_request req_id (sn_db sn)) sn)"

section \<open>Handshakes with new members\<close>

definition handshake_version :: "ss_version \<Rightarrow> u32" where
  "handshake_version = (\<lambda>(major, minor, patch). ucast major * 10000 + ucast minor * 100 + ucast patch)"

definition format_handshake_version :: "u32 \<Rightarrow> string" where
  "format_handshake_version v =
     nat_chars (unat (v div 10000)) @ ''.'' @ nat_chars (unat (v div 100 mod 100)) @ ''.'' @ nat_chars (unat (v mod 100))"

definition version_less :: "ss_version \<Rightarrow> ss_version \<Rightarrow> bool" where
  "version_less = (\<lambda>(a, b, c) (x, y, z). a < x \<or> a = x \<and> (b < y \<or> b = y \<and> c < z))"

definition modify_member :: "legacy_pubkey \<Rightarrow> (SwarmMemberState \<Rightarrow> SwarmMemberState) \<Rightarrow> swarm_state \<Rightarrow> swarm_state" where
  "modify_member pk f sw = sw\<lparr>sw_members := map (\<lambda>(k, s). (k, if k = pk then f s else s)) (sw_members sw)\<rparr>"

definition underway :: "SwarmMemberState \<Rightarrow> SwarmMemberState" where
  "underway s = (if our_ss_requested_db_dump s = NeedsToRequest then s\<lparr>our_ss_requested_db_dump := RequestUnderway\<rparr> else s)"

definition contact_member :: "legacy_pubkey \<Rightarrow> swarm_state \<Rightarrow> swarm_state \<times> sn_output list" where
  "contact_member pk sw =
     (case find_contact (nw_contacts (sw_network sw)) pk of
        None \<Rightarrow> (sw, [])
      | Some c \<Rightarrow>
          if \<not> contactable c then (sw, [])
          else if version_less (contact.version c) NEW_SWARM_MEMBER_HANDSHAKE_VERSION
          then (modify_member pk (\<lambda>s. s\<lparr>status := Ready\<rparr>) sw, [])
          else let needs_db_dump = (case is_member sw pk of Some s \<Rightarrow> our_ss_requested_db_dump s = NeedsToRequest | None \<Rightarrow> False)
               in (modify_member pk underway sw, [Data_Ready pk needs_db_dump]))"

fun contact_members :: "legacy_pubkey list \<Rightarrow> swarm_state \<Rightarrow> swarm_state \<times> sn_output list" where
  "contact_members [] sw = (sw, [])"
| "contact_members (pk # pks) sw =
     (let (sw, out) = contact_member pk sw; (sw, out') = contact_members pks sw in (sw, out @ out'))"

definition check_new_members :: "time \<Rightarrow> service_node \<Rightarrow> service_node \<times> sn_output list" where
  "check_new_members now sn =
     (let (sw, pks) = extract_contact_pending_members now (sn_swarm sn); (sw, out) = contact_members pks sw
      in (sn\<lparr>sn_swarm := sw\<rparr>, out))"

definition handshake_ok :: "bool \<Rightarrow> string list \<Rightarrow> bool" where
  "handshake_ok success dat \<longleftrightarrow> success \<and> dat \<noteq> [] \<and> hd dat = ''OK''"

definition answered :: "bool \<Rightarrow> SwarmMemberState \<Rightarrow> SwarmMemberState" where
  "answered success s =
     (let s = (if our_ss_requested_db_dump s = RequestUnderway
               then s\<lparr>our_ss_requested_db_dump := (if success then Nil_Dump else NeedsToRequest)\<rparr> else s)
      in if success then s\<lparr>status := Ready, joined_our_swarm := False\<rparr> else s)"

definition on_sn_data_ready_response ::
    "bt_codec \<Rightarrow> time \<Rightarrow> legacy_pubkey \<Rightarrow> bool \<Rightarrow> string list \<Rightarrow> service_node \<Rightarrow> service_node \<times> sn_output list" where
  "on_sn_data_ready_response C now pk success dat sn =
     (let success = handshake_ok success dat; legacy = (success \<and> length dat < 2);
          push = (case is_member (sn_swarm sn) pk of Some s \<Rightarrow> success \<and> joined_our_swarm s \<and> legacy | None \<Rightarrow> False);
          sn = sn\<lparr>sn_swarm := modify_member pk (answered success) (sn_swarm sn)\<rparr>
      in if push then queue_swarm_dump C now pk sn else (sn, []))"

text \<open>
  The other side. \<open>read_payload\<close> reads the version and the flag, \<open>version_info\<close> writes the version.
\<close>

definition data_ready_handshake ::
    "bt_codec \<Rightarrow> (string \<Rightarrow> (u32 \<times> bool) option) \<Rightarrow> (u32 \<Rightarrow> string) \<Rightarrow> ss_version \<Rightarrow> time \<Rightarrow> legacy_pubkey \<Rightarrow> string \<Rightarrow>
     service_node \<Rightarrow> service_node \<times> sn_output list \<times> string list" where
  "data_ready_handshake C read_payload version_info our_version now pk payload sn =
     (if is_member (sn_swarm sn) pk = None then (sn, [], [''Swarm mismatch''])
      else case (if payload = [] then Some False else map_option snd (read_payload payload)) of
             None \<Rightarrow> (sn, [], [''Request payload malformed''])
           | Some needs_db_dump \<Rightarrow>
               (let (sn, out) = (if needs_db_dump then queue_swarm_dump C now pk sn else (sn, []))
                in (sn, out, [''OK'', version_info (handshake_version our_version)])))"

section \<open>Storing messages\<close>

text \<open>
  The answer, and what is written through the two pointers.
\<close>

definition process_store ::
    "(string \<Rightarrow> u64) \<Rightarrow> disk \<Rightarrow> message \<Rightarrow> service_node \<Rightarrow> service_node \<times> sn_output list \<times> bool \<times> bool option \<times> time option" where
  "process_store lb disk msg sn =
     (if \<not> swarm_is_valid (sn_swarm sn) then (sn, [], False, None, None)
      else let (db, res) = store_message lb disk msg (sn_db sn)
           in (set_db db sn,
               if so_result res = New then [Notify msg (case so_id res of Some i \<Rightarrow> i | None \<Rightarrow> 0)] else [],
               so_result res \<noteq> Full, Some (so_result res = New), so_expiry res))"

text \<open>
  An exception of \<open>bulk_store\<close> leaves the pieces that were committed before: those of the first
  \<open>k\<close> messages for \<open>Some k\<close>.
\<close>

definition save_bulk ::
    "(string \<Rightarrow> u64) \<Rightarrow> (nat \<Rightarrow> bool) \<Rightarrow> nat option \<Rightarrow> message list \<Rightarrow> service_node \<Rightarrow> service_node \<times> bool" where
  "save_bulk lb piece_end failed msgs sn =
     (case failed of
        None \<Rightarrow> (set_db (bulk_store lb piece_end msgs (sn_db sn)) sn, True)
      | Some k \<Rightarrow> (set_db (bulk_store lb piece_end (take k msgs) (sn_db sn)) sn, False))"

definition process_push_batch ::
    "bt_codec \<Rightarrow> bool \<Rightarrow> hex_codec \<Rightarrow> (string \<Rightarrow> u64) \<Rightarrow> (nat \<Rightarrow> bool) \<Rightarrow> nat option \<Rightarrow> string \<Rightarrow> service_node \<Rightarrow>
     (service_node \<times> bool) option" where
  "process_push_batch C is_mainnet H lb piece_end failed blob sn =
     (if blob = [] then Some (sn, True)
      else case deserialize_messages C is_mainnet H blob of
             None \<Rightarrow> None
           | Some (Inl e) \<Rightarrow> Some (sn, False)
           | Some (Inr items) \<Rightarrow> Some (save_bulk lb piece_end failed items sn))"

section \<open>Updates of the swarms\<close>

record block_update =
  bu_swarms :: swarms_t
  bu_contacts :: "(legacy_pubkey \<times> contact) list"
  bu_decommed :: bool
  bu_height :: u64
  bu_block_hash :: string
  bu_hardfork :: int
  bu_snode_revision :: int

text \<open>
  The answer of oxend: the fields that are read, with their defaults. Reading the JSON and the
  hex keys are arguments.
\<close>

record oxend_state =
  ox_pubkey :: string
  ox_x25519 :: string
  ox_ed25519 :: string
  ox_ip :: u32
  ox_storage_port :: "16 word"
  ox_lmq_port :: "16 word"
  ox_version :: ss_version
  ox_swarm_id :: swarm_id_t

record oxend_nodes =
  ox_unchanged :: bool
  ox_height :: u64
  ox_block_hash :: string
  ox_hardfork :: int
  ox_revision :: int
  ox_states :: "oxend_state list"

datatype update_error = Failed_To_Parse

definition optional_key :: "(string \<Rightarrow> string option) \<Rightarrow> string \<Rightarrow> string option" where
  "optional_key key_from_hex s = (if s = [] then Some null_key else key_from_hex s)"

definition state_contact :: "(string \<Rightarrow> string option) \<Rightarrow> oxend_state \<Rightarrow> contact option" where
  "state_contact key_from_hex x =
     (case (optional_key key_from_hex (ox_ed25519 x), optional_key key_from_hex (ox_x25519 x)) of
        (Some ed, Some x25519) \<Rightarrow>
          Some \<lparr>ip = ox_ip x, https_port = ox_storage_port x, omq_quic_port = ox_lmq_port x, version = ox_version x,
                pubkey_ed25519 = ed, pubkey_x25519 = x25519\<rparr>
      | _ \<Rightarrow> None)"

definition add_to_swarm :: "swarm_id_t \<Rightarrow> legacy_pubkey \<Rightarrow> swarms_t \<Rightarrow> swarms_t" where
  "add_to_swarm i pk sw = map_put i (insort_insert pk (case map_of sw i of Some m \<Rightarrow> m | None \<Rightarrow> [])) sw"

fun add_states ::
    "(string \<Rightarrow> string option) \<Rightarrow> legacy_pubkey \<Rightarrow> oxend_state list \<Rightarrow> block_update \<Rightarrow> update_error + block_update" where
  "add_states key_from_hex us [] bu = Inr bu"
| "add_states key_from_hex us (x # xs) bu =
     (case (key_from_hex (ox_pubkey x), state_contact key_from_hex x) of
        (Some pk, Some c) \<Rightarrow>
          add_states key_from_hex us xs
            (let bu = bu\<lparr>bu_contacts := map_put pk c (bu_contacts bu)\<rparr>
             in if ox_swarm_id x \<noteq> INVALID_SWARM_ID then bu\<lparr>bu_swarms := add_to_swarm (ox_swarm_id x) pk (bu_swarms bu)\<rparr>
                else if pk = us then bu\<lparr>bu_decommed := True\<rparr> else bu)
      | _ \<Rightarrow> Inl Failed_To_Parse)"

definition parse_swarm_update ::
    "(string \<Rightarrow> oxend_nodes option) \<Rightarrow> (string \<Rightarrow> string option) \<Rightarrow> string \<Rightarrow> legacy_pubkey \<Rightarrow> update_error + block_update option" where
  "parse_swarm_update read_json key_from_hex response_body us =
     (if response_body = [] then Inl Failed_To_Parse
      else case read_json response_body of
             None \<Rightarrow> Inl Failed_To_Parse
           | Some r \<Rightarrow>
               if ox_unchanged r then Inr None
               else case add_states key_from_hex us (ox_states r)
                           \<lparr>bu_swarms = [], bu_contacts = [], bu_decommed = False, bu_height = ox_height r,
                            bu_block_hash = ox_block_hash r, bu_hardfork = ox_hardfork r, bu_snode_revision = ox_revision r\<rparr> of
                      Inl e \<Rightarrow> Inl e
                    | Inr bu \<Rightarrow> Inr (Some bu))"

fun bootstrap_members ::
    "bt_codec \<Rightarrow> time \<Rightarrow> swarm_id_t \<Rightarrow> legacy_pubkey list \<Rightarrow> service_node \<Rightarrow> service_node \<times> sn_output list" where
  "bootstrap_members C now i [] sn = (sn, [])"
| "bootstrap_members C now i (pk # pks) sn =
     (let (sn, out) = (if pk \<noteq> our_pk (sn_swarm sn) then node_queue_dump C now pk i sn else (sn, []));
          (sn, out') = bootstrap_members C now i pks sn
      in (sn, out @ out'))"

text \<open>
  \<open>swarm_boundaries\<close> does not throw here, as the swarm was found just before.
\<close>

fun bootstrap_targets :: "bt_codec \<Rightarrow> time \<Rightarrow> swarm_id_t list \<Rightarrow> service_node \<Rightarrow> service_node \<times> sn_output list" where
  "bootstrap_targets C now [] sn = (sn, [])"
| "bootstrap_targets C now (i # is) sn =
     (let (sn, out) =
            (case (get_swarm (nw_swarms (sn_network sn)) i, swarm_boundaries (nw_swarms (sn_network sn)) i) of
               (Some members, Inr (lower, upper)) \<Rightarrow>
                 if has_owners_in_range lower upper (sn_db sn) then bootstrap_members C now i members sn else (sn, [])
             | _ \<Rightarrow> (sn, []));
          (sn, out') = bootstrap_targets C now is sn
      in (sn, out @ out'))"

definition bootstrap_swarms :: "bt_codec \<Rightarrow> time \<Rightarrow> swarm_id_t list \<Rightarrow> service_node \<Rightarrow> service_node \<times> sn_output list" where
  "bootstrap_swarms C now swarms sn =
     bootstrap_targets C now (if swarms = [] then swarm_ids (nw_swarms (sn_network sn)) else swarms) sn"

text \<open>
  \<open>None\<close> in place of the events is the exception of \<open>swarm_boundaries\<close>.
\<close>

definition node_update ::
    "block_update \<Rightarrow> service_node \<Rightarrow> service_node \<times> SwarmEvents option" where
  "node_update bu sn =
     (case update_swarms (bu_swarms bu) (bu_contacts bu) (sn_swarm sn) of
        None \<Rightarrow> (sn, None) | Some (sw, events) \<Rightarrow> (sn\<lparr>sn_swarm := sw\<rparr>, Some events))"

definition on_bootstrap_update :: "block_update \<Rightarrow> service_node \<Rightarrow> service_node" where
  "on_bootstrap_update bu sn =
     (case node_update bu sn of
        (sn, None) \<Rightarrow> sn
      | (sn, Some _) \<Rightarrow> sn\<lparr>target_height := max (target_height sn) (bu_height bu)\<rparr>)"

definition announce_swarms ::
    "bt_codec \<Rightarrow> time \<Rightarrow> bool \<Rightarrow> block_update \<Rightarrow> SwarmEvents \<Rightarrow> service_node \<Rightarrow> service_node \<times> sn_output list" where
  "announce_swarms C now is_ready bu events sn =
     (let sn = sn\<lparr>sn_status := (if ev_our_swarm_id events \<noteq> INVALID_SWARM_ID then ACTIVE
                                  else if bu_decommed bu then DECOMMISSIONED else UNSTAKED)\<rparr>
      in if \<not> is_ready then (sn, [])
         else let (sn, out) = (if ev_new_swarms events \<noteq> [] then bootstrap_swarms C now (ev_new_swarms events) sn else (sn, []));
                  (sn, out') = (if ev_dissolved events then bootstrap_swarms C now [] sn else (sn, []))
              in (sn, out @ out'))"

definition still_syncing :: "block_update \<Rightarrow> service_node \<Rightarrow> bool" where
  "still_syncing bu sn \<longleftrightarrow> (if syncing sn \<and> target_height sn \<noteq> 0 then bu_height bu < target_height sn else syncing sn)"

text \<open>The last result of \<open>on_snodes_update\<close> is that it ends without an exception.\<close>

definition on_snodes_update :: "bt_codec \<Rightarrow> time \<Rightarrow> block_update \<Rightarrow> service_node \<Rightarrow> service_node \<times> sn_output list \<times> bool" where
  "on_snodes_update C now bu sn =
     (let sn = sn\<lparr>hardfork := (bu_hardfork bu, bu_snode_revision bu)\<rparr>;
          sn = sn\<lparr>syncing := still_syncing bu sn\<rparr>
      in if syncing sn then (sn, [], True)
         else if bu_block_hash bu = block_hash sn then (sn, [], True)
         else let sn = sn\<lparr>block_height := bu_height bu, block_hash := bu_block_hash bu\<rparr>;
                  is_ready = fst (snode_ready sn);
                  sn = sn\<lparr>active := (active sn \<or> is_ready)\<rparr>
              in case node_update bu sn of
                   (sn, None) \<Rightarrow> (sn, [], False)
                 | (sn, Some events) \<Rightarrow>
                     (let (sn, out) = announce_swarms C now is_ready bu events sn in (sn, Drop_Foreign_Monitors # out, True)))"

definition needs_bootstrap :: "bool \<Rightarrow> block_update \<Rightarrow> bool" where
  "needs_bootstrap is_mainnet bu \<longleftrightarrow>
     (let n = length (bu_contacts bu); missing = n - length (filter (\<lambda>(_, c). contactable c) (bu_contacts bu))
      in n < (if is_mainnet then 100 else 10) \<or> missing > 3 * n div 100)"

definition first_response :: "bool \<Rightarrow> block_update \<Rightarrow> service_node \<Rightarrow> service_node \<times> sn_output list" where
  "first_response is_mainnet bu sn =
     (let sn = sn\<lparr>got_first_response := True\<rparr>
      in if syncing sn then (if skip_bootstrap sn then (sn\<lparr>syncing := False\<rparr>, []) else (sn, [Ask_Bootstrap_Nodes]))
         else if \<not> skip_bootstrap sn \<and> needs_bootstrap is_mainnet bu then (sn, [Ask_Bootstrap_Nodes])
         else (sn, []))"

text \<open>The answer to a request to oxend; the last result is what \<open>on_finish\<close> gets.\<close>

definition process_snodes_update ::
    "bt_codec \<Rightarrow> bool \<Rightarrow> time \<Rightarrow> update_error + block_update option \<Rightarrow> service_node \<Rightarrow> service_node \<times> sn_output list \<times> bool" where
  "process_snodes_update C is_mainnet now parsed sn =
     (case parsed of
        Inl e \<Rightarrow> (sn, [], False)
      | Inr None \<Rightarrow> (sn, [], True)
      | Inr (Some bu) \<Rightarrow>
          (let (sn, out) = (if got_first_response sn then (sn, []) else first_response is_mainnet bu sn);
               (sn, out', finished) = on_snodes_update C now bu sn
           in (sn, out @ out', finished)))"

definition node_update_swarms :: "service_node \<Rightarrow> service_node \<times> sn_output list" where
  "node_update_swarms sn =
     (if updating_swarms sn then (sn, [])
      else (sn\<lparr>updating_swarms := True\<rparr>,
            [Get_Service_Nodes (if got_first_response sn \<and> block_hash sn \<noteq> [] then Some (block_hash sn) else None)]))"

definition on_service_nodes ::
    "bt_codec \<Rightarrow> bool \<Rightarrow> (string \<Rightarrow> update_error + block_update option) \<Rightarrow> time \<Rightarrow> bool \<Rightarrow> string list \<Rightarrow> service_node \<Rightarrow>
     service_node \<times> sn_output list \<times> bool" where
  "on_service_nodes C is_mainnet parse now success dat sn =
     (let sn = sn\<lparr>updating_swarms := False\<rparr>
      in if \<not> success \<or> length dat < 2 \<or> dat ! 0 \<noteq> ''200'' then (sn, [], False)
         else process_snodes_update C is_mainnet now (parse (dat ! 1)) sn)"

text \<open>
  The answer of a bootstrap node; \<open>counter\<close> is how many have answered before. The code reads the
  body without asking whether there is one.
\<close>

definition on_bootstrap_reply ::
    "(string \<Rightarrow> update_error + block_update option) \<Rightarrow> nat \<Rightarrow> nat \<Rightarrow> bool \<Rightarrow> string list \<Rightarrow> service_node \<Rightarrow>
     service_node \<times> sn_output list" where
  "on_bootstrap_reply parse node_count counter success dat sn =
     (let sn = (if \<not> success \<or> dat = [] \<or> dat ! 0 \<noteq> ''200'' then sn
                else case dat of
                       _ # body # _ \<Rightarrow> (case parse body of Inr (Some bu) \<Rightarrow> on_bootstrap_update bu sn | _ \<Rightarrow> sn)
                     | _ \<Rightarrow> sn)
      in if counter + 1 = node_count
         then node_update_swarms (if target_height sn = 0 then sn\<lparr>syncing := False\<rparr> else sn)
         else (sn, []))"

end
