(* ===== verification/Node_System.thy ===== *)
theory Node_System
  imports Service_Node
begin

text \<open>
  The whole service node as a system: everything that can happen to it, in any order, and the
  record of the dump batches it has sent. The system refines that of the dumps, so that what
  holds there holds of the node with all that runs beside the dumps.
\<close>

section \<open>Events\<close>

text \<open>
  What the node is built with: the codecs, the byte order conversion and the sort orders of
  SQLite; the reader of a handshake, of the answers of oxend, and the version.
\<close>

record node_env =
  ne_codec :: bt_codec
  ne_load_big :: "string \<Rightarrow> u64"
  ne_orders :: sql_orders
  ne_mainnet :: bool
  ne_hex :: hex_codec
  ne_parse :: "string \<Rightarrow> update_error + block_update option"
  ne_read_payload :: "string \<Rightarrow> (u32 \<times> bool) option"
  ne_version_info :: "u32 \<Rightarrow> string"
  ne_version :: ss_version
  ne_stream_full :: string
  ne_bootstrap_nodes :: nat

text \<open>
  A request of a client runs operations of the database other than those of the dumps.
\<close>

datatype node_event =
    Ev_Client db_op
  | Ev_Store disk message
  | Ev_Push_Batch "nat \<Rightarrow> bool" "nat option" string
  | Ev_New_Members time
  | Ev_Data_Ready_Response time legacy_pubkey bool "string list"
  | Ev_Handshake time legacy_pubkey string
  | Ev_Check_Dumps time
  | Ev_Queue_Delivery time legacy_pubkey string
  | Ev_Delivery_Reply time legacy_pubkey "int list" bool
  | Ev_Check_Retries time
  | Ev_Retry_Done int bool "string list"
  | Ev_Update_Swarms
  | Ev_Service_Nodes time bool "string list"
  | Ev_Bootstrap_Reply nat bool "string list"
  | Ev_Sync_Timeout
  | Ev_Shutdown

fun run_event :: "node_env \<Rightarrow> node_event \<Rightarrow> service_node \<Rightarrow> service_node \<times> sn_output list" where
  "run_event E (Ev_Client x) sn =
     (if of_dumps x then (sn, []) else (set_db (run_op (ne_load_big E) (ne_orders E) x (sn_db sn)) sn, []))"
| "run_event E (Ev_Store disk msg) sn = (let (sn', out, _) = process_store (ne_load_big E) disk msg sn in (sn', out))"
| "run_event E (Ev_Push_Batch piece_end failed blob) sn =
     (case process_push_batch (ne_codec E) (ne_mainnet E) (ne_hex E) (ne_load_big E) piece_end failed blob sn of
        Some (sn', _) \<Rightarrow> (sn', []) | None \<Rightarrow> (sn, []))"
| "run_event E (Ev_New_Members now) sn = check_new_members now sn"
| "run_event E (Ev_Data_Ready_Response now pk success dat) sn = on_sn_data_ready_response (ne_codec E) now pk success dat sn"
| "run_event E (Ev_Handshake now pk payload) sn =
     (let (sn', out, _) = data_ready_handshake (ne_codec E) (ne_read_payload E) (ne_version_info E) (ne_version E) now pk payload sn
      in (sn', out))"
| "run_event E (Ev_Check_Dumps now) sn = node_check_dumps (ne_codec E) now sn"
| "run_event E (Ev_Queue_Delivery now pk hash) sn = node_queue_delivery (ne_codec E) now pk hash sn"
| "run_event E (Ev_Delivery_Reply now pk ids ok) sn = node_delivery_reply (ne_codec E) now pk ids ok sn"
| "run_event E (Ev_Check_Retries now) sn =
     (case check_retry_requests (ne_orders E) now sn of Some r \<Rightarrow> r | None \<Rightarrow> (sn, []))"
| "run_event E (Ev_Retry_Done i success parts) sn = (on_request_done (ne_stream_full E) i success parts sn, [])"
| "run_event E Ev_Update_Swarms sn = node_update_swarms sn"
| "run_event E (Ev_Service_Nodes now success dat) sn =
     (let (sn', out, _) = on_service_nodes (ne_codec E) (ne_mainnet E) (ne_parse E) now success dat sn in (sn', out))"
| "run_event E (Ev_Bootstrap_Reply counter success dat) sn =
     on_bootstrap_reply (ne_parse E) (ne_bootstrap_nodes E) counter success dat sn"
| "run_event E Ev_Sync_Timeout sn = (sync_timeout sn, [])"
| "run_event E Ev_Shutdown sn = (node_shutdown sn, [])"

section \<open>The system\<close>

text \<open>
  The batches that were sent and the reads that found nothing, as in the system of the dumps.
\<close>

type_synonym dump_log = "sent_batch list \<times> (dump_key \<times> int \<times> int) list"

definition dump_view :: "service_node \<Rightarrow> dump_log \<Rightarrow> dump_system" where
  "dump_view sn g = \<lparr>ds_node = node_dumps sn, ds_network = sn_network sn, ds_sent = fst g, ds_empty = snd g\<rparr>"

definition log_reads :: "(dump_key \<times> nat \<times> dump_read list) list \<Rightarrow> dump_log \<Rightarrow> dump_log" where
  "log_reads out = (\<lambda>(sent, em). (sent @ concat (map batches_of out), em @ concat (map empties_of out)))"

definition log_queued :: "dump_key \<Rightarrow> dump_log \<Rightarrow> dump_log" where
  "log_queued key = (\<lambda>(sent, em). (map (\<lambda>b. if b_key b = key then b\<lparr>b_current := False\<rparr> else b) sent, filter (\<lambda>(k, _). k \<noteq> key) em))"

fun log_output :: "sn_output \<Rightarrow> dump_log \<Rightarrow> dump_log" where
  "log_output (Queued_Dump key out) g = log_reads out (log_queued key g)"
| "log_output (Dump_Batches out) g = log_reads out g"
| "log_output _ g = g"

text \<open>
  A part of a batch that has no answer yet gets one, or a timeout; a restart keeps the database.
\<close>

inductive node_step :: "node_env \<Rightarrow> service_node \<times> dump_log \<Rightarrow> service_node \<times> dump_log \<Rightarrow> bool" for E where
  event: "run_event E ev sn = (sn', out) \<Longrightarrow> node_step E (sn, g) (sn', fold log_output out g)"
| dump_reply: "b \<in> set sent \<Longrightarrow> b_live b \<Longrightarrow> 0 < b_left b \<Longrightarrow>
     node_dump_reply (ne_codec E) now (b_key b) (b_last b) (b_gen b) ok sn = (sn', out) \<Longrightarrow>
     node_step E (sn, (sent, em)) (sn', fold log_output out (map (answer b ok) sent, em))"
| restart: "node_step E (sn, (sent, em)) (initial_node force skip pk nw (sn_db sn), (map (\<lambda>b. b\<lparr>b_live := False\<rparr>) sent, em))"

inductive node_reachable :: "node_env \<Rightarrow> service_node \<times> dump_log \<Rightarrow> bool" for E where
  start: "node_reachable E (initial_node force skip pk empty_network empty_database, ([], []))"
| step: "node_reachable E s \<Longrightarrow> node_step E s s' \<Longrightarrow> node_reachable E s'"

section \<open>Simulation\<close>

text \<open>
  An operation that takes the node from \<open>sn\<close> to \<open>sn'\<close> with these outputs keeps the constraints
  of the database, and what it does to the dumps is done by steps of the dumps.
\<close>

definition db_keeps :: "(string \<Rightarrow> u64) \<Rightarrow> database \<Rightarrow> database \<Rightarrow> bool" where
  "db_keeps lb db db' \<longleftrightarrow> (db_inv lb db \<longrightarrow> db_inv lb db' \<and> dump_map db' = dump_map db)"

definition simulated :: "bt_codec \<Rightarrow> (string \<Rightarrow> u64) \<Rightarrow> service_node \<Rightarrow> sn_output list \<Rightarrow> service_node \<Rightarrow> bool" where
  "simulated C lb sn out sn' \<longleftrightarrow> (db_inv lb (sn_db sn) \<longrightarrow> db_inv lb (sn_db sn')
     \<and> (\<forall>g. (dump_step C lb)\<^sup>*\<^sup>* (dump_view sn g) (dump_view sn' (fold log_output out g))))"

lemma db_keeps_refl: "db_keeps lb db db" and db_keeps_trans: "db_keeps lb a b \<Longrightarrow> db_keeps lb b c \<Longrightarrow> db_keeps lb a c"
  by (simp_all add: db_keeps_def)

lemma db_keeps_fold: "(\<And>x db. db_keeps lb db (f x db)) \<Longrightarrow> db_keeps lb db (fold f xs db)"
  by (induction xs arbitrary: db) (auto intro: db_keeps_refl db_keeps_trans)

lemma db_keeps_op: "orders_ok S \<Longrightarrow> \<not> of_dumps x \<Longrightarrow> db_keeps lb db (run_op lb S x db)"
  unfolding db_keeps_def using run_op_inv run_op_dumps by blast

lemma simulated_trans:
  assumes "simulated C lb sn out sn'" and "simulated C lb sn' out' sn''"
  shows "simulated C lb sn (out @ out') sn''"
  using assms unfolding simulated_def fold_append comp_apply by (meson rtranclp_trans)

text \<open>Operations that only change the database and the swarm.\<close>

lemma simulated_quiet:
  assumes "db_keeps lb (sn_db sn) (sn_db sn')" and "sn_windows sn' = sn_windows sn" and "sn_generation sn' = sn_generation sn"
    and "\<forall>x \<in> set out. \<forall>g. log_output x g = g"
  shows "simulated C lb sn out sn'"
proof -
  have log: "fold log_output out g = g" for g using assms(4) by (induction out) (auto simp del: split_paired_All)
  have "(dump_step C lb)\<^sup>*\<^sup>* (dump_view sn g) (dump_view sn' g)" if "db_inv lb (sn_db sn)" for g
  proof -
    let ?s = "dump_view sn g" and ?m = "(dump_view sn g)\<lparr>ds_network := sn_network sn'\<rparr>"
    have n: "dump_step C lb ?s ?m" by (rule dump_step.network)
    have "db_inv lb (sn_db sn')" "dump_map (sn_db sn') = dump_map (dn_db (ds_node ?m))"
      using assms(1) that by (simp_all add: db_keeps_def dump_view_def node_dumps_def)
    then have "dump_step C lb ?m (?m\<lparr>ds_node := (ds_node ?m)\<lparr>dn_db := sn_db sn'\<rparr>\<rparr>)" by (rule dump_step.database)
    moreover have "?m\<lparr>ds_node := (ds_node ?m)\<lparr>dn_db := sn_db sn'\<rparr>\<rparr> = dump_view sn' g"
      using assms(2,3) by (simp add: dump_view_def node_dumps_def)
    ultimately show ?thesis using n by (metis converse_rtranclp_into_rtranclp rtranclp.rtrancl_refl)
  qed
  then show ?thesis unfolding simulated_def log using assms(1) by (simp add: db_keeps_def)
qed

lemma simulated_refl: "simulated C lb sn [] sn"
  by (rule simulated_quiet) (simp_all add: db_keeps_refl)

subsection \<open>Dumps\<close>

lemma advance_db_inv:
  assumes "advance_dump C nw now key w st = (st', reads)" and "db_inv lb (dn_db st)"
  shows "db_inv lb (dn_db st')"
  using assms(1)
proof (cases rule: advance_cases)
  case (loop lower upper w')
  then show ?thesis using dump_ops_inv(3) [OF assms(2)] assms(2) by (simp add: finish_dump_def erase_window_def)
qed (use dump_ops_inv(2,3) [OF assms(2)] assms(2) in \<open>simp_all add: finish_dump_def pause_dump_def erase_window_def\<close>)

lemma check_dump_db_inv:
  assumes "check_dump C nw now d st = (st', out)" and "db_inv lb (dn_db st)"
  shows "db_inv lb (dn_db st')"
  using assms advance_db_inv [of C nw now _ _ _ st'] by (auto simp: check_dump_def Let_def split: option.splits if_splits prod.splits)

lemma check_dumps_db_inv:
  assumes "check_dumps_locked C nw now st = (st', out)" and "db_inv lb (dn_db st)"
  shows "db_inv lb (dn_db st')"
proof -
  have "db_inv lb (dn_db st')" if "check_dumps_loop C nw now ds st = (st', out)" "db_inv lb (dn_db st)" for ds st out
    using that
  proof (induction ds arbitrary: st out)
    case (Cons d ds)
    then show ?case using check_dump_db_inv by (auto split: prod.splits)
  qed simp
  then show ?thesis using assms unfolding check_dumps_locked_def by blast
qed

lemma dump_view_reads:
  "record_reads out ((dump_view sn g)\<lparr>ds_node := d\<rparr>) = dump_view (set_dumps d sn) (log_reads out g)"
  by (cases g) (simp add: record_reads_def dump_view_def log_reads_def)

lemma dump_view_queued:
  "record_reads out ((requeued key (dump_view sn g))\<lparr>ds_node := d\<rparr>) = dump_view (set_dumps d sn) (log_reads out (log_queued key g))"
  by (cases g) (simp add: record_reads_def dump_view_def log_reads_def requeued_def log_queued_def)

lemma simulated_queue:
  assumes "node_queue_dump C now pk swarm sn = (sn', out)"
  shows "simulated C lb sn out sn'"
proof -
  obtain d reads where q: "sn_queue_dump C (sn_network sn) now pk swarm (node_dumps sn) = (d, reads)" by (rule prod.exhaust)
  have e: "sn' = set_dumps d sn" "out = [Queued_Dump (pk, swarm) reads]" using assms by (simp_all add: node_queue_dump_def q)
  have "db_inv lb (dn_db d)" if "db_inv lb (sn_db sn)"
    using check_dumps_db_inv [OF q [unfolded sn_queue_dump_def Let_def]] dump_ops_inv(1) [OF that]
    by (simp add: erase_window_def node_dumps_def)
  moreover have "dump_step C lb (dump_view sn g) (dump_view sn' (fold log_output out g))" for g
    using dump_step.queue [of C "dump_view sn g" now pk swarm d reads lb] q by (simp add: e dump_view_queued) (simp add: dump_view_def)
  ultimately show ?thesis by (auto simp: simulated_def e)
qed

lemma simulated_check:
  assumes "check_dumps_locked C (sn_network sn) now (node_dumps sn) = (d, reads)"
  shows "simulated C lb sn [Dump_Batches reads] (set_dumps d sn)"
proof -
  have "db_inv lb (dn_db d)" if "db_inv lb (sn_db sn)"
    using check_dumps_db_inv [OF assms] that by (simp add: node_dumps_def)
  moreover have "dump_step C lb (dump_view sn g) (dump_view (set_dumps d sn) (log_reads reads g))" for g
    using dump_step.check [of C "dump_view sn g" now d reads lb] assms by (simp add: dump_view_reads) (simp add: dump_view_def)
  ultimately show ?thesis by (auto simp: simulated_def)
qed

lemma simulated_swarm_dump:
  assumes "queue_swarm_dump C now pk sn = (sn', out)"
  shows "simulated C lb sn out sn'"
  using assms simulated_queue simulated_refl by (auto simp: queue_swarm_dump_def Let_def split: if_splits)

subsection \<open>Deliveries and retries\<close>

lemma delivery_keeps:
  "db_keeps lb db (queue_delivery pk hash db)" "db_keeps lb db (remove_deliveries pk db)"
  "db_keeps lb db (remove_deliveries_ids pk ids db)" "db_keeps lb db (clean_pending_recipients db)"
  using db_keeps_op [OF stable_orders_ok, of "Op_Queue_Delivery pk hash" lb db]
    db_keeps_op [OF stable_orders_ok, of "Op_Remove_Deliveries pk" lb db]
    db_keeps_op [OF stable_orders_ok, of "Op_Remove_Deliveries_Ids pk ids" lb db]
    db_keeps_op [OF stable_orders_ok, of Op_Clean_Recipients lb db] by simp_all

lemma send_deliveries_keeps: "db_keeps lb (fst nd) (fst (fst (send_deliveries C sw now pk nd)))"
  by (cases nd) (auto simp: send_deliveries_def Let_def db_keeps_refl delivery_keeps split: prod.splits)

lemma send_all_keeps: "db_keeps lb (fst nd) (fst (fst (send_all C sw now pks nd)))"
proof (induction pks arbitrary: nd)
  case (Cons pk pks)
  show ?case
    using db_keeps_trans [OF send_deliveries_keeps [of lb nd C sw now pk] Cons.IH [of "fst (send_deliveries C sw now pk nd)"]]
    by (simp add: case_prod_unfold Let_def)
qed (simp add: db_keeps_refl)

lemma on_delivery_reply_keeps: "db_keeps lb (fst nd) (fst (fst (on_delivery_reply C sw now pk ids ok nd)))"
proof -
  obtain db dv where n: "nd = (db, dv)" by (rule prod.exhaust)
  have "db_keeps lb db (fst (fst (send_deliveries C sw now pk (remove_deliveries_ids pk ids db, dv'))))" for dv'
    using db_keeps_trans [OF delivery_keeps(3) send_deliveries_keeps [of lb "(remove_deliveries_ids pk ids db, dv')", unfolded fst_conv]] by simp
  then show ?thesis by (auto simp: n on_delivery_reply_def Let_def db_keeps_refl split: option.splits)
qed

lemma set_deliveries_simps [simp]:
  "sn_db (set_deliveries nd sn) = fst nd" "sn_windows (set_deliveries nd sn) = sn_windows sn"
  "sn_generation (set_deliveries nd sn) = sn_generation sn" "sn_network (set_deliveries nd sn) = sn_network sn"
  by (cases nd, simp add: set_deliveries_def)+

lemma simulated_deliveries:
  "node_queue_delivery C now pk hash sn = (sn', out) \<Longrightarrow> simulated C lb sn out sn'"
  "node_delivery_reply C now pk ids ok sn = (sn', out) \<Longrightarrow> simulated C lb sn out sn'"
proof -
  have q: "db_keeps lb (sn_db sn) (fst (fst (sn_queue_delivery C sw now pk hash (sn_db sn, dv))))" for sw dv
    using db_keeps_trans [OF delivery_keeps(1) send_deliveries_keeps [of lb "(queue_delivery pk hash (sn_db sn), dv)", unfolded fst_conv]]
    by (simp add: sn_queue_delivery_def)
  show "node_queue_delivery C now pk hash sn = (sn', out) \<Longrightarrow> simulated C lb sn out sn'"
    using q by (intro simulated_quiet) (auto simp: node_queue_delivery_def case_prod_unfold Let_def)
  show "node_delivery_reply C now pk ids ok sn = (sn', out) \<Longrightarrow> simulated C lb sn out sn'"
    using on_delivery_reply_keeps [of lb "(sn_db sn, sn_deliveries sn)"]
    by (intro simulated_quiet) (auto simp: node_delivery_reply_def case_prod_unfold Let_def)
qed

lemma simulated_check_dumps:
  assumes "node_check_dumps C now sn = (sn', out)"
  shows "simulated C lb sn out sn'"
proof -
  obtain d reads where c: "check_dumps_locked C (sn_network sn) now (node_dumps sn) = (d, reads)" by (rule prod.exhaust)
  obtain db dv sent where v: "check_deliveries_locked C (sn_swarm sn) now (dn_db d, sn_deliveries sn) = ((db, dv), sent)"
    by (metis prod.exhaust)
  have e: "sn' = (set_dumps (d\<lparr>dn_db := clean_pending_recipients db\<rparr>) sn)\<lparr>sn_deliveries := dv\<rparr>"
      "out = [Dump_Batches reads] @ [Deliver sent]"
    using assms by (simp_all add: node_check_dumps_def check_dumps_def c v)
  have "db_keeps lb (dn_db d) (clean_pending_recipients db)"
    using db_keeps_trans [OF send_all_keeps [of lb "(dn_db d, sn_deliveries sn)"] delivery_keeps(4)] v
    by (metis check_deliveries_locked_def fst_conv)
  then have "simulated C lb (set_dumps d sn) [Deliver sent] sn'"
    by (intro simulated_quiet) (simp_all add: e, simp_all add: set_dumps_def set_db_def)
  then show ?thesis unfolding e(2) by (rule simulated_trans [OF simulated_check [OF c]])
qed

lemma schedule_retries_ok:
  assumes "db_retries_ok db"
  shows "db_retries_ok (schedule_retry x db)"
proof -
  obtain i t where x: "x = (i, t)" by (rule prod.exhaust)
  let ?ns = "map (\<lambda>n. if rn_id n = i then n\<lparr>rn_next_retry := t\<rparr> else n) (retry_node_requests db)"
  have m: "map rn_id ?ns = map rn_id (retry_node_requests db)" "map rn_rr_id ?ns = map rn_rr_id (retry_node_requests db)"
      "map rn_pk_id ?ns = map rn_pk_id (retry_node_requests db)"
      "map (\<lambda>n. (rn_rr_id n, rn_pk_id n)) ?ns = map (\<lambda>n. (rn_rr_id n, rn_pk_id n)) (retry_node_requests db)" by auto
  have "rn_rr_id ` set ?ns = rn_rr_id ` set (retry_node_requests db)" "rn_pk_id ` set ?ns = rn_pk_id ` set (retry_node_requests db)"
    using m(2,3) by (metis list.set_map)+
  then have "retries_ok (retry_requests db) (retry_pubkeys db) ?ns"
    using assms m unfolding db_retries_ok_def retries_ok_def by presburger
  then show ?thesis by (simp add: x schedule_retry_def db_retries_ok_def)
qed

lemma simulated_retries:
  assumes "orders_ok S" and "check_retry_requests S now sn = Some (sn', out)"
  shows "simulated C lb sn out sn'"
proof -
  obtain db where r: "remove_expired_retry_requests (by_created S) now (sn_db sn) = Some db"
    using assms(2) by (auto simp: check_retry_requests_def split: option.splits)
  let ?ready = "ready_retries now db" and ?sw = "sn_swarm sn"
  have e: "sn' = set_db (fold schedule_retry (retry_updates now (sends_retry ?sw) ?ready) (fold (forget_retry ?sw) ?ready db)) sn"
      "out = map Retry (filter (sends_retry ?sw) ?ready)"
    using assms(2) by (simp_all add: check_retry_requests_def r Let_def)
  have k: "db_keeps lb (sn_db sn) db"
    using db_keeps_op [OF assms(1), of "Op_Expire_Retries now" lb "sn_db sn"] r by simp
  have rm: "db_keeps lb db (remove_node_retry_request i db)" for i db
    using db_keeps_op [OF assms(1), of "Op_Remove_Retry i" lb db] by simp
  have "db_keeps lb db (fold (forget_retry ?sw) ?ready db)"
    by (rule db_keeps_fold) (simp add: forget_retry_def rm db_keeps_refl)
  moreover have "db_keeps lb db (schedule_retry x db)" for x db
  proof -
    have "retries_only db (schedule_retry x db)"
      using retries_onlyI [where db = db and ps = "retry_pubkeys db" and qs = "retry_requests db"] by (cases x) (simp add: schedule_retry_def)
    moreover have "db_retries_ok (schedule_retry x db)" if "db_inv lb db"
      using db_inv_retries [OF that] schedule_retries_ok by blast
    ultimately show ?thesis using retries_only_inv dump_map_tables [OF schedule_dump_tables] by (simp add: db_keeps_def)
  qed
  then have "db_keeps lb db (fold schedule_retry xs db)" for xs db by (rule db_keeps_fold)
  ultimately have "db_keeps lb (sn_db sn) (sn_db sn')" using k by (auto simp: e intro: db_keeps_trans)
  then show ?thesis by (rule simulated_quiet) (auto simp: e)
qed

subsection \<open>Handshakes and swarm updates\<close>

lemma modify_member_simps [simp]: "sw_db (modify_member pk f sw) = sw_db sw" "our_pk (modify_member pk f sw) = our_pk sw"
  by (simp_all add: modify_member_def)

lemma contact_members_quiet:
  assumes "contact_members pks sw = (sw', out)"
  shows "sw_db sw' = sw_db sw \<and> (\<forall>x \<in> set out. \<exists>pk b. x = Data_Ready pk b)"
  using assms
proof (induction pks arbitrary: sw out)
  case (Cons pk pks)
  obtain sw1 out1 where c: "contact_member pk sw = (sw1, out1)" by (rule prod.exhaust)
  obtain out2 where c2: "contact_members pks sw1 = (sw', out2)" "out = out1 @ out2" using Cons.prems c by (auto split: prod.splits)
  have "sw_db sw1 = sw_db sw \<and> (\<forall>x \<in> set out1. \<exists>pk b. x = Data_Ready pk b)"
    using c by (auto simp: contact_member_def Let_def split: option.splits if_splits)
  then show ?case using Cons.IH [OF c2(1)] c2(2) by auto
qed simp

lemma simulated_new_members:
  assumes "check_new_members now sn = (sn', out)"
  shows "simulated C lb sn out sn'"
proof -
  obtain sw pks where x: "extract_contact_pending_members now (sn_swarm sn) = (sw, pks)" by (rule prod.exhaust)
  obtain sw' where c: "contact_members pks sw = (sw', out)" "sn' = sn\<lparr>sn_swarm := sw'\<rparr>"
    using assms by (auto simp: check_new_members_def x split: prod.splits)
  have "sw_db sw = sn_db sn" using x by (auto simp: extract_contact_pending_members_def)
  then show ?thesis using contact_members_quiet [OF c(1)] c(2) by (intro simulated_quiet) (auto simp: db_keeps_refl)
qed

lemma simulated_data_ready:
  assumes "on_sn_data_ready_response C now pk success dat sn = (sn', out)"
  shows "simulated C lb sn out sn'"
proof -
  let ?sn = "sn\<lparr>sn_swarm := modify_member pk (answered (handshake_ok success dat)) (sn_swarm sn)\<rparr>"
  have q: "simulated C lb sn [] ?sn" by (rule simulated_quiet) (simp_all add: db_keeps_refl)
  have "(sn', out) = (?sn, []) \<or> queue_swarm_dump C now pk ?sn = (sn', out)"
    using assms by (auto simp: on_sn_data_ready_response_def Let_def split: if_splits)
  then show ?thesis using q simulated_trans [OF q simulated_swarm_dump [where sn = ?sn]] by auto
qed

lemma simulated_handshake:
  assumes "data_ready_handshake C rp vi v now pk payload sn = (sn', out, reply)"
  shows "simulated C lb sn out sn'"
proof -
  have "(sn', out) = (sn, []) \<or> queue_swarm_dump C now pk sn = (sn', out)"
    using assms by (auto simp: data_ready_handshake_def split: if_splits option.splits prod.splits)
  then show ?thesis using simulated_refl simulated_swarm_dump by auto
qed

lemma simulated_bootstrap_members:
  assumes "bootstrap_members C now i pks sn = (sn', out)"
  shows "simulated C lb sn out sn'"
  using assms
proof (induction pks arbitrary: sn out)
  case (Cons pk pks)
  let ?r = "if pk \<noteq> our_pk (sn_swarm sn) then node_queue_dump C now pk i sn else (sn, [])"
  obtain sn1 out1 where r: "?r = (sn1, out1)" by (rule prod.exhaust)
  obtain out2 where b: "bootstrap_members C now i pks sn1 = (sn', out2)" "out = out1 @ out2"
    using Cons.prems r by (auto simp: Let_def split: prod.splits)
  have "simulated C lb sn out1 sn1" using r simulated_queue simulated_refl by (auto split: if_splits)
  then show ?case unfolding b(2) by (rule simulated_trans [OF _ Cons.IH [OF b(1)]])
qed (simp add: simulated_refl)

lemma simulated_bootstrap_targets:
  assumes "bootstrap_targets C now is sn = (sn', out)"
  shows "simulated C lb sn out sn'"
  using assms
proof (induction "is" arbitrary: sn out)
  case (Cons i "is")
  let ?r = "case (get_swarm (nw_swarms (sn_network sn)) i, swarm_boundaries (nw_swarms (sn_network sn)) i) of
      (Some members, Inr (lower, upper)) \<Rightarrow>
        if has_owners_in_range lower upper (sn_db sn) then bootstrap_members C now i members sn else (sn, [])
    | _ \<Rightarrow> (sn, [])"
  obtain sn1 out1 where r: "?r = (sn1, out1)" by (rule prod.exhaust)
  obtain out2 where b: "bootstrap_targets C now is sn1 = (sn', out2)" "out = out1 @ out2"
    using Cons.prems r by (auto simp: Let_def split: prod.splits)
  have "simulated C lb sn out1 sn1"
    using r simulated_bootstrap_members simulated_refl by (auto split: if_splits option.splits sum.splits prod.splits)
  then show ?case unfolding b(2) by (rule simulated_trans [OF _ Cons.IH [OF b(1)]])
qed (simp add: simulated_refl)

lemma simulated_bootstrap: "bootstrap_swarms C now swarms sn = (sn', out) \<Longrightarrow> simulated C lb sn out sn'"
  unfolding bootstrap_swarms_def by (rule simulated_bootstrap_targets)

lemma update_swarms_frame:
  assumes "update_swarms swarms cs st = Some (st', ev)"
  shows "sw_db st' = update_current_swarm (ev_our_swarm_id ev) (sw_db st) \<and> our_pk st' = our_pk st"
  using assms unfolding update_swarms_def Let_def map_option_eq_Some prod.inject by (elim exE conjE, hypsubst, simp)

lemma node_update_quiet:
  assumes "node_update bu sn = (sn', ev)"
  shows "db_keeps lb (sn_db sn) (sn_db sn') \<and> sn_windows sn' = sn_windows sn \<and> sn_generation sn' = sn_generation sn"
proof (cases "update_swarms (bu_swarms bu) (bu_contacts bu) (sn_swarm sn)")
  case None
  then show ?thesis using assms by (simp add: node_update_def db_keeps_refl)
next
  case (Some x)
  then obtain events where u: "update_swarms (bu_swarms bu) (bu_contacts bu) (sn_swarm sn) = Some (sn_swarm sn', events)"
      and e: "sn_windows sn' = sn_windows sn" "sn_generation sn' = sn_generation sn"
    using assms by (cases x) (auto simp: node_update_def)
  have "\<exists>i. sn_db sn' = update_current_swarm i (sn_db sn)"
    using update_swarms_frame [OF u] by blast
  then show ?thesis using e db_keeps_op [OF stable_orders_ok, of "Op_Current_Swarm i" lb "sn_db sn" for i] by auto
qed

lemma simulated_update: "node_update bu sn = (sn', ev) \<Longrightarrow> simulated C lb sn [] sn'"
  using node_update_quiet [of bu sn sn' ev lb] by (intro simulated_quiet) auto

lemma simulated_bootstrap_update: "simulated C lb sn [] (on_bootstrap_update bu sn)"
proof -
  obtain sn1 ev where u: "node_update bu sn = (sn1, ev)" by (rule prod.exhaust)
  have "simulated C lb sn1 [] (sn1\<lparr>target_height := h\<rparr>)" for h by (rule simulated_quiet) (simp_all add: db_keeps_refl)
  then show ?thesis using simulated_trans [OF simulated_update [OF u]] simulated_update [OF u]
    by (auto simp: on_bootstrap_update_def u split: option.splits)
qed

lemma simulated_announce:
  assumes "announce_swarms C now is_ready bu events sn = (sn', out)"
  shows "simulated C lb sn out sn'"
proof -
  define sn1 where "sn1 = sn\<lparr>sn_status := (if ev_our_swarm_id events \<noteq> INVALID_SWARM_ID then ACTIVE
      else if bu_decommed bu then DECOMMISSIONED else UNSTAKED)\<rparr>"
  have q: "simulated C lb sn [] sn1" by (rule simulated_quiet) (simp_all add: sn1_def db_keeps_refl)
  show ?thesis
  proof (cases is_ready)
    case True
    let ?r = "if ev_new_swarms events \<noteq> [] then bootstrap_swarms C now (ev_new_swarms events) sn1 else (sn1, [])"
    obtain sn2 out2 where r: "?r = (sn2, out2)" by (rule prod.exhaust)
    let ?r' = "if ev_dissolved events then bootstrap_swarms C now [] sn2 else (sn2, [])"
    obtain out3 where r': "?r' = (sn', out3)" "out = out2 @ out3"
      using assms True r unfolding announce_swarms_def Let_def sn1_def [symmetric] by (auto split: prod.splits)
    have "simulated C lb sn1 out2 sn2" "simulated C lb sn2 out3 sn'"
      using r r'(1) simulated_bootstrap simulated_refl by (auto split: if_splits)
    then show ?thesis using simulated_trans [OF q simulated_trans] by (simp add: r'(2))
  next
    case False
    then show ?thesis using assms q unfolding announce_swarms_def Let_def sn1_def [symmetric] by simp
  qed
qed

lemma simulated_snodes_update:
  assumes "on_snodes_update C now bu sn = (sn', out, fin)"
  shows "simulated C lb sn out sn'"
proof -
  define sn1 where "sn1 = sn\<lparr>hardfork := (bu_hardfork bu, bu_snode_revision bu),
     syncing := still_syncing bu (sn\<lparr>hardfork := (bu_hardfork bu, bu_snode_revision bu)\<rparr>)\<rparr>"
  define sn2 where "sn2 = sn1\<lparr>block_height := bu_height bu, block_hash := bu_block_hash bu\<rparr>"
  define sn3 where "sn3 = sn2\<lparr>active := (active sn2 \<or> fst (snode_ready sn2))\<rparr>"
  have q: "simulated C lb sn [] sn1" "simulated C lb sn [] sn3"
    by (rule simulated_quiet; simp add: sn1_def sn2_def sn3_def db_keeps_refl)+
  obtain sn4 ev where u: "node_update bu sn3 = (sn4, ev)" by (rule prod.exhaust)
  consider (early) "sn' = sn1" "out = []" | (failed) "sn' = sn4" "out = []"
    | (through) events out' where "ev = Some events" "announce_swarms C now (fst (snode_ready sn2)) bu events sn4 = (sn', out')"
        "out = [Drop_Foreign_Monitors] @ out'"
    using assms u unfolding on_snodes_update_def Let_def sn3_def sn2_def sn1_def by (auto split: if_splits option.splits prod.splits)
  then show ?thesis
  proof cases
    case early
    then show ?thesis using q(1) by simp
  next
    case failed
    then show ?thesis using simulated_trans [OF q(2) simulated_update [OF u]] by simp
  next
    case (through events out')
    have "simulated C lb sn4 [Drop_Foreign_Monitors] sn4" by (rule simulated_quiet) (simp_all add: db_keeps_refl)
    from simulated_trans [OF simulated_trans [OF q(2) simulated_update [OF u]] simulated_trans [OF this simulated_announce [OF through(2)]]]
    show ?thesis using through(3) by simp
  qed
qed

lemma simulated_service_nodes:
  assumes "on_service_nodes C is_mainnet parse now success dat sn = (sn', out, fin)"
  shows "simulated C lb sn out sn'"
proof -
  let ?sn = "sn\<lparr>updating_swarms := False\<rparr>"
  have q: "simulated C lb sn [] ?sn" by (rule simulated_quiet) (simp_all add: db_keeps_refl)
  consider (early) "sn' = ?sn" "out = []" | (upd) bu sn1 out1 out2 where
      "(if got_first_response ?sn then (?sn, []) else first_response is_mainnet bu ?sn) = (sn1, out1)"
      "on_snodes_update C now bu sn1 = (sn', out2, fin)" "out = out1 @ out2"
    using assms unfolding on_service_nodes_def process_snodes_update_def Let_def
    by (auto split: if_splits sum.splits option.splits prod.splits)
  then show ?thesis
  proof cases
    case early
    then show ?thesis using q by simp
  next
    case (upd bu sn1 out1 out2)
    have "simulated C lb ?sn out1 sn1"
      using upd(1) by (intro simulated_quiet) (auto simp: first_response_def Let_def db_keeps_refl split: if_splits)
    from simulated_trans [OF q simulated_trans [OF this simulated_snodes_update [OF upd(2)]]] show ?thesis by (simp add: upd(3))
  qed
qed

lemma simulated_bootstrap_reply:
  assumes "on_bootstrap_reply parse n counter success dat sn = (sn', out)"
  shows "simulated C lb sn out sn'"
proof -
  define sn1 where "sn1 = (if \<not> success \<or> dat = [] \<or> dat ! 0 \<noteq> ''200'' then sn
     else case dat of _ # body # _ \<Rightarrow> (case parse body of Inr (Some bu) \<Rightarrow> on_bootstrap_update bu sn | _ \<Rightarrow> sn) | _ \<Rightarrow> sn)"
  have q: "simulated C lb sn [] sn1"
    using simulated_refl simulated_bootstrap_update by (auto simp: sn1_def split: list.splits sum.splits option.splits)
  have "(sn', out) = (if counter + 1 = n then node_update_swarms (if target_height sn1 = 0 then sn1\<lparr>syncing := False\<rparr> else sn1) else (sn1, []))"
    using assms unfolding on_bootstrap_reply_def Let_def sn1_def by simp
  then have "simulated C lb sn1 out sn'"
    by (intro simulated_quiet) (auto simp: node_update_swarms_def db_keeps_refl split: if_splits)
  with simulated_trans [OF q this] show ?thesis by simp
qed

lemma simulated_event:
  assumes S: "orders_ok (ne_orders E)" and r: "run_event E ev sn = (sn', out)"
  shows "simulated (ne_codec E) (ne_load_big E) sn out sn'"
proof (cases ev)
  case (Ev_Client x)
  then show ?thesis
    using r db_keeps_op [OF S, of x] by (intro simulated_quiet) (auto simp: db_keeps_refl split: if_splits)
next
  case (Ev_Store disk msg)
  then show ?thesis
    using r db_keeps_op [OF S, of "Op_Store disk msg" "ne_load_big E" "sn_db sn"]
    by (intro simulated_quiet) (auto simp: process_store_def case_prod_unfold Let_def db_keeps_refl split: if_splits)
next
  case (Ev_Push_Batch piece_end failed blob)
  then show ?thesis
    using r db_keeps_op [OF S, of "Op_Bulk_Store piece_end items" "ne_load_big E" "sn_db sn" for items]
    by (intro simulated_quiet)
       (auto simp: process_push_batch_def save_bulk_def db_keeps_refl split: if_splits option.splits sum.splits)
next
  case (Ev_Check_Retries now)
  then show ?thesis using r simulated_retries [OF S] simulated_refl by (auto split: option.splits)
next
  case (Ev_Retry_Done i success parts)
  then show ?thesis
    using r db_keeps_op [OF S, of "Op_Remove_Retry i" "ne_load_big E" "sn_db sn"]
    by (intro simulated_quiet) (auto simp: on_request_done_def db_keeps_refl)
next
  case Ev_Update_Swarms
  then show ?thesis using r by (intro simulated_quiet) (auto simp: node_update_swarms_def db_keeps_refl split: if_splits)
next
  case Ev_Sync_Timeout
  then show ?thesis using r by (intro simulated_quiet) (auto simp: sync_timeout_def db_keeps_refl)
next
  case Ev_Shutdown
  then show ?thesis using r by (intro simulated_quiet) (auto simp: node_shutdown_def db_keeps_refl)
qed (use r in \<open>auto intro: simulated_new_members simulated_data_ready simulated_handshake simulated_check_dumps
     simulated_deliveries simulated_service_nodes simulated_bootstrap_reply split: prod.splits\<close>)

section \<open>The node refines the dumps\<close>

lemma node_reply_refines:
  assumes b: "b \<in> set sent" "b_live b" "0 < b_left b" and r: "node_dump_reply C now (b_key b) (b_last b) (b_gen b) ok sn = (sn', out)"
  shows "dump_step C lb (dump_view sn (sent, em)) (dump_view sn' (fold log_output out (map (answer b ok) sent, em)))"
proof -
  obtain d reads where d: "on_dump_batch_reply C (sn_network sn) now (b_key b) (b_last b) (b_gen b) ok (node_dumps sn) = (d, reads)"
    by (rule prod.exhaust)
  have e: "sn' = set_dumps d sn" "out = [Dump_Batches [(b_key b, b_gen b, reads)]]" using r by (simp_all add: node_dump_reply_def d)
  have "record_reads [(b_key b, b_gen b, reads)] ((dump_view sn (sent, em))\<lparr>ds_node := d, ds_sent := map (answer b ok) sent\<rparr>) =
      dump_view sn' (fold log_output out (map (answer b ok) sent, em))"
    by (simp add: e record_reads_def dump_view_def log_reads_def)
  then show ?thesis
    using dump_step.reply [of b "dump_view sn (sent, em)" C now ok d reads lb] b d by (simp add: dump_view_def)
qed

lemma reachable_steps: "(dump_step C lb)\<^sup>*\<^sup>* s s' \<Longrightarrow> dump_reachable C lb s \<Longrightarrow> dump_reachable C lb s'"
  by (induction rule: rtranclp_induct) (auto intro: dump_reachable.step)

lemma reply_db_inv:
  assumes "on_dump_batch_reply C nw now key l g ok st = (st', reads)" and "db_inv lb (dn_db st)"
  shows "db_inv lb (dn_db st')"
  using assms(1) dump_ops_inv(2) [OF assms(2)] assms(2) advance_db_inv [of C nw now key _ _ st' reads lb]
  by (auto simp: on_dump_batch_reply_def pause_dump_def erase_window_def Let_def split: option.splits if_splits prod.splits)

lemma node_refines:
  assumes S: "orders_ok (ne_orders E)" and "node_reachable E s"
  shows "dump_reachable (ne_codec E) (ne_load_big E) (dump_view (fst s) (snd s)) \<and> db_inv (ne_load_big E) (sn_db (fst s))"
  using assms(2)
proof induction
  case (start force skip pk)
  have "dump_map empty_database = Map.empty" by (auto simp: dump_map_def recipient_of_def empty_database_def)
  from dump_reachable.start [OF db_inv_empty this] show ?case
    by (simp add: dump_view_def initial_node_def initial_swarm_def node_dumps_def db_inv_empty)
next
  case (step s s')
  from step(2) show ?case
  proof cases
    case (event ev sn sn' out g)
    have "db_inv (ne_load_big E) (sn_db sn')"
        "(dump_step (ne_codec E) (ne_load_big E))\<^sup>*\<^sup>* (dump_view sn g) (dump_view sn' (fold log_output out g))"
      using step.IH simulated_event [OF S event(3)] unfolding simulated_def event(1) fst_conv by blast+
    then show ?thesis using step.IH reachable_steps by (simp add: event(1,2))
  next
    case (dump_reply b sent now ok sn sn' out em)
    then have "dump_reachable (ne_codec E) (ne_load_big E) (dump_view sn (sent, em))" "db_inv (ne_load_big E) (sn_db sn)"
      using step.IH by simp_all
    moreover obtain d reads where d: "on_dump_batch_reply (ne_codec E) (sn_network sn) now (b_key b) (b_last b) (b_gen b) ok (node_dumps sn) = (d, reads)"
      by (rule prod.exhaust)
    have "db_inv (ne_load_big E) (sn_db sn')" if "db_inv (ne_load_big E) (sn_db sn)"
      using dump_reply(6) reply_db_inv [OF d, of "ne_load_big E"] that by (auto simp: node_dump_reply_def d) (simp add: node_dumps_def)
    ultimately show ?thesis
      using dump_reply(1,2) dump_reachable.step [OF _ node_reply_refines [OF dump_reply(3-6)]] by simp
  next
    case (restart sn sent em force skip pk nw)
    let ?C = "ne_codec E" and ?lb = "ne_load_big E" and ?s = "dump_view sn (sent, em)"
    let ?s1 = "?s\<lparr>ds_node := (ds_node ?s)\<lparr>dump_windows := Map.empty, dump_generation := 0\<rparr>,
       ds_sent := map (\<lambda>b. b\<lparr>b_live := False\<rparr>) (ds_sent ?s)\<rparr>"
    have "dump_reachable ?C ?lb (?s1\<lparr>ds_network := nw\<rparr>)"
      using step.IH restart(1) dump_reachable.step [OF dump_reachable.step [OF _ dump_step.restart] dump_step.network] by fastforce
    then show ?thesis using step.IH restart by (simp add: dump_view_def initial_node_def initial_swarm_def node_dumps_def)
  qed
qed

definition sample_env :: node_env where
  "sample_env = \<lparr>ne_codec = plain_bt, ne_load_big = big_endian, ne_orders = stable_orders, ne_mainnet = True, ne_hex = plain_hex,
     ne_parse = (\<lambda>s. Inl Failed_To_Parse), ne_read_payload = (\<lambda>s. None), ne_version_info = (\<lambda>v. []), ne_version = (2, 13, 0),
     ne_stream_full = [], ne_bootstrap_nodes = 3\<rparr>"

text \<open>
  C3: Whatever happens to a node, its dumps behave as the system of the dumps alone: stores,
  pushed batches, client requests, handshakes, swarm updates, bootstrap answers, deliveries,
  retries, timers and restarts, in any order, never take the dumps or their batches to a state that
  the dumps do not reach by themselves. What is proved of the dumps therefore holds of the node.
\<close>

theorem node_refines_dumps:
  assumes "orders_ok (ne_orders E)" and "node_reachable E (sn, g)"
  shows "dump_reachable (ne_codec E) (ne_load_big E) (dump_view sn g)"
  using node_refines [OF assms] by simp

theorem node_refines_dumps_witness:
  "dump_reachable plain_bt big_endian
     (dump_view (set_db (fst (store_message big_endian Disk_Ok sample_message empty_database))
        (initial_node False False ''us'' empty_network empty_database)) ([], []))"
proof -
  let ?sn = "initial_node False False ''us'' empty_network empty_database"
  let ?sn' = "set_db (fst (store_message big_endian Disk_Ok sample_message empty_database)) ?sn"
  have e: "run_event sample_env (Ev_Client (Op_Store Disk_Ok sample_message)) ?sn = (?sn', [])"
    by (simp add: sample_env_def initial_node_def initial_swarm_def)
  have "node_reachable sample_env (?sn', fold log_output [] ([], []))"
    by (rule node_reachable.step [OF node_reachable.start node_step.event [OF e]])
  then have r: "node_reachable sample_env (?sn', ([], []))" by simp
  from node_refines_dumps [OF _ r] show ?thesis by (simp add: sample_env_def stable_orders_ok)
qed

end
