(* ===== verification/Node_Facts.thy ===== *)
theory Node_Facts
  imports Service_Node
begin

text \<open>
  What the operations of the service node achieve: the lists that oxend sends are turned into
  well-formed swarms, a new block is taken over completely, members of new swarms get their
  messages, handshakes are repeated until the dump they ask for is promised, and a pushed batch
  arrives.
\<close>

section \<open>Lists from oxend\<close>

text \<open>
  The nodes a list of entries names, with the swarm each is in.
\<close>

definition listed_in :: "(string \<Rightarrow> string option) \<Rightarrow> oxend_state list \<Rightarrow> legacy_pubkey \<Rightarrow> swarm_id_t \<Rightarrow> bool" where
  "listed_in key_from_hex xs pk i \<longleftrightarrow> (\<exists>x \<in> set xs. key_from_hex (ox_pubkey x) = Some pk \<and> ox_swarm_id x = i)"

definition update_wf :: "block_update \<Rightarrow> bool" where
  "update_wf bu \<longleftrightarrow> swarms_wf (bu_swarms bu) \<and> sorted_wrt (<) (map fst (bu_contacts bu))
     \<and> INVALID_SWARM_ID \<notin> set (swarm_ids (bu_swarms bu))
     \<and> (\<forall>i ms. map_of (bu_swarms bu) i = Some ms \<longrightarrow> ms \<noteq> [] \<and> sorted ms \<and> set ms \<subseteq> fst ` set (bu_contacts bu))"

definition in_swarm :: "block_update \<Rightarrow> legacy_pubkey \<Rightarrow> swarm_id_t \<Rightarrow> bool" where
  "in_swarm bu pk i \<longleftrightarrow> (\<exists>ms. map_of (bu_swarms bu) i = Some ms \<and> pk \<in> set ms)"

lemma swarms_wfI: "sorted_wrt (<) (map fst sw) \<Longrightarrow> (\<And>i ms. map_of sw i = Some ms \<Longrightarrow> distinct ms) \<Longrightarrow> swarms_wf sw"
  by (auto simp: swarms_wf_def swarm_ids_def list_all_iff) (metis map_of_is_SomeI strict_sorted_iff)

lemma swarms_wfD: "swarms_wf sw \<Longrightarrow> sorted_wrt (<) (map fst sw)" "swarms_wf sw \<Longrightarrow> map_of sw i = Some ms \<Longrightarrow> distinct ms"
  by (auto simp: swarms_wf_def swarm_ids_def list_all_iff dest: map_of_SomeD)

lemma add_to_swarm_lookup:
  assumes "swarms_wf sw"
  shows "map_of (add_to_swarm i pk sw) = (map_of sw)(i \<mapsto> insort_insert pk (case map_of sw i of Some m \<Rightarrow> m | None \<Rightarrow> []))"
  unfolding add_to_swarm_def by (rule map_put_lookup [OF swarms_wfD(1) [OF assms]])

lemma add_state_wf:
  assumes wf: "update_wf bu" and pk: "pk \<in> fst ` set (bu_contacts bu)" and i: "i \<noteq> INVALID_SWARM_ID"
  shows "update_wf (bu\<lparr>bu_swarms := add_to_swarm i pk (bu_swarms bu)\<rparr>)"
proof -
  let ?sw = "bu_swarms bu" and ?old = "case map_of (bu_swarms bu) i of Some m \<Rightarrow> m | None \<Rightarrow> []"
  have s: "swarms_wf ?sw" using wf by (simp add: update_wf_def)
  have old: "sorted ?old" "distinct ?old" "set ?old \<subseteq> fst ` set (bu_contacts bu)"
    using wf swarms_wfD(2) [OF s] unfolding update_wf_def by (cases "map_of ?sw i"; simp)+
  note look = add_to_swarm_lookup [OF s, of i pk]
  have new: "sorted (insort_insert pk ?old)" "distinct (insort_insert pk ?old)" "insort_insert pk ?old \<noteq> []"
      "set (insort_insert pk ?old) = insert pk (set ?old)"
    using old(1,2) sorted_insort_insert distinct_insort_insert set_insort_insert [of pk ?old] by auto
  have "swarms_wf (add_to_swarm i pk ?sw)"
    by (rule swarms_wfI) (use map_put_sorted [OF swarms_wfD(1) [OF s]] look new(2) swarms_wfD(2) [OF s] in
        \<open>auto simp: add_to_swarm_def split: if_splits\<close>)
  moreover have "INVALID_SWARM_ID \<notin> set (swarm_ids (add_to_swarm i pk ?sw))"
    using wf i by (auto simp: update_wf_def swarm_ids_def add_to_swarm_def map_put_keys)
  ultimately show ?thesis using wf look new old(3) pk by (auto simp: update_wf_def)
qed

lemma add_states_spec:
  assumes "add_states kh us xs bu = Inr bu'" and "update_wf bu"
  shows "update_wf bu' \<and> (\<forall>pk i. in_swarm bu' pk i \<longleftrightarrow> in_swarm bu pk i \<or> i \<noteq> INVALID_SWARM_ID \<and> listed_in kh xs pk i)
     \<and> (bu_decommed bu' \<longleftrightarrow> bu_decommed bu \<or> listed_in kh xs us INVALID_SWARM_ID)
     \<and> fst ` set (bu_contacts bu') = fst ` set (bu_contacts bu) \<union> {pk. \<exists>i. listed_in kh xs pk i}
     \<and> bu_height bu' = bu_height bu \<and> bu_block_hash bu' = bu_block_hash bu"
  using assms
proof (induction xs arbitrary: bu)
  case Nil
  then show ?case by (auto simp: listed_in_def)
next
  case (Cons x xs)
  obtain pk c where x: "kh (ox_pubkey x) = Some pk" "state_contact kh x = Some c"
    using Cons.prems(1) by (auto split: option.splits)
  define bu1 where "bu1 = bu\<lparr>bu_contacts := map_put pk c (bu_contacts bu)\<rparr>"
  define bu2 where "bu2 = (if ox_swarm_id x \<noteq> INVALID_SWARM_ID then bu1\<lparr>bu_swarms := add_to_swarm (ox_swarm_id x) pk (bu_swarms bu1)\<rparr>
                else if pk = us then bu1\<lparr>bu_decommed := True\<rparr> else bu1)"
  have a: "add_states kh us xs bu2 = Inr bu'"
    using Cons.prems(1) unfolding add_states.simps x prod.case option.case Let_def bu1_def [symmetric] bu2_def [symmetric] .
  have keys: "fst ` set (bu_contacts bu1) = insert pk (fst ` set (bu_contacts bu))" by (simp add: bu1_def map_put_keys)
  have w1: "update_wf bu1"
    using Cons.prems(2) map_put_sorted [of "bu_contacts bu" pk c] unfolding update_wf_def keys by (simp add: bu1_def) blast
  then have "update_wf (bu1\<lparr>bu_decommed := True\<rparr>)" by (simp add: update_wf_def)
  then have w2: "update_wf bu2" using add_state_wf [OF w1, of pk] keys w1 by (simp add: bu2_def)
  have s: "swarms_wf (bu_swarms bu1)" using w1 by (simp add: update_wf_def)
  have m: "in_swarm bu2 q i \<longleftrightarrow> in_swarm bu q i \<or> i \<noteq> INVALID_SWARM_ID \<and> q = pk \<and> i = ox_swarm_id x" for q i
    using add_to_swarm_lookup [OF s, of "ox_swarm_id x" pk]
    by (auto simp: in_swarm_def bu2_def bu1_def set_insort_insert split: option.splits if_splits)
  have l: "listed_in kh (x # xs) q i \<longleftrightarrow> q = pk \<and> i = ox_swarm_id x \<or> listed_in kh xs q i" for q i
    using x(1) by (auto simp: listed_in_def)
  have d: "bu_decommed bu2 \<longleftrightarrow> bu_decommed bu \<or> us = pk \<and> ox_swarm_id x = INVALID_SWARM_ID"
      "fst ` set (bu_contacts bu2) = insert pk (fst ` set (bu_contacts bu))" "bu_height bu2 = bu_height bu" "bu_block_hash bu2 = bu_block_hash bu"
    using keys by (auto simp: bu2_def bu1_def)
  show ?case using Cons.IH [OF a w2] unfolding m l d by auto
qed

text \<open>
  C18: An answer of oxend that parses gives well-formed swarms whatever order and however often its
  entries name nodes: increasing ids without the invalid one, members sorted and without
  duplicates, no empty swarm, contact details for every member; a node is in a swarm exactly
  if an entry says so, and we are taken as decommissioned exactly if an entry lists us without a
  swarm.
\<close>

theorem parsed_update_wf:
  assumes "parse_swarm_update read_json kh body us = Inr (Some bu)"
  shows "\<exists>r. read_json body = Some r \<and> swarms_wf (bu_swarms bu) \<and> INVALID_SWARM_ID \<notin> set (swarm_ids (bu_swarms bu))
     \<and> (\<forall>i ms. map_of (bu_swarms bu) i = Some ms \<longrightarrow> ms \<noteq> [] \<and> sorted ms \<and> set ms \<subseteq> fst ` set (bu_contacts bu))
     \<and> sorted_wrt (<) (map fst (bu_contacts bu))
     \<and> (\<forall>pk i. (\<exists>ms. map_of (bu_swarms bu) i = Some ms \<and> pk \<in> set ms) \<longleftrightarrow> i \<noteq> INVALID_SWARM_ID \<and> listed_in kh (ox_states r) pk i)
     \<and> (bu_decommed bu \<longleftrightarrow> listed_in kh (ox_states r) us INVALID_SWARM_ID) \<and> bu_height bu = ox_height r"
proof -
  obtain r where r: "read_json body = Some r"
      "add_states kh us (ox_states r) \<lparr>bu_swarms = [], bu_contacts = [], bu_decommed = False, bu_height = ox_height r,
         bu_block_hash = ox_block_hash r, bu_hardfork = ox_hardfork r, bu_snode_revision = ox_revision r\<rparr> = Inr bu"
    using assms by (auto simp: parse_swarm_update_def split: if_splits option.splits sum.splits)
  from add_states_spec [OF r(2)] show ?thesis
    using r(1) by (simp add: update_wf_def swarms_wf_def swarm_ids_def in_swarm_def) blast
qed

definition sample_state :: "string \<Rightarrow> swarm_id_t \<Rightarrow> oxend_state" where
  "sample_state pk i = \<lparr>ox_pubkey = pk, ox_x25519 = [], ox_ed25519 = [], ox_ip = 1, ox_storage_port = 1, ox_lmq_port = 1,
     ox_version = (2, 13, 0), ox_swarm_id = i\<rparr>"

definition sample_nodes :: "string \<Rightarrow> oxend_nodes option" where
  "sample_nodes s = Some \<lparr>ox_unchanged = False, ox_height = 7, ox_block_hash = ''h'', ox_hardfork = 19, ox_revision = 6,
     ox_states = [sample_state ''b'' 5, sample_state ''a'' 5, sample_state ''us'' INVALID_SWARM_ID]\<rparr>"

theorem parsed_update_wf_witness:
  "\<exists>bu. parse_swarm_update sample_nodes Some ''x'' ''us'' = Inr (Some bu) \<and> bu_swarms bu = [(5, [''a'', ''b''])] \<and> swarms_wf (bu_swarms bu) \<and> bu_decommed bu"
proof -
  have five: "(5 :: swarm_id_t) \<noteq> INVALID_SWARM_ID" by (simp add: INVALID_SWARM_ID_def)
  have "\<exists>bu. parse_swarm_update sample_nodes Some ''x'' ''us'' = Inr (Some bu) \<and> bu_swarms bu = [(5, [''a'', ''b''])] \<and> bu_decommed bu"
    using five by (simp add: parse_swarm_update_def sample_nodes_def sample_state_def state_contact_def optional_key_def add_to_swarm_def
        insort_insert_key_def less_char_def)
  then show ?thesis using parsed_update_wf [of sample_nodes Some "''x''" "''us''"] by blast
qed

section \<open>Queueing dumps\<close>

text \<open>What queueing dumps leaves as it was.\<close>

definition db_same :: "database \<Rightarrow> database \<Rightarrow> bool" where
  "db_same db db' \<longleftrightarrow> owners db' = owners db \<and> messages db' = messages db \<and> state_swarm db' = state_swarm db"

definition dumps_only :: "service_node \<Rightarrow> service_node \<Rightarrow> bool" where
  "dumps_only sn sn' \<longleftrightarrow> (\<exists>d. sn' = set_dumps d sn \<and> db_same (sn_db sn) (dn_db d))"

lemma db_same_ops:
  "db_same db (queue_dump pk s e db)" "db_same db (update_dump pk s n t db)" "db_same db (remove_dump pk s db)"
  by (auto simp: db_same_def queue_dump_def update_dump_def remove_dump_def insert_pending_recipient_def Let_def split: option.splits)

lemma advance_same: "advance_dump C nw now key w st = (st', reads) \<Longrightarrow> db_same (dn_db st) (dn_db st')"
  by (erule advance_cases) (simp_all add: finish_dump_def pause_dump_def erase_window_def db_same_ops, simp_all add: db_same_def)

lemma check_same: "check_dump C nw now d st = (st', out) \<Longrightarrow> db_same (dn_db st) (dn_db st')"
  using advance_same [of C nw now _ _ _ st']
  by (fastforce simp: check_dump_def Let_def db_same_def split: option.splits if_splits prod.splits)

lemma check_loop_same: "check_dumps_loop C nw now ds st = (st', out) \<Longrightarrow> db_same (dn_db st) (dn_db st')"
proof (induction ds arbitrary: st out)
  case (Cons d ds)
  then show ?case using check_same [of C nw now d st] by (fastforce simp: db_same_def split: prod.splits)
qed (simp add: db_same_def)

lemma node_queue_out:
  assumes "node_queue_dump C now pk i sn = (sn', out)"
  shows "dumps_only sn sn' \<and> (\<exists>reads. out = [Queued_Dump (pk, i) reads])"
proof -
  obtain d reads where q: "sn_queue_dump C (sn_network sn) now pk i (node_dumps sn) = (d, reads)" by (rule prod.exhaust)
  have "db_same (sn_db sn) (dn_db d)"
    using check_loop_same [OF q [unfolded sn_queue_dump_def check_dumps_locked_def Let_def]] db_same_ops(1) [of "sn_db sn" pk i]
    by (auto simp: erase_window_def node_dumps_def db_same_def)
  then show ?thesis using assms by (auto simp: node_queue_dump_def q dumps_only_def)
qed

lemma dumps_only_refl: "dumps_only sn sn"
  unfolding dumps_only_def by (rule exI [of _ "node_dumps sn"]) (simp add: set_dumps_def node_dumps_def set_db_def db_same_def)

lemma dumps_only_trans: "dumps_only a b \<Longrightarrow> dumps_only b c \<Longrightarrow> dumps_only a c"
  by (auto simp: dumps_only_def set_dumps_def set_db_def db_same_def)

lemma dumps_only_frame:
  assumes "dumps_only sn sn'"
  shows "sn_network sn' = sn_network sn" "our_pk (sn_swarm sn') = our_pk (sn_swarm sn)" "owners (sn_db sn') = owners (sn_db sn)"
    "cur_swarm_id (sn_swarm sn') = cur_swarm_id (sn_swarm sn)" "state_swarm (sn_db sn') = state_swarm (sn_db sn)"
    "sn_status sn' = sn_status sn" "block_hash sn' = block_hash sn" "block_height sn' = block_height sn" "hardfork sn' = hardfork sn"
    "syncing sn' = syncing sn" "sw_members (sn_swarm sn') = sw_members (sn_swarm sn)"
  using assms by (auto simp: dumps_only_def set_dumps_def set_db_def db_same_def)

definition queued :: "sn_output list \<Rightarrow> dump_key set" where
  "queued out = {key. \<exists>reads. Queued_Dump key reads \<in> set out}"

lemma queued_append: "queued (a @ b) = queued a \<union> queued b" and queued_Nil: "queued [] = {}"
  by (auto simp: queued_def)

lemma bootstrap_members_out:
  assumes "bootstrap_members C now i pks sn = (sn', out)"
  shows "dumps_only sn sn' \<and> queued out = (\<lambda>pk. (pk, i)) ` (set pks - {our_pk (sn_swarm sn)})"
  using assms
proof (induction pks arbitrary: sn out)
  case (Cons pk pks)
  let ?r = "if pk \<noteq> our_pk (sn_swarm sn) then node_queue_dump C now pk i sn else (sn, [])"
  obtain sn1 out1 where r: "?r = (sn1, out1)" by (rule prod.exhaust)
  obtain out2 where b: "bootstrap_members C now i pks sn1 = (sn', out2)" "out = out1 @ out2"
    using Cons.prems r by (auto simp: Let_def split: prod.splits)
  have o1: "dumps_only sn sn1" "queued out1 = (if pk \<noteq> our_pk (sn_swarm sn) then {(pk, i)} else {})"
    using r node_queue_out [of C now pk i sn] dumps_only_refl by (auto simp: queued_def split: if_splits)
  from Cons.IH [OF b(1)] show ?case
    using dumps_only_trans [OF o1(1)] o1(2) dumps_only_frame(2) [OF o1(1)] by (auto simp: b(2) queued_append)
qed (simp add: queued_def dumps_only_refl)

definition owns_range :: "service_node \<Rightarrow> swarm_id_t \<Rightarrow> bool" where
  "owns_range sn i \<longleftrightarrow> (\<exists>lower upper. swarm_boundaries (nw_swarms (sn_network sn)) i = Inr (lower, upper)
     \<and> has_owners_in_range lower upper (sn_db sn))"

lemma bootstrap_targets_out:
  assumes "bootstrap_targets C now is sn = (sn', out)"
  shows "dumps_only sn sn' \<and> queued out = {(pk, i). i \<in> set is \<and> owns_range sn i \<and> pk \<noteq> our_pk (sn_swarm sn)
     \<and> (\<exists>ms. get_swarm (nw_swarms (sn_network sn)) i = Some ms \<and> pk \<in> set ms)}"
  using assms
proof (induction "is" arbitrary: sn out)
  case (Cons i "is")
  let ?r = "case (get_swarm (nw_swarms (sn_network sn)) i, swarm_boundaries (nw_swarms (sn_network sn)) i) of
      (Some members, Inr (lower, upper)) \<Rightarrow>
        if has_owners_in_range lower upper (sn_db sn) then bootstrap_members C now i members sn else (sn, [])
    | _ \<Rightarrow> (sn, [])"
  obtain sn1 out1 where r: "?r = (sn1, out1)" by (rule prod.exhaust)
  obtain out2 where b: "bootstrap_targets C now is sn1 = (sn', out2)" "out = out1 @ out2"
    using Cons.prems r by (auto simp: Let_def split: prod.splits)
  have o1: "dumps_only sn sn1" "queued out1 = {(pk, j). j = i \<and> owns_range sn i \<and> pk \<noteq> our_pk (sn_swarm sn)
     \<and> (\<exists>ms. get_swarm (nw_swarms (sn_network sn)) i = Some ms \<and> pk \<in> set ms)}"
    using r bootstrap_members_out [of C now i _ sn sn1 out1] dumps_only_refl
    by (auto simp: owns_range_def queued_Nil split: option.splits sum.splits prod.splits if_splits)
  note f = dumps_only_frame(1,2,3) [OF o1(1)]
  have "owns_range sn1 j = owns_range sn j" for j using f by (simp add: owns_range_def has_owners_in_range_def)
  with Cons.IH [OF b(1)] show ?case using dumps_only_trans [OF o1(1)] f(1,2) unfolding b(2) queued_append o1(2) by auto
qed (simp add: queued_Nil dumps_only_refl)

lemma owns_range_assigned:
  assumes inv: "db_inv lb (sn_db sn)" and wf: "swarms_wf (nw_swarms (sn_network sn))"
    and i: "get_swarm (nw_swarms (sn_network sn)) i = Some ms"
    and adj: "\<not> (length (nw_swarms (sn_network sn)) = 2 \<and> i + 1 \<in> set (swarm_ids (nw_swarms (sn_network sn))))"
  shows "owns_range sn i \<longleftrightarrow> (\<exists>w \<in> set (owners (sn_db sn)).
     get_swarm_id_for lb (nw_swarms (sn_network sn)) \<lparr>network = 0, pubkey = take 32 (o_pubkey w)\<rparr> = Some i)"
proof -
  have m: "(i, ms) \<in> set (nw_swarms (sn_network sn))" using i by (auto simp: get_swarm_def dest: map_of_SomeD)
  show ?thesis
    using boundaries_owned [OF wf m adj, of lb] has_owners_iff [OF inv] by (auto simp: owns_range_def owner_space_def)
qed

text \<open>
  C10: When swarms appear, or ours is dissolved, dumps are queued for exactly the right nodes: each
  member but ourselves of each swarm concerned that owns an account we hold messages of, by the
  same assignment that clients are directed with. Two swarms with adjacent ids are left out, where
  the boundaries are wrong.
\<close>

theorem bootstrap_targets_exact:
  assumes "db_inv lb (sn_db sn)" and "swarms_wf (nw_swarms (sn_network sn))" and "length (nw_swarms (sn_network sn)) = 2 \<longrightarrow> (\<forall>s \<in> set (swarm_ids (nw_swarms (sn_network sn))). s + 1 \<notin> set (swarm_ids (nw_swarms (sn_network sn))))"
    and "bootstrap_swarms C now swarms sn = (sn', out)"
  shows "{key. \<exists>reads. Queued_Dump key reads \<in> set out} =
     {(pk, i). (swarms = [] \<or> i \<in> set swarms) \<and> pk \<noteq> our_pk (sn_swarm sn)
       \<and> (\<exists>ms. get_swarm (nw_swarms (sn_network sn)) i = Some ms \<and> pk \<in> set ms)
       \<and> (\<exists>w \<in> set (owners (sn_db sn)).
            get_swarm_id_for lb (nw_swarms (sn_network sn)) \<lparr>network = 0, pubkey = take 32 (o_pubkey w)\<rparr> = Some i)}"
proof -
  note o = bootstrap_targets_out [OF assms(4) [unfolded bootstrap_swarms_def]]
  have known: "i \<in> set (swarm_ids (nw_swarms (sn_network sn)))" if "get_swarm (nw_swarms (sn_network sn)) i = Some ms" for i ms
    using that by (force simp: get_swarm_def swarm_ids_def dest: map_of_SomeD)
  then have "queued out = {(pk, i). (swarms = [] \<or> i \<in> set swarms) \<and> owns_range sn i \<and> pk \<noteq> our_pk (sn_swarm sn)
     \<and> (\<exists>ms. get_swarm (nw_swarms (sn_network sn)) i = Some ms \<and> pk \<in> set ms)}" using o by auto
  moreover have "owns_range sn i \<longleftrightarrow> (\<exists>w \<in> set (owners (sn_db sn)).
     get_swarm_id_for lb (nw_swarms (sn_network sn)) \<lparr>network = 0, pubkey = take 32 (o_pubkey w)\<rparr> = Some i)"
    if g: "get_swarm (nw_swarms (sn_network sn)) i = Some ms" for i ms
    by (rule owns_range_assigned [OF assms(1,2) g]) (use assms(3) known [OF g] in blast)
  ultimately show ?thesis unfolding queued_def by auto
qed

section \<open>New blocks\<close>

lemma announce_frame:
  assumes "announce_swarms C now is_ready bu events sn = (sn', out)"
  shows "dumps_only (sn\<lparr>sn_status := (if ev_our_swarm_id events \<noteq> INVALID_SWARM_ID then ACTIVE
      else if bu_decommed bu then DECOMMISSIONED else UNSTAKED)\<rparr>) sn'"
proof -
  have b: "dumps_only sn sn'" if "bootstrap_swarms C now swarms sn = (sn', out)" for swarms sn sn' out
    using bootstrap_targets_out [OF that [unfolded bootstrap_swarms_def]] by blast
  define sn1 where "sn1 = sn\<lparr>sn_status := (if ev_our_swarm_id events \<noteq> INVALID_SWARM_ID then ACTIVE
      else if bu_decommed bu then DECOMMISSIONED else UNSTAKED)\<rparr>"
  let ?r = "if ev_new_swarms events \<noteq> [] then bootstrap_swarms C now (ev_new_swarms events) sn1 else (sn1, [])"
  obtain sn2 out2 where r: "?r = (sn2, out2)" by (rule prod.exhaust)
  let ?r' = "if ev_dissolved events then bootstrap_swarms C now [] sn2 else (sn2, [])"
  obtain sn3 out3 where r': "?r' = (sn3, out3)" by (rule prod.exhaust)
  have "sn' = (if is_ready then sn3 else sn1)"
    using assms r r' unfolding announce_swarms_def Let_def sn1_def [symmetric] by (auto split: if_splits)
  moreover have "dumps_only sn1 sn2" "dumps_only sn2 sn3" using r r' b dumps_only_refl by (auto split: if_splits)
  ultimately show ?thesis unfolding sn1_def [symmetric] using dumps_only_trans dumps_only_refl by auto
qed

lemma our_swarm_of:
  assumes "swarms_wf swarms" and "INVALID_SWARM_ID \<notin> set (swarm_ids swarms)"
  shows "(ev_our_swarm_id (derive_swarm_events swarms st) = INVALID_SWARM_ID \<longrightarrow> (\<forall>(i, ms) \<in> set swarms. our_pk st \<notin> set ms))
     \<and> (ev_our_swarm_id (derive_swarm_events swarms st) \<noteq> INVALID_SWARM_ID \<longrightarrow>
          (\<exists>ms. map_of swarms (ev_our_swarm_id (derive_swarm_events swarms st)) = Some ms \<and> our_pk st \<in> set ms))"
proof (cases "List.find (\<lambda>(_, members). our_pk st \<in> set members) swarms")
  case None
  then have "\<forall>(i, ms) \<in> set swarms. our_pk st \<notin> set ms" by (auto simp: find_None_iff)
  moreover have "ev_our_swarm_id (derive_swarm_events swarms st) = INVALID_SWARM_ID" using None by (simp add: derive_swarm_events_def Let_def)
  ultimately show ?thesis by simp
next
  case (Some x)
  obtain i ms where x: "x = (i, ms)" by (rule prod.exhaust)
  have f: "(i, ms) \<in> set swarms" "our_pk st \<in> set ms" using find_Some_in [OF Some] by (auto simp: x)
  have "i \<noteq> INVALID_SWARM_ID" using f(1) assms(2) by (force simp: swarm_ids_def)
  moreover have "map_of swarms i = Some ms" using swarms_wfD(1) [OF assms(1)] f(1) by (simp add: strict_sorted_iff)
  ultimately show ?thesis using f(2) Some by (simp add: derive_swarm_events_def Let_def x)
qed

text \<open>
  C17: A list from oxend is taken over completely or not at all: while the node is behind the
  height it was told of, or the block is the one it has, nothing but the hard fork and the
  syncing flag change; otherwise the new swarms are in effect, the node is in the swarm that lists
  it, its status says so, the swarm is stored, and the block is the new one. No list makes the
  update fail.
\<close>

theorem snodes_update_outcome:
  assumes wf: "swarms_wf (bu_swarms bu)" "INVALID_SWARM_ID \<notin> set (swarm_ids (bu_swarms bu))"
    and u: "on_snodes_update C now bu sn = (sn', out, fin)"
  shows "fin \<and> hardfork sn' = (bu_hardfork bu, bu_snode_revision bu)
     \<and> (if (syncing sn \<and> (target_height sn = 0 \<or> bu_height bu < target_height sn)) \<or> bu_block_hash bu = block_hash sn
        then sn' = sn\<lparr>hardfork := hardfork sn', syncing := syncing sn'\<rparr> \<and> out = []
        else \<not> syncing sn' \<and> block_hash sn' = bu_block_hash bu \<and> block_height sn' = bu_height bu
          \<and> nw_swarms (sn_network sn') = bu_swarms bu
          \<and> get_current_swarm (sn_db sn') = Some (cur_swarm_id (sn_swarm sn'))
          \<and> (if \<exists>i ms. map_of (bu_swarms bu) i = Some ms \<and> our_pk (sn_swarm sn) \<in> set ms
             then sn_status sn' = ACTIVE \<and> (\<exists>ms. map_of (bu_swarms bu) (cur_swarm_id (sn_swarm sn')) = Some ms \<and> our_pk (sn_swarm sn) \<in> set ms)
             else sn_status sn' = (if bu_decommed bu then DECOMMISSIONED else UNSTAKED) \<and> cur_swarm_id (sn_swarm sn') = INVALID_SWARM_ID))"
proof -
  define sn1 where "sn1 = sn\<lparr>hardfork := (bu_hardfork bu, bu_snode_revision bu),
     syncing := still_syncing bu (sn\<lparr>hardfork := (bu_hardfork bu, bu_snode_revision bu)\<rparr>)\<rparr>"
  define sn2 where "sn2 = sn1\<lparr>block_height := bu_height bu, block_hash := bu_block_hash bu\<rparr>"
  define sn3 where "sn3 = sn2\<lparr>active := (active sn2 \<or> fst (snode_ready sn2))\<rparr>"
  define ev where "ev = derive_swarm_events (bu_swarms bu) (sn_swarm sn)"
  obtain sw where up: "update_swarms (bu_swarms bu) (bu_contacts bu) (sn_swarm sn) = Some (sw, ev)"
      and sw: "cur_swarm_id sw = ev_our_swarm_id ev" "nw_swarms (sw_network sw) = bu_swarms bu" "get_current_swarm (sw_db sw) = Some (ev_our_swarm_id ev)"
    by (simp add: update_swarms_eq ev_def network_swarms current_swarm_roundtrip)
  have sync: "syncing sn1 \<longleftrightarrow> syncing sn \<and> (target_height sn = 0 \<or> bu_height bu < target_height sn)"
    by (auto simp: sn1_def still_syncing_def)
  show ?thesis
  proof (cases "syncing sn1 \<or> bu_block_hash bu = block_hash sn")
    case True
    then have "sn' = sn1 \<and> out = [] \<and> fin" using u unfolding on_snodes_update_def Let_def sn1_def by (auto split: if_splits)
    moreover have "hardfork sn1 = (bu_hardfork bu, bu_snode_revision bu)" by (simp add: sn1_def)
    moreover have "sn1 = sn\<lparr>hardfork := hardfork sn1, syncing := syncing sn1\<rparr>" by (simp add: sn1_def)
    ultimately show ?thesis using True unfolding sync by auto
  next
    case False
    have n: "node_update bu sn3 = (sn3\<lparr>sn_swarm := sw\<rparr>, Some ev)"
      using up by (simp add: node_update_def sn3_def sn2_def sn1_def)
    obtain out' where a: "announce_swarms C now (fst (snode_ready sn2)) bu ev (sn3\<lparr>sn_swarm := sw\<rparr>) = (sn', out')" "fin"
      using u n False unfolding on_snodes_update_def Let_def sn3_def sn2_def sn1_def by (auto split: if_splits prod.splits)
    note f = dumps_only_frame [OF announce_frame [OF a(1)]]
    define mine where "mine \<longleftrightarrow> (\<exists>i ms. map_of (bu_swarms bu) i = Some ms \<and> our_pk (sn_swarm sn) \<in> set ms)"
    have own: "ev_our_swarm_id ev \<noteq> INVALID_SWARM_ID \<longleftrightarrow> mine"
        "ev_our_swarm_id ev \<noteq> INVALID_SWARM_ID \<longrightarrow> (\<exists>ms. map_of (bu_swarms bu) (ev_our_swarm_id ev) = Some ms \<and> our_pk (sn_swarm sn) \<in> set ms)"
      using our_swarm_of [OF wf, of "sn_swarm sn"] unfolding ev_def mine_def by (fastforce dest: map_of_SomeD)+
    have cs: "get_current_swarm (sn_db sn') = Some (ev_our_swarm_id ev)" using f(5) sw(3) by (simp add: get_current_swarm_def)
    show ?thesis
      using False a(2) f sw cs own unfolding sync [symmetric] mine_def [symmetric]
      by (cases mine) (simp_all add: sn3_def sn2_def sn1_def)
  qed
qed

section \<open>Handshakes\<close>

lemma modify_member_lookup:
  "is_member (modify_member pk f sw) k = (if k = pk then map_option f (is_member sw k) else is_member sw k)"
proof -
  have "map_of (map (\<lambda>(k, s). (k, if k = pk then f s else s)) ms) k = (if k = pk then map_option f (map_of ms k) else map_of ms k)" for ms
    by (induction ms) auto
  then show ?thesis by (simp add: is_member_def modify_member_def)
qed

lemma contact_member_frame: "sw_network (fst (contact_member pk sw)) = sw_network sw"
    "k \<noteq> pk \<Longrightarrow> is_member (fst (contact_member pk sw)) k = is_member sw k"
    "k \<noteq> pk \<Longrightarrow> Data_Ready k b \<notin> set (snd (contact_member pk sw))"
  by (auto simp: contact_member_def modify_member_lookup Let_def split: option.splits) (auto simp: modify_member_def)

lemma contact_members_frame:
  "sw_network (fst (contact_members pks sw)) = sw_network sw \<and>
   (pk \<notin> set pks \<longrightarrow> is_member (fst (contact_members pks sw)) pk = is_member sw pk)"
proof (induction pks arbitrary: sw)
  case (Cons k pks)
  then show ?case using contact_member_frame(1) [of k sw] contact_member_frame(2) [of pk k sw] by (auto simp: case_prod_unfold Let_def)
qed simp

lemma contact_members_lookup:
  assumes "pk \<in> set pks" and "distinct pks"
  shows "\<exists>sw0. is_member sw0 pk = is_member sw pk \<and> sw_network sw0 = sw_network sw
     \<and> is_member (fst (contact_members pks sw)) pk = is_member (fst (contact_member pk sw0)) pk
     \<and> set (snd (contact_member pk sw0)) \<subseteq> set (snd (contact_members pks sw))"
  using assms
proof (induction pks arbitrary: sw)
  case (Cons k pks)
  show ?case
  proof (cases "k = pk")
    case True
    then show ?thesis
      using Cons.prems contact_members_frame [of pks "fst (contact_member pk sw)" pk]
      by (intro exI [of _ sw]) (auto simp: case_prod_unfold Let_def)
  next
    case False
    then show ?thesis
      using Cons.IH [of "fst (contact_member k sw)"] Cons.prems contact_member_frame(1) [of k sw] contact_member_frame(2) [of pk k sw]
      by (fastforce simp: case_prod_unfold Let_def)
  qed
qed simp

lemma extract_lookup:
  "is_member (fst (extract_contact_pending_members now sw)) pk =
     map_option (\<lambda>s. if contact_due now s then s\<lparr>check_contact_info_next_retry := now + NEW_SWARM_MEMBER_RETRY\<rparr> else s) (is_member sw pk)"
proof -
  have "map_of (map (\<lambda>(k, s). (k, f s)) ms) pk = map_option f (map_of ms pk)" for f ms by (induction ms) auto
  then show ?thesis by (simp add: is_member_def extract_contact_pending_members_def)
qed

lemma extract_pending:
  assumes "distinct (map fst (sw_members sw))" and "is_member sw pk = Some s" and "contact_due now s"
  shows "pk \<in> set (snd (extract_contact_pending_members now sw))" and "distinct (snd (extract_contact_pending_members now sw))"
proof -
  have "(pk, s) \<in> set (sw_members sw)" using assms(2) by (auto simp: is_member_def dest: map_of_SomeD)
  then show "pk \<in> set (snd (extract_contact_pending_members now sw))"
    using assms(3) by (force simp: extract_contact_pending_members_def)
  show "distinct (snd (extract_contact_pending_members now sw))"
    unfolding extract_contact_pending_members_def snd_conv by (rule distinct_map_filterI [OF assms(1)])
qed

lemma new_member_contacted:
  assumes d: "distinct (map fst (sw_members (sn_swarm sn)))" and m: "is_member (sn_swarm sn) pk = Some s" "contact_due now s"
    and c: "find_contact (nw_contacts (sn_network sn)) pk = Some c" "contactable c"
      "\<not> version_less (contact.version c) NEW_SWARM_MEMBER_HANDSHAKE_VERSION"
    and n: "check_new_members now sn = (sn1, out)"
  shows "is_member (sn_swarm sn1) pk = Some (underway (s\<lparr>check_contact_info_next_retry := now + NEW_SWARM_MEMBER_RETRY\<rparr>))
     \<and> Data_Ready pk (our_ss_requested_db_dump s = NeedsToRequest) \<in> set out"
proof -
  obtain sw pks where x: "extract_contact_pending_members now (sn_swarm sn) = (sw, pks)" by (rule prod.exhaust)
  have n': "sn_swarm sn1 = fst (contact_members pks sw)" "out = snd (contact_members pks sw)"
    using n by (auto simp: check_new_members_def x split: prod.splits)
  have sw: "is_member sw pk = Some (s\<lparr>check_contact_info_next_retry := now + NEW_SWARM_MEMBER_RETRY\<rparr>)" "sw_network sw = sn_network sn"
    using extract_lookup [of now "sn_swarm sn" pk] m x by (auto simp: extract_contact_pending_members_def)
  obtain sw0 where "is_member sw0 pk = is_member sw pk" "sw_network sw0 = sw_network sw"
      "is_member (sn_swarm sn1) pk = is_member (fst (contact_member pk sw0)) pk" "set (snd (contact_member pk sw0)) \<subseteq> set out"
    using contact_members_lookup [of pk pks sw] extract_pending [OF d m] x unfolding n' by auto
  then show ?thesis using c sw by (auto simp: contact_member_def modify_member_lookup Let_def)
qed

lemma response_member:
  "is_member (sn_swarm (fst (on_sn_data_ready_response C now pk success dat sn))) pk =
     map_option (answered (handshake_ok success dat)) (is_member (sn_swarm sn) pk)"
proof -
  have q: "is_member (sn_swarm sn') k = is_member (sn_swarm sn) k" if "queue_swarm_dump C now pk sn = (sn', out)" for sn sn' out k
    using that node_queue_out [of C now pk _ sn sn' out] dumps_only_frame(11) [of sn sn'] dumps_only_refl
    by (auto simp: queue_swarm_dump_def Let_def is_member_def split: if_splits)
  show ?thesis
    using q [of "sn\<lparr>sn_swarm := modify_member pk (answered (handshake_ok success dat)) (sn_swarm sn)\<rparr>"]
    by (auto simp: on_sn_data_ready_response_def Let_def modify_member_lookup) (metis (no_types, lifting) modify_member_lookup prod.collapse)
qed


lemma contact_members_asked: "Data_Ready pk b \<in> set (snd (contact_members pks sw)) \<Longrightarrow> pk \<in> set pks"
proof (induction pks arbitrary: sw)
  case (Cons k pks)
  then show ?case using contact_member_frame(3) [of pk k b sw] by (auto simp: case_prod_unfold Let_def)
qed simp

text \<open>
  C38: A good answer to a handshake that was sent before we came to want the member's messages
  marks the member as ready: the request that has not been sent yet stays noted, but no later
  check sends it.
\<close>

theorem stale_answer_loses_request:
  assumes "distinct (map fst (sw_members (sn_swarm sn)))"
    and "is_member (sn_swarm sn) pk = Some s" "our_ss_requested_db_dump s = NeedsToRequest"
    and "on_sn_data_ready_response C now pk True [''OK'', info] sn = (sn1, out)" and "check_new_members later sn1 = (sn2, out2)"
  shows "(\<exists>s1. is_member (sn_swarm sn1) pk = Some s1 \<and> our_ss_requested_db_dump s1 = NeedsToRequest \<and> status s1 = Ready)
     \<and> (\<forall>b. Data_Ready pk b \<notin> set out2)"
proof -
  let ?s = "answered True s"
  have m: "is_member (sn_swarm sn1) pk = Some ?s"
    using response_member [of C now pk True "[''OK'', info]" sn] assms(2,4) by (simp add: handshake_ok_def)
  have a: "our_ss_requested_db_dump ?s = NeedsToRequest" "status ?s = Ready" using assms(3) by (simp_all add: answered_def Let_def)
  have "map fst (sw_members (sn_swarm sn1)) = map fst (sw_members (sn_swarm sn))"
    using assms(4) by (auto simp: on_sn_data_ready_response_def handshake_ok_def modify_member_def Let_def split: option.splits if_splits)
  then have d: "distinct (map fst (sw_members (sn_swarm sn1)))" using assms(1) by simp
  obtain sw pks where x: "extract_contact_pending_members later (sn_swarm sn1) = (sw, pks)" by (rule prod.exhaust)
  have "\<not> contact_due later s1" if "(pk, s1) \<in> set (sw_members (sn_swarm sn1))" for s1
    using map_of_is_SomeI [OF d that] m a(2) by (auto simp: is_member_def contact_due_def)
  then have "pk \<notin> set pks" using x by (auto simp: extract_contact_pending_members_def)
  moreover have "out2 = snd (contact_members pks sw)" using assms(5) by (auto simp: check_new_members_def x split: prod.splits)
  ultimately show ?thesis using m a contact_members_asked by blast
qed

section \<open>Pushed batches\<close>

text \<open>The batches of a dump or a delivery, one after the other.\<close>

fun receive_all ::
    "bt_codec \<Rightarrow> bool \<Rightarrow> hex_codec \<Rightarrow> (string \<Rightarrow> u64) \<Rightarrow> (nat \<Rightarrow> bool) \<Rightarrow> string list \<Rightarrow> service_node \<Rightarrow> (service_node \<times> bool list) option" where
  "receive_all C net H lb piece_end [] sn = Some (sn, [])"
| "receive_all C net H lb piece_end (b # bs) sn =
     (case process_push_batch C net H lb piece_end None b sn of
        None \<Rightarrow> None
      | Some (sn, ok) \<Rightarrow> map_option (\<lambda>(sn, oks). (sn, ok # oks)) (receive_all C net H lb piece_end bs sn))"

lemma receive_parts:
  assumes C: "bt_ok C"
  shows "\<forall>ms \<in> set runs. \<forall>m \<in> set ms. sendable m \<Longrightarrow> receive_all C net H lb piece_end (map (part_of C) runs) sn =
     Some (set_db (fold (bulk_item lb) (map in_millis (concat runs)) (sn_db sn)) sn, replicate (length runs) True)"
proof (induction runs arbitrary: sn)
  case Nil
  then show ?case by (simp add: set_db_def)
next
  case (Cons ms runs)
  have "part_of C ms \<noteq> []" by (simp add: part_of_def)
  moreover have "deserialize_messages C net H (part_of C ms) = Some (Inr (map in_millis ms))"
    using deserialize_part [OF C] Cons.prems by simp
  ultimately have p: "process_push_batch C net H lb piece_end None (part_of C ms) sn =
      Some (set_db (fold (bulk_item lb) (map in_millis ms) (sn_db sn)) sn, True)"
    by (simp add: process_push_batch_def save_bulk_def bulk_store_eq)
  show ?case using Cons.IH [of "set_db (fold (bulk_item lb) (map in_millis ms) (sn_db sn)) sn"] Cons.prems
    by (simp add: p) (simp add: set_db_def)
qed

text \<open>
  C9: What one node sends in batches another stores: the parts that \<open>serialize_messages\<close> makes of
  any messages are all acknowledged by \<open>process_push_batch\<close>, and leave the receiver with what
  storing the messages one by one would, their times in whole milliseconds, wherever the sender
  split them and whenever the receiver commits.
\<close>

theorem push_delivers:
  assumes "bt_ok C" and "\<forall>m \<in> set msgs. sendable m"
  shows "\<exists>parts. serialize_messages C msgs SERIALIZATION_VERSION_BT = Some (Inr parts)
     \<and> receive_all C net H lb piece_end parts sn =
         Some (set_db (fold (bulk_item lb) (map in_millis msgs) (sn_db sn)) sn, replicate (length parts) True)"
proof -
  obtain runs where r: "serialize_batches C msgs [] = Some (map (part_of C) runs)" "concat runs = msgs"
    using serialize_batches_spec [OF assms(1), of msgs "[]"] by auto
  have "\<forall>ms \<in> set runs. \<forall>m \<in> set ms. sendable m" using assms(2) r(2) by auto
  from receive_parts [OF assms(1) this, of net H lb piece_end sn] r show ?thesis by (simp add: serialize_messages_def)
qed

text \<open>
  A batch of a version the receiver does not know is acknowledged although nothing of it is
  stored, so that the sender goes on as if it had arrived.
\<close>

theorem unknown_version_acknowledged:
  assumes "blob \<noteq> []" and "of_char (hd blob) \<noteq> SERIALIZATION_VERSION_BT"
  shows "process_push_batch C net H lb piece_end None blob sn = Some (sn, True)"
  using deserialize_other_version [of blob C net H] assms
  by (simp add: process_push_batch_def save_bulk_def bulk_store_eq set_db_def)

theorem unknown_version_acknowledged_witness:
  "process_push_batch plain_bt True plain_hex big_endian (\<lambda>_. False) None [CHR 0x02] (initial_node False False ''us'' empty_network sample_db)
     = Some (initial_node False False ''us'' empty_network sample_db, True)"
  by (rule unknown_version_acknowledged) (simp_all add: SERIALIZATION_VERSION_BT_def)

theorem push_delivers_witness:
  "\<exists>parts sn. serialize_messages plain_bt [sample_message] SERIALIZATION_VERSION_BT = Some (Inr parts)
     \<and> receive_all plain_bt True plain_hex big_endian (\<lambda>_. False) parts (initial_node False False ''us'' empty_network sample_db)
        = Some (sn, replicate (length parts) True)"
proof -
  have "sendable sample_message" by (simp add: sendable_def sample_message_def sample_pubkey_def pubkey_valid_def int64_min_def int64_max_def to_epoch_ms_def)
  then show ?thesis using push_delivers [OF plain_bt_ok, of "[sample_message]" True plain_hex big_endian "\<lambda>_. False" "initial_node False False ''us'' empty_network sample_db"]
    by auto
qed

section \<open>A node with one member in its swarm\<close>

definition member_node :: "SwarmMemberState \<Rightarrow> service_node" where
  "member_node s = (initial_node False False ''a'' dump_network sample_db)\<lparr>sn_swarm :=
     \<lparr>our_pk = ''a'', sw_members = [(''b'', s)], cur_swarm_id = 5, sw_network = dump_network, sw_db = sample_db\<rparr>\<rparr>"

lemma dump_network_contact: "find_contact (nw_contacts dump_network) ''b'' = Some sample_contact" "contactable sample_contact"
    "\<not> version_less (contact.version sample_contact) (2, 10, 0)"
  using sample_keys
  by (simp_all add: dump_network_def update_contact_def contacts_update_def empty_contacts_def find_contact_def contactable_def Let_def
      version_less_def, simp_all add: sample_contact_def)


theorem stale_answer_loses_request_witness:
  "\<forall>b. Data_Ready ''b'' b \<notin> set (snd (check_new_members 0
     (fst (on_sn_data_ready_response plain_bt 0 ''b'' True [''OK'', []] (member_node (new_member\<lparr>our_ss_requested_db_dump := NeedsToRequest\<rparr>))))))"
proof -
  let ?s = "new_member\<lparr>our_ss_requested_db_dump := NeedsToRequest\<rparr>"
  have m: "distinct (map fst (sw_members (sn_swarm (member_node ?s))))" "is_member (sn_swarm (member_node ?s)) ''b'' = Some ?s"
    by (simp_all add: member_node_def is_member_def)
  show ?thesis
    using stale_answer_loses_request [OF m _ prod.collapse [symmetric] prod.collapse [symmetric]] by simp
qed

theorem bootstrap_targets_exact_witness:
  "{key. \<exists>reads. Queued_Dump key reads \<in> set (snd (bootstrap_swarms plain_bt 0 [5] (member_node new_member)))} = {(''b'', 5)}"
proof -
  let ?sn = "member_node new_member"
  have f: "sn_db ?sn = sample_db" "our_pk (sn_swarm ?sn) = ''a''" "nw_swarms (sn_network ?sn) = [(5, [''a'', ''b''])]"
    by (simp_all add: member_node_def dump_network_def)
  have wf: "swarms_wf [(5, [''a'', ''b''])]" by (simp add: swarms_wf_def swarm_ids_def)
  have one: "get_swarm_id_for big_endian [(5, [''a'', ''b''])] pk = Some 5" for pk by (simp add: get_swarm_id_for_def find_swarm_for_def)
  show ?thesis
    using bootstrap_targets_exact [of big_endian ?sn plain_bt 0 "[5]", OF _ _ _ prod.collapse [symmetric]] sample_db_inv wf
    unfolding f by (auto simp: one get_swarm_def) (auto simp: sample_db_def)
qed

definition sample_update :: block_update where
  "sample_update = \<lparr>bu_swarms = [(5, [''a'', ''b''])], bu_contacts = [], bu_decommed = False, bu_height = 9, bu_block_hash = ''h'',
     bu_hardfork = 19, bu_snode_revision = 6\<rparr>"

theorem snodes_update_outcome_witness:
  "sn_status (fst (on_snodes_update plain_bt 0 sample_update ((member_node new_member)\<lparr>syncing := True, target_height := 9\<rparr>))) = ACTIVE"
proof -
  let ?sn = "(member_node new_member)\<lparr>syncing := True, target_height := 9\<rparr>"
  obtain sn' out fin where u: "on_snodes_update plain_bt 0 sample_update ?sn = (sn', out, fin)" by (rule prod_cases3)
  have "\<exists>i ms. map_of (bu_swarms sample_update) i = Some ms \<and> our_pk (sn_swarm ?sn) \<in> set ms"
    by (rule exI [of _ 5]) (simp add: sample_update_def member_node_def)
  moreover have "swarms_wf (bu_swarms sample_update)" "INVALID_SWARM_ID \<notin> set (swarm_ids (bu_swarms sample_update))"
    by (simp_all add: swarms_wf_def swarm_ids_def sample_update_def INVALID_SWARM_ID_def)
  moreover have "block_hash ?sn = []" "bu_block_hash sample_update = ''h''" "bu_height sample_update = 9" by (simp_all add: member_node_def initial_node_def sample_update_def)
  ultimately show ?thesis using snodes_update_outcome [OF _ _ u] u by simp
qed

end
