(* ===== verification/Requests.thy ===== *)
theory Requests
  imports Namespaces Network
begin

text \<open>
  The client requests and their loading (\<open>oxenss/rpc/client_rpc_endpoints.h\<close>,
  \<open>client_rpc_endpoints.cpp\<close>): the fields of a json object or of a bt-encoded dictionary
  are read into the request structs, with every check and every error of the loaders, and a
  request that is passed on to the swarm is written as a dictionary. The codecs of oxenc and
  the parsers that give the two kinds of dictionary are arguments.
\<close>

section \<open>Parameters as they are parsed\<close>

text \<open>
  A value of \<open>nlohmann::json\<close> or of a bt-encoded dictionary. The json parser keeps an
  integer without a sign as unsigned and one with a sign as signed; bt-encoded values are
  integers, strings, lists and dictionaries only.
\<close>

datatype field_value =
    F_Null
  | F_Bool bool
  | F_Unsigned u64
  | F_Integer u64
  | F_Float string
  | F_Str string
  | F_List "field_value list"
  | F_Dict "(string \<times> field_value) list"

datatype dict_format = Json_Params | Bt_Params

type_synonym dict = "dict_format \<times> (string \<times> field_value) list"

text \<open>
  One constructor for each error the loaders throw. \<open>Empty_Optional\<close> is no exception: it
  marks a place where the program reads an optional that holds nothing.
\<close>

datatype parse_error =
    Invalid_Value string
  | Not_Milliseconds string
  | Out_Of_Range string
  | Missing_Field string
  | Missing_Either string string
  | Both_Specified string string
  | Bad_Pubkey
  | Ed25519_Not_Permitted
  | Ed25519_Not_Hex
  | Bad_Ed25519
  | Bad_Request_Signature
  | Missing_Subaccount_Sig
  | Bad_Subaccount
  | Bad_Subaccount_Sig
  | Not_Base64
  | Message_Too_Long
  | Bad_Last_Hash
  | No_Message_Hashes
  | Invalid_Message_Hash string
  | Too_Many_Revocations
  | No_Expiries
  | Shorten_And_Extend
  | Expiry_Count_Mismatch
  | Bad_Endpoint string
  | No_Requests
  | Too_Many_Subrequests
  | Bad_Subrequest
  | Bad_Method string
  | Meta_Subrequest
  | No_Condition
  | Bad_Action string
  | No_Action
  | Empty_Optional string

type_synonym 'a parsed = "parse_error + 'a"

definition bindr :: "'e + 'a \<Rightarrow> ('a \<Rightarrow> 'e + 'b) \<Rightarrow> 'e + 'b" where
  "bindr r f = (case r of Inl e \<Rightarrow> Inl e | Inr a \<Rightarrow> f a)"

text \<open>
  The base64 functions of oxenc, with their documented behaviour: the accepted strings are of
  the standard alphabet, padded to a multiple of four or not padded, and four digits decode
  to three bytes.
\<close>

record base64_codec =
  is_base64 :: "string \<Rightarrow> bool"
  to_base64 :: "string \<Rightarrow> string"
  from_base64 :: "string \<Rightarrow> string"

definition base64_digit :: "char \<Rightarrow> bool" where
  "base64_digit c \<longleftrightarrow> c \<in> set ''ABCDEFGHIJKLMNOPQRSTUVWXYZabcdefghijklmnopqrstuvwxyz0123456789+/''"

definition base64_ok :: "base64_codec \<Rightarrow> bool" where
  "base64_ok B \<longleftrightarrow> (\<forall>s. is_base64 B s \<longrightarrow>
     (\<exists>n k. k \<le> 2 \<and> (0 < k \<longrightarrow> length s mod 4 = 0) \<and> length s = n + k \<and> list_all base64_digit (take n s)
        \<and> drop n s = replicate k (CHR ''='') \<and> length (from_base64 B s) = 3 * n div 4))"

record codecs =
  is_mainnet :: bool
  hexc :: hex_codec
  b64c :: base64_codec

definition codecs_ok :: "codecs \<Rightarrow> bool" where
  "codecs_ok C \<longleftrightarrow> hex_ok (hexc C) \<and> base64_ok (b64c C)"

section \<open>Reading a field\<close>

text \<open>
  The fields of a bt-encoded dictionary are read in ascending order of their names, which is
  the order of its keys, so that skipping ahead to a name finds it when it is there. A json
  field that is null counts as absent.
\<close>

definition find_field :: "dict \<Rightarrow> string \<Rightarrow> field_value option" where
  "find_field d name =
     (case map_of (snd d) name of
        Some F_Null \<Rightarrow> (if fst d = Json_Params then None else Some F_Null)
      | r \<Rightarrow> r)"

text \<open>
  \<open>parse_field\<close> at each of its types: the field is absent, or is converted, or has the
  wrong type.
\<close>

definition parse_as :: "(field_value \<Rightarrow> 'a parsed) \<Rightarrow> dict \<Rightarrow> string \<Rightarrow> 'a option parsed" where
  "parse_as conv d name =
     (case find_field d name of None \<Rightarrow> Inr None | Some v \<Rightarrow> bindr (conv v) (\<lambda>x. Inr (Some x)))"

fun str_of :: "string \<Rightarrow> field_value \<Rightarrow> string parsed" where
  "str_of name (F_Str s) = Inr s"
| "str_of name _ = Inl (Invalid_Value name)"

definition parse_str :: "dict \<Rightarrow> string \<Rightarrow> string option parsed" where
  "parse_str d name = parse_as (str_of name) d name"

text \<open>
  The value of an integer, and the reading of a bt-encoded integer into a type with the given
  least and greatest value.
\<close>

fun integer_of :: "field_value \<Rightarrow> int option" where
  "integer_of (F_Unsigned w) = Some (uint w)"
| "integer_of (F_Integer w) = Some (sint w)"
| "integer_of _ = None"

definition consume_int_as :: "int \<Rightarrow> int \<Rightarrow> string \<Rightarrow> field_value \<Rightarrow> int parsed" where
  "consume_int_as lo hi name v =
     (case integer_of v of Some i \<Rightarrow> if lo \<le> i \<and> i \<le> hi then Inr i else Inl (Invalid_Value name)
      | None \<Rightarrow> Inl (Invalid_Value name))"

definition consume_int64 :: "string \<Rightarrow> field_value \<Rightarrow> int parsed" where
  "consume_int64 = consume_int_as (- (2 ^ 63)) (2 ^ 63 - 1)"

text \<open>
  \<open>get<int64_t>\<close> and \<open>get<int>\<close> of a json number convert with a static cast.
\<close>

fun get_int64 :: "string \<Rightarrow> field_value \<Rightarrow> int parsed" where
  "get_int64 name (F_Unsigned w) = Inr (sint w)"
| "get_int64 name (F_Integer w) = Inr (sint w)"
| "get_int64 name _ = Inl (Invalid_Value name)"

fun get_int :: "string \<Rightarrow> field_value \<Rightarrow> int parsed" where
  "get_int name (F_Unsigned w) = Inr (sint (ucast w :: u32))"
| "get_int name (F_Integer w) = Inr (sint (ucast w :: u32))"
| "get_int name _ = Inl (Invalid_Value name)"

fun bool_of :: "dict_format \<Rightarrow> string \<Rightarrow> field_value \<Rightarrow> bool parsed" where
  "bool_of Json_Params name (F_Bool b) = Inr b"
| "bool_of Json_Params name _ = Inl (Invalid_Value name)"
| "bool_of Bt_Params name v = bindr (consume_int_as 0 1 name v) (\<lambda>i. Inr (i = 1))"

definition parse_bool :: "dict \<Rightarrow> string \<Rightarrow> bool option parsed" where
  "parse_bool d name = parse_as (bool_of (fst d) name) d name"

definition parse_int :: "dict \<Rightarrow> string \<Rightarrow> int option parsed" where
  "parse_int d name =
     parse_as (if fst d = Json_Params then get_int name else consume_int_as (- (2 ^ 31)) (2 ^ 31 - 1) name) d name"

fun uint64_of :: "dict_format \<Rightarrow> string \<Rightarrow> field_value \<Rightarrow> u64 parsed" where
  "uint64_of f name (F_Unsigned w) = Inr w"
| "uint64_of f name _ = Inl (Invalid_Value name)"

text \<open>
  \<open>from_epoch_ms\<close> at its width: the count of milliseconds is converted to the nanoseconds of
  the clock, which wraps around for times beyond the year 2262.
\<close>

definition from_epoch_ms64 :: "int \<Rightarrow> time" where
  "from_epoch_ms64 ms = sint (word_of_int (ms * 1000000) :: u64)"

fun time_of :: "dict_format \<Rightarrow> string \<Rightarrow> field_value \<Rightarrow> time parsed" where
  "time_of Json_Params name (F_Unsigned w) =
     (let time = from_epoch_ms64 (sint w)
      in if time < 1000000 * 1000000000 then Inl (Not_Milliseconds name) else Inr time)"
| "time_of Json_Params name _ = Inl (Invalid_Value name)"
| "time_of Bt_Params name v = bindr (consume_int64 name v) (\<lambda>i. Inr (from_epoch_ms64 i))"

definition parse_time :: "dict \<Rightarrow> string \<Rightarrow> time option parsed" where
  "parse_time d name = parse_as (time_of (fst d) name) d name"

definition NAMESPACE_MIN :: int where "NAMESPACE_MIN = - 32768"
definition NAMESPACE_MAX :: int where "NAMESPACE_MAX = 32767"

definition namespace_of :: "dict_format \<Rightarrow> string \<Rightarrow> field_value \<Rightarrow> namespace_id parsed" where
  "namespace_of f name v =
     (if f = Json_Params then
        bindr (get_int64 name v)
          (\<lambda>i. if i < NAMESPACE_MIN \<or> i > NAMESPACE_MAX then Inl (Out_Of_Range name) else Inr (word_of_int i))
      else bindr (consume_int_as NAMESPACE_MIN NAMESPACE_MAX name v) (\<lambda>i. Inr (word_of_int i)))"

definition parse_namespace :: "dict \<Rightarrow> string \<Rightarrow> namespace_id option parsed" where
  "parse_namespace d name = parse_as (namespace_of (fst d) name) d name"

text \<open>\<open>namespace_var\<close>: a namespace, or the string \<open>all\<close>.\<close>

datatype namespace_var = NS_Id namespace_id | NS_All

fun namespace_var_of :: "dict_format \<Rightarrow> string \<Rightarrow> field_value \<Rightarrow> namespace_var parsed" where
  "namespace_var_of f name (F_Str s) = (if s = ''all'' then Inr NS_All else Inl (Invalid_Value name))"
| "namespace_var_of f name v = bindr (namespace_of f name v) (\<lambda>n. Inr (NS_Id n))"

definition parse_namespace_var :: "dict \<Rightarrow> string \<Rightarrow> namespace_var option parsed" where
  "parse_namespace_var d name = parse_as (namespace_var_of (fst d) name) d name"

text \<open>Arrays: a list, or a single value that becomes its only element.\<close>

fun convert_all :: "('a \<Rightarrow> 'b parsed) \<Rightarrow> 'a list \<Rightarrow> 'b list parsed" where
  "convert_all conv [] = Inr []"
| "convert_all conv (x # xs) = bindr (conv x) (\<lambda>y. bindr (convert_all conv xs) (\<lambda>ys. Inr (y # ys)))"

fun array_of :: "(field_value \<Rightarrow> 'a parsed) \<Rightarrow> field_value \<Rightarrow> 'a list parsed" where
  "array_of conv (F_List xs) = convert_all conv xs"
| "array_of conv v = bindr (conv v) (\<lambda>x. Inr [x])"

definition parse_str_array :: "dict \<Rightarrow> string \<Rightarrow> string list option parsed" where
  "parse_str_array d name = parse_as (array_of (str_of name)) d name"

definition parse_int_array :: "dict \<Rightarrow> string \<Rightarrow> int list option parsed" where
  "parse_int_array d name =
     parse_as (array_of (if fst d = Json_Params then get_int name
       else consume_int_as (- (2 ^ 31)) (2 ^ 31 - 1) name)) d name"

text \<open>The times of an array are not checked to be milliseconds.\<close>

fun array_time_of :: "dict_format \<Rightarrow> string \<Rightarrow> field_value \<Rightarrow> time parsed" where
  "array_time_of Json_Params name (F_Unsigned w) = Inr (from_epoch_ms64 (sint w))"
| "array_time_of Json_Params name _ = Inl (Invalid_Value name)"
| "array_time_of Bt_Params name v = bindr (consume_int64 name v) (\<lambda>i. Inr (from_epoch_ms64 i))"

definition parse_time_array :: "dict \<Rightarrow> string \<Rightarrow> time list option parsed" where
  "parse_time_array d name = parse_as (array_of (array_time_of (fst d) name)) d name"

text \<open>
  \<open>util::parse_int\<close>: \<open>std::from_chars\<close> takes an optional minus sign, for a signed type, and
  digits; the whole string has to be consumed and the value has to fit.
\<close>

definition parse_int_str :: "int \<Rightarrow> int \<Rightarrow> string \<Rightarrow> int option" where
  "parse_int_str lo hi s =
     (let negative = lo < 0 \<and> s \<noteq> [] \<and> hd s = CHR ''-'';
          digits = (if negative then tl s else s);
          n = int (digits_value 0 digits);
          i = (if negative then - n else n)
      in if digits \<noteq> [] \<and> list_all is_digit digits \<and> lo \<le> i \<and> i \<le> hi then Some i else None)"

definition stringified :: "int \<Rightarrow> int \<Rightarrow> (field_value \<Rightarrow> int parsed) \<Rightarrow> string \<Rightarrow> field_value \<Rightarrow> int parsed" where
  "stringified lo hi conv name v =
     (case v of
        F_Str s \<Rightarrow> (case parse_int_str lo hi s of Some i \<Rightarrow> Inr i | None \<Rightarrow> Inl (Invalid_Value name))
      | _ \<Rightarrow> conv v)"

definition parse_stringified_int64 :: "dict \<Rightarrow> string \<Rightarrow> int option parsed" where
  "parse_stringified_int64 d name =
     parse_as (stringified (- (2 ^ 63)) (2 ^ 63 - 1) (get_int64 name) name) d name"

definition parse_stringified_uint64 :: "dict \<Rightarrow> string \<Rightarrow> int option parsed" where
  "parse_stringified_uint64 d name =
     parse_as (stringified 0 (2 ^ 64 - 1) (\<lambda>v. bindr (uint64_of (fst d) name v) (\<lambda>w. Inr (uint w))) name) d name"

section \<open>Requests\<close>

text \<open>
  The structs of the requests. The members the structs have in common, which the templates of
  the source use by name, are a record that the others extend; an array that is only
  sometimes set is an option.
\<close>

record signed_request =
  rq_pubkey :: user_pubkey
  rq_ed25519 :: "string option"
  rq_signature :: "string option"
  rq_subaccount :: "signed_subaccount_token option"

record store_request = signed_request +
  st_namespace :: namespace_id
  st_timestamp :: time
  st_expiry :: time
  st_data :: string
  st_sig_ts :: "time option"

record retrieve_request = signed_request +
  rt_namespace :: namespace_id
  rt_last_hash :: "string option"
  rt_max_count :: "int option"
  rt_max_size :: "int option"
  rt_check_signature :: bool
  rt_timestamp :: time

record delete_msgs_request = signed_request +
  dm_messages :: "string list"
  dm_required :: bool

record revoke_request = signed_request +
  rs_revoke :: "subaccount_token list"
  rs_timestamp :: time

record unrevoke_request = signed_request +
  ur_unrevoke :: "subaccount_token list"
  ur_timestamp :: time

record revoked_request = signed_request +
  rd_timestamp :: time

record delete_all_request = signed_request +
  da_namespace :: namespace_var
  da_timestamp :: time

record delete_before_request = signed_request +
  db_namespace :: namespace_var
  db_before :: time

record expire_all_request = signed_request +
  ea_namespace :: namespace_var
  ea_expiry :: time

record expire_msgs_request = signed_request +
  em_messages :: "string list"
  em_expiry :: "time list"
  em_shorten :: bool
  em_extend :: bool

record get_expiries_request = signed_request +
  ge_messages :: "string list"
  ge_namespace :: "namespace_id option"
  ge_sig_ts :: time

record message_count_request = signed_request +
  gc_sig_ts :: time

record oxend_request =
  ox_endpoint :: string
  ox_params :: "field_value option"

definition MAX_MESSAGE_BODY :: nat where "MAX_MESSAGE_BODY = 76800"

section \<open>The parts the loaders share\<close>

definition require :: "string \<Rightarrow> 'a option \<Rightarrow> 'a parsed" where
  "require name v = (case v of None \<Rightarrow> Inl (Missing_Field name) | Some x \<Rightarrow> Inr x)"

definition require_at_most_one_of :: "string \<Rightarrow> 'a option \<Rightarrow> string \<Rightarrow> 'b option \<Rightarrow> unit parsed" where
  "require_at_most_one_of first a second b =
     (if a \<noteq> None \<and> b \<noteq> None then Inl (Both_Specified first second) else Inr ())"

definition require_exactly_one_of :: "string \<Rightarrow> 'a option \<Rightarrow> string \<Rightarrow> 'b option \<Rightarrow> bool \<Rightarrow> unit parsed" where
  "require_exactly_one_of first a second b alias =
     bindr (require_at_most_one_of first a second b)
       (\<lambda>_. if a = None \<and> b = None
            then Inl (if alias then Missing_Field first else Missing_Either first second) else Inr ())"

definition load_pk :: "codecs \<Rightarrow> string option \<Rightarrow> user_pubkey parsed" where
  "load_pk C pk =
     bindr (require ''pubkey'' pk)
       (\<lambda>s. let k = load_pubkey (is_mainnet C) (hexc C) s in if pubkey_bool k then Inr k else Inl Bad_Pubkey)"

definition load_ed25519 :: "codecs \<Rightarrow> user_pubkey \<Rightarrow> string option \<Rightarrow> string option parsed" where
  "load_ed25519 C k pk_ed =
     (case pk_ed of
        None \<Rightarrow> Inr None
      | Some e \<Rightarrow>
          if network k \<noteq> 5 then Inl Ed25519_Not_Permitted
          else if length e = 64 then
            if is_hex (hexc C) e then Inr (Some (from_hex (hexc C) e)) else Inl Ed25519_Not_Hex
          else if length e = 32 then Inr (Some e)
          else Inl Bad_Ed25519)"

text \<open>
  A signature: base64 of 64 bytes, padded or not, in json, and the bytes themselves otherwise.
\<close>

definition signature_form :: "codecs \<Rightarrow> dict_format \<Rightarrow> string \<Rightarrow> bool" where
  "signature_form C f s \<longleftrightarrow>
     (if f = Json_Params
      then is_base64 (b64c C) s \<and> (length s = 86 \<or> length s = 88 \<and> drop 86 s = ''=='')
      else length s = 64)"

definition signature_bytes :: "codecs \<Rightarrow> dict_format \<Rightarrow> string \<Rightarrow> string" where
  "signature_bytes C f s = (if f = Json_Params then from_base64 (b64c C) s else s)"

definition load_pk_signature ::
    "codecs \<Rightarrow> dict_format \<Rightarrow> string option \<Rightarrow> string option \<Rightarrow> string option \<Rightarrow> signed_request parsed" where
  "load_pk_signature C f pk pk_ed sig =
     bindr (load_pk C pk) (\<lambda>k.
     bindr (require ''signature'' sig) (\<lambda>s.
     bindr (load_ed25519 C k pk_ed) (\<lambda>ed.
       if \<not> signature_form C f s then Inl Bad_Request_Signature
       else Inr \<lparr>rq_pubkey = k, rq_ed25519 = ed, rq_signature = Some (signature_bytes C f s),
                 rq_subaccount = None\<rparr>)))"

text \<open>
  A token is written into an array of zeros: base64 with padding leaves the last of them.
\<close>

definition token_bytes :: "string \<Rightarrow> subaccount_token" where
  "token_bytes bs = take SUBACCOUNT_TOKEN_LENGTH (bs @ replicate SUBACCOUNT_TOKEN_LENGTH (CHR 0x00))"

definition token_of :: "codecs \<Rightarrow> dict_format \<Rightarrow> string \<Rightarrow> subaccount_token parsed" where
  "token_of C f sa =
     (if f = Json_Params then
        if is_base64 (b64c C) sa \<and> length sa = SUBACCOUNT_TOKEN_LENGTH * 4 div 3
        then Inr (token_bytes (from_base64 (b64c C) sa))
        else if is_hex (hexc C) sa \<and> length sa = SUBACCOUNT_TOKEN_LENGTH * 2
        then Inr (token_bytes (from_hex (hexc C) sa))
        else Inl Bad_Subaccount
      else if length sa \<noteq> SUBACCOUNT_TOKEN_LENGTH then Inl Bad_Subaccount
      else Inr sa)"

definition load_subaccount ::
    "codecs \<Rightarrow> dict_format \<Rightarrow> string option \<Rightarrow> string option \<Rightarrow> signed_subaccount_token option parsed" where
  "load_subaccount C f subacc subacc_sig =
     (case subacc of
        None \<Rightarrow> Inr None
      | Some sa \<Rightarrow>
          if sa = [] then Inr None
          else (case subacc_sig of
                  None \<Rightarrow> Inl Missing_Subaccount_Sig
                | Some s \<Rightarrow>
                    bindr (token_of C f sa) (\<lambda>t.
                      if \<not> signature_form C f s then Inl Bad_Subaccount_Sig
                      else Inr (Some \<lparr>token = t, signature = signature_bytes C f s\<rparr>))))"

text \<open>
  The fields that most requests have, with the two steps that most loaders begin with.
\<close>

definition load_signed :: "codecs \<Rightarrow> dict \<Rightarrow> string option \<Rightarrow> string option \<Rightarrow> string option
    \<Rightarrow> string option \<Rightarrow> string option \<Rightarrow> signed_request parsed" where
  "load_signed C d pk pk_ed sig subacc subacc_sig =
     bindr (load_pk_signature C (fst d) pk pk_ed sig) (\<lambda>r.
     bindr (load_subaccount C (fst d) subacc subacc_sig) (\<lambda>t. Inr (r\<lparr>rq_subaccount := t\<rparr>)))"

definition is_valid_message_hash :: "codecs \<Rightarrow> string \<Rightarrow> bool" where
  "is_valid_message_hash C h \<longleftrightarrow> length h = 43 \<and> is_base64 (b64c C) h"

definition check_hashes :: "codecs \<Rightarrow> string list \<Rightarrow> unit parsed" where
  "check_hashes C hs =
     (case List.find (\<lambda>h. \<not> is_valid_message_hash C h) hs of
        Some h \<Rightarrow> Inl (Invalid_Message_Hash h) | None \<Rightarrow> Inr ())"

section \<open>Loading\<close>

definition message_data :: "codecs \<Rightarrow> dict_format \<Rightarrow> string \<Rightarrow> string parsed" where
  "message_data C f data =
     (if f = Json_Params then
        if \<not> is_base64 (b64c C) data then Inl Not_Base64
        else if length data > MAX_MESSAGE_BODY div 3 * 4 then Inl Message_Too_Long
        else Inr (from_base64 (b64c C) data)
      else if length data > MAX_MESSAGE_BODY then Inl Message_Too_Long
      else Inr data)"

definition store_timestamp :: "dict \<Rightarrow> time option parsed" where
  "store_timestamp d =
     (if fst d = Json_Params
      then bindr (parse_stringified_int64 d ''timestamp'') (\<lambda>ts. Inr (map_option from_epoch_ms64 ts))
      else parse_time d ''timestamp'')"

definition store_ttl :: "dict \<Rightarrow> int option parsed" where
  "store_ttl d =
     (if fst d = Json_Params then parse_stringified_uint64 d ''ttl''
      else parse_as (\<lambda>v. bindr (uint64_of (fst d) ''ttl'' v) (\<lambda>w. Inr (uint w))) d ''ttl'')"

text \<open>The sum of a time and a number of milliseconds, at the width of the clock.\<close>

definition add_ms :: "time \<Rightarrow> int \<Rightarrow> time" where
  "add_ms t ms = sint (word_of_int (t + ms * 1000000) :: u64)"

definition load_store :: "codecs \<Rightarrow> dict \<Rightarrow> store_request parsed" where
  "load_store C d =
     bindr (parse_str d ''data'') (\<lambda>data.
     bindr (parse_time d ''expiry'') (\<lambda>expiry.
     bindr (parse_namespace d ''namespace'') (\<lambda>msg_ns.
     bindr (parse_str d ''pubKey'') (\<lambda>pubkey_alt.
     bindr (parse_str d ''pubkey'') (\<lambda>pk.
     bindr (parse_str d ''pubkey_ed25519'') (\<lambda>pk_ed25519.
     bindr (parse_time d ''sig_timestamp'') (\<lambda>sig_ts.
     bindr (parse_str d ''signature'') (\<lambda>sig.
     bindr (parse_str d ''subaccount'') (\<lambda>subacc.
     bindr (parse_str d ''subaccount_sig'') (\<lambda>subacc_sig.
     bindr (store_timestamp d) (\<lambda>timestamp.
     bindr (store_ttl d) (\<lambda>ttl.
     bindr (require ''timestamp'' timestamp) (\<lambda>ts.
     bindr (require_exactly_one_of ''expiry'' expiry ''ttl'' ttl False) (\<lambda>_.
     bindr (require_exactly_one_of ''pubkey'' pk ''pubKey'' pubkey_alt True) (\<lambda>_.
       let key = (if pk \<noteq> None then pk else pubkey_alt);
           exp = (case expiry of Some e \<Rightarrow> e | None \<Rightarrow> add_ms ts (the ttl))
       in bindr (if sig \<noteq> None then load_signed C d key pk_ed25519 sig subacc subacc_sig
                 else bindr (load_pk C key) (\<lambda>k. Inr \<lparr>rq_pubkey = k, rq_ed25519 = None, rq_signature = None,
                                                       rq_subaccount = None\<rparr>)) (\<lambda>r.
          bindr (require ''data'' data) (\<lambda>dt.
          bindr (message_data C (fst d) dt) (\<lambda>body.
            Inr (signed_request.extend r
              (store_request.fields (case msg_ns of Some n \<Rightarrow> n | None \<Rightarrow> ns_Default) ts exp body
                (if sig \<noteq> None then Some (case sig_ts of Some t \<Rightarrow> t | None \<Rightarrow> ts) else None)))))))))))))))))))))"

text \<open>
  \<open>last_hash\<close>: an empty string counts as not given.
\<close>

definition load_last_hash :: "codecs \<Rightarrow> string option \<Rightarrow> string option parsed" where
  "load_last_hash C h =
     (case h of
        None \<Rightarrow> Inr None
      | Some s \<Rightarrow> if s = [] then Inr None
                 else if length s = 43 \<and> is_base64 (b64c C) s then Inr (Some s)
                 else Inl Bad_Last_Hash)"

text \<open>
  With any of the three authentication fields, or a namespace that is not open to everyone,
  the signature is required; the time is then taken out of the optional whether it was given
  or not.
\<close>

definition load_retrieve :: "codecs \<Rightarrow> dict \<Rightarrow> retrieve_request parsed" where
  "load_retrieve C d =
     bindr (parse_str d ''lastHash'') (\<lambda>lastHash.
     bindr (parse_str d ''last_hash'') (\<lambda>last_hash.
     bindr (parse_int d ''max_count'') (\<lambda>max_count.
     bindr (parse_int d ''max_size'') (\<lambda>max_size.
     bindr (parse_namespace d ''namespace'') (\<lambda>msg_ns.
     bindr (parse_str d ''pubKey'') (\<lambda>pubkey_alt.
     bindr (parse_str d ''pubkey'') (\<lambda>pk.
     bindr (parse_str d ''pubkey_ed25519'') (\<lambda>pk_ed25519.
     bindr (parse_str d ''signature'') (\<lambda>sig.
     bindr (parse_str d ''subaccount'') (\<lambda>subacc.
     bindr (parse_str d ''subaccount_sig'') (\<lambda>subacc_sig.
     bindr (parse_time d ''timestamp'') (\<lambda>ts.
     bindr (require_exactly_one_of ''pubkey'' pk ''pubKey'' pubkey_alt True) (\<lambda>_.
       let key = (if pk \<noteq> None then pk else pubkey_alt);
           auth = (pk_ed25519 \<noteq> None \<or> sig \<noteq> None \<or> ts \<noteq> None
                   \<or> (case msg_ns of Some n \<Rightarrow> \<not> is_noauth_retrieve_namespace n | None \<Rightarrow> False))
       in bindr (if auth
                 then bindr (load_signed C d key pk_ed25519 sig subacc subacc_sig) (\<lambda>r.
                        case ts of Some t \<Rightarrow> Inr (r, t) | None \<Rightarrow> Inl (Empty_Optional ''timestamp''))
                 else bindr (load_pk C key) (\<lambda>k. Inr (\<lparr>rq_pubkey = k, rq_ed25519 = None, rq_signature = None,
                                                        rq_subaccount = None\<rparr>, 0))) (\<lambda>(r, t).
          bindr (require_at_most_one_of ''last_hash'' last_hash ''lastHash'' lastHash) (\<lambda>_.
          bindr (load_last_hash C (if lastHash \<noteq> None then lastHash else last_hash)) (\<lambda>lh.
            Inr (signed_request.extend r
              (retrieve_request.fields (case msg_ns of Some n \<Rightarrow> n | None \<Rightarrow> ns_Default) lh max_count max_size auth t))))))))))))))))))"

definition load_delete_msgs :: "codecs \<Rightarrow> dict \<Rightarrow> delete_msgs_request parsed" where
  "load_delete_msgs C d =
     bindr (parse_str_array d ''messages'') (\<lambda>messages.
     bindr (parse_str d ''pubkey'') (\<lambda>pk.
     bindr (parse_str d ''pubkey_ed25519'') (\<lambda>pk_ed25519.
     bindr (parse_bool d ''required'') (\<lambda>required.
     bindr (parse_str d ''signature'') (\<lambda>sig.
     bindr (parse_str d ''subaccount'') (\<lambda>subacc.
     bindr (parse_str d ''subaccount_sig'') (\<lambda>subacc_sig.
     bindr (load_signed C d pk pk_ed25519 sig subacc subacc_sig) (\<lambda>r.
     bindr (require ''messages'' messages) (\<lambda>hs.
       if hs = [] then Inl No_Message_Hashes
       else bindr (check_hashes C hs) (\<lambda>_.
         Inr (signed_request.extend r (delete_msgs_request.fields hs (required = Some True)))))))))))))"

definition load_revoke_subaccount :: "codecs \<Rightarrow> dict \<Rightarrow> revoke_request parsed" where
  "load_revoke_subaccount C d =
     bindr (parse_str d ''pubkey'') (\<lambda>pk.
     bindr (parse_str d ''pubkey_ed25519'') (\<lambda>pk_ed25519.
     bindr (parse_str_array d ''revoke'') (\<lambda>revoke.
     bindr (parse_str d ''signature'') (\<lambda>sig.
     bindr (parse_time d ''timestamp'') (\<lambda>timestamp.
     bindr (load_pk_signature C (fst d) pk pk_ed25519 sig) (\<lambda>r.
     bindr (require ''revoke'' revoke) (\<lambda>sas.
       if length sas > MAX_SUBACCOUNT_TOKENS then Inl Too_Many_Revocations
       else bindr (convert_all (token_of C (fst d)) sas) (\<lambda>tokens.
            bindr (require ''timestamp'' timestamp) (\<lambda>ts.
              Inr (signed_request.extend r (revoke_request.fields tokens ts)))))))))))"

definition load_unrevoke_subaccount :: "codecs \<Rightarrow> dict \<Rightarrow> unrevoke_request parsed" where
  "load_unrevoke_subaccount C d =
     bindr (parse_str d ''pubkey'') (\<lambda>pk.
     bindr (parse_str d ''pubkey_ed25519'') (\<lambda>pk_ed25519.
     bindr (parse_str d ''signature'') (\<lambda>sig.
     bindr (parse_time d ''timestamp'') (\<lambda>timestamp.
     bindr (parse_str_array d ''unrevoke'') (\<lambda>unrevoke.
     bindr (load_pk_signature C (fst d) pk pk_ed25519 sig) (\<lambda>r.
     bindr (require ''timestamp'' timestamp) (\<lambda>ts.
     bindr (require ''unrevoke'' unrevoke) (\<lambda>sas.
     bindr (convert_all (token_of C (fst d)) sas) (\<lambda>tokens.
       Inr (signed_request.extend r (unrevoke_request.fields tokens ts)))))))))))"

definition load_revoked_subaccounts :: "codecs \<Rightarrow> dict \<Rightarrow> revoked_request parsed" where
  "load_revoked_subaccounts C d =
     bindr (parse_str d ''pubkey'') (\<lambda>pk.
     bindr (parse_str d ''pubkey_ed25519'') (\<lambda>pk_ed25519.
     bindr (parse_str d ''signature'') (\<lambda>sig.
     bindr (parse_time d ''timestamp'') (\<lambda>timestamp.
     bindr (load_pk_signature C (fst d) pk pk_ed25519 sig) (\<lambda>r.
     bindr (require ''timestamp'' timestamp) (\<lambda>ts.
       Inr (signed_request.extend r (revoked_request.fields ts))))))))"

text \<open>
  The three requests on a namespace or on all of them: the namespace and the common fields
  come first, the time is required after them.
\<close>

definition namespace_or_default :: "namespace_var option \<Rightarrow> namespace_var" where
  "namespace_or_default n = (case n of Some v \<Rightarrow> v | None \<Rightarrow> NS_Id ns_Default)"

definition load_delete_all :: "codecs \<Rightarrow> dict \<Rightarrow> delete_all_request parsed" where
  "load_delete_all C d =
     bindr (parse_namespace_var d ''namespace'') (\<lambda>msgs_ns.
     bindr (parse_str d ''pubkey'') (\<lambda>pk.
     bindr (parse_str d ''pubkey_ed25519'') (\<lambda>pk_ed25519.
     bindr (parse_str d ''signature'') (\<lambda>sig.
     bindr (parse_str d ''subaccount'') (\<lambda>subacc.
     bindr (parse_str d ''subaccount_sig'') (\<lambda>subacc_sig.
     bindr (parse_time d ''timestamp'') (\<lambda>timestamp.
     bindr (load_signed C d pk pk_ed25519 sig subacc subacc_sig) (\<lambda>r.
     bindr (require ''timestamp'' timestamp) (\<lambda>ts.
       Inr (signed_request.extend r (delete_all_request.fields (namespace_or_default msgs_ns) ts)))))))))))"

definition load_delete_before :: "codecs \<Rightarrow> dict \<Rightarrow> delete_before_request parsed" where
  "load_delete_before C d =
     bindr (parse_time d ''before'') (\<lambda>before.
     bindr (parse_namespace_var d ''namespace'') (\<lambda>msgs_ns.
     bindr (parse_str d ''pubkey'') (\<lambda>pk.
     bindr (parse_str d ''pubkey_ed25519'') (\<lambda>pk_ed25519.
     bindr (parse_str d ''signature'') (\<lambda>sig.
     bindr (parse_str d ''subaccount'') (\<lambda>subacc.
     bindr (parse_str d ''subaccount_sig'') (\<lambda>subacc_sig.
     bindr (load_signed C d pk pk_ed25519 sig subacc subacc_sig) (\<lambda>r.
     bindr (require ''before'' before) (\<lambda>t.
       Inr (signed_request.extend r (delete_before_request.fields (namespace_or_default msgs_ns) t)))))))))))"

definition load_expire_all :: "codecs \<Rightarrow> dict \<Rightarrow> expire_all_request parsed" where
  "load_expire_all C d =
     bindr (parse_time d ''expiry'') (\<lambda>expiry.
     bindr (parse_namespace_var d ''namespace'') (\<lambda>msgs_ns.
     bindr (parse_str d ''pubkey'') (\<lambda>pk.
     bindr (parse_str d ''pubkey_ed25519'') (\<lambda>pk_ed25519.
     bindr (parse_str d ''signature'') (\<lambda>sig.
     bindr (parse_str d ''subaccount'') (\<lambda>subacc.
     bindr (parse_str d ''subaccount_sig'') (\<lambda>subacc_sig.
     bindr (load_signed C d pk pk_ed25519 sig subacc subacc_sig) (\<lambda>r.
     bindr (require ''expiry'' expiry) (\<lambda>t.
       Inr (signed_request.extend r (expire_all_request.fields (namespace_or_default msgs_ns) t)))))))))))"

definition load_expire_msgs :: "codecs \<Rightarrow> dict \<Rightarrow> expire_msgs_request parsed" where
  "load_expire_msgs C d =
     bindr (parse_time_array d ''expiry'') (\<lambda>expiry.
     bindr (parse_bool d ''extend'') (\<lambda>extend.
     bindr (parse_str_array d ''messages'') (\<lambda>messages.
     bindr (parse_str d ''pubkey'') (\<lambda>pk.
     bindr (parse_str d ''pubkey_ed25519'') (\<lambda>pk_ed25519.
     bindr (parse_bool d ''shorten'') (\<lambda>shorten.
     bindr (parse_str d ''signature'') (\<lambda>sig.
     bindr (parse_str d ''subaccount'') (\<lambda>subacc.
     bindr (parse_str d ''subaccount_sig'') (\<lambda>subacc_sig.
     bindr (load_signed C d pk pk_ed25519 sig subacc subacc_sig) (\<lambda>r.
     bindr (require ''expiry'' expiry) (\<lambda>es.
       if es = [] then Inl No_Expiries
       else if shorten = Some True \<and> extend = Some True then Inl Shorten_And_Extend
       else bindr (require ''messages'' messages) (\<lambda>hs.
         if hs = [] then Inl No_Message_Hashes
         else if length es > 1 \<and> length es \<noteq> length hs then Inl Expiry_Count_Mismatch
         else bindr (check_hashes C hs) (\<lambda>_.
           Inr (signed_request.extend r
             (expire_msgs_request.fields hs es (shorten = Some True) (extend = Some True))))))))))))))))"

definition load_get_expiries :: "codecs \<Rightarrow> dict \<Rightarrow> get_expiries_request parsed" where
  "load_get_expiries C d =
     bindr (parse_str_array d ''messages'') (\<lambda>messages.
     bindr (parse_namespace d ''namespace'') (\<lambda>msg_ns.
     bindr (parse_str d ''pubkey'') (\<lambda>pk.
     bindr (parse_str d ''pubkey_ed25519'') (\<lambda>pk_ed25519.
     bindr (parse_str d ''signature'') (\<lambda>sig.
     bindr (parse_str d ''subaccount'') (\<lambda>subacc.
     bindr (parse_str d ''subaccount_sig'') (\<lambda>subacc_sig.
     bindr (parse_time d ''timestamp'') (\<lambda>timestamp.
     bindr (load_signed C d pk pk_ed25519 sig subacc subacc_sig) (\<lambda>r.
     bindr (require ''timestamp'' timestamp) (\<lambda>ts.
     bindr (require_exactly_one_of ''messages'' messages ''namespace'' msg_ns False) (\<lambda>_.
       case msg_ns of
         Some n \<Rightarrow> Inr (signed_request.extend r (get_expiries_request.fields [] (Some n) ts))
       | None \<Rightarrow>
           let hs = the messages
           in if hs = [] then Inl No_Message_Hashes
              else Inr (signed_request.extend r (get_expiries_request.fields hs None ts)))))))))))))"

definition load_get_message_count :: "codecs \<Rightarrow> dict \<Rightarrow> message_count_request parsed" where
  "load_get_message_count C d =
     bindr (parse_str d ''pubkey'') (\<lambda>pk.
     bindr (parse_str d ''pubkey_ed25519'') (\<lambda>pk_ed25519.
     bindr (parse_str d ''signature'') (\<lambda>sig.
     bindr (parse_str d ''subaccount'') (\<lambda>subacc.
     bindr (parse_str d ''subaccount_sig'') (\<lambda>subacc_sig.
     bindr (parse_time d ''timestamp'') (\<lambda>timestamp.
     bindr (load_signed C d pk pk_ed25519 sig subacc subacc_sig) (\<lambda>r.
     bindr (require ''timestamp'' timestamp) (\<lambda>ts.
       Inr (signed_request.extend r (message_count_request.fields ts))))))))))"

definition load_get_swarm :: "codecs \<Rightarrow> dict \<Rightarrow> user_pubkey parsed" where
  "load_get_swarm C d =
     bindr (parse_str d ''pubKey'') (\<lambda>pubkey_alt.
     bindr (parse_str d ''pubkey'') (\<lambda>pk.
     bindr (require_exactly_one_of ''pubkey'' pk ''pubKey'' pubkey_alt True) (\<lambda>_.
       load_pk C (if pk \<noteq> None then pk else pubkey_alt))))"

text \<open>
  \<open>oxend_request\<close>. The json text of a bt-encoded request goes through the json parser, an
  argument that gives nothing on invalid text.
\<close>

definition load_oxend_request :: "(string \<Rightarrow> field_value option) \<Rightarrow> dict \<Rightarrow> oxend_request parsed" where
  "load_oxend_request json_parse d =
     bindr (parse_str d ''endpoint'') (\<lambda>ep.
     bindr (require ''endpoint'' ep) (\<lambda>e.
       if e \<noteq> ''get_service_nodes'' \<and> e \<noteq> ''ons_resolve'' then Inl (Bad_Endpoint e)
       else if fst d = Json_Params then Inr \<lparr>ox_endpoint = e, ox_params = find_field d ''params''\<rparr>
       else bindr (parse_str d ''params'') (\<lambda>s.
              case s of
                None \<Rightarrow> Inr \<lparr>ox_endpoint = e, ox_params = None\<rparr>
              | Some text \<Rightarrow>
                  (case json_parse text of
                     None \<Rightarrow> Inl (Invalid_Value ''params'')
                   | Some v \<Rightarrow> Inr \<lparr>ox_endpoint = e, ox_params = (if v = F_Null then None else Some v)\<rparr>))))"

section \<open>Writing a request\<close>

text \<open>
  The dictionary that is sent to the other members of the swarm. \<open>bt_dict\<close> is an ordered map.
\<close>

definition F_int :: "int \<Rightarrow> field_value" where
  "F_int i = (if i < 0 then F_Integer (word_of_int i) else F_Unsigned (word_of_int i))"

definition put_opt :: "string \<Rightarrow> field_value option \<Rightarrow> (string \<times> field_value) list \<Rightarrow> (string \<times> field_value) list" where
  "put_opt k v d = (case v of Some x \<Rightarrow> map_put k x d | None \<Rightarrow> d)"

definition set_variant :: "string \<Rightarrow> namespace_var \<Rightarrow> (string \<times> field_value) list \<Rightarrow> (string \<times> field_value) list" where
  "set_variant k ns d = map_put k (case ns of NS_Id n \<Rightarrow> F_int (to_int n) | NS_All \<Rightarrow> F_Str ''all'') d"

definition to_bt_common :: "'a signed_request_scheme \<Rightarrow> (string \<times> field_value) list" where
  "to_bt_common r =
     (let d = [(''pubkey'', F_Str (prefixed_raw (rq_pubkey r)))];
          d = put_opt ''signature'' (map_option F_Str (rq_signature r)) d;
          d = put_opt ''subaccount'' (map_option (\<lambda>t. F_Str (token t)) (rq_subaccount r)) d;
          d = put_opt ''subaccount_sig'' (map_option (\<lambda>t. F_Str (signature t)) (rq_subaccount r)) d
      in put_opt ''pubkey_ed25519'' (map_option F_Str (rq_ed25519 r)) d)"

definition store_to_bt :: "store_request \<Rightarrow> (string \<times> field_value) list" where
  "store_to_bt s =
     (let d = to_bt_common s;
          d = map_put ''timestamp'' (F_int (to_epoch_ms (st_timestamp s))) d;
          d = map_put ''expiry'' (F_int (to_epoch_ms (st_expiry s))) d;
          d = map_put ''data'' (F_Str (st_data s)) d;
          d = put_opt ''sig_timestamp'' (map_option (\<lambda>t. F_int (to_epoch_ms t)) (st_sig_ts s)) d
      in if st_namespace s \<noteq> ns_Default then map_put ''namespace'' (F_int (to_int (st_namespace s))) d else d)"

definition delete_msgs_to_bt :: "delete_msgs_request \<Rightarrow> (string \<times> field_value) list" where
  "delete_msgs_to_bt r = map_put ''messages'' (F_List (map F_Str (dm_messages r))) (to_bt_common r)"

definition revoke_to_bt :: "revoke_request \<Rightarrow> (string \<times> field_value) list" where
  "revoke_to_bt r =
     map_put ''timestamp'' (F_int (to_epoch_ms (rs_timestamp r)))
       (map_put ''revoke'' (F_List (map F_Str (rs_revoke r))) (to_bt_common r))"

definition unrevoke_to_bt :: "unrevoke_request \<Rightarrow> (string \<times> field_value) list" where
  "unrevoke_to_bt r =
     map_put ''unrevoke'' (F_List (map F_Str (ur_unrevoke r)))
       (map_put ''timestamp'' (F_int (to_epoch_ms (ur_timestamp r))) (to_bt_common r))"

definition delete_all_to_bt :: "delete_all_request \<Rightarrow> (string \<times> field_value) list" where
  "delete_all_to_bt r =
     set_variant ''namespace'' (da_namespace r)
       (map_put ''timestamp'' (F_int (to_epoch_ms (da_timestamp r))) (to_bt_common r))"

definition delete_before_to_bt :: "delete_before_request \<Rightarrow> (string \<times> field_value) list" where
  "delete_before_to_bt r =
     set_variant ''namespace'' (db_namespace r)
       (map_put ''before'' (F_int (to_epoch_ms (db_before r))) (to_bt_common r))"

definition expire_all_to_bt :: "expire_all_request \<Rightarrow> (string \<times> field_value) list" where
  "expire_all_to_bt r =
     set_variant ''namespace'' (ea_namespace r)
       (map_put ''expiry'' (F_int (to_epoch_ms (ea_expiry r))) (to_bt_common r))"

definition expire_msgs_to_bt :: "expire_msgs_request \<Rightarrow> (string \<times> field_value) list" where
  "expire_msgs_to_bt r =
     (let es = map (\<lambda>t. F_int (to_epoch_ms t)) (em_expiry r);
          d = map_put ''expiry'' (if length es = 1 then hd es else F_List es) (to_bt_common r);
          d = put_opt ''shorten'' (if em_shorten r then Some (F_int 1) else None) d;
          d = put_opt ''extend'' (if em_extend r then Some (F_int 1) else None) d
      in map_put ''messages'' (F_List (map F_Str (em_messages r))) d)"

section \<open>All requests\<close>

datatype client_subrequest =
    Revoke_Subaccount revoke_request
  | Unrevoke_Subaccount unrevoke_request
  | Revoked_Subaccounts revoked_request
  | Store store_request
  | Retrieve retrieve_request
  | Delete_Msgs delete_msgs_request
  | Delete_All delete_all_request
  | Delete_Before delete_before_request
  | Expire_Msgs expire_msgs_request
  | Expire_All expire_all_request
  | Get_Expiries get_expiries_request
  | Get_Message_Count message_count_request
  | Get_Swarm user_pubkey
  | Oxend_Request oxend_request
  | Active_Nodes_Bin
  | Info

text \<open>The name of the endpoint and what is passed on.\<close>

fun forwarded :: "client_subrequest \<Rightarrow> (string \<times> (string \<times> field_value) list) option" where
  "forwarded (Store r) = Some (''store'', store_to_bt r)"
| "forwarded (Delete_Msgs r) = Some (''delete'', delete_msgs_to_bt r)"
| "forwarded (Revoke_Subaccount r) = Some (''revoke_subaccount'', revoke_to_bt r)"
| "forwarded (Unrevoke_Subaccount r) = Some (''unrevoke_subaccount'', unrevoke_to_bt r)"
| "forwarded (Delete_All r) = Some (''delete_all'', delete_all_to_bt r)"
| "forwarded (Delete_Before r) = Some (''delete_before'', delete_before_to_bt r)"
| "forwarded (Expire_All r) = Some (''expire_all'', expire_all_to_bt r)"
| "forwarded (Expire_Msgs r) = Some (''expire'', expire_msgs_to_bt r)"
| "forwarded _ = None"

text \<open>
  The condition of an \<open>ifelse\<close> is the data the closure of the source captures.
\<close>

record condition =
  height_at_least :: "int option"
  height_before :: "int option"
  hf_at_least_arr :: "int list option"
  hf_before_arr :: "int list option"
  v_at_least :: "int list option"
  v_before :: "int list option"

datatype client_request =
    Subrequest client_subrequest
  | Batch "client_subrequest list"
  | Sequence "client_subrequest list"
  | If_Else condition "client_request option" "client_request option"

definition BATCH_REQUEST_MAX :: nat where "BATCH_REQUEST_MAX = 20"

definition loaded :: "('a \<Rightarrow> client_subrequest) \<Rightarrow> 'a parsed \<Rightarrow> client_request parsed" where
  "loaded con r = bindr r (\<lambda>x. Inr (Subrequest (con x)))"

text \<open>The loaders of the requests that nest no others, by the names of their endpoints.\<close>

definition simple_loader ::
    "codecs \<Rightarrow> (string \<Rightarrow> field_value option) \<Rightarrow> string \<Rightarrow> (dict \<Rightarrow> client_request parsed) option" where
  "simple_loader C jp = map_of
     [(''revoke_subaccount'', \<lambda>d. loaded Revoke_Subaccount (load_revoke_subaccount C d)),
      (''unrevoke_subaccount'', \<lambda>d. loaded Unrevoke_Subaccount (load_unrevoke_subaccount C d)),
      (''revoked_subaccounts'', \<lambda>d. loaded Revoked_Subaccounts (load_revoked_subaccounts C d)),
      (''store'', \<lambda>d. loaded Store (load_store C d)),
      (''retrieve'', \<lambda>d. loaded Retrieve (load_retrieve C d)),
      (''delete'', \<lambda>d. loaded Delete_Msgs (load_delete_msgs C d)),
      (''delete_all'', \<lambda>d. loaded Delete_All (load_delete_all C d)),
      (''delete_before'', \<lambda>d. loaded Delete_Before (load_delete_before C d)),
      (''expire'', \<lambda>d. loaded Expire_Msgs (load_expire_msgs C d)),
      (''expire_all'', \<lambda>d. loaded Expire_All (load_expire_all C d)),
      (''get_expiries'', \<lambda>d. loaded Get_Expiries (load_get_expiries C d)),
      (''get_message_count'', \<lambda>d. loaded Get_Message_Count (load_get_message_count C d)),
      (''get_swarm'', \<lambda>d. loaded Get_Swarm (load_get_swarm C d)),
      (''get_snodes_for_pubkey'', \<lambda>d. loaded Get_Swarm (load_get_swarm C d)),
      (''oxend_request'', \<lambda>d. loaded Oxend_Request (load_oxend_request jp d)),
      (''active_nodes_bin'', \<lambda>d. Inr (Subrequest Active_Nodes_Bin)),
      (''info'', \<lambda>d. Inr (Subrequest Info))]"

definition meta_methods :: "string list" where
  "meta_methods = [''batch'', ''sequence'', ''ifelse'']"

definition known_method :: "codecs \<Rightarrow> (string \<Rightarrow> field_value option) \<Rightarrow> string \<Rightarrow> bool" where
  "known_method C jp m \<longleftrightarrow> simple_loader C jp m \<noteq> None \<or> m \<in> set meta_methods"

fun as_subrequest :: "client_request \<Rightarrow> client_subrequest parsed" where
  "as_subrequest (Subrequest r) = Inr r"
| "as_subrequest _ = Inl Meta_Subrequest"

text \<open>A value that is no object has no fields.\<close>

fun fields_of :: "field_value \<Rightarrow> (string \<times> field_value) list" where
  "fields_of (F_Dict d) = d"
| "fields_of _ = []"

fun is_dict :: "field_value \<Rightarrow> bool" where
  "is_dict (F_Dict d) = True"
| "is_dict _ = False"

text \<open>
  The method and the parameters of a subrequest of a batch. In the json form the shape of
  both is checked first; in the bt-encoded form the method is looked up before the
  parameters are looked at.
\<close>

definition subrequest_parts ::
    "(string \<Rightarrow> bool) \<Rightarrow> dict_format \<Rightarrow> field_value \<Rightarrow> (string \<times> field_value) parsed" where
  "subrequest_parts known f j =
     (if \<not> is_dict j then Inl Bad_Subrequest
      else (case map_of (fields_of j) ''method'' of
              Some (F_Str m) \<Rightarrow>
                (case map_of (fields_of j) ''params'' of
                   Some p \<Rightarrow>
                     if f = Json_Params \<and> \<not> is_dict p then Inl Bad_Subrequest
                     else if \<not> known m then Inl (Bad_Method m)
                     else if \<not> is_dict p then Inl Bad_Subrequest
                     else Inr (m, p)
                 | None \<Rightarrow> Inl (if f = Json_Params \<or> known m then Bad_Subrequest else Bad_Method m))
            | _ \<Rightarrow> Inl Bad_Subrequest))"

text \<open>
  The subrequests of a batch that are loaded, and the error that follows them, if any: the
  json form checks the number of them first, the bt-encoded form when it comes to the one
  that is too much.
\<close>

definition batch_items :: "dict_format \<Rightarrow> (string \<times> field_value) list \<Rightarrow> (field_value list \<times> parse_error option) parsed" where
  "batch_items f d =
     (case map_of d ''requests'' of
        Some (F_List js) \<Rightarrow>
          if js = [] then Inl No_Requests
          else if length js \<le> BATCH_REQUEST_MAX then Inr (js, None)
          else if f = Json_Params then Inl Too_Many_Subrequests
          else Inr (take BATCH_REQUEST_MAX js,
                    Some (if is_dict (js ! BATCH_REQUEST_MAX) then Too_Many_Subrequests else Bad_Subrequest))
      | _ \<Rightarrow> Inl No_Requests)"

definition to_fixed_array :: "nat \<Rightarrow> int list option \<Rightarrow> int list option" where
  "to_fixed_array n xs =
     (case xs of
        None \<Rightarrow> None
      | Some v \<Rightarrow> if v = [] then None else Some (map (\<lambda>i. if i < length v then v ! i else 0) [0..<n]))"

definition load_condition :: "dict \<Rightarrow> condition parsed" where
  "load_condition d =
     bindr (parse_int d ''height_at_least'') (\<lambda>height_ge.
     bindr (parse_int d ''height_before'') (\<lambda>height_lt.
     bindr (parse_int_array d ''hf_at_least'') (\<lambda>hf_ge.
     bindr (parse_int_array d ''hf_before'') (\<lambda>hf_lt.
     bindr (parse_int_array d ''v_at_least'') (\<lambda>v_ge.
     bindr (parse_int_array d ''v_before'') (\<lambda>v_lt.
       let c = \<lparr>height_at_least = height_ge, height_before = height_lt,
                hf_at_least_arr = to_fixed_array 2 hf_ge, hf_before_arr = to_fixed_array 2 hf_lt,
                v_at_least = to_fixed_array 3 v_ge, v_before = to_fixed_array 3 v_lt\<rparr>
       in if height_at_least c = None \<and> height_before c = None \<and> hf_at_least_arr c = None
            \<and> hf_before_arr c = None \<and> v_at_least c = None \<and> v_before c = None
          then Inl No_Condition else Inr c))))))"

text \<open>
  The condition at the node's hard fork, version and block height; the arrays are compared
  as \<open>std::array\<close> is, in lexicographic order.
\<close>

definition eval_condition :: "int \<times> int \<Rightarrow> int list \<Rightarrow> u64 \<Rightarrow> condition \<Rightarrow> bool" where
  "eval_condition hf ver blockheight c =
     (let hfa = [fst hf, snd hf];
          height = sint (ucast blockheight :: u32)
      in (case hf_at_least_arr c of Some a \<Rightarrow> a \<le> hfa | None \<Rightarrow> True)
       \<and> (case hf_before_arr c of Some a \<Rightarrow> hfa < a | None \<Rightarrow> True)
       \<and> (case v_at_least c of Some a \<Rightarrow> a \<le> ver | None \<Rightarrow> True)
       \<and> (case v_before c of Some a \<Rightarrow> ver < a | None \<Rightarrow> True)
       \<and> (case height_at_least c of Some a \<Rightarrow> a \<le> height | None \<Rightarrow> True)
       \<and> (case height_before c of Some a \<Rightarrow> height < a | None \<Rightarrow> True))"

text \<open>The method and parameters of a branch of an \<open>ifelse\<close>.\<close>

definition action_parts ::
    "(string \<Rightarrow> bool) \<Rightarrow> dict_format \<Rightarrow> string \<Rightarrow> field_value \<Rightarrow> (string \<times> field_value) parsed" where
  "action_parts known f key v =
     (if \<not> is_dict v then Inl (Bad_Action key)
      else (case map_of (fields_of v) ''method'' of
              Some (F_Str m) \<Rightarrow>
                (case map_of (fields_of v) ''params'' of
                   Some p \<Rightarrow> if \<not> known m then Inl (Bad_Method key)
                             else if f = Bt_Params \<and> \<not> is_dict p then Inl (Bad_Action key)
                             else Inr (m, p)
                 | None \<Rightarrow> Inl (if f = Json_Params \<or> known m then Bad_Action key else Bad_Method key))
            | _ \<Rightarrow> Inl (Bad_Action key)))"

text \<open>
  Loading recurses through the subrequests of a batch, which may themselves be batches until
  they are found not to be allowed, and through the branches of an \<open>ifelse\<close>, which may.
\<close>

lemma bindr_cong [fundef_cong]: "r = s \<Longrightarrow> (\<And>a. s = Inr a \<Longrightarrow> f a = g a) \<Longrightarrow> bindr r f = bindr s g"
  by (auto simp: bindr_def split: sum.split)

lemma convert_all_cong [fundef_cong]:
  "xs = ys \<Longrightarrow> (\<And>x. x \<in> set ys \<Longrightarrow> f x = g x) \<Longrightarrow> convert_all f xs = convert_all g ys"
proof (induction ys arbitrary: xs)
  case (Cons y ys)
  then have "convert_all f ys = convert_all g ys" "f y = g y" by auto
  with Cons.prems(1) show ?case by simp
qed simp

lemma size_field: "map_of d k = Some v \<Longrightarrow> size v < size (F_Dict d)"
proof (induction d)
  case (Cons a d)
  then show ?case by (cases a) (auto split: if_splits)
qed simp

lemma size_fields_of: "map_of (fields_of j) k = Some v \<Longrightarrow> size v < size j"
  using size_field by (cases j) auto

lemma size_in_list: "x \<in> set xs \<Longrightarrow> size x < size (F_List xs)" for x :: field_value
  by (induction xs) auto

lemma subrequest_parts_size: "subrequest_parts known f j = Inr (m, p) \<Longrightarrow> size p < size j"
  using size_fields_of
  by (auto simp: subrequest_parts_def split: if_splits option.splits field_value.splits)

lemma action_parts_size: "action_parts known f k j = Inr (m, p) \<Longrightarrow> size p < size j"
  using size_fields_of
  by (auto simp: action_parts_def split: if_splits option.splits field_value.splits)

lemma batch_items_size:
  assumes "batch_items f (fields_of v) = Inr (js, e)" and "j \<in> set js"
  shows "size j < size v"
proof -
  obtain xs where "map_of (fields_of v) ''requests'' = Some (F_List xs)" "set js \<subseteq> set xs"
    using assms(1)
    by (auto simp: batch_items_def split: if_splits option.splits field_value.splits dest: in_set_takeD)
  with assms(2) show ?thesis using size_in_list [of j xs] size_fields_of [of v "''requests''"] by fastforce
qed

function load_request ::
    "codecs \<Rightarrow> (string \<Rightarrow> field_value option) \<Rightarrow> dict_format \<Rightarrow> string \<Rightarrow> field_value \<Rightarrow> client_request parsed" where
  "load_request C jp f method v =
     (case simple_loader C jp method of
        Some load \<Rightarrow> load (f, fields_of v)
      | None \<Rightarrow>
          if method = ''batch'' \<or> method = ''sequence'' then
            bindr (batch_items f (fields_of v)) (\<lambda>(js, err).
            bindr (convert_all (\<lambda>j. bindr (subrequest_parts (known_method C jp) f j) (\<lambda>(m, p).
                     bindr (load_request C jp f m p) as_subrequest)) js) (\<lambda>rs.
              case err of
                Some e \<Rightarrow> Inl e
              | None \<Rightarrow> Inr (if method = ''batch'' then Batch rs else Sequence rs)))
          else if method = ''ifelse'' then
            (let cond = (case map_of (fields_of v) ''if'' of
                           Some (F_Dict c) \<Rightarrow> load_condition (f, c) | _ \<Rightarrow> Inl No_Condition);
                 action = (\<lambda>key. case map_of (fields_of v) key of
                             None \<Rightarrow> Inr None
                           | Some a \<Rightarrow> bindr (action_parts (known_method C jp) f key a) (\<lambda>(m, p).
                                        bindr (load_request C jp f m p) (\<lambda>r. Inr (Some r))))
             in if f = Json_Params
                then bindr cond (\<lambda>c. bindr (action ''then'') (\<lambda>t. bindr (action ''else'') (\<lambda>e.
                       if t = None \<and> e = None then Inl No_Action else Inr (If_Else c t e))))
                else bindr (action ''else'') (\<lambda>e. bindr cond (\<lambda>c. bindr (action ''then'') (\<lambda>t.
                       if t = None \<and> e = None then Inl No_Action else Inr (If_Else c t e)))))
          else Inl (Bad_Method method))"
  by pat_completeness auto

termination load_request
  by (relation "measure (\<lambda>(C, jp, f, m, v). size v)")
     (auto dest!: subrequest_parts_size action_parts_size batch_items_size size_fields_of intro: less_trans)

declare load_request.simps [simp del]

end
