(* ===== verification/Request_Facts.thy ===== *)
theory Request_Facts
  imports Requests
begin

text \<open>
  Facts on the loading of client requests: what every loaded request satisfies, and that a
  request passed on to another member of the swarm is loaded there as the same request.
\<close>

section \<open>What a loaded request satisfies\<close>

definition time64 :: "time \<Rightarrow> bool" where
  "time64 t \<longleftrightarrow> - (2 ^ 63) \<le> t \<and> t < 2 ^ 63"

definition signed_wf :: "'a signed_request_scheme \<Rightarrow> bool" where
  "signed_wf r \<longleftrightarrow> pubkey_valid (rq_pubkey r)
     \<and> (\<forall>e. rq_ed25519 r = Some e \<longrightarrow> length e = 32 \<and> network (rq_pubkey r) = 5)
     \<and> (\<forall>s. rq_signature r = Some s \<longrightarrow> length s = 64)
     \<and> (\<forall>t. rq_subaccount r = Some t \<longrightarrow>
           length (token t) = SUBACCOUNT_TOKEN_LENGTH \<and> length (signature t) = 64 \<and> rq_signature r \<noteq> None)"

definition owner_signed :: "'a signed_request_scheme \<Rightarrow> bool" where
  "owner_signed r \<longleftrightarrow> signed_wf r \<and> rq_signature r \<noteq> None \<and> rq_subaccount r = None"

fun subrequest_wf :: "codecs \<Rightarrow> client_subrequest \<Rightarrow> bool" where
  "subrequest_wf C (Store s) \<longleftrightarrow> signed_wf s \<and> length (st_data s) \<le> MAX_MESSAGE_BODY
     \<and> (st_sig_ts s \<noteq> None \<longleftrightarrow> rq_signature s \<noteq> None) \<and> (rq_signature s = None \<longrightarrow> rq_ed25519 s = None)
     \<and> time64 (st_timestamp s) \<and> time64 (st_expiry s) \<and> (\<forall>t. st_sig_ts s = Some t \<longrightarrow> time64 t)"
| "subrequest_wf C (Retrieve r) \<longleftrightarrow> signed_wf r \<and> (rt_check_signature r \<longleftrightarrow> rq_signature r \<noteq> None)
     \<and> (rt_namespace r \<noteq> ns_Default \<and> \<not> is_noauth_retrieve_namespace (rt_namespace r) \<longrightarrow> rt_check_signature r)
     \<and> (\<forall>h. rt_last_hash r = Some h \<longrightarrow> is_valid_message_hash C h) \<and> time64 (rt_timestamp r)"
| "subrequest_wf C (Delete_Msgs r) \<longleftrightarrow> signed_wf r \<and> rq_signature r \<noteq> None \<and> dm_messages r \<noteq> []
     \<and> list_all (is_valid_message_hash C) (dm_messages r)"
| "subrequest_wf C (Revoke_Subaccount r) \<longleftrightarrow> owner_signed r \<and> length (rs_revoke r) \<le> MAX_SUBACCOUNT_TOKENS
     \<and> list_all (\<lambda>t. length t = SUBACCOUNT_TOKEN_LENGTH) (rs_revoke r) \<and> time64 (rs_timestamp r)"
| "subrequest_wf C (Unrevoke_Subaccount r) \<longleftrightarrow> owner_signed r
     \<and> list_all (\<lambda>t. length t = SUBACCOUNT_TOKEN_LENGTH) (ur_unrevoke r) \<and> time64 (ur_timestamp r)"
| "subrequest_wf C (Revoked_Subaccounts r) \<longleftrightarrow> owner_signed r \<and> time64 (rd_timestamp r)"
| "subrequest_wf C (Delete_All r) \<longleftrightarrow> signed_wf r \<and> rq_signature r \<noteq> None \<and> time64 (da_timestamp r)"
| "subrequest_wf C (Delete_Before r) \<longleftrightarrow> signed_wf r \<and> rq_signature r \<noteq> None \<and> time64 (db_before r)"
| "subrequest_wf C (Expire_All r) \<longleftrightarrow> signed_wf r \<and> rq_signature r \<noteq> None \<and> time64 (ea_expiry r)"
| "subrequest_wf C (Expire_Msgs r) \<longleftrightarrow> signed_wf r \<and> rq_signature r \<noteq> None
     \<and> em_messages r \<noteq> [] \<and> list_all (is_valid_message_hash C) (em_messages r)
     \<and> (length (em_expiry r) = 1 \<or> length (em_expiry r) = length (em_messages r))
     \<and> list_all time64 (em_expiry r) \<and> \<not> (em_shorten r \<and> em_extend r)"
| "subrequest_wf C (Get_Expiries r) \<longleftrightarrow> signed_wf r \<and> rq_signature r \<noteq> None
     \<and> (ge_messages r = [] \<longleftrightarrow> ge_namespace r \<noteq> None) \<and> time64 (ge_sig_ts r)"
| "subrequest_wf C (Get_Message_Count r) \<longleftrightarrow> signed_wf r \<and> rq_signature r \<noteq> None \<and> time64 (gc_sig_ts r)"
| "subrequest_wf C (Get_Swarm pk) \<longleftrightarrow> pubkey_valid pk"
| "subrequest_wf C (Oxend_Request r) \<longleftrightarrow> ox_endpoint r \<in> {''get_service_nodes'', ''ons_resolve''}"
| "subrequest_wf C Active_Nodes_Bin \<longleftrightarrow> True"
| "subrequest_wf C Info \<longleftrightarrow> True"

fun request_wf :: "codecs \<Rightarrow> client_request \<Rightarrow> bool" where
  "request_wf C (Subrequest r) \<longleftrightarrow> subrequest_wf C r"
| "request_wf C (Batch rs) \<longleftrightarrow> rs \<noteq> [] \<and> length rs \<le> BATCH_REQUEST_MAX \<and> list_all (subrequest_wf C) rs"
| "request_wf C (Sequence rs) \<longleftrightarrow> rs \<noteq> [] \<and> length rs \<le> BATCH_REQUEST_MAX \<and> list_all (subrequest_wf C) rs"
| "request_wf C (If_Else c t e) \<longleftrightarrow> (t \<noteq> None \<or> e \<noteq> None)
     \<and> (case t of Some r \<Rightarrow> request_wf C r | None \<Rightarrow> True) \<and> (case e of Some r \<Rightarrow> request_wf C r | None \<Rightarrow> True)"

section \<open>Steps of the loaders\<close>

named_theorems parse_elims \<open>what a successful step of a loader gives\<close>

lemma bindr_InrE [parse_elims]: "bindr r f = Inr b \<Longrightarrow> (\<And>a. r = Inr a \<Longrightarrow> f a = Inr b \<Longrightarrow> P) \<Longrightarrow> P"
  by (auto simp: bindr_def split: sum.splits)

lemma bindr_simps [simp]: "bindr (Inr a) f = f a" "bindr (Inl e) f = Inl e"
  by (auto simp: bindr_def)

lemma require_InrE [parse_elims]: "require n v = Inr a \<Longrightarrow> (v = Some a \<Longrightarrow> P) \<Longrightarrow> P"
  by (auto simp: require_def split: option.splits)

lemma time64_sint [simp]: "time64 (sint (w :: u64))"
  using sint_greater_eq [of w] sint_lt [of w] by (simp add: time64_def)

lemma time64_from_epoch_ms [simp]: "time64 (from_epoch_ms64 ms)"
  by (simp add: from_epoch_ms64_def)

lemma time64_add_ms [simp]: "time64 (add_ms t ms)"
  by (simp add: add_ms_def)

lemma time_of_time64: "time_of f n v = Inr t \<Longrightarrow> time64 t"
  by (cases "(f, n, v)" rule: time_of.cases) (auto simp: Let_def split: if_splits elim: bindr_InrE)

lemma array_time_of_time64: "array_time_of f n v = Inr t \<Longrightarrow> time64 t"
  by (cases "(f, n, v)" rule: array_time_of.cases) (auto elim: bindr_InrE)

lemma parse_as_Some: "parse_as conv d n = Inr (Some x) \<Longrightarrow> \<exists>v. conv v = Inr x"
  by (auto simp: parse_as_def split: option.splits elim!: bindr_InrE)

lemma parse_time_time64: "parse_time d n = Inr (Some t) \<Longrightarrow> time64 t"
  using time_of_time64 by (auto simp: parse_time_def dest: parse_as_Some)

lemma convert_all_Inr: "convert_all conv xs = Inr ys \<Longrightarrow> list_all2 (\<lambda>x y. conv x = Inr y) xs ys"
  by (induction xs arbitrary: ys) (auto elim!: bindr_InrE)

lemma convert_all_set: "convert_all conv xs = Inr ys \<Longrightarrow> y \<in> set ys \<Longrightarrow> \<exists>x \<in> set xs. conv x = Inr y"
  by (induction xs arbitrary: ys) (auto elim!: bindr_InrE)

lemma convert_all_length: "convert_all conv xs = Inr ys \<Longrightarrow> length ys = length xs"
  using convert_all_Inr list_all2_lengthD by metis

lemma array_of_set:
  assumes "array_of conv v = Inr ys" and "y \<in> set ys"
  shows "\<exists>x. conv x = Inr y"
proof (cases "\<exists>xs. v = F_List xs")
  case True
  then obtain xs where "v = F_List xs" by blast
  with assms(1) have "convert_all conv xs = Inr ys" by simp
  from convert_all_set [OF this assms(2)] show ?thesis by blast
next
  case False
  then have "array_of conv v = bindr (conv v) (\<lambda>x. Inr [x])" by (cases v) auto
  with assms show ?thesis by (auto elim!: bindr_InrE)
qed

lemma parse_time_array_time64:
  assumes "parse_time_array d n = Inr (Some ts)" and "t \<in> set ts"
  shows "time64 t"
proof -
  obtain v where "array_of (array_time_of (fst d) n) v = Inr ts"
    using assms(1) unfolding parse_time_array_def by (blast dest: parse_as_Some)
  from array_of_set [OF this assms(2)] show ?thesis using array_time_of_time64 by blast
qed

section \<open>Keys, signatures and tokens\<close>

lemma load_pk_valid: "codecs_ok C \<Longrightarrow> load_pk C pk = Inr k \<Longrightarrow> pubkey_valid k"
  using load_pubkey_valid [of "hexc C"]
  by (fastforce simp: load_pk_def codecs_ok_def Let_def pubkey_bool_def invalid_pubkey_def split: if_splits elim!: bindr_InrE)

lemma base64_length:
  assumes "base64_ok B" and "is_base64 B s" and "length s mod 4 \<noteq> 0"
  shows "length (from_base64 B s) = 3 * length s div 4"
  using assms unfolding base64_ok_def by (metis add.right_neutral gr0I)

lemma padding_no_digit: "\<not> base64_digit (CHR ''='')"
  by (simp add: base64_digit_def)

lemma signature_length:
  assumes "codecs_ok C" and "signature_form C f s"
  shows "length (signature_bytes C f s) = 64"
proof (cases "f = Json_Params \<and> length s = 88")
  case True
  then have b: "is_base64 (b64c C) s" and e: "drop 86 s = ''==''"
    using assms(2) by (auto simp: signature_form_def)
  from b obtain n k where k: "k \<le> 2" "length s = n + k" "list_all base64_digit (take n s)"
      "drop n s = replicate k (CHR ''='')" "length (from_base64 (b64c C) s) = 3 * n div 4"
    using assms(1) unfolding codecs_ok_def base64_ok_def by blast
  have l: "length s = 88" using True by simp
  have "k = 2"
  proof (rule ccontr)
    assume "k \<noteq> 2"
    with k l have "86 < n" by linarith
    then have "s ! 86 \<in> set (take n s)" using l nth_mem [of 86 "take n s"] by simp
    moreover have "hd (drop 86 s) = s ! 86" by (rule hd_drop_conv_nth) (simp add: l)
    then have "s ! 86 = CHR ''=''" unfolding e by simp
    ultimately have "base64_digit (CHR ''='')" using k(3) unfolding list_all_iff by metis
    then show False using padding_no_digit by blast
  qed
  with k l True show ?thesis by (simp add: signature_bytes_def)
next
  case False
  then show ?thesis using assms base64_length [of "b64c C" s]
    by (auto simp: signature_form_def signature_bytes_def codecs_ok_def split: if_splits)
qed

lemma load_ed25519_length: "codecs_ok C \<Longrightarrow> load_ed25519 C k e = Inr (Some x) \<Longrightarrow> length x = 32 \<and> network k = 5"
  by (auto simp: load_ed25519_def codecs_ok_def hex_ok_def split: option.splits if_splits)

lemma token_of_length: "token_of C f s = Inr t \<Longrightarrow> length t = SUBACCOUNT_TOKEN_LENGTH"
  by (auto simp: token_of_def token_bytes_def split: if_splits)

lemma load_pk_signature_wf:
  assumes "codecs_ok C" and "load_pk_signature C f pk e s = Inr r"
  shows "owner_signed r"
  using assms load_pk_valid [OF assms(1)] load_ed25519_length [OF assms(1)] signature_length [OF assms(1)]
  by (auto simp: load_pk_signature_def owner_signed_def signed_wf_def split: if_splits elim!: parse_elims)

lemma load_subaccount_wf:
  assumes "codecs_ok C" and "load_subaccount C f sa s = Inr (Some t)"
  shows "length (token t) = SUBACCOUNT_TOKEN_LENGTH \<and> length (signature t) = 64"
  using assms token_of_length signature_length [OF assms(1)]
  by (auto simp: load_subaccount_def split: if_splits option.splits elim!: parse_elims)

lemma load_signed_wf:
  assumes "codecs_ok C" and "load_signed C d pk e s sa sas = Inr r"
  shows "signed_wf r \<and> rq_signature r \<noteq> None"
  using assms load_pk_signature_wf [OF assms(1)] load_subaccount_wf [OF assms(1)]
  by (fastforce simp: load_signed_def signed_wf_def owner_signed_def elim!: parse_elims)

lemma check_hashes_ok: "check_hashes C hs = Inr u \<Longrightarrow> list_all (is_valid_message_hash C) hs"
  by (auto simp: check_hashes_def find_None_all list_all_iff split: option.splits)

lemma message_data_length:
  assumes "codecs_ok C" and "message_data C f s = Inr b"
  shows "length b \<le> MAX_MESSAGE_BODY"
proof (cases "f = Json_Params")
  case True
  then have b: "is_base64 (b64c C) s" "length s \<le> 102400" "b = from_base64 (b64c C) s"
    using assms(2) by (auto simp: message_data_def MAX_MESSAGE_BODY_def split: if_splits)
  obtain n k where "length s = n + k" "length (from_base64 (b64c C) s) = 3 * n div 4"
    using assms(1) b(1) unfolding codecs_ok_def base64_ok_def by metis
  with b(2,3) show ?thesis by (simp add: MAX_MESSAGE_BODY_def)
next
  case False
  then show ?thesis using assms(2) by (auto simp: message_data_def split: if_splits)
qed


lemma extend_wf [simp]:
  "signed_wf (signed_request.extend r m) = signed_wf r" "owner_signed (signed_request.extend r m) = owner_signed r"
  "rq_signature (signed_request.extend r m) = rq_signature r" "rq_ed25519 (signed_request.extend r m) = rq_ed25519 r"
  "rq_subaccount (signed_request.extend r m) = rq_subaccount r" "rq_pubkey (signed_request.extend r m) = rq_pubkey r"
  by (simp_all add: signed_wf_def owner_signed_def signed_request.defs)

lemma extend_fields [simp]:
  "st_namespace (signed_request.extend r (store_request.fields n t e b s)) = n"
  "st_timestamp (signed_request.extend r (store_request.fields n t e b s)) = t"
  "st_expiry (signed_request.extend r (store_request.fields n t e b s)) = e"
  "st_data (signed_request.extend r (store_request.fields n t e b s)) = b"
  "st_sig_ts (signed_request.extend r (store_request.fields n t e b s)) = s"
  "rt_namespace (signed_request.extend r (retrieve_request.fields n lh mc ms c t)) = n"
  "rt_last_hash (signed_request.extend r (retrieve_request.fields n lh mc ms c t)) = lh"
  "rt_check_signature (signed_request.extend r (retrieve_request.fields n lh mc ms c t)) = c"
  "rt_timestamp (signed_request.extend r (retrieve_request.fields n lh mc ms c t)) = t"
  "dm_messages (signed_request.extend r (delete_msgs_request.fields hs b')) = hs"
  "rs_revoke (signed_request.extend r (revoke_request.fields ts t)) = ts"
  "rs_timestamp (signed_request.extend r (revoke_request.fields ts t)) = t"
  "ur_unrevoke (signed_request.extend r (unrevoke_request.fields ts t)) = ts"
  "ur_timestamp (signed_request.extend r (unrevoke_request.fields ts t)) = t"
  "rd_timestamp (signed_request.extend r (revoked_request.fields t)) = t"
  "da_timestamp (signed_request.extend r (delete_all_request.fields v t)) = t"
  "db_before (signed_request.extend r (delete_before_request.fields v t)) = t"
  "ea_expiry (signed_request.extend r (expire_all_request.fields v t)) = t"
  "em_messages (signed_request.extend r (expire_msgs_request.fields hs es b' x)) = hs"
  "em_expiry (signed_request.extend r (expire_msgs_request.fields hs es b' x)) = es"
  "em_shorten (signed_request.extend r (expire_msgs_request.fields hs es b' x)) = b'"
  "em_extend (signed_request.extend r (expire_msgs_request.fields hs es b' x)) = x"
  "ge_messages (signed_request.extend r (get_expiries_request.fields hs ns t)) = hs"
  "ge_namespace (signed_request.extend r (get_expiries_request.fields hs ns t)) = ns"
  "ge_sig_ts (signed_request.extend r (get_expiries_request.fields hs ns t)) = t"
  "gc_sig_ts (signed_request.extend r (message_count_request.fields t)) = t"
  by (simp_all add: signed_request.defs store_request.defs retrieve_request.defs delete_msgs_request.defs
      revoke_request.defs unrevoke_request.defs revoked_request.defs delete_all_request.defs
      delete_before_request.defs expire_all_request.defs expire_msgs_request.defs get_expiries_request.defs
      message_count_request.defs)

lemma store_timestamp_time64: "store_timestamp d = Inr (Some t) \<Longrightarrow> time64 t"
  using parse_time_time64 [of d "''timestamp''" t] by (auto simp: store_timestamp_def split: if_splits elim!: bindr_InrE)

text \<open>The account part of a request that may come without a signature.\<close>

lemma optional_signature_wf:
  assumes "codecs_ok C"
    and "(if c then load_signed C d key ed sig sa sas
          else bindr (load_pk C key) (\<lambda>k. Inr \<lparr>rq_pubkey = k, rq_ed25519 = None, rq_signature = None, rq_subaccount = None\<rparr>))
         = Inr r"
  shows "signed_wf r \<and> (rq_signature r \<noteq> None \<longleftrightarrow> c) \<and> (\<not> c \<longrightarrow> rq_ed25519 r = None)"
proof (cases c)
  case True
  then show ?thesis using assms(2) load_signed_wf [OF assms(1), of d key ed sig sa sas r] by simp
next
  case False
  then show ?thesis using assms(2) load_pk_valid [OF assms(1), of key]
    by (auto simp: signed_wf_def elim!: bindr_InrE)
qed

lemma load_store_wf:
  assumes C: "codecs_ok C" and "load_store C d = Inr s"
  shows "subrequest_wf C (Store s)"
  using assms(2) unfolding load_store_def Let_def
proof (elim parse_elims, goal_cases)
  case (1 data expiry ns alt pk ed sts sig sa sas ts ttl ts1 u w r dt body)
  have "time64 ts1" using store_timestamp_time64 [of d ts1] 1 by simp
  moreover have "time64 (case expiry of Some e \<Rightarrow> e | None \<Rightarrow> add_ms ts1 (the ttl))"
    using parse_time_time64 [of d "''expiry''"] 1 by (simp split: option.split)
  moreover have "time64 (case sts of Some t \<Rightarrow> t | None \<Rightarrow> ts1)"
    using parse_time_time64 [of d "''sig_timestamp''"] 1 calculation(1) by (simp split: option.split)
  moreover have "signed_wf r \<and> (rq_signature r \<noteq> None \<longleftrightarrow> sig \<noteq> None) \<and> (\<not> sig \<noteq> None \<longrightarrow> rq_ed25519 r = None)"
    by (rule optional_signature_wf [OF C]) (rule 1)
  ultimately show ?case
    using 1 message_data_length [OF C, of "fst d" dt body] by (cases sig) auto
qed

lemma load_last_hash_valid: "load_last_hash C h = Inr (Some s) \<Longrightarrow> is_valid_message_hash C s"
  by (auto simp: load_last_hash_def is_valid_message_hash_def split: option.splits if_splits)

lemma load_retrieve_wf:
  assumes C: "codecs_ok C" and "load_retrieve C d = Inr s"
  shows "subrequest_wf C (Retrieve s)"
  using assms(2) unfolding load_retrieve_def Let_def
proof (elim bindr_InrE, goal_cases)
  case (1 lastHash last_hash mc ms ns alt pk ed sig sa sas ts u rt)
  obtain r t where rt: "rt = (r, t)" by (cases rt)
  define key where "key = (if pk \<noteq> None then pk else alt)"
  define auth where "auth \<longleftrightarrow> ed \<noteq> None \<or> sig \<noteq> None \<or> ts \<noteq> None
     \<or> (case ns of Some n \<Rightarrow> \<not> is_noauth_retrieve_namespace n | None \<Rightarrow> False)"
  have "signed_wf r \<and> (rq_signature r \<noteq> None \<longleftrightarrow> auth) \<and> time64 t"
  proof (cases auth)
    case True
    with 1(14) have "load_signed C d key ed sig sa sas = Inr r" "ts = Some t"
      unfolding rt auth_def [symmetric] key_def [symmetric] by (auto split: option.splits elim!: bindr_InrE)
    with True show ?thesis
      using load_signed_wf [OF C, of d key ed sig sa sas r] parse_time_time64 [of d "''timestamp''" t] 1(12) by simp
  next
    case False
    with 1(14) show ?thesis
      unfolding rt auth_def [symmetric] key_def [symmetric] using load_pk_valid [OF C, of key]
      by (auto simp: signed_wf_def time64_def elim!: bindr_InrE)
  qed
  moreover obtain lh where "load_last_hash C (if lastHash \<noteq> None then lastHash else last_hash) = Inr lh"
    and "s = signed_request.extend r (retrieve_request.fields (case ns of Some n \<Rightarrow> n | None \<Rightarrow> ns_Default) lh mc ms auth t)"
    using 1(15) unfolding rt auth_def [symmetric] by (auto elim!: bindr_InrE split del: if_split)
  moreover have "(case ns of Some n \<Rightarrow> n | None \<Rightarrow> ns_Default) \<noteq> ns_Default
      \<and> \<not> is_noauth_retrieve_namespace (case ns of Some n \<Rightarrow> n | None \<Rightarrow> ns_Default) \<longrightarrow> auth"
    by (auto simp: auth_def split: option.splits)
  ultimately show ?case by (auto dest: load_last_hash_valid split del: if_split)
qed

lemma tokens_length:
  assumes "convert_all (token_of C f) xs = Inr ts"
  shows "list_all (\<lambda>t. length t = SUBACCOUNT_TOKEN_LENGTH) ts"
  unfolding list_all_iff using convert_all_set [OF assms] token_of_length by blast

lemma load_delete_msgs_wf:
  assumes C: "codecs_ok C" and "load_delete_msgs C d = Inr s"
  shows "subrequest_wf C (Delete_Msgs s)"
  using assms(2) unfolding load_delete_msgs_def
proof (elim parse_elims, goal_cases)
  case (1 messages pk ed req sig sa sas r hs)
  then have "hs \<noteq> []" "list_all (is_valid_message_hash C) hs"
    "s = signed_request.extend r (delete_msgs_request.fields hs (req = Some True))"
    by (auto dest: check_hashes_ok split: if_splits elim!: bindr_InrE)
  with 1 load_signed_wf [OF C, of d pk ed sig sa sas r] show ?case by simp
qed

lemma load_revoke_wf:
  assumes C: "codecs_ok C" and "load_revoke_subaccount C d = Inr s"
  shows "subrequest_wf C (Revoke_Subaccount s)"
  using assms(2) unfolding load_revoke_subaccount_def
proof (elim parse_elims, goal_cases)
  case (1 pk ed revoke sig timestamp r sas)
  then obtain ts t where "convert_all (token_of C (fst d)) sas = Inr ts" "timestamp = Some t"
      "length sas \<le> MAX_SUBACCOUNT_TOKENS" "s = signed_request.extend r (revoke_request.fields ts t)"
    by (auto split: if_splits elim!: parse_elims)
  with 1 load_pk_signature_wf [OF C, of "fst d" pk ed sig r] show ?case
    using tokens_length convert_all_length parse_time_time64 [of d "''timestamp''" t] by fastforce
qed

lemma load_unrevoke_wf:
  assumes C: "codecs_ok C" and "load_unrevoke_subaccount C d = Inr s"
  shows "subrequest_wf C (Unrevoke_Subaccount s)"
  using assms(2) unfolding load_unrevoke_subaccount_def
proof (elim parse_elims, goal_cases)
  case (1 pk ed sig timestamp unrevoke r t sas ts)
  with load_pk_signature_wf [OF C, of "fst d" pk ed sig r] show ?case
    using tokens_length parse_time_time64 [of d "''timestamp''" t] by auto
qed

lemma load_revoked_wf:
  assumes C: "codecs_ok C" and "load_revoked_subaccounts C d = Inr s"
  shows "subrequest_wf C (Revoked_Subaccounts s)"
  using assms(2) unfolding load_revoked_subaccounts_def
proof (elim parse_elims, goal_cases)
  case (1 pk ed sig timestamp r t)
  with load_pk_signature_wf [OF C, of "fst d" pk ed sig r] show ?case
    using parse_time_time64 [of d "''timestamp''" t] by auto
qed

lemma load_delete_all_wf:
  assumes C: "codecs_ok C" and "load_delete_all C d = Inr s"
  shows "subrequest_wf C (Delete_All s)"
  using assms(2) unfolding load_delete_all_def
proof (elim parse_elims, goal_cases)
  case (1 ns pk ed sig sa sas timestamp r t)
  with load_signed_wf [OF C, of d pk ed sig sa sas r] show ?case
    using parse_time_time64 [of d "''timestamp''" t] by auto
qed

lemma load_delete_before_wf:
  assumes C: "codecs_ok C" and "load_delete_before C d = Inr s"
  shows "subrequest_wf C (Delete_Before s)"
  using assms(2) unfolding load_delete_before_def
proof (elim parse_elims, goal_cases)
  case (1 before ns pk ed sig sa sas r t)
  with load_signed_wf [OF C, of d pk ed sig sa sas r] show ?case
    using parse_time_time64 [of d "''before''" t] by auto
qed

lemma load_expire_all_wf:
  assumes C: "codecs_ok C" and "load_expire_all C d = Inr s"
  shows "subrequest_wf C (Expire_All s)"
  using assms(2) unfolding load_expire_all_def
proof (elim parse_elims, goal_cases)
  case (1 expiry ns pk ed sig sa sas r t)
  with load_signed_wf [OF C, of d pk ed sig sa sas r] show ?case
    using parse_time_time64 [of d "''expiry''" t] by auto
qed

lemma load_expire_msgs_wf:
  assumes C: "codecs_ok C" and "load_expire_msgs C d = Inr s"
  shows "subrequest_wf C (Expire_Msgs s)"
  using assms(2) unfolding load_expire_msgs_def
proof (elim parse_elims, goal_cases)
  case (1 expiry ext messages pk ed sh sig sa sas r es)
  from 1(11) obtain hs where hs: "messages = Some hs"
    by (auto split: if_splits elim!: parse_elims)
  from 1(11) have "es \<noteq> []" "hs \<noteq> []" "length es > 1 \<longrightarrow> length es = length hs"
      "\<not> (sh = Some True \<and> ext = Some True)" "list_all (is_valid_message_hash C) hs"
      "s = signed_request.extend r (expire_msgs_request.fields hs es (sh = Some True) (ext = Some True))"
    unfolding hs by (auto simp: require_def dest: check_hashes_ok split: if_splits elim!: bindr_InrE)
  moreover have "length es = 1 \<or> length es > 1" using calculation(1) by (cases es) auto
  moreover have "list_all time64 es"
    using parse_time_array_time64 [of d "''expiry''" es] 1 by (simp add: list_all_iff)
  ultimately show ?case using 1 load_signed_wf [OF C, of d pk ed sig sa sas r] by auto
qed

lemma load_get_expiries_wf:
  assumes C: "codecs_ok C" and "load_get_expiries C d = Inr s"
  shows "subrequest_wf C (Get_Expiries s)"
  using assms(2) unfolding load_get_expiries_def
proof (elim parse_elims, goal_cases)
  case (1 messages ns pk ed sig sa sas timestamp r t u)
  with load_signed_wf [OF C, of d pk ed sig sa sas r] show ?case
    using parse_time_time64 [of d "''timestamp''" t] by (auto simp: Let_def split: option.splits if_splits)
qed

lemma load_get_message_count_wf:
  assumes C: "codecs_ok C" and "load_get_message_count C d = Inr s"
  shows "subrequest_wf C (Get_Message_Count s)"
  using assms(2) unfolding load_get_message_count_def
proof (elim parse_elims, goal_cases)
  case (1 pk ed sig sa sas timestamp r t)
  with load_signed_wf [OF C, of d pk ed sig sa sas r] show ?case
    using parse_time_time64 [of d "''timestamp''" t] by auto
qed

lemma load_get_swarm_wf:
  assumes "codecs_ok C" and "load_get_swarm C d = Inr pk"
  shows "subrequest_wf C (Get_Swarm pk)"
  using assms load_pk_valid [OF assms(1)] by (auto simp: load_get_swarm_def elim!: bindr_InrE)

lemma load_oxend_request_wf: "load_oxend_request jp d = Inr r \<Longrightarrow> subrequest_wf C (Oxend_Request r)"
  by (auto simp: load_oxend_request_def split: if_splits option.splits elim!: parse_elims)

lemmas loaders_wf = load_store_wf load_retrieve_wf load_delete_msgs_wf load_revoke_wf load_unrevoke_wf
  load_revoked_wf load_delete_all_wf load_delete_before_wf load_expire_all_wf load_expire_msgs_wf
  load_get_expiries_wf load_get_message_count_wf load_get_swarm_wf

lemma loaded_wf:
  assumes "loaded con x = Inr r" and "\<And>y. x = Inr y \<Longrightarrow> subrequest_wf C (con y)"
  shows "\<exists>q. r = Subrequest q \<and> subrequest_wf C q"
  using assms by (auto simp: loaded_def elim!: bindr_InrE)

lemma simple_loader_wf:
  assumes C: "codecs_ok C" and "simple_loader C jp m = Some load" and "load d = Inr r"
  shows "\<exists>q. r = Subrequest q \<and> subrequest_wf C q"
  using map_of_SomeD [OF assms(2) [unfolded simple_loader_def]] assms(3)
  by (simp only: list.set insert_iff empty_iff prod.inject simp_thms)
     (elim disjE conjE; hypsubst; (rule loaded_wf, assumption, (rule loaders_wf [OF C] | rule load_oxend_request_wf), assumption)?;
      auto?)

lemma as_subrequest_Inr: "as_subrequest r = Inr q \<Longrightarrow> r = Subrequest q"
  by (cases r) auto

lemma batch_items_length:
  "batch_items f d = Inr (js, None) \<Longrightarrow> js \<noteq> [] \<and> length js \<le> BATCH_REQUEST_MAX"
  by (auto simp: batch_items_def split: option.splits field_value.splits if_splits)

text \<open>
  The two steps of the recursion, given that the requests below are well formed.
\<close>

lemma subrequests_wf:
  assumes IH: "\<And>m p q. size p < size v \<Longrightarrow> load_request C jp f m p = Inr q \<Longrightarrow> request_wf C q"
    and items: "batch_items f (fields_of v) = Inr (js, None)"
    and rs: "convert_all (\<lambda>j. bindr (subrequest_parts (known_method C jp) f j) (\<lambda>(m, p).
               bindr (load_request C jp f m p) as_subrequest)) js = Inr rs"
  shows "rs \<noteq> [] \<and> length rs \<le> BATCH_REQUEST_MAX \<and> list_all (subrequest_wf C) rs"
proof -
  have "subrequest_wf C q" if q: "q \<in> set rs" for q
  proof -
    obtain j m p where j: "j \<in> set js" "subrequest_parts (known_method C jp) f j = Inr (m, p)"
        "load_request C jp f m p = Inr (Subrequest q)"
      using convert_all_set [OF rs q] by (auto elim!: bindr_InrE dest!: as_subrequest_Inr)
    have "size p < size v"
      using subrequest_parts_size [OF j(2)] batch_items_size [OF items j(1)] by linarith
    from IH [OF this j(3)] show ?thesis by simp
  qed
  moreover have "length rs = length js" by (rule convert_all_length [OF rs])
  ultimately show ?thesis using batch_items_length [OF items] by (auto simp: list_all_iff)
qed

lemma action_wf:
  assumes IH: "\<And>m p q. size p < size v \<Longrightarrow> load_request C jp f m p = Inr q \<Longrightarrow> request_wf C q"
    and "(case map_of (fields_of v) key of
            None \<Rightarrow> Inr None
          | Some a \<Rightarrow> bindr (action_parts (known_method C jp) f key a) (\<lambda>(m, p).
                       bindr (load_request C jp f m p) (\<lambda>r. Inr (Some r)))) = Inr t"
  shows "case t of Some r \<Rightarrow> request_wf C r | None \<Rightarrow> True"
proof (cases t)
  case (Some r)
  obtain a m p where a: "map_of (fields_of v) key = Some a" "action_parts (known_method C jp) f key a = Inr (m, p)"
      "load_request C jp f m p = Inr r"
    using assms(2) Some by (auto split: option.splits elim!: bindr_InrE)
  have "size p < size v" using action_parts_size [OF a(2)] size_fields_of [OF a(1)] by linarith
  from IH [OF this a(3)] Some show ?thesis by simp
qed simp



section \<open>Samples\<close>

text \<open>Codecs that satisfy what is documented of those of oxenc.\<close>

definition plain_base64 :: base64_codec where
  "plain_base64 = \<lparr>is_base64 = list_all base64_digit, to_base64 = (\<lambda>s. s), from_base64 = (\<lambda>s. take (3 * length s div 4) s)\<rparr>"

definition plain_codecs :: codecs where
  "plain_codecs = \<lparr>is_mainnet = True, hexc = plain_hex, b64c = plain_base64\<rparr>"

lemma plain_codecs_ok: "codecs_ok plain_codecs"
proof -
  have "base64_ok plain_base64"
    unfolding base64_ok_def
  proof (intro allI impI)
    fix s
    assume "is_base64 plain_base64 s"
    then show "\<exists>n k. k \<le> 2 \<and> (0 < k \<longrightarrow> length s mod 4 = 0) \<and> length s = n + k \<and> list_all base64_digit (take n s)
        \<and> drop n s = replicate k (CHR ''='') \<and> length (from_base64 plain_base64 s) = 3 * n div 4"
      by (intro exI [of _ "length s"] exI [of _ 0]) (simp add: plain_base64_def)
  qed
  then show ?thesis by (simp add: codecs_ok_def plain_codecs_def plain_hex_ok)
qed

definition sample_hash :: string where
  "sample_hash = replicate 43 (CHR ''A'')"

definition sample_signature :: string where
  "sample_signature = replicate 64 (CHR ''s'')"

definition sample_delete :: delete_msgs_request where
  "sample_delete = \<lparr>rq_pubkey = sample_pubkey, rq_ed25519 = None, rq_signature = Some sample_signature,
     rq_subaccount = None, dm_messages = [sample_hash], dm_required = False\<rparr>"

definition sample_batch_params :: field_value where
  "sample_batch_params = F_Dict [(''requests'', F_List [F_Dict [(''method'', F_Str ''delete''),
     (''params'', F_Dict (delete_msgs_to_bt sample_delete))]])]"

lemma sample_facts:
  "is_valid_message_hash plain_codecs sample_hash" "length sample_signature = 64" "pubkey_valid sample_pubkey"
  by (simp_all add: is_valid_message_hash_def sample_hash_def plain_codecs_def plain_base64_def list_all_iff
      base64_digit_def sample_signature_def sample_pubkey_def pubkey_valid_def)

section \<open>Requests passed on\<close>

text \<open>
  The times of a request. Those a client gives in milliseconds, up to the year 2262, are whole
  milliseconds of the clock's range.
\<close>

fun request_times :: "client_subrequest \<Rightarrow> time list" where
  "request_times (Store r) = st_timestamp r # st_expiry r # (case st_sig_ts r of Some t \<Rightarrow> [t] | None \<Rightarrow> [])"
| "request_times (Revoke_Subaccount r) = [rs_timestamp r]"
| "request_times (Unrevoke_Subaccount r) = [ur_timestamp r]"
| "request_times (Delete_All r) = [da_timestamp r]"
| "request_times (Delete_Before r) = [db_before r]"
| "request_times (Expire_All r) = [ea_expiry r]"
| "request_times (Expire_Msgs r) = em_expiry r"
| "request_times _ = []"

definition whole_ms :: "time \<Rightarrow> bool" where
  "whole_ms t \<longleftrightarrow> time64 t \<and> from_epoch_ms (to_epoch_ms t) = t"

text \<open>The one member that is not passed on.\<close>

fun as_forwarded :: "client_subrequest \<Rightarrow> client_subrequest" where
  "as_forwarded (Delete_Msgs r) = Delete_Msgs (r\<lparr>dm_required := False\<rparr>)"
| "as_forwarded r = r"

lemma whole_ms_range: "whole_ms t \<Longrightarrow> - (2 ^ 63) \<le> to_epoch_ms t \<and> to_epoch_ms t \<le> 2 ^ 63 - 1"
  by (auto simp: whole_ms_def time64_def from_epoch_ms_def)

lemma sint_word64: "- (2 ^ 63) \<le> i \<Longrightarrow> i < 2 ^ 63 \<Longrightarrow> sint (word_of_int i :: u64) = i"
  using signed_take_bit_int_eq_self [of 63 i] by (simp add: signed_of_int)

lemma uint_word64: "0 \<le> i \<Longrightarrow> i < 2 ^ 63 \<Longrightarrow> uint (word_of_int i :: u64) = i"
  by (simp add: uint_word_of_int)

lemma integer_of_F_int: "- (2 ^ 63) \<le> i \<Longrightarrow> i < 2 ^ 63 \<Longrightarrow> integer_of (F_int i) = Some i"
  by (simp add: F_int_def sint_word64 uint_word64 del: of_int_numeral)

lemma time_of_F_int: "whole_ms t \<Longrightarrow> time_of Bt_Params n (F_int (to_epoch_ms t)) = Inr t"
proof -
  assume t: "whole_ms t"
  have "integer_of (F_int (to_epoch_ms t)) = Some (to_epoch_ms t)"
    using whole_ms_range [OF t] by (intro integer_of_F_int) auto
  moreover have "from_epoch_ms64 (to_epoch_ms t) = t"
    using t unfolding from_epoch_ms64_def whole_ms_def time64_def from_epoch_ms_def by (metis sint_word64)
  ultimately show ?thesis using whole_ms_range [OF t] by (simp add: consume_int64_def consume_int_as_def)
qed

lemma array_time_of_F_int: "whole_ms t \<Longrightarrow> array_time_of Bt_Params n (F_int (to_epoch_ms t)) = Inr t"
  using time_of_F_int [of t n] by simp

lemma namespace_of_F_int: "namespace_of Bt_Params n (F_int (to_int ns)) = Inr ns"
proof -
  have "integer_of (F_int (to_int ns)) = Some (to_int ns)"
    using to_int_range [of ns] by (intro integer_of_F_int) auto
  then show ?thesis using to_int_range [of ns]
    by (simp add: namespace_of_def consume_int_as_def NAMESPACE_MIN_def NAMESPACE_MAX_def) (simp add: to_int_def)
qed

lemma namespace_var_of_F_int: "namespace_var_of Bt_Params n (F_int (to_int ns)) = Inr (NS_Id ns)"
  using namespace_of_F_int [of n ns] by (simp add: F_int_def split: if_splits)

lemma convert_all_map: "(\<And>x. x \<in> set xs \<Longrightarrow> conv (f x) = Inr x) \<Longrightarrow> convert_all conv (map f xs) = Inr xs"
  by (induction xs) auto

subsection \<open>Reading back a dictionary\<close>

definition keys_ordered :: "(string \<times> field_value) list \<Rightarrow> bool" where
  "keys_ordered d \<longleftrightarrow> sorted_wrt (<) (map fst d)"

named_theorems bt_simps \<open>reading the fields of a dictionary that was written\<close>

lemma keys_ordered_put [bt_simps]:
  "keys_ordered d \<Longrightarrow> keys_ordered (map_put k v d)" "keys_ordered d \<Longrightarrow> keys_ordered (put_opt k o_v d)"
  "keys_ordered d \<Longrightarrow> keys_ordered (set_variant k n d)" "keys_ordered [x]"
  by (auto simp: keys_ordered_def put_opt_def set_variant_def map_put_sorted split: option.split)

lemma lookup_put [bt_simps]:
  "keys_ordered d \<Longrightarrow> map_of (map_put k v d) = (map_of d)(k \<mapsto> v)"
  "keys_ordered d \<Longrightarrow> map_of (put_opt k o_v d) = (case o_v of Some v \<Rightarrow> (map_of d)(k \<mapsto> v) | None \<Rightarrow> map_of d)"
  "keys_ordered d \<Longrightarrow> map_of (set_variant k n d) =
     (map_of d)(k \<mapsto> (case n of NS_Id i \<Rightarrow> F_int (to_int i) | NS_All \<Rightarrow> F_Str ''all''))"
  by (auto simp: keys_ordered_def put_opt_def set_variant_def map_put_lookup split: option.split)

lemma to_bt_common_ordered [bt_simps]: "keys_ordered (to_bt_common r)"
  by (simp add: to_bt_common_def Let_def bt_simps)

lemma to_bt_common_lookup [bt_simps]:
  "map_of (to_bt_common r) k =
     (if k = ''pubkey'' then Some (F_Str (prefixed_raw (rq_pubkey r)))
      else if k = ''signature'' then map_option F_Str (rq_signature r)
      else if k = ''subaccount'' then map_option (\<lambda>t. F_Str (token t)) (rq_subaccount r)
      else if k = ''subaccount_sig'' then map_option (\<lambda>t. F_Str (signature t)) (rq_subaccount r)
      else if k = ''pubkey_ed25519'' then map_option F_Str (rq_ed25519 r)
      else None)"
  by (auto simp: to_bt_common_def Let_def bt_simps split: option.splits)

lemma find_field_bt [bt_simps]: "find_field (Bt_Params, d) k = map_of d k"
  by (auto simp: find_field_def split: option.split field_value.split)

lemma parse_bt [bt_simps]:
  "map_of d k = None \<Longrightarrow> parse_as conv (Bt_Params, d) k = Inr None"
  "map_of d k = Some v \<Longrightarrow> conv v = Inr x \<Longrightarrow> parse_as conv (Bt_Params, d) k = Inr (Some x)"
  by (simp_all add: parse_as_def find_field_bt)

text \<open>The account part of a request that was written is read back.\<close>

lemma load_pk_raw: "pubkey_valid k \<Longrightarrow> load_pk C (Some (prefixed_raw k)) = Inr k"
  by (simp add: load_pk_def require_def load_raw_key pubkey_bool_def valid_nonempty)

lemma load_signed_back:
  assumes "signed_wf r" and "rq_signature r \<noteq> None"
  shows "load_signed C (Bt_Params, d) (Some (prefixed_raw (rq_pubkey r))) (rq_ed25519 r) (rq_signature r)
           (map_option token (rq_subaccount r)) (map_option signature (rq_subaccount r)) = Inr (signed_request.truncate r)"
proof -
  have "load_ed25519 C (rq_pubkey r) (rq_ed25519 r) = Inr (rq_ed25519 r)"
    using assms(1) by (auto simp: load_ed25519_def signed_wf_def split: option.split)
  moreover have "load_subaccount C Bt_Params (map_option token (rq_subaccount r)) (map_option signature (rq_subaccount r))
      = Inr (rq_subaccount r)"
    using assms(1)
    by (cases "rq_subaccount r")
       (auto simp: load_subaccount_def signed_wf_def token_of_def signature_form_def signature_bytes_def
         SUBACCOUNT_TOKEN_LENGTH_def)
  ultimately show ?thesis
    using assms
    by (auto simp: load_signed_def load_pk_signature_def load_pk_raw signed_wf_def require_def signature_form_def
        signature_bytes_def signed_request.defs)
qed

lemma load_pk_signature_back:
  assumes "owner_signed r"
  shows "load_pk_signature C Bt_Params (Some (prefixed_raw (rq_pubkey r))) (rq_ed25519 r) (rq_signature r)
    = Inr (signed_request.truncate r)"
proof -
  have "load_ed25519 C (rq_pubkey r) (rq_ed25519 r) = Inr (rq_ed25519 r)"
    using assms(1) by (auto simp: load_ed25519_def owner_signed_def signed_wf_def split: option.split)
  then show ?thesis
    using assms
    by (auto simp: load_pk_signature_def load_pk_raw owner_signed_def signed_wf_def require_def signature_form_def
        signature_bytes_def signed_request.defs)
qed


subsection \<open>Each request\<close>

text \<open>A dictionary with the account part of a request.\<close>

definition has_common :: "(string \<times> field_value) list \<Rightarrow> 'a signed_request_scheme \<Rightarrow> bool" where
  "has_common d r \<longleftrightarrow> (\<forall>k \<in> {''pubkey'', ''signature'', ''pubkey_ed25519'', ''subaccount'', ''subaccount_sig''}.
     map_of d k = map_of (to_bt_common r) k)"

lemma parse_bt_common:
  assumes "has_common d r"
  shows "parse_str (Bt_Params, d) ''pubkey'' = Inr (Some (prefixed_raw (rq_pubkey r)))"
    "parse_str (Bt_Params, d) ''signature'' = Inr (rq_signature r)"
    "parse_str (Bt_Params, d) ''pubkey_ed25519'' = Inr (rq_ed25519 r)"
    "parse_str (Bt_Params, d) ''subaccount'' = Inr (map_option token (rq_subaccount r))"
    "parse_str (Bt_Params, d) ''subaccount_sig'' = Inr (map_option signature (rq_subaccount r))"
  using assms
  by (auto simp: has_common_def parse_str_def parse_as_def find_field_bt to_bt_common_lookup split: option.splits)

lemma parse_bt_str_none: "map_of d k = None \<Longrightarrow> parse_str (Bt_Params, d) k = Inr None"
  unfolding parse_str_def by (rule parse_bt)

lemma parse_bt_time:
  assumes "map_of d k = Some (F_int (to_epoch_ms t))" and "whole_ms t"
  shows "parse_time (Bt_Params, d) k = Inr (Some t)"
  unfolding parse_time_def fst_conv by (rule parse_bt(2) [OF assms(1)]) (rule time_of_F_int [OF assms(2)])

lemma parse_bt_str_array:
  assumes "map_of d k = Some (F_List (map F_Str xs))"
  shows "parse_str_array (Bt_Params, d) k = Inr (Some xs)"
  unfolding parse_str_array_def by (rule parse_bt(2) [OF assms]) (simp add: convert_all_map)

lemma parse_bt_namespace_var:
  assumes "map_of d k = Some (case n of NS_Id i \<Rightarrow> F_int (to_int i) | NS_All \<Rightarrow> F_Str ''all'')"
  shows "parse_namespace_var (Bt_Params, d) k = Inr (Some n)"
  unfolding parse_namespace_var_def fst_conv
  by (rule parse_bt(2) [OF assms]) (simp add: namespace_var_of_F_int split: namespace_var.split)

lemma check_hashes_Inr: "list_all (is_valid_message_hash C) hs \<Longrightarrow> check_hashes C hs = Inr ()"
proof -
  assume "list_all (is_valid_message_hash C) hs"
  then have "List.find (\<lambda>h. \<not> is_valid_message_hash C h) hs = None" by (simp add: find_None_all list_all_iff)
  then show ?thesis by (simp add: check_hashes_def)
qed

lemma tokens_back:
  "list_all (\<lambda>t. length t = SUBACCOUNT_TOKEN_LENGTH) ts \<Longrightarrow> convert_all (token_of C Bt_Params) ts = Inr ts"
  using convert_all_map [of ts "token_of C Bt_Params" "\<lambda>x. x"] by (simp add: list_all_iff token_of_def)

lemma rebuilt:
  "signed_request.extend (signed_request.truncate s) (store_request.fields (st_namespace s) (st_timestamp s)
     (st_expiry s) (st_data s) (st_sig_ts s)) = s"
  "signed_request.extend (signed_request.truncate dm) (delete_msgs_request.fields (dm_messages dm) b) = dm\<lparr>dm_required := b\<rparr>"
  "signed_request.extend (signed_request.truncate rv) (revoke_request.fields (rs_revoke rv) (rs_timestamp rv)) = rv"
  "signed_request.extend (signed_request.truncate ur) (unrevoke_request.fields (ur_unrevoke ur) (ur_timestamp ur)) = ur"
  "signed_request.extend (signed_request.truncate da) (delete_all_request.fields (da_namespace da) (da_timestamp da)) = da"
  "signed_request.extend (signed_request.truncate df) (delete_before_request.fields (db_namespace df) (db_before df)) = df"
  "signed_request.extend (signed_request.truncate ea) (expire_all_request.fields (ea_namespace ea) (ea_expiry ea)) = ea"
  "signed_request.extend (signed_request.truncate em) (expire_msgs_request.fields (em_messages em) (em_expiry em)
     (em_shorten em) (em_extend em)) = em"
  by (simp_all add: signed_request.defs store_request.defs delete_msgs_request.defs revoke_request.defs
      unrevoke_request.defs delete_all_request.defs delete_before_request.defs expire_all_request.defs
      expire_msgs_request.defs)

lemma delete_msgs_back:
  assumes "subrequest_wf C (Delete_Msgs r)"
  shows "load_delete_msgs C (Bt_Params, delete_msgs_to_bt r) = Inr (r\<lparr>dm_required := False\<rparr>)"
proof -
  let ?d = "delete_msgs_to_bt r"
  have m: "map_of ?d = (map_of (to_bt_common r))(''messages'' \<mapsto> F_List (map F_Str (dm_messages r)))"
    by (simp add: delete_msgs_to_bt_def bt_simps)
  then have c: "has_common ?d r" by (simp add: has_common_def)
  have "parse_bool (Bt_Params, ?d) ''required'' = Inr None"
    unfolding parse_bool_def by (rule parse_bt) (simp add: m to_bt_common_lookup)
  moreover have "parse_str_array (Bt_Params, ?d) ''messages'' = Inr (Some (dm_messages r))"
    by (rule parse_bt_str_array) (simp add: m)
  ultimately show ?thesis
    using assms load_signed_back [of r C ?d] check_hashes_Inr [of C "dm_messages r"]
    by (simp add: load_delete_msgs_def parse_bt_common [OF c] require_def rebuilt)
qed

lemma revoke_back:
  assumes "subrequest_wf C (Revoke_Subaccount r)" and "whole_ms (rs_timestamp r)"
  shows "load_revoke_subaccount C (Bt_Params, revoke_to_bt r) = Inr (r)"
proof -
  let ?d = "revoke_to_bt r"
  have m: "map_of ?d = (map_of (to_bt_common r))(''revoke'' \<mapsto> F_List (map F_Str (rs_revoke r)),
      ''timestamp'' \<mapsto> F_int (to_epoch_ms (rs_timestamp r)))"
    by (simp add: revoke_to_bt_def bt_simps)
  then have c: "has_common ?d r" by (simp add: has_common_def)
  have "parse_time (Bt_Params, ?d) ''timestamp'' = Inr (Some (rs_timestamp r))"
    by (rule parse_bt_time [OF _ assms(2)]) (simp add: m)
  moreover have "parse_str_array (Bt_Params, ?d) ''revoke'' = Inr (Some (rs_revoke r))"
    by (rule parse_bt_str_array) (simp add: m)
  ultimately show ?thesis
    using assms load_pk_signature_back [of r C] tokens_back [of "rs_revoke r" C]
    by (simp add: load_revoke_subaccount_def parse_bt_common [OF c] require_def rebuilt)
qed

lemma unrevoke_back:
  assumes "subrequest_wf C (Unrevoke_Subaccount r)" and "whole_ms (ur_timestamp r)"
  shows "load_unrevoke_subaccount C (Bt_Params, unrevoke_to_bt r) = Inr (r)"
proof -
  let ?d = "unrevoke_to_bt r"
  have m: "map_of ?d = (map_of (to_bt_common r))(''timestamp'' \<mapsto> F_int (to_epoch_ms (ur_timestamp r)),
      ''unrevoke'' \<mapsto> F_List (map F_Str (ur_unrevoke r)))"
    by (simp add: unrevoke_to_bt_def bt_simps)
  then have c: "has_common ?d r" by (simp add: has_common_def)
  have "parse_time (Bt_Params, ?d) ''timestamp'' = Inr (Some (ur_timestamp r))"
    by (rule parse_bt_time [OF _ assms(2)]) (simp add: m)
  moreover have "parse_str_array (Bt_Params, ?d) ''unrevoke'' = Inr (Some (ur_unrevoke r))"
    by (rule parse_bt_str_array) (simp add: m)
  ultimately show ?thesis
    using assms load_pk_signature_back [of r C] tokens_back [of "ur_unrevoke r" C]
    by (simp add: load_unrevoke_subaccount_def parse_bt_common [OF c] require_def rebuilt)
qed

lemma delete_all_back:
  assumes "subrequest_wf C (Delete_All r)" and "whole_ms (da_timestamp r)"
  shows "load_delete_all C (Bt_Params, delete_all_to_bt r) = Inr (r)"
proof -
  let ?d = "delete_all_to_bt r"
  have m: "map_of ?d = (map_of (to_bt_common r))(''timestamp'' \<mapsto> F_int (to_epoch_ms (da_timestamp r)),
      ''namespace'' \<mapsto> (case da_namespace r of NS_Id i \<Rightarrow> F_int (to_int i) | NS_All \<Rightarrow> F_Str ''all''))"
    by (simp add: delete_all_to_bt_def bt_simps)
  then have c: "has_common ?d r" by (simp add: has_common_def)
  have "parse_time (Bt_Params, ?d) ''timestamp'' = Inr (Some (da_timestamp r))"
    by (rule parse_bt_time [OF _ assms(2)]) (simp add: m)
  moreover have "parse_namespace_var (Bt_Params, ?d) ''namespace'' = Inr (Some (da_namespace r))"
    by (rule parse_bt_namespace_var) (simp add: m)
  ultimately show ?thesis
    using assms load_signed_back [of r C ?d] namespace_or_default_def [of "Some (da_namespace r)"]
    by (simp add: load_delete_all_def parse_bt_common [OF c] require_def rebuilt)
qed

lemma delete_before_back:
  assumes "subrequest_wf C (Delete_Before r)" and "whole_ms (db_before r)"
  shows "load_delete_before C (Bt_Params, delete_before_to_bt r) = Inr (r)"
proof -
  let ?d = "delete_before_to_bt r"
  have m: "map_of ?d = (map_of (to_bt_common r))(''before'' \<mapsto> F_int (to_epoch_ms (db_before r)),
      ''namespace'' \<mapsto> (case db_namespace r of NS_Id i \<Rightarrow> F_int (to_int i) | NS_All \<Rightarrow> F_Str ''all''))"
    by (simp add: delete_before_to_bt_def bt_simps)
  then have c: "has_common ?d r" by (simp add: has_common_def)
  have "parse_time (Bt_Params, ?d) ''before'' = Inr (Some (db_before r))"
    by (rule parse_bt_time [OF _ assms(2)]) (simp add: m)
  moreover have "parse_namespace_var (Bt_Params, ?d) ''namespace'' = Inr (Some (db_namespace r))"
    by (rule parse_bt_namespace_var) (simp add: m)
  ultimately show ?thesis
    using assms load_signed_back [of r C ?d] namespace_or_default_def [of "Some (db_namespace r)"]
    by (simp add: load_delete_before_def parse_bt_common [OF c] require_def rebuilt)
qed

lemma expire_all_back:
  assumes "subrequest_wf C (Expire_All r)" and "whole_ms (ea_expiry r)"
  shows "load_expire_all C (Bt_Params, expire_all_to_bt r) = Inr (r)"
proof -
  let ?d = "expire_all_to_bt r"
  have m: "map_of ?d = (map_of (to_bt_common r))(''expiry'' \<mapsto> F_int (to_epoch_ms (ea_expiry r)),
      ''namespace'' \<mapsto> (case ea_namespace r of NS_Id i \<Rightarrow> F_int (to_int i) | NS_All \<Rightarrow> F_Str ''all''))"
    by (simp add: expire_all_to_bt_def bt_simps)
  then have c: "has_common ?d r" by (simp add: has_common_def)
  have "parse_time (Bt_Params, ?d) ''expiry'' = Inr (Some (ea_expiry r))"
    by (rule parse_bt_time [OF _ assms(2)]) (simp add: m)
  moreover have "parse_namespace_var (Bt_Params, ?d) ''namespace'' = Inr (Some (ea_namespace r))"
    by (rule parse_bt_namespace_var) (simp add: m)
  ultimately show ?thesis
    using assms load_signed_back [of r C ?d] namespace_or_default_def [of "Some (ea_namespace r)"]
    by (simp add: load_expire_all_def parse_bt_common [OF c] require_def rebuilt)
qed


lemma parse_flag:
  "map_of d k = (if b then Some (F_int 1) else None) \<Longrightarrow>
   parse_bool (Bt_Params, d) k = Inr (if b then Some True else None)"
  by (auto simp: parse_bool_def parse_as_def find_field_bt consume_int_as_def F_int_def)

lemma expire_msgs_back:
  assumes "subrequest_wf C (Expire_Msgs r)" and "list_all whole_ms (em_expiry r)"
  shows "load_expire_msgs C (Bt_Params, expire_msgs_to_bt r) = Inr r"
proof -
  let ?d = "expire_msgs_to_bt r" and ?es = "map (\<lambda>t. F_int (to_epoch_ms t)) (em_expiry r)"
  have m: "map_of ?d ''expiry'' = Some (if length ?es = 1 then hd ?es else F_List ?es)"
      "map_of ?d ''messages'' = Some (F_List (map F_Str (em_messages r)))"
      "map_of ?d ''shorten'' = (if em_shorten r then Some (F_int 1) else None)"
      "map_of ?d ''extend'' = (if em_extend r then Some (F_int 1) else None)"
    and c: "has_common ?d r"
    by (simp_all add: expire_msgs_to_bt_def Let_def bt_simps has_common_def split: option.split)
  have "array_of (array_time_of Bt_Params ''expiry'') (if length ?es = 1 then hd ?es else F_List ?es) = Inr (em_expiry r)"
  proof (cases "length ?es = 1")
    case True
    then obtain t where "em_expiry r = [t]" by (auto simp: length_Suc_conv)
    with assms(2) array_time_of_F_int [of t "''expiry''"] show ?thesis
      by (auto simp: F_int_def split: if_splits)
  next
    case False
    then show ?thesis
      using convert_all_map [of "em_expiry r" "array_time_of Bt_Params ''expiry''" "\<lambda>t. F_int (to_epoch_ms t)"] assms(2)
        array_time_of_F_int [of _ "''expiry''"]
      by (simp only: if_False array_of.simps list_all_iff)
  qed
  then have "parse_time_array (Bt_Params, ?d) ''expiry'' = Inr (Some (em_expiry r))"
    unfolding parse_time_array_def fst_conv by (rule parse_bt(2) [OF m(1)])
  moreover note parse_bt_str_array [OF m(2)] parse_flag [OF m(3)] parse_flag [OF m(4)]
  moreover have "em_expiry r \<noteq> []" using assms(1) by auto
  ultimately show ?thesis
    using assms load_signed_back [of r C ?d] check_hashes_Inr [of C "em_messages r"] rebuilt(8) [of r]
    by (cases "em_shorten r"; cases "em_extend r") (auto simp: load_expire_msgs_def parse_bt_common [OF c] require_def)
qed

lemma unsigned_back:
  "signed_wf r \<Longrightarrow> rq_signature r = None \<Longrightarrow> rq_ed25519 r = None \<Longrightarrow>
   signed_request.truncate r = \<lparr>rq_pubkey = rq_pubkey r, rq_ed25519 = None, rq_signature = None, rq_subaccount = None\<rparr>"
  by (cases "rq_subaccount r") (auto simp: signed_wf_def signed_request.defs)

lemma store_back:
  assumes "subrequest_wf C (Store r)" and "list_all whole_ms (request_times (Store r))"
  shows "load_store C (Bt_Params, store_to_bt r) = Inr r"
proof -
  let ?d = "store_to_bt r"
  have m: "map_of ?d ''data'' = Some (F_Str (st_data r))" "map_of ?d ''expiry'' = Some (F_int (to_epoch_ms (st_expiry r)))"
      "map_of ?d ''timestamp'' = Some (F_int (to_epoch_ms (st_timestamp r)))" "map_of ?d ''ttl'' = None"
      "map_of ?d ''pubKey'' = None" "map_of ?d ''sig_timestamp'' = map_option (\<lambda>t. F_int (to_epoch_ms t)) (st_sig_ts r)"
      "map_of ?d ''namespace'' = (if st_namespace r = ns_Default then None else Some (F_int (to_int (st_namespace r))))"
    and c: "has_common ?d r"
    by (simp_all add: store_to_bt_def Let_def bt_simps has_common_def split: option.split)
  have ns: "parse_namespace (Bt_Params, ?d) ''namespace'' = Inr (if st_namespace r = ns_Default then None else Some (st_namespace r))"
    using namespace_of_F_int [of "''namespace''" "st_namespace r"]
    by (simp add: parse_namespace_def parse_as_def find_field_bt m(7))
  have ts: "parse_time (Bt_Params, ?d) ''sig_timestamp'' = Inr (st_sig_ts r)"
  proof (cases "st_sig_ts r")
    case None
    then show ?thesis unfolding parse_time_def using parse_bt(1) m(6) by simp
  next
    case (Some t)
    with assms(2) m(6) show ?thesis by (simp add: parse_bt_time)
  qed
  have w: "whole_ms (st_expiry r)" "whole_ms (st_timestamp r)" using assms(2) by auto
  have data: "parse_str (Bt_Params, ?d) ''data'' = Inr (Some (st_data r))"
    unfolding parse_str_def by (rule parse_bt(2) [OF m(1)]) simp
  have ttl: "store_ttl (Bt_Params, ?d) = Inr None" unfolding store_ttl_def using parse_bt(1) [OF m(4)] by simp
  note fields = parse_bt_common [OF c] parse_bt_time [OF m(2) w(1)] parse_bt_time [OF m(3) w(2)] ns ts data ttl
    parse_bt_str_none [OF m(5)]
  show ?thesis
    using assms(1) load_signed_back [of r C ?d] load_pk_raw [of "rq_pubkey r" C] unsigned_back [of r] rebuilt(1) [of r]
    by (cases "st_sig_ts r") (auto simp: load_store_def fields store_timestamp_def require_def require_exactly_one_of_def
        require_at_most_one_of_def message_data_def signed_wf_def Let_def)
qed

lemmas written_back = store_back delete_msgs_back revoke_back unrevoke_back delete_all_back delete_before_back
  expire_all_back expire_msgs_back

lemma simple_loader_lookup:
  "simple_loader C jp ''store'' = Some (\<lambda>d. loaded Store (load_store C d))"
  "simple_loader C jp ''delete'' = Some (\<lambda>d. loaded Delete_Msgs (load_delete_msgs C d))"
  "simple_loader C jp ''revoke_subaccount'' = Some (\<lambda>d. loaded Revoke_Subaccount (load_revoke_subaccount C d))"
  "simple_loader C jp ''unrevoke_subaccount'' = Some (\<lambda>d. loaded Unrevoke_Subaccount (load_unrevoke_subaccount C d))"
  "simple_loader C jp ''delete_all'' = Some (\<lambda>d. loaded Delete_All (load_delete_all C d))"
  "simple_loader C jp ''delete_before'' = Some (\<lambda>d. loaded Delete_Before (load_delete_before C d))"
  "simple_loader C jp ''expire_all'' = Some (\<lambda>d. loaded Expire_All (load_expire_all C d))"
  "simple_loader C jp ''expire'' = Some (\<lambda>d. loaded Expire_Msgs (load_expire_msgs C d))"
  by (simp_all add: simple_loader_def)

lemma load_request_simple:
  "simple_loader C jp m = Some load \<Longrightarrow> load_request C jp f m (F_Dict d) = load (f, d)"
  by (simp add: load_request.simps)

lemma forwarded_loads:
  assumes "subrequest_wf C q" and "forwarded q = Some (m, d)" and "list_all whole_ms (request_times q)"
  shows "load_request C jp Bt_Params m (F_Dict d) = Inr (Subrequest (as_forwarded q))"
proof (cases q)
  case (Store r)
  with assms show ?thesis using store_back [of C r] by (auto simp: load_request_simple [OF simple_loader_lookup(1)] loaded_def)
next
  case (Delete_Msgs r)
  with assms show ?thesis using delete_msgs_back [of C r] by (auto simp: load_request_simple [OF simple_loader_lookup(2)] loaded_def)
next
  case (Revoke_Subaccount r)
  with assms show ?thesis using revoke_back [of C r] by (auto simp: load_request_simple [OF simple_loader_lookup(3)] loaded_def)
next
  case (Unrevoke_Subaccount r)
  with assms show ?thesis using unrevoke_back [of C r] by (auto simp: load_request_simple [OF simple_loader_lookup(4)] loaded_def)
next
  case (Delete_All r)
  with assms show ?thesis using delete_all_back [of C r] by (auto simp: load_request_simple [OF simple_loader_lookup(5)] loaded_def)
next
  case (Delete_Before r)
  with assms show ?thesis using delete_before_back [of C r] by (auto simp: load_request_simple [OF simple_loader_lookup(6)] loaded_def)
next
  case (Expire_All r)
  with assms show ?thesis using expire_all_back [of C r] by (auto simp: load_request_simple [OF simple_loader_lookup(7)] loaded_def)
next
  case (Expire_Msgs r)
  with assms show ?thesis using expire_msgs_back [of C r] by (auto simp: load_request_simple [OF simple_loader_lookup(8)] loaded_def)
qed (use assms in auto)

text \<open>
  A request that is passed on to the other members of the swarm is loaded there as the
  request it was: whatever the kind of the request, the dictionary that is written is accepted
  by the loader of the endpoint it is sent to, and every member comes back, with \<open>required\<close> of
  a \<open>delete\<close> as the only exception, which only the node that answers the client looks at. The
  times have to be whole milliseconds of the clock's range, as those that clients send are.
\<close>

theorem forwarded_roundtrip:
  assumes "subrequest_wf C q" and "forwarded q = Some (m, d)" and "list_all whole_ms (request_times q)"
  shows "load_request C jp Bt_Params m (F_Dict d) = Inr (Subrequest (as_forwarded q))"
  by (rule forwarded_loads [OF assms])

section \<open>Witnesses\<close>

lemma sample_delete_wf: "subrequest_wf plain_codecs (Delete_Msgs sample_delete)"
  using sample_facts by (simp add: sample_delete_def signed_wf_def)

lemma sample_delete_loads:
  "load_request plain_codecs (\<lambda>_. None) Bt_Params ''delete'' (F_Dict (delete_msgs_to_bt sample_delete)) = Inr (Subrequest (Delete_Msgs sample_delete))"
  using forwarded_loads [OF sample_delete_wf] by (simp add: sample_delete_def)

lemma sample_batch_loads:
  "load_request plain_codecs (\<lambda>_. None) Bt_Params ''batch'' sample_batch_params = Inr (Batch [Delete_Msgs sample_delete])"
proof -
  have none: "simple_loader plain_codecs (\<lambda>_. None) ''batch'' = None" by (simp add: simple_loader_def)
  have known: "known_method plain_codecs (\<lambda>_. None) ''delete''" by (simp add: known_method_def simple_loader_def)
  show ?thesis
    unfolding load_request.simps [of _ _ _ "''batch''"] none
    using known sample_delete_loads
    by (simp add: sample_batch_params_def batch_items_def BATCH_REQUEST_MAX_def subrequest_parts_def)
qed


definition sample_store :: store_request where
  "sample_store = \<lparr>rq_pubkey = sample_pubkey, rq_ed25519 = None, rq_signature = Some sample_signature,
     rq_subaccount = None, st_namespace = 1, st_timestamp = from_epoch_ms 1700000000000,
     st_expiry = from_epoch_ms 1700000060000, st_data = ''data'', st_sig_ts = Some (from_epoch_ms 1700000000000)\<rparr>"

lemma sample_store_wf: "subrequest_wf C (Store sample_store) \<and> list_all whole_ms (request_times (Store sample_store))"
  using sample_facts
  by (simp add: sample_store_def signed_wf_def time64_def from_epoch_ms_def MAX_MESSAGE_BODY_def whole_ms_def
      to_epoch_ms_def)

theorem forwarded_roundtrip_witness:
  "subrequest_wf plain_codecs (Store sample_store)
   \<and> load_request plain_codecs (\<lambda>_. None) Bt_Params ''store'' (F_Dict (store_to_bt sample_store))
       = Inr (Subrequest (Store sample_store))"
  using forwarded_roundtrip [of plain_codecs "Store sample_store" "''store''" "store_to_bt sample_store" "\<lambda>_. None"]
    sample_store_wf by simp

end
