(* ===== verification/Request_Handler.thy ===== *)
theory Request_Handler
  imports Service_Node Requests
begin

text \<open>
  The handlers of client requests (\<open>oxenss/rpc/request_handler.h\<close>, \<open>request_handler.cpp\<close>):
  what a request signature covers and how it is verified, the guards and the effect of every
  endpoint, the forwarding of a request to the other members of the swarm and the collection
  of their answers. Cryptography, the codecs and the bt and json texts are arguments.
\<close>

section \<open>What the handlers are given\<close>

text \<open>
  The functions of libsodium (\<open>verify_detached sig data key\<close>, \<open>ed_to_x\<close> with the failure of
  the conversion as \<open>None\<close>, signing with our key, the 32 byte BLAKE2b hash), of oxenc (writing
  and reading a dictionary) and of fmt, the sort orders of SQLite, and the clock at the reads
  a handler makes, counted from zero.
\<close>

record handler_env =
  he_codecs :: codecs
  he_load_big :: "string \<Rightarrow> u64"
  he_write_big :: "nat \<Rightarrow> nat \<Rightarrow> string"
  he_orders :: sql_orders
  he_bt :: bt_codec
  he_forms :: text_forms
  he_serialize :: "(string \<times> field_value) list \<Rightarrow> string"
  he_read_dict :: "string \<Rightarrow> (string \<times> field_value) list option"
  he_verify :: "string \<Rightarrow> string \<Rightarrow> string \<Rightarrow> bool"
  he_ed_to_x :: "string \<Rightarrow> string option"
  he_sign :: "string \<Rightarrow> string"
  he_blake2b :: "string \<Rightarrow> string"
  he_own_ed :: string
  he_stream_full :: string
  he_version :: "int list"
  he_clock :: "nat \<Rightarrow> time"

abbreviation he_now :: "handler_env \<Rightarrow> time" where
  "he_now E \<equiv> he_clock E 0"

definition STORE_TOLERANCE :: time where "STORE_TOLERANCE = seconds 10"
definition SIGNATURE_TOLERANCE :: time where "SIGNATURE_TOLERANCE = seconds 60"
definition SIGNATURE_TOLERANCE_FORWARDED :: time where "SIGNATURE_TOLERANCE_FORWARDED = seconds 70"
definition RETRIEVE_MAX_SIZE :: int where "RETRIEVE_MAX_SIZE = 7800000"

section \<open>Responses\<close>

datatype body = Text string | Json field_value | Binary string

record response =
  resp_status :: int
  resp_body :: body

definition HTTP_OK :: int where "HTTP_OK = 200"
definition HTTP_BAD_REQUEST :: int where "HTTP_BAD_REQUEST = 400"
definition HTTP_UNAUTHORIZED :: int where "HTTP_UNAUTHORIZED = 401"
definition HTTP_FORBIDDEN :: int where "HTTP_FORBIDDEN = 403"
definition HTTP_NOT_FOUND :: int where "HTTP_NOT_FOUND = 404"
definition HTTP_NOT_ACCEPTABLE :: int where "HTTP_NOT_ACCEPTABLE = 406"
definition HTTP_MISDIRECTED_REQUEST :: int where "HTTP_MISDIRECTED_REQUEST = 421"
definition HTTP_INTERNAL_SERVER_ERROR :: int where "HTTP_INTERNAL_SERVER_ERROR = 500"
definition HTTP_BAD_GATEWAY :: int where "HTTP_BAD_GATEWAY = 502"

lemmas http_codes = HTTP_OK_def HTTP_BAD_REQUEST_def HTTP_UNAUTHORIZED_def HTTP_FORBIDDEN_def HTTP_NOT_FOUND_def
  HTTP_NOT_ACCEPTABLE_def HTTP_MISDIRECTED_REQUEST_def HTTP_INTERNAL_SERVER_ERROR_def HTTP_BAD_GATEWAY_def

definition text_response :: "int \<Rightarrow> string \<Rightarrow> response" where
  "text_response code s = \<lparr>resp_status = code, resp_body = Text s\<rparr>"

type_synonym json_object = "(string \<times> field_value) list"

definition json_response :: "int \<Rightarrow> json_object \<Rightarrow> response" where
  "json_response code j = \<lparr>resp_status = code, resp_body = Json (F_Dict j)\<rparr>"

definition add_misc_response_fields :: "service_node \<Rightarrow> time \<Rightarrow> json_object \<Rightarrow> json_object" where
  "add_misc_response_fields sn now j =
     map_put ''hf'' (F_List [F_int (fst (hardfork sn)), F_int (snd (hardfork sn))])
       (map_put ''t'' (F_int (to_epoch_ms now)) j)"

section \<open>Signatures\<close>

text \<open>
  The arguments of a signature: strings and byte spans are taken as they are, integers and
  times, as milliseconds, in decimal, and the elements of lists and maps one after the other.
\<close>

datatype sig_part =
    P_Str string
  | P_Int int
  | P_Time time
  | P_Strs "string list"
  | P_Times "time list"
  | P_Map "(string \<times> int) list"

fun part_text :: "sig_part \<Rightarrow> string" where
  "part_text (P_Str s) = s"
| "part_text (P_Int i) = to_chars i"
| "part_text (P_Time t) = to_chars (to_epoch_ms t)"
| "part_text (P_Strs ss) = concat ss"
| "part_text (P_Times ts) = concat (map (\<lambda>t. to_chars (to_epoch_ms t)) ts)"
| "part_text (P_Map m) = concat (map (\<lambda>(k, v). k @ to_chars v) m)"

definition concatenate_sig_message_parts :: "sig_part list \<Rightarrow> string" where
  "concatenate_sig_message_parts ps = concat (map part_text ps)"

definition signature_value :: "namespace_var \<Rightarrow> string" where
  "signature_value ns = (case ns of NS_All \<Rightarrow> ''all'' | NS_Id n \<Rightarrow> if n = ns_Default then [] else ns_to_string n)"

text \<open>
  The key that the account signs with: the Ed25519 key that came with the request, if the
  account is a Session ID and the key converts to it, and the account key otherwise.
\<close>

definition account_key :: "handler_env \<Rightarrow> user_pubkey \<Rightarrow> string option \<Rightarrow> string option" where
  "account_key E pk pk_ed =
     (case pk_ed of
        Some ed \<Rightarrow>
          if network pk = 5 \<or> network pk = 0 \<and> \<not> is_mainnet (he_codecs E)
          then if he_ed_to_x E ed = Some (pubkey pk) then Some ed else None
          else Some (pubkey pk)
      | None \<Rightarrow> Some (pubkey pk))"

definition verify_signature ::
    "handler_env \<Rightarrow> database \<Rightarrow> user_pubkey \<Rightarrow> string option \<Rightarrow> signed_subaccount_token option \<Rightarrow> subaccount_access \<Rightarrow>
     bool \<Rightarrow> string \<Rightarrow> sig_part list \<Rightarrow> bool" where
  "verify_signature E db pk pk_ed subaccount required_access skip_revoke_check sig parts =
     (let data = concatenate_sig_message_parts parts
      in case account_key E pk pk_ed of
           None \<Rightarrow> False
         | Some key \<Rightarrow>
             (case subaccount of
                None \<Rightarrow> he_verify E sig data key
              | Some st \<Rightarrow>
                  if \<not> skip_revoke_check \<and> subaccount_revoked pk (token st) db then False
                  else (case verify_token (he_verify E) st pk required_access (Some key) of
                          Inl e \<Rightarrow> False
                        | Inr _ \<Rightarrow> he_verify E sig data (token_pubkey (token st)))))"

text \<open>The signature of a request that has one; the requests without are turned away before.\<close>

definition verify_request ::
    "handler_env \<Rightarrow> service_node \<Rightarrow> 'a signed_request_scheme \<Rightarrow> subaccount_access \<Rightarrow> bool \<Rightarrow> sig_part list \<Rightarrow> bool" where
  "verify_request E sn r required_access skip_revoke_check parts =
     (case rq_signature r of
        None \<Rightarrow> False
      | Some sig \<Rightarrow> verify_signature E (sn_db sn) (rq_pubkey r) (rq_ed25519 r) (rq_subaccount r) required_access
                     skip_revoke_check sig parts)"

definition create_signature :: "handler_env \<Rightarrow> sig_part list \<Rightarrow> string" where
  "create_signature E parts = he_sign E (concatenate_sig_message_parts parts)"

definition encode_bytes :: "handler_env \<Rightarrow> bool \<Rightarrow> string \<Rightarrow> field_value" where
  "encode_bytes E b64 s = F_Str (if b64 then to_base64 (b64c (he_codecs E)) s else s)"

text \<open>The hash of a message: base64 without padding of the hash of the network, key, namespace and data.\<close>

definition trim_padding :: "string \<Rightarrow> string" where
  "trim_padding s = rev (dropWhile (\<lambda>c. c = CHR ''='') (rev s))"

definition compute_hash_blake2b_b64 :: "handler_env \<Rightarrow> string list \<Rightarrow> string" where
  "compute_hash_blake2b_b64 E parts = trim_padding (to_base64 (b64c (he_codecs E)) (he_blake2b E (concat parts)))"

definition computeMessageHash :: "handler_env \<Rightarrow> user_pubkey \<Rightarrow> namespace_id \<Rightarrow> string \<Rightarrow> string" where
  "computeMessageHash E pk ns data =
     compute_hash_blake2b_b64 E
       [[char_of (network pk mod 256)], pubkey pk, if ns \<noteq> ns_Default then to_chars (to_int ns) else [], data]"

section \<open>Requests to another swarm\<close>

definition json_of_field :: "snode_value \<Rightarrow> field_value" where
  "json_of_field v = (case v of F_String s \<Rightarrow> F_Str s | F_Int n \<Rightarrow> F_int (int n))"

definition swarm_to_json ::
    "text_forms \<Rightarrow> (swarm_id_t \<times> legacy_pubkey list) option \<Rightarrow> contact_table \<Rightarrow> json_object" where
  "swarm_to_json F swarm contacts =
     (let (snodes, i) = swarm_description F swarm contacts
      in [(''snodes'', F_List (map (\<lambda>fs. F_Dict (map (\<lambda>(k, v). (k, json_of_field v)) fs)) snodes)), (''swarm'', F_Str i)])"

definition handle_wrong_swarm :: "handler_env \<Rightarrow> service_node \<Rightarrow> user_pubkey \<Rightarrow> response" where
  "handle_wrong_swarm E sn pk =
     (case get_swarm_for (he_load_big E) (nw_swarms (sn_network sn)) pk of
        None \<Rightarrow> text_response HTTP_INTERNAL_SERVER_ERROR ''No swarms known!''
      | Some s \<Rightarrow>
          json_response HTTP_MISDIRECTED_REQUEST
            (add_misc_response_fields sn (he_now E)
              (map_put ''pubkey'' (F_Str (prefixed_hex (is_mainnet (he_codecs E)) (hexc (he_codecs E)) pk))
                (swarm_to_json (he_forms E) (Some s) (nw_contacts (sn_network sn))))))"

definition for_us :: "handler_env \<Rightarrow> service_node \<Rightarrow> user_pubkey \<Rightarrow> bool" where
  "for_us E sn pk \<longleftrightarrow> is_pubkey_for_us (he_load_big E) (sn_swarm sn) pk"

section \<open>Forwarding to the swarm\<close>

record swarm_response =
  sr_pending :: int
  sr_b64 :: bool
  sr_result :: json_object
  sr_cmd :: string
  sr_payload :: string
  sr_req_id :: int
  sr_stored_hash :: string
  sr_undelivered :: "legacy_pubkey list"

text \<open>
  A forward that failed, with the exception of the database if it raises one.
\<close>

definition forward_failed ::
    "handler_env \<Rightarrow> time \<Rightarrow> legacy_pubkey \<Rightarrow> swarm_response \<Rightarrow> service_node \<Rightarrow>
     service_node \<times> swarm_response \<times> sn_output list \<times> sql_error option" where
  "forward_failed E now peer sr sn =
     (if sr_cmd sr = ''store'' then
        if sr_stored_hash sr = [] then (sn, sr\<lparr>sr_undelivered := sr_undelivered sr @ [peer]\<rparr>, [], None)
        else let (sn', out) = node_queue_delivery (he_bt E) now peer (sr_stored_hash sr) sn in (sn', sr, out, None)
      else (case add_retry_request now now peer (sr_cmd sr) (sr_payload sr) (sr_req_id sr) (sn_db sn) of
              Inl e \<Rightarrow> (sn, sr, [], Some e)
            | Inr (db, i) \<Rightarrow> (set_db db sn, sr\<lparr>sr_req_id := i\<rparr>, [], None)))"

text \<open>
  The objects of \<open>swarm\<close>, if there is one.
\<close>

definition swarm_entries :: "json_object \<Rightarrow> json_object option" where
  "swarm_entries j = (case map_of j ''swarm'' of Some v \<Rightarrow> Some (fields_of v) | None \<Rightarrow> None)"

definition has_field :: "string \<Rightarrow> json_object \<Rightarrow> bool" where
  "has_field k j \<longleftrightarrow> map_of j k \<noteq> None"

definition reply_or_fail :: "swarm_response \<Rightarrow> response" where
  "reply_or_fail sr =
     (let good = (case swarm_entries (sr_result sr) of
            Some es \<Rightarrow> list_ex (\<lambda>(_, v). \<not> has_field ''failed'' (fields_of v)) es
          | None \<Rightarrow> \<not> has_field ''failed'' (sr_result sr))
      in json_response (if good then HTTP_OK else HTTP_INTERNAL_SERVER_ERROR) (sr_result sr))"

text \<open>\<open>result["swarm"][k] = v\<close>.\<close>

definition put_swarm :: "string \<Rightarrow> field_value \<Rightarrow> json_object \<Rightarrow> json_object" where
  "put_swarm k v j =
     map_put ''swarm'' (F_Dict (map_put k v (case swarm_entries j of Some es \<Rightarrow> es | None \<Rightarrow> []))) j"

definition peer_contact :: "service_node \<Rightarrow> legacy_pubkey \<Rightarrow> contact option" where
  "peer_contact sn pk = find_contact (nw_contacts (sn_network sn)) pk"

definition can_forward :: "service_node \<Rightarrow> legacy_pubkey \<Rightarrow> contact option" where
  "can_forward sn pk = (case peer_contact sn pk of Some ct \<Rightarrow> if contactable ct then Some ct else None | None \<Rightarrow> None)"

text \<open>The state, the peers the request was sent to, with their Ed25519 keys in hex, and what else is sent.\<close>

type_synonym distributed =
  "service_node \<times> swarm_response \<times> (legacy_pubkey \<times> string) list \<times> sn_output list \<times> sql_error option"

fun distribute_loop :: "handler_env \<Rightarrow> legacy_pubkey list \<Rightarrow> swarm_response \<Rightarrow> service_node \<Rightarrow> distributed" where
  "distribute_loop E [] sr sn = (sn, sr, [], [], None)"
| "distribute_loop E (peer # peers) sr sn =
     (case can_forward sn peer of
        Some ct \<Rightarrow>
          (let (sn, sr, sent, out, err) = distribute_loop E peers sr sn
           in (sn, sr, (peer, key_hex (he_forms E) (pubkey_ed25519 ct)) # sent, out, err))
      | None \<Rightarrow>
          (let (sn, sr, out1, err) = forward_failed E (he_clock E 1) peer (sr\<lparr>sr_pending := sr_pending sr - 1\<rparr>) sn
           in if err \<noteq> None then (sn, sr, [], out1, err)
              else let (sn, sr, sent, out2, err) = distribute_loop E peers sr sn in (sn, sr, sent, out1 @ out2, err)))"

definition distribute_command :: "handler_env \<Rightarrow> swarm_response \<Rightarrow> service_node \<Rightarrow> distributed" where
  "distribute_command E sr sn =
     (let peers = map fst (swarm_peers (sn_swarm sn))
      in distribute_loop E peers (sr\<lparr>sr_pending := sr_pending sr + int (length peers)\<rparr>) sn)"

definition setup_recursive_request ::
    "handler_env \<Rightarrow> string \<Rightarrow> json_object \<Rightarrow> bool \<Rightarrow> bool \<Rightarrow> service_node \<Rightarrow> distributed" where
  "setup_recursive_request E cmd dict recurse b64 sn =
     (let sr = \<lparr>sr_pending = 1, sr_b64 = b64, sr_result = [], sr_cmd = cmd, sr_payload = he_serialize E dict,
                sr_req_id = 0, sr_stored_hash = [], sr_undelivered = []\<rparr>
      in if recurse then distribute_command E sr sn else (sn, sr, [], [], None))"

text \<open>
  The answer of a peer: what is put in the result for it.
\<close>

definition failure_fields :: "SNStorageCCResult \<Rightarrow> json_object" where
  "failure_fields r =
     (let j = [(''failed'', F_Bool True)]
      in case r of
           CC_Timeout \<Rightarrow> map_put ''timeout'' (F_Bool True) j
         | CC_StreamFull \<Rightarrow> map_put ''stream_full'' (F_Bool True) j
         | CC_ErrorCodeReason c why \<Rightarrow> map_put ''reason'' (F_Str why) (map_put ''code'' (F_Str c) j)
         | _ \<Rightarrow> map_put ''bad_peer_response'' (F_Bool True) j)"

definition peer_result :: "handler_env \<Rightarrow> bool \<Rightarrow> string list \<Rightarrow> SNStorageCCResult \<times> json_object" where
  "peer_result E success parts =
     (let r = interpret_sn_storage_cc_response_parts (he_stream_full E) success parts
      in if r = CC_Good
         then (case he_read_dict E (hd parts) of Some j \<Rightarrow> (CC_Good, j) | None \<Rightarrow> (CC_BadPeerResponse, []))
         else (r, []))"

definition encode_signature_field :: "handler_env \<Rightarrow> json_object \<Rightarrow> json_object" where
  "encode_signature_field E j =
     (case map_of j ''signature'' of Some (F_Str s) \<Rightarrow> map_put ''signature'' (encode_bytes E True s) j | _ \<Rightarrow> j)"

text \<open>An exception of the database leaves the count as it is then, and the result without the peer.\<close>

definition on_peer_reply ::
    "handler_env \<Rightarrow> legacy_pubkey \<times> string \<Rightarrow> bool \<Rightarrow> string list \<Rightarrow> swarm_response \<Rightarrow> service_node \<Rightarrow>
     service_node \<times> swarm_response \<times> sn_output list \<times> response option \<times> sql_error option" where
  "on_peer_reply E peer success parts sr sn =
     (let (r, j) = peer_result E success parts;
          sr = sr\<lparr>sr_pending := sr_pending sr - 1\<rparr>;
          send_reply = (sr_pending sr = 0);
          (sn, sr, out, err) =
            (if r \<noteq> CC_Good \<and> retryable r then forward_failed E (he_now E) (fst peer) sr sn else (sn, sr, [], None))
      in if err \<noteq> None then (sn, sr, out, None, err)
         else let j = (if r \<noteq> CC_Good then failure_fields r else if sr_b64 sr then encode_signature_field E j else j);
                  sr = sr\<lparr>sr_result := put_swarm (snd peer) (F_Dict j) (sr_result sr)\<rparr>
              in (sn, sr, out, if send_reply then Some (reply_or_fail sr) else None, None))"

section \<open>Guards of the forwarded requests\<close>

text \<open>
  Each guard gives the error the handler answers with, or nothing when the request goes ahead.
\<close>

definition outside :: "time \<Rightarrow> time \<Rightarrow> time \<Rightarrow> bool" where
  "outside now tolerance t \<longleftrightarrow> t < now - tolerance \<or> t > now + tolerance"

definition tolerance_for :: "bool \<Rightarrow> time" where
  "tolerance_for recurse = (if recurse then SIGNATURE_TOLERANCE else SIGNATURE_TOLERANCE_FORWARDED)"

text \<open>The difference of two times at the width of the clock, in milliseconds.\<close>

definition ttl_ms :: "time \<Rightarrow> time \<Rightarrow> int" where
  "ttl_ms expiry timestamp = to_epoch_ms (sint (word_of_int (expiry - timestamp) :: u64))"

definition max_ttl :: "namespace_id \<Rightarrow> time" where
  "max_ttl ns = (if is_public_inbox_namespace ns then TTL_MAXIMUM else TTL_MAXIMUM_PRIVATE)"

definition store_access :: "namespace_id \<Rightarrow> subaccount_access" where
  "store_access ns = (if is_public_outbox_namespace ns then access_Write OR access_Delete else access_Write)"

definition ns_sig_text :: "namespace_id \<Rightarrow> string" where
  "ns_sig_text ns = (if ns = ns_Default then [] else ns_to_string ns)"

definition store_parts :: "store_request \<Rightarrow> time \<Rightarrow> sig_part list" where
  "store_parts r ts = [P_Str ''store'', P_Str (ns_sig_text (st_namespace r)), P_Time ts]"

definition check_store :: "handler_env \<Rightarrow> store_request \<Rightarrow> service_node \<Rightarrow> response option" where
  "check_store E r sn =
     (let now = he_now E; ns = st_namespace r; ttl = ttl_ms (st_expiry r) (st_timestamp r)
      in if \<not> for_us E sn (rq_pubkey r) then Some (handle_wrong_swarm E sn (rq_pubkey r))
         else if is_testing_namespace ns
         then Some (text_response HTTP_FORBIDDEN
                (''namespace '' @ to_chars (to_int ns) @ '' is reserved for testing and cannot store messages''))
         else if from_epoch_ms ttl < TTL_MINIMUM \<or> from_epoch_ms ttl > max_ttl ns
         then Some (text_response HTTP_FORBIDDEN ''Provided expiry/TTL is not valid.'')
         else if st_timestamp r > now + STORE_TOLERANCE \<or> st_expiry r < now - STORE_TOLERANCE
         then Some (text_response HTTP_NOT_ACCEPTABLE ''Timestamp error: check your clock'')
         else if is_public_inbox_namespace ns then None
         else (case (rq_signature r, st_sig_ts r) of
                 (Some sig, Some ts) \<Rightarrow>
                   if outside now SIGNATURE_TOLERANCE ts
                   then Some (text_response HTTP_NOT_ACCEPTABLE ''store signature timestamp too far from current time'')
                   else if \<not> verify_request E sn r (store_access ns) False (store_parts r ts)
                   then Some (text_response HTTP_UNAUTHORIZED ''store signature verification failed'')
                   else None
               | _ \<Rightarrow> Some (text_response HTTP_UNAUTHORIZED
                        (''store: signature required to store to namespace '' @ to_chars (to_int ns)))))"

definition delete_all_parts :: "delete_all_request \<Rightarrow> sig_part list" where
  "delete_all_parts r = [P_Str ''delete_all'', P_Str (signature_value (da_namespace r)), P_Time (da_timestamp r)]"

definition check_delete_all :: "handler_env \<Rightarrow> bool \<Rightarrow> delete_all_request \<Rightarrow> service_node \<Rightarrow> response option" where
  "check_delete_all E recurse r sn =
     (if \<not> for_us E sn (rq_pubkey r) then Some (handle_wrong_swarm E sn (rq_pubkey r))
      else if outside (he_now E) (tolerance_for recurse) (da_timestamp r)
      then Some (text_response HTTP_NOT_ACCEPTABLE ''delete_all timestamp too far from current time'')
      else if \<not> verify_request E sn r access_Delete False (delete_all_parts r)
      then Some (text_response HTTP_UNAUTHORIZED ''delete_all signature verification failed'')
      else None)"

definition delete_msgs_parts :: "delete_msgs_request \<Rightarrow> sig_part list" where
  "delete_msgs_parts r = [P_Str ''delete'', P_Strs (dm_messages r)]"

definition check_delete_msgs :: "handler_env \<Rightarrow> delete_msgs_request \<Rightarrow> service_node \<Rightarrow> response option" where
  "check_delete_msgs E r sn =
     (if \<not> for_us E sn (rq_pubkey r) then Some (handle_wrong_swarm E sn (rq_pubkey r))
      else if \<not> verify_request E sn r access_Delete False (delete_msgs_parts r)
      then Some (text_response HTTP_UNAUTHORIZED ''delete_msgs signature verification failed'')
      else None)"

text \<open>Subaccounts are not looked at: the account itself has to sign.\<close>

definition verify_owner :: "handler_env \<Rightarrow> service_node \<Rightarrow> 'a signed_request_scheme \<Rightarrow> sig_part list \<Rightarrow> bool" where
  "verify_owner E sn r parts =
     (case rq_signature r of
        None \<Rightarrow> False
      | Some sig \<Rightarrow> verify_signature E (sn_db sn) (rq_pubkey r) (rq_ed25519 r) None access_None False sig parts)"

definition revoke_parts :: "revoke_request \<Rightarrow> sig_part list" where
  "revoke_parts r = [P_Str ''revoke_subaccount'', P_Time (rs_timestamp r), P_Strs (rs_revoke r)]"

definition check_revoke :: "handler_env \<Rightarrow> bool \<Rightarrow> revoke_request \<Rightarrow> service_node \<Rightarrow> response option" where
  "check_revoke E recurse r sn =
     (if \<not> for_us E sn (rq_pubkey r) then Some (handle_wrong_swarm E sn (rq_pubkey r))
      else if outside (he_now E) (tolerance_for recurse) (rs_timestamp r)
      then Some (text_response HTTP_NOT_ACCEPTABLE ''revoke_subaccount timestamp too far from current time'')
      else if \<not> verify_owner E sn r (revoke_parts r)
      then Some (text_response HTTP_UNAUTHORIZED ''revoke_subaccount signature verification failed'')
      else None)"

definition unrevoke_parts :: "unrevoke_request \<Rightarrow> sig_part list" where
  "unrevoke_parts r = [P_Str ''unrevoke_subaccount'', P_Time (ur_timestamp r), P_Strs (ur_unrevoke r)]"

definition check_unrevoke :: "handler_env \<Rightarrow> bool \<Rightarrow> unrevoke_request \<Rightarrow> service_node \<Rightarrow> response option" where
  "check_unrevoke E recurse r sn =
     (if \<not> for_us E sn (rq_pubkey r) then Some (handle_wrong_swarm E sn (rq_pubkey r))
      else if outside (he_now E) (tolerance_for recurse) (ur_timestamp r)
      then Some (text_response HTTP_NOT_ACCEPTABLE ''unrevoke_subaccount timestamp too far from current time'')
      else if \<not> verify_owner E sn r (unrevoke_parts r)
      then Some (text_response HTTP_UNAUTHORIZED ''unrevoke_subaccount signature verification failed'')
      else None)"

definition delete_before_parts :: "delete_before_request \<Rightarrow> sig_part list" where
  "delete_before_parts r = [P_Str ''delete_before'', P_Str (signature_value (db_namespace r)), P_Time (db_before r)]"

definition check_delete_before :: "handler_env \<Rightarrow> delete_before_request \<Rightarrow> service_node \<Rightarrow> response option" where
  "check_delete_before E r sn =
     (if \<not> for_us E sn (rq_pubkey r) then Some (handle_wrong_swarm E sn (rq_pubkey r))
      else if db_before r > he_now E + seconds 60
      then Some (text_response HTTP_UNAUTHORIZED ''delete_before timestamp too far in the future'')
      else if \<not> verify_request E sn r access_Delete False (delete_before_parts r)
      then Some (text_response HTTP_UNAUTHORIZED ''delete_before signature verification failed'')
      else None)"

definition expire_all_parts :: "expire_all_request \<Rightarrow> sig_part list" where
  "expire_all_parts r = [P_Str ''expire_all'', P_Str (signature_value (ea_namespace r)), P_Time (ea_expiry r)]"

definition check_expire_all :: "handler_env \<Rightarrow> bool \<Rightarrow> expire_all_request \<Rightarrow> service_node \<Rightarrow> response option" where
  "check_expire_all E recurse r sn =
     (if \<not> for_us E sn (rq_pubkey r) then Some (handle_wrong_swarm E sn (rq_pubkey r))
      else if ea_expiry r < he_now E - tolerance_for recurse
      then Some (text_response HTTP_NOT_ACCEPTABLE ''expire_all timestamp should be >= current time'')
      else if \<not> verify_request E sn r access_Delete False (expire_all_parts r)
      then Some (text_response HTTP_UNAUTHORIZED ''expire_all signature verification failed'')
      else None)"

definition expire_mode :: "expire_msgs_request \<Rightarrow> string" where
  "expire_mode r = (if em_shorten r then ''shorten'' else if em_extend r then ''extend'' else [])"

definition expire_msgs_parts :: "expire_msgs_request \<Rightarrow> sig_part list" where
  "expire_msgs_parts r = [P_Str ''expire'', P_Str (expire_mode r), P_Times (em_expiry r), P_Strs (em_messages r)]"

definition lacks_delete :: "'a signed_request_scheme \<Rightarrow> bool" where
  "lacks_delete r \<longleftrightarrow> (case rq_subaccount r of Some st \<Rightarrow> \<not> token_has (token st) access_Delete | None \<Rightarrow> False)"

definition check_expire_msgs :: "handler_env \<Rightarrow> expire_msgs_request \<Rightarrow> service_node \<Rightarrow> response option" where
  "check_expire_msgs E r sn =
     (if \<not> for_us E sn (rq_pubkey r) then Some (handle_wrong_swarm E sn (rq_pubkey r))
      else if list_ex (\<lambda>e. e < he_now E - seconds 60) (em_expiry r)
      then Some (text_response HTTP_UNAUTHORIZED ''expire: timestamp should be >= current time'')
      else if \<not> verify_request E sn r access_Write False (expire_msgs_parts r)
      then Some (text_response HTTP_UNAUTHORIZED ''expire: signature verification failed'')
      else if lacks_delete r \<and> em_shorten r
      then Some (text_response HTTP_BAD_REQUEST
             ''expire: shorten parameter cannot be used with this subaccount token (missing delete access)'')
      else None)"

section \<open>Effects of the forwarded requests\<close>

text \<open>
  The part of a handler that follows the forwarding. It gives the new state, what is sent, our
  own part of the result, and the time for the common fields.
\<close>

definition account_hex :: "handler_env \<Rightarrow> user_pubkey \<Rightarrow> string" where
  "account_hex E pk = prefixed_hex (is_mainnet (he_codecs E)) (hexc (he_codecs E)) pk"

definition to_map :: "(string \<times> 'v) list \<Rightarrow> (string \<times> 'v) list" where
  "to_map xs = fold (\<lambda>(k, v). map_put k v) xs []"

fun add_hashes :: "(namespace_id \<times> string) list \<Rightarrow> (string \<times> string list) list \<Rightarrow> (string \<times> string list) list" where
  "add_hashes [] m = m"
| "add_hashes ((ns, h) # xs) m =
     add_hashes xs (map_put (ns_to_string ns) ((case map_of m (ns_to_string ns) of Some hs \<Rightarrow> hs | None \<Rightarrow> []) @ [h]) m)"

definition handle_action_all_ns ::
    "handler_env \<Rightarrow> string \<Rightarrow> (namespace_id \<times> string) list \<Rightarrow> bool \<Rightarrow> sig_part list \<Rightarrow> json_object" where
  "handle_action_all_ns E key affected b64 parts =
     (let affected = sort_key snd affected;
          sig = create_signature E (parts @ [P_Strs (map snd affected)])
      in map_put key (F_Dict (map (\<lambda>(k, hs). (k, F_List (map F_Str hs))) (add_hashes affected [])))
           [(''signature'', encode_bytes E b64 sig)])"

definition handle_action_one_ns :: "handler_env \<Rightarrow> string \<Rightarrow> string list \<Rightarrow> bool \<Rightarrow> sig_part list \<Rightarrow> json_object" where
  "handle_action_one_ns E key affected b64 parts =
     (let affected = sort affected; sig = create_signature E (parts @ [P_Strs affected])
      in map_put key (F_List (map F_Str affected)) [(''signature'', encode_bytes E b64 sig)])"

text \<open>The state with another database, and the parts of the answer.\<close>

definition local_delete_all :: "handler_env \<Rightarrow> delete_all_request \<Rightarrow> bool \<Rightarrow> service_node \<Rightarrow> service_node \<times> json_object" where
  "local_delete_all E r b64 sn =
     (let parts = [P_Str (account_hex E (rq_pubkey r)), P_Time (da_timestamp r)]
      in case da_namespace r of
           NS_All \<Rightarrow> (let (db, gone) = delete_all (rq_pubkey r) (sn_db sn)
                     in (set_db db sn, handle_action_all_ns E ''deleted'' gone b64 parts))
         | NS_Id ns \<Rightarrow> (let (db, gone) = delete_all_in (rq_pubkey r) ns (sn_db sn)
                     in (set_db db sn, handle_action_one_ns E ''deleted'' gone b64 parts)))"

definition local_delete_before :: "handler_env \<Rightarrow> delete_before_request \<Rightarrow> bool \<Rightarrow> service_node \<Rightarrow> service_node \<times> json_object" where
  "local_delete_before E r b64 sn =
     (let parts = [P_Str (account_hex E (rq_pubkey r)), P_Time (db_before r)]
      in case db_namespace r of
           NS_All \<Rightarrow> (let (db, gone) = delete_by_timestamp (rq_pubkey r) (db_before r) (sn_db sn)
                     in (set_db db sn, handle_action_all_ns E ''deleted'' gone b64 parts))
         | NS_Id ns \<Rightarrow> (let (db, gone) = delete_by_timestamp_in (rq_pubkey r) ns (db_before r) (sn_db sn)
                     in (set_db db sn, handle_action_one_ns E ''deleted'' gone b64 parts)))"

definition local_expire_all :: "handler_env \<Rightarrow> expire_all_request \<Rightarrow> bool \<Rightarrow> service_node \<Rightarrow> service_node \<times> json_object" where
  "local_expire_all E r b64 sn =
     (let parts = [P_Str (account_hex E (rq_pubkey r)), P_Time (ea_expiry r)]
      in case ea_namespace r of
           NS_All \<Rightarrow> (let (db, hit) = update_all_expiries (rq_pubkey r) (ea_expiry r) (sn_db sn)
                     in (set_db db sn, handle_action_all_ns E ''updated'' hit b64 parts))
         | NS_Id ns \<Rightarrow> (let (db, hit) = update_all_expiries_in (rq_pubkey r) ns (ea_expiry r) (sn_db sn)
                     in (set_db db sn, handle_action_one_ns E ''updated'' hit b64 parts)))"

definition local_delete_msgs :: "handler_env \<Rightarrow> delete_msgs_request \<Rightarrow> bool \<Rightarrow> service_node \<Rightarrow> service_node \<times> json_object" where
  "local_delete_msgs E r b64 sn =
     (let (db, gone) = delete_by_hash (rq_pubkey r) (dm_messages r) (sn_db sn); gone = sort gone;
          sig = create_signature E [P_Str (account_hex E (rq_pubkey r)), P_Strs (dm_messages r), P_Strs gone]
      in (set_db db sn, map_put ''signature'' (encode_bytes E b64 sig) [(''deleted'', F_List (map F_Str gone))]))"

definition local_revoke :: "handler_env \<Rightarrow> revoke_request \<Rightarrow> bool \<Rightarrow> service_node \<Rightarrow> service_node \<times> json_object" where
  "local_revoke E r b64 sn =
     (let db = revoke_subaccounts (by_revocation (he_orders E)) (\<lambda>i. he_clock E (i + 2)) (rq_pubkey r) (rs_revoke r) (sn_db sn);
          sig = create_signature E [P_Str (account_hex E (rq_pubkey r)), P_Time (rs_timestamp r), P_Strs (rs_revoke r)]
      in (set_db db sn, [(''signature'', encode_bytes E b64 sig)]))"

definition local_unrevoke :: "handler_env \<Rightarrow> unrevoke_request \<Rightarrow> bool \<Rightarrow> service_node \<Rightarrow> service_node \<times> json_object" where
  "local_unrevoke E r b64 sn =
     (let (db, n) = unrevoke_subaccounts (rq_pubkey r) (ur_unrevoke r) (sn_db sn);
          sig = create_signature E [P_Str (account_hex E (rq_pubkey r)), P_Time (ur_timestamp r), P_Strs (ur_unrevoke r)]
      in (set_db db sn, map_put ''signature'' (encode_bytes E b64 sig) [(''count'', F_int (int n))]))"

text \<open>
  \<open>expire\<close>: the expiries that are used are capped; a subaccount that may not delete only
  extends. The lengths that the database asks for are guaranteed by the loader.
\<close>

definition capped_expiries :: "handler_env \<Rightarrow> expire_msgs_request \<Rightarrow> time list" where
  "capped_expiries E r = map (\<lambda>e. min (he_now E + TTL_MAXIMUM_PRIVATE) e) (em_expiry r)"

definition extend_only :: "expire_msgs_request \<Rightarrow> bool" where
  "extend_only r \<longleftrightarrow> em_extend r \<or> lacks_delete r"

definition unchanged_expiries ::
    "handler_env \<Rightarrow> expire_msgs_request \<Rightarrow> (string \<times> time) list \<Rightarrow> database \<Rightarrow> (string \<times> int) list" where
  "unchanged_expiries E r updated db =
     (if em_extend r \<or> em_shorten r
      then let hs = filter (\<lambda>h. h \<notin> fst ` set updated) (em_messages r)
           in if hs = [] then [] else to_map (get_expiries (he_clock E 3) (rq_pubkey r) hs db)
      else [])"

definition local_expire_msgs :: "handler_env \<Rightarrow> expire_msgs_request \<Rightarrow> bool \<Rightarrow> service_node \<Rightarrow> service_node \<times> json_object" where
  "local_expire_msgs E r b64 sn =
     (let expiry = capped_expiries E r;
          (db, updated) = (case update_expiry (he_clock E 2) (rq_pubkey r) (em_messages r) expiry (extend_only r) (em_shorten r) (sn_db sn) of
             Inr x \<Rightarrow> x | Inl e \<Rightarrow> (sn_db sn, []));
          updated = sort_key fst updated;
          unchanged = unchanged_expiries E r updated db;
          several = length (em_expiry r) > 1;
          updated_exp = (if several then map snd updated else [hd expiry]);
          sig = create_signature E [P_Str (account_hex E (rq_pubkey r)), P_Times updated_exp, P_Strs (em_messages r),
                  P_Strs (map fst updated), P_Map unchanged];
          mine = [(''expiry'', if several then F_List (map (\<lambda>t. F_int (to_epoch_ms t)) updated_exp)
                               else F_int (to_epoch_ms (hd expiry)))];
          mine = map_put ''updated'' (F_List (map (\<lambda>(h, _). F_Str h) updated)) mine;
          mine = (if em_shorten r \<or> em_extend r
                  then map_put ''unchanged'' (F_Dict (map (\<lambda>(h, e). (h, F_int e)) unchanged)) mine else mine)
      in (set_db db sn, map_put ''signature'' (encode_bytes E b64 sig) mine))"

text \<open>
  \<open>store\<close>: the copies of the peers that could not be reached are queued once the message is
  stored. Where the disk is full is an argument of the store.
\<close>

definition stored_message :: "handler_env \<Rightarrow> store_request \<Rightarrow> message" where
  "stored_message E r = \<lparr>msg_pubkey = rq_pubkey r, msg_hash = computeMessageHash E (rq_pubkey r) (st_namespace r) (st_data r),
     msg_namespace = st_namespace r, msg_timestamp = st_timestamp r, msg_expiry = st_expiry r, msg_data = st_data r\<rparr>"

fun queue_deliveries ::
    "handler_env \<Rightarrow> legacy_pubkey list \<Rightarrow> string \<Rightarrow> service_node \<Rightarrow> service_node \<times> sn_output list" where
  "queue_deliveries E [] h sn = (sn, [])"
| "queue_deliveries E (p # ps) h sn =
     (let (sn, out) = node_queue_delivery (he_bt E) (he_clock E 3) p h sn; (sn, out') = queue_deliveries E ps h sn
      in (sn, out @ out'))"

definition local_store ::
    "handler_env \<Rightarrow> disk \<Rightarrow> store_request \<Rightarrow> bool \<Rightarrow> bool \<Rightarrow> swarm_response \<Rightarrow> service_node \<Rightarrow>
     service_node \<times> swarm_response \<times> sn_output list \<times> json_object" where
  "local_store E disk r recurse b64 sr sn =
     (let msg = stored_message E r; h = msg_hash msg;
          (sn, out, success, new_msg, expiry) = process_store (he_load_big E) disk msg sn;
          (sn, sr, out, mine) =
            (if success then
               let (sn, out') = queue_deliveries E (sr_undelivered sr) h sn;
                   sr = sr\<lparr>sr_stored_hash := h, sr_undelivered := []\<rparr>;
                   mine = map_put ''signature'' (encode_bytes E b64 (create_signature E [P_Str h])) [(''hash'', F_Str h)];
                   mine = (if new_msg = Some True then mine else map_put ''already'' (F_Bool True) mine);
                   mine = map_put ''expiry'' (F_int (to_epoch_ms (case expiry of Some t \<Rightarrow> t | None \<Rightarrow> 0))) mine;
                   sr = (if recurse then sr\<lparr>sr_result := map_put ''hash'' (F_Str h) (sr_result sr)\<rparr> else sr)
               in (sn, sr, out @ out', mine)
             else (sn, sr, out, map_put ''query_failure'' (F_Bool True) [(''failed'', F_Bool True)]));
          mine = (if recurse then map_put ''t'' (F_int (to_epoch_ms (he_now E))) mine else mine)
      in (sn, sr, out, mine))"

section \<open>Forwarded requests as a whole\<close>

text \<open>
  A forwarded request is begun, with the guard and the forwarding, and finished, with its
  effect here; the answers of the peers come in any order, also between the two.
\<close>

fun check_request :: "handler_env \<Rightarrow> bool \<Rightarrow> client_subrequest \<Rightarrow> service_node \<Rightarrow> response option" where
  "check_request E recurse (Store r) sn = check_store E r sn"
| "check_request E recurse (Delete_Msgs r) sn = check_delete_msgs E r sn"
| "check_request E recurse (Revoke_Subaccount r) sn = check_revoke E recurse r sn"
| "check_request E recurse (Unrevoke_Subaccount r) sn = check_unrevoke E recurse r sn"
| "check_request E recurse (Delete_All r) sn = check_delete_all E recurse r sn"
| "check_request E recurse (Delete_Before r) sn = check_delete_before E r sn"
| "check_request E recurse (Expire_All r) sn = check_expire_all E recurse r sn"
| "check_request E recurse (Expire_Msgs r) sn = check_expire_msgs E r sn"
| "check_request E recurse _ sn = None"

datatype outcome =
    Replied response
  | In_Progress swarm_response "(legacy_pubkey \<times> string) list"

definition request_failed :: response where
  "request_failed = text_response HTTP_INTERNAL_SERVER_ERROR ''request failed''"

definition begin_request ::
    "handler_env \<Rightarrow> client_subrequest \<Rightarrow> bool \<Rightarrow> bool \<Rightarrow> service_node \<Rightarrow> service_node \<times> sn_output list \<times> outcome" where
  "begin_request E q recurse b64 sn =
     (case forwarded q of
        None \<Rightarrow> (sn, [], Replied request_failed)
      | Some (cmd, dict) \<Rightarrow>
          (case check_request E recurse q sn of
             Some err \<Rightarrow> (sn, [], Replied err)
           | None \<Rightarrow>
               (let (sn, sr, sent, out, err) = setup_recursive_request E cmd dict recurse b64 sn
                in (sn, out, if err = None then In_Progress sr sent else Replied request_failed))))"

text \<open>Without the database's part: the answer that the effect here gives.\<close>

fun local_request ::
    "handler_env \<Rightarrow> disk \<Rightarrow> client_subrequest \<Rightarrow> bool \<Rightarrow> bool \<Rightarrow> swarm_response \<Rightarrow> service_node \<Rightarrow>
     service_node \<times> swarm_response \<times> sn_output list \<times> json_object" where
  "local_request E disk (Store r) recurse b64 sr sn = local_store E disk r recurse b64 sr sn"
| "local_request E disk (Delete_Msgs r) recurse b64 sr sn = (let (sn, mine) = local_delete_msgs E r b64 sn in (sn, sr, [], mine))"
| "local_request E disk (Revoke_Subaccount r) recurse b64 sr sn = (let (sn, mine) = local_revoke E r b64 sn in (sn, sr, [], mine))"
| "local_request E disk (Unrevoke_Subaccount r) recurse b64 sr sn = (let (sn, mine) = local_unrevoke E r b64 sn in (sn, sr, [], mine))"
| "local_request E disk (Delete_All r) recurse b64 sr sn = (let (sn, mine) = local_delete_all E r b64 sn in (sn, sr, [], mine))"
| "local_request E disk (Delete_Before r) recurse b64 sr sn = (let (sn, mine) = local_delete_before E r b64 sn in (sn, sr, [], mine))"
| "local_request E disk (Expire_All r) recurse b64 sr sn = (let (sn, mine) = local_expire_all E r b64 sn in (sn, sr, [], mine))"
| "local_request E disk (Expire_Msgs r) recurse b64 sr sn = (let (sn, mine) = local_expire_msgs E r b64 sn in (sn, sr, [], mine))"
| "local_request E disk _ recurse b64 sr sn = (sn, sr, [], [])"

text \<open>
  Our own part goes under our key next to those of the peers; the answer to another node is
  our own part alone. \<open>delete\<close> and the two requests on revocations read the clock again.
\<close>

fun misc_time :: "handler_env \<Rightarrow> client_subrequest \<Rightarrow> time" where
  "misc_time E (Delete_Msgs r) = he_clock E 4"
| "misc_time E (Revoke_Subaccount r) = he_clock E 4"
| "misc_time E (Unrevoke_Subaccount r) = he_clock E 4"
| "misc_time E _ = he_now E"

definition finish_request ::
    "handler_env \<Rightarrow> disk \<Rightarrow> client_subrequest \<Rightarrow> bool \<Rightarrow> bool \<Rightarrow> swarm_response \<Rightarrow> service_node \<Rightarrow>
     service_node \<times> swarm_response \<times> sn_output list \<times> response option" where
  "finish_request E disk q recurse b64 sr sn =
     (let (sn, sr, out, mine) = local_request E disk q recurse b64 sr sn;
          result = (if recurse
                    then add_misc_response_fields sn (misc_time E q) (put_swarm (he_own_ed E) (F_Dict mine) (sr_result sr))
                    else mine);
          sr = sr\<lparr>sr_result := result, sr_pending := sr_pending sr - 1\<rparr>
      in (sn, sr, out, if sr_pending sr = 0 then Some (reply_or_fail sr) else None))"

text \<open>
  \<open>delete\<close> with \<open>required\<close>: the answer becomes a 404 when no member deleted anything. The look
  at \<open>deleted\<close> of an entry that has none puts a null there.
\<close>

fun json_empty :: "field_value \<Rightarrow> bool" where
  "json_empty F_Null = True"
| "json_empty (F_List xs) = (xs = [])"
| "json_empty (F_Dict d) = (d = [])"
| "json_empty _ = False"

fun deleted_some :: "json_object \<Rightarrow> json_object \<times> bool" where
  "deleted_some [] = ([], False)"
| "deleted_some ((k, v) # es) =
     (let v' = (if has_field ''deleted'' (fields_of v) then v else F_Dict (map_put ''deleted'' F_Null (fields_of v)))
      in if \<not> json_empty (the (map_of (fields_of v') ''deleted'')) then ((k, v') # es, True)
         else let (es', found) = deleted_some es in ((k, v') # es', found))"

definition require_deleted :: "response \<Rightarrow> response" where
  "require_deleted r =
     (case resp_body r of
        Json (F_Dict j) \<Rightarrow>
          if resp_status r = HTTP_OK
          then (case swarm_entries j of
                  None \<Rightarrow> \<lparr>resp_status = HTTP_NOT_FOUND, resp_body = Json (F_Dict (map_put ''swarm'' F_Null j))\<rparr>
                | Some es \<Rightarrow>
                    (let (es, found) = deleted_some es
                     in \<lparr>resp_status = (if found then HTTP_OK else HTTP_NOT_FOUND),
                         resp_body = Json (F_Dict (map_put ''swarm'' (F_Dict es) j))\<rparr>))
          else r
      | _ \<Rightarrow> r)"

fun final_response :: "client_subrequest \<Rightarrow> response \<Rightarrow> response" where
  "final_response (Delete_Msgs r) resp = (if dm_required r then require_deleted resp else resp)"
| "final_response _ resp = resp"

section \<open>Requests answered at once\<close>

definition DEFAULT_MSG_OVERHEAD :: nat where "DEFAULT_MSG_OVERHEAD = 100"

text \<open>
  The limits of \<open>retrieve\<close>. The negation of the smallest \<open>int\<close> wraps around; a negative count
  becomes a huge unsigned one when it is passed on.
\<close>

definition neg_int :: "int \<Rightarrow> int" where
  "neg_int i = sint (word_of_int (- i) :: u32)"

definition retrieve_limits :: "int option \<Rightarrow> int option \<Rightarrow> int option \<times> int" where
  "retrieve_limits max_count max_size =
     (let max_count = (if max_count = Some 0 then None else max_count);
          max_size = (if max_size = Some 0 then None else max_size);
          max_size = (if max_count = None \<and> max_size = None then Some (- 5) else max_size)
      in (max_count,
          case max_size of
            Some s \<Rightarrow> if s < 0 then RETRIEVE_MAX_SIZE sdiv neg_int s
                     else if s > RETRIEVE_MAX_SIZE then RETRIEVE_MAX_SIZE else s
          | None \<Rightarrow> RETRIEVE_MAX_SIZE))"

definition to_size_t :: "int \<Rightarrow> nat" where
  "to_size_t i = unat (word_of_int i :: u64)"

definition retrieve_parts :: "retrieve_request \<Rightarrow> sig_part list" where
  "retrieve_parts r =
     [P_Str ''retrieve'', P_Str (if rt_namespace r \<noteq> ns_Default then to_chars (to_int (rt_namespace r)) else []),
      P_Time (rt_timestamp r)]"

definition check_retrieve :: "handler_env \<Rightarrow> retrieve_request \<Rightarrow> service_node \<Rightarrow> response option" where
  "check_retrieve E r sn =
     (if \<not> for_us E sn (rq_pubkey r) then Some (handle_wrong_swarm E sn (rq_pubkey r))
      else if is_testing_namespace (rt_namespace r)
      then Some (json_response HTTP_OK (add_misc_response_fields sn (he_now E)
             [(''messages'', F_List []), (''more'', F_Bool False)]))
      else if \<not> is_noauth_retrieve_namespace (rt_namespace r) \<and> \<not> rt_check_signature r
      then Some (text_response HTTP_UNAUTHORIZED ''retrieve: request signature required'')
      else if rt_check_signature r \<and> outside (he_now E) SIGNATURE_TOLERANCE (rt_timestamp r)
      then Some (text_response HTTP_NOT_ACCEPTABLE ''retrieve timestamp too far from current time'')
      else if rt_check_signature r
            \<and> \<not> verify_request E sn r access_Read (is_unrevocable_namespace (rt_namespace r)) (retrieve_parts r)
      then Some (text_response HTTP_UNAUTHORIZED ''retrieve signature verification failed'')
      else None)"

definition message_json :: "handler_env \<Rightarrow> bool \<Rightarrow> message \<Rightarrow> field_value" where
  "message_json E b64 m = F_Dict
     [(''data'', encode_bytes E b64 (msg_data m)), (''expiration'', F_int (to_epoch_ms (msg_expiry m))),
      (''hash'', F_Str (msg_hash m)), (''timestamp'', F_int (to_epoch_ms (msg_timestamp m)))]"

definition retrieved :: "handler_env \<Rightarrow> retrieve_request \<Rightarrow> service_node \<Rightarrow> message list \<times> bool" where
  "retrieved E r sn =
     (let (max_count, max_size) = retrieve_limits (rt_max_count r) (rt_max_size r)
      in retrieve (he_clock E 1) (rq_pubkey r) (rt_namespace r) (case rt_last_hash r of Some h \<Rightarrow> h | None \<Rightarrow> [])
           (map_option to_size_t max_count) (Some (to_size_t max_size)) True DEFAULT_MSG_OVERHEAD (sn_db sn))"

definition answer_retrieve :: "handler_env \<Rightarrow> retrieve_request \<Rightarrow> bool \<Rightarrow> service_node \<Rightarrow> response" where
  "answer_retrieve E r b64 sn =
     (case check_retrieve E r sn of
        Some resp \<Rightarrow> resp
      | None \<Rightarrow>
          (let (msgs, more) = retrieved E r sn
           in json_response HTTP_OK (add_misc_response_fields sn (he_now E)
                [(''messages'', F_List (map (message_json E b64) msgs)), (''more'', F_Bool more)])))"

definition revoked_parts :: "revoked_request \<Rightarrow> sig_part list" where
  "revoked_parts r = [P_Str ''revoked_subaccounts'', P_Time (rd_timestamp r)]"

definition answer_revoked :: "handler_env \<Rightarrow> revoked_request \<Rightarrow> bool \<Rightarrow> service_node \<Rightarrow> response" where
  "answer_revoked E r b64 sn =
     (if \<not> for_us E sn (rq_pubkey r) then handle_wrong_swarm E sn (rq_pubkey r)
      else if outside (he_now E) SIGNATURE_TOLERANCE (rd_timestamp r)
      then text_response HTTP_NOT_ACCEPTABLE ''revoked_subaccounts timestamp too far from current time''
      else if \<not> (case rq_signature r of
                   None \<Rightarrow> False
                 | Some sig \<Rightarrow> verify_signature E (sn_db sn) (rq_pubkey r) None None access_None False sig (revoked_parts r))
      then text_response HTTP_UNAUTHORIZED ''revoked_subaccounts signature verification failed''
      else json_response HTTP_OK (add_misc_response_fields sn (he_now E)
             [(''revoked_subaccounts'', F_List (map (encode_bytes E b64) (revoked_tokens (rq_pubkey r) (sn_db sn))))]))"

definition get_expiries_parts :: "get_expiries_request \<Rightarrow> sig_part list" where
  "get_expiries_parts r =
     P_Str ''get_expiries'' #
       (case ge_namespace r of
          Some ns \<Rightarrow> [P_Str ''N'', P_Int (to_int ns), P_Time (ge_sig_ts r)]
        | None \<Rightarrow> [P_Time (ge_sig_ts r), P_Strs (ge_messages r)])"

definition answer_get_expiries :: "handler_env \<Rightarrow> get_expiries_request \<Rightarrow> service_node \<Rightarrow> response" where
  "answer_get_expiries E r sn =
     (if \<not> for_us E sn (rq_pubkey r) then handle_wrong_swarm E sn (rq_pubkey r)
      else if outside (he_now E) SIGNATURE_TOLERANCE (ge_sig_ts r)
      then text_response HTTP_NOT_ACCEPTABLE ''get_expiries timestamp too far from current time''
      else if \<not> verify_request E sn r access_Read False (get_expiries_parts r)
      then text_response HTTP_UNAUTHORIZED ''get_expiries signature verification failed''
      else json_response HTTP_OK
             [(''expiries'', F_Dict (map (\<lambda>(h, e). (h, F_int e)) (to_map
                (case ge_namespace r of
                   Some ns \<Rightarrow> get_expiries_in (he_clock E 1) (rq_pubkey r) ns (sn_db sn)
                 | None \<Rightarrow> get_expiries (he_clock E 1) (rq_pubkey r) (ge_messages r) (sn_db sn)))))])"

definition message_count_parts :: "message_count_request \<Rightarrow> sig_part list" where
  "message_count_parts r = [P_Str ''get_message_count'', P_Time (gc_sig_ts r)]"

definition answer_message_count :: "handler_env \<Rightarrow> message_count_request \<Rightarrow> service_node \<Rightarrow> response" where
  "answer_message_count E r sn =
     (if \<not> for_us E sn (rq_pubkey r) then handle_wrong_swarm E sn (rq_pubkey r)
      else if outside (he_now E) SIGNATURE_TOLERANCE (gc_sig_ts r)
      then text_response HTTP_NOT_ACCEPTABLE ''get_message_count timestamp too far from current time''
      else if \<not> verify_request E sn r access_Read False (message_count_parts r)
      then text_response HTTP_UNAUTHORIZED ''get_message_count signature verification failed''
      else let counts = get_account_namespace_counts (he_clock E 1) (rq_pubkey r) (sn_db sn)
           in json_response HTTP_OK
                [(''namespace'', F_Dict (to_map (map (\<lambda>(ns, n). (to_chars ns, F_int (int n))) counts))),
                 (''total'', F_int (int (sum_list (map snd counts))))])"

definition answer_get_swarm :: "handler_env \<Rightarrow> user_pubkey \<Rightarrow> service_node \<Rightarrow> response" where
  "answer_get_swarm E pk sn =
     json_response HTTP_OK (add_misc_response_fields sn (he_now E)
       (swarm_to_json (he_forms E) (get_swarm_for (he_load_big E) (nw_swarms (sn_network sn)) pk) (nw_contacts (sn_network sn))))"

definition answer_info :: "handler_env \<Rightarrow> service_node \<Rightarrow> response" where
  "answer_info E sn =
     json_response HTTP_OK (add_misc_response_fields sn (he_clock E 1)
       [(''timestamp'', F_int (to_epoch_ms (he_now E))), (''version'', F_List (map F_int (he_version E)))])"

text \<open>The listing of all nodes is built when it is first asked for, and kept.\<close>

definition answer_active_nodes :: "handler_env \<Rightarrow> service_node \<Rightarrow> service_node \<times> response" where
  "answer_active_nodes E sn =
     (let (nw, blob) = all_nodes_blob (he_write_big E) (sn_network sn)
      in (sn\<lparr>sn_swarm := (sn_swarm sn)\<lparr>sw_network := nw\<rparr>\<rparr>, \<lparr>resp_status = HTTP_OK, resp_body = Binary blob\<rparr>))"

text \<open>
  The answer of oxend to a request that was passed on to it; reading its json is an argument.
\<close>

definition on_oxend_reply ::
    "handler_env \<Rightarrow> (string \<Rightarrow> field_value option) \<Rightarrow> bool \<Rightarrow> string list \<Rightarrow> service_node \<Rightarrow> response" where
  "on_oxend_reply E json_parse success dat sn =
     (if success \<and> length dat \<ge> 2 \<and> dat ! 0 = ''200''
      then (case json_parse (dat ! 1) of
              None \<Rightarrow> text_response HTTP_BAD_GATEWAY ''oxend returned unparsable data''
            | Some j \<Rightarrow> json_response HTTP_OK (add_misc_response_fields sn (he_now E) [(''result'', j)]))
      else text_response HTTP_BAD_REQUEST
             (if length dat \<ge> 2 \<and> dat ! 1 \<noteq> [] then dat ! 1 else ''Unknown oxend error''))"

definition process_retrieve_all :: "handler_env \<Rightarrow> service_node \<Rightarrow> response" where
  "process_retrieve_all E sn =
     json_response HTTP_OK [(''messages'', F_List (map (\<lambda>m. F_Dict
       [(''data'', F_Str (msg_data m)), (''pk'', F_Str (account_hex E (msg_pubkey m)))]) (retrieve_all (sn_db sn))))]"

section \<open>Batches, sequences and conditions\<close>

text \<open>A response as an element of the results.\<close>

definition sub_body :: "handler_env \<Rightarrow> bool \<Rightarrow> response \<Rightarrow> field_value" where
  "sub_body E b64 r = (case resp_body r of Json j \<Rightarrow> j | Binary b \<Rightarrow> encode_bytes E b64 b | Text s \<Rightarrow> F_Str s)"

definition sub_result :: "handler_env \<Rightarrow> bool \<Rightarrow> response \<Rightarrow> field_value" where
  "sub_result E b64 r = F_Dict [(''body'', sub_body E b64 r), (''code'', F_int (resp_status r))]"

definition results_response :: "field_value list \<Rightarrow> response" where
  "results_response rs = json_response HTTP_OK [(''results'', F_List rs)]"

text \<open>
  A batch: the subrequests run side by side, each fills in its own element, and the last one
  that is done sends the answer.
\<close>

record batch_state =
  bs_results :: "field_value list"
  bs_remaining :: int

definition batch_begin :: "client_subrequest list \<Rightarrow> batch_state" where
  "batch_begin qs = \<lparr>bs_results = replicate (length qs) F_Null, bs_remaining = int (length qs)\<rparr>"

definition batch_done :: "handler_env \<Rightarrow> bool \<Rightarrow> nat \<Rightarrow> response \<Rightarrow> batch_state \<Rightarrow> batch_state \<times> response option" where
  "batch_done E b64 i r st =
     (let st = \<lparr>bs_results = (bs_results st)[i := sub_result E b64 r], bs_remaining = bs_remaining st - 1\<rparr>
      in (st, if bs_remaining st = 0 then Some (results_response (bs_results st)) else None))"

text \<open>
  A sequence: after each result the next subrequest is run, given by its position, or the
  answer is sent.
\<close>

record sequence_manager =
  sm_subreqs :: "client_subrequest list"
  sm_subresults :: "field_value list"

definition sequence_begin :: "client_subrequest list \<Rightarrow> sequence_manager \<times> nat" where
  "sequence_begin qs = (\<lparr>sm_subreqs = qs, sm_subresults = []\<rparr>, 0)"

definition sequence_done ::
    "handler_env \<Rightarrow> bool \<Rightarrow> response \<Rightarrow> sequence_manager \<Rightarrow> sequence_manager \<times> (response + nat)" where
  "sequence_done E b64 r m =
     (let m = m\<lparr>sm_subresults := sm_subresults m @ [sub_result E b64 r]\<rparr>
      in (m, if resp_status r < 200 \<or> resp_status r > 299 \<or> length (sm_subresults m) \<ge> length (sm_subreqs m)
             then Inl (results_response (sm_subresults m)) else Inr (length (sm_subresults m))))"

definition ifelse_object :: "handler_env \<Rightarrow> condition \<Rightarrow> service_node \<Rightarrow> bool \<times> json_object" where
  "ifelse_object E c sn =
     (let b = eval_condition (hardfork sn) (he_version E) (block_height sn) c
      in (b, [(''condition'', F_Bool b), (''height'', F_Unsigned (block_height sn)),
              (''hf'', F_List [F_int (fst (hardfork sn)), F_int (snd (hardfork sn))]), (''v'', F_List (map F_int (he_version E)))]))"

text \<open>The branch that is taken, or the answer when it has no action; and what wraps its answer.\<close>

definition process_ifelse ::
    "handler_env \<Rightarrow> condition \<Rightarrow> client_request option \<Rightarrow> client_request option \<Rightarrow> service_node \<Rightarrow> response + client_request" where
  "process_ifelse E c action_true action_false sn =
     (let (b, j) = ifelse_object E c sn
      in case (if b then action_true else action_false) of None \<Rightarrow> Inl (json_response HTTP_OK j) | Some q \<Rightarrow> Inr q)"

definition wrap_ifelse :: "handler_env \<Rightarrow> bool \<Rightarrow> json_object \<Rightarrow> response \<Rightarrow> response" where
  "wrap_ifelse E b64 j r = json_response HTTP_OK (map_put ''result'' (sub_result E b64 r) j)"

section \<open>Entry points\<close>

text \<open>
  The text of a request over HTTPS: its errors, or the request to run. The json parser and
  the text of an error are arguments.
\<close>

definition client_req_json ::
    "handler_env \<Rightarrow> (string \<Rightarrow> field_value option) \<Rightarrow> (parse_error \<Rightarrow> string) \<Rightarrow> string \<Rightarrow> response + client_request" where
  "client_req_json E json_parse err_text text =
     (case json_parse text of
        None \<Rightarrow> Inl (text_response HTTP_BAD_REQUEST ''invalid json'')
      | Some j \<Rightarrow>
          (case map_of (fields_of j) ''method'' of
             Some (F_Str m) \<Rightarrow>
               (case map_of (fields_of j) ''params'' of
                  Some (F_Dict d) \<Rightarrow>
                    if known_method (he_codecs E) json_parse m
                    then (case load_request (he_codecs E) json_parse Json_Params m (F_Dict d) of
                            Inr q \<Rightarrow> Inr q
                          | Inl e \<Rightarrow> Inl (text_response HTTP_BAD_REQUEST (''invalid request: '' @ err_text e)))
                    else Inl (text_response HTTP_BAD_REQUEST (''no method '' @ m))
                | _ \<Rightarrow> Inl (text_response HTTP_BAD_REQUEST ''invalid json: no `params` field''))
           | _ \<Rightarrow> Inl (text_response HTTP_BAD_REQUEST ''invalid json: no `method` field'')))"

text \<open>
  A request over the message queue: a dictionary or json, from a client or forwarded by
  another member of the swarm.
\<close>

datatype mq_request =
    Mq_Reply response
  | Mq_Bad_Dict
  | Mq_Parse_Error parse_error
  | Mq_Run client_request bool bool

definition client_req_mq ::
    "handler_env \<Rightarrow> (string \<Rightarrow> field_value option) \<Rightarrow> string \<Rightarrow> string \<Rightarrow> bool \<Rightarrow> mq_request" where
  "client_req_mq E json_parse method params is_forwarded =
     (let params = (if params = [] then ''{}'' else params);
          bt = (hd params = CHR ''d'');
          body = (if bt then map_option F_Dict (he_read_dict E params) else json_parse params)
      in case body of
           None \<Rightarrow> if bt then Mq_Bad_Dict
                   else Mq_Reply (text_response HTTP_BAD_REQUEST ''invalid body: expected json or bt_dict'')
         | Some v \<Rightarrow>
             (case load_request (he_codecs E) json_parse (if bt then Bt_Params else Json_Params) method v of
                Inl e \<Rightarrow> Mq_Parse_Error e
              | Inr q \<Rightarrow>
                  if is_forwarded \<and> (case q of Subrequest s \<Rightarrow> forwarded s = None | _ \<Rightarrow> True)
                  then Mq_Reply (text_response HTTP_BAD_REQUEST
                         ''invalid request: received invalid forwarded non-forwardable request'')
                  else Mq_Run q (\<not> is_forwarded) (\<not> bt)))"

end
