(* ===== verification/Handler_Facts.thy ===== *)
theory Handler_Facts
  imports Request_Handler Request_Facts Node_Facts
begin

text \<open>
  Facts on the handlers: which requests go ahead, what a signature commits to, the bounds of
  what is stored and retrieved.
\<close>

section \<open>Who may do what\<close>

text \<open>
  The signature of a request by the account itself, and by a subaccount: the token carries the
  permissions, is for the network of the account and signed by the account, has not been
  revoked, and its key signed the request.
\<close>

definition signed_by_account :: "handler_env \<Rightarrow> user_pubkey \<Rightarrow> string option \<Rightarrow> string \<Rightarrow> string \<Rightarrow> bool" where
  "signed_by_account E pk ed sig data \<longleftrightarrow> (\<exists>key. account_key E pk ed = Some key \<and> he_verify E sig data key)"

definition signed_by_subaccount ::
    "handler_env \<Rightarrow> database \<Rightarrow> user_pubkey \<Rightarrow> string option \<Rightarrow> signed_subaccount_token \<Rightarrow> subaccount_access \<Rightarrow> bool \<Rightarrow>
     string \<Rightarrow> string \<Rightarrow> bool" where
  "signed_by_subaccount E db pk ed st access unrevocable sig data \<longleftrightarrow>
     signed_by_account E pk ed (signature st) (token st)
     \<and> token_has (token st) access \<and> prefix_allowed (token st) (of_int (network pk))
     \<and> (unrevocable \<or> \<not> subaccount_revoked pk (token st) db)
     \<and> he_verify E sig data (token_pubkey (token st))"

definition may :: "handler_env \<Rightarrow> database \<Rightarrow> 'a signed_request_scheme \<Rightarrow> subaccount_access \<Rightarrow> bool \<Rightarrow> sig_part list \<Rightarrow> bool" where
  "may E db r access unrevocable parts \<longleftrightarrow>
     (\<exists>sig. rq_signature r = Some sig \<and>
        (case rq_subaccount r of
           None \<Rightarrow> signed_by_account E (rq_pubkey r) (rq_ed25519 r) sig (concatenate_sig_message_parts parts)
         | Some st \<Rightarrow> signed_by_subaccount E db (rq_pubkey r) (rq_ed25519 r) st access unrevocable sig
                        (concatenate_sig_message_parts parts)))"

definition owner_may :: "handler_env \<Rightarrow> 'a signed_request_scheme \<Rightarrow> sig_part list \<Rightarrow> bool" where
  "owner_may E r parts \<longleftrightarrow>
     (\<exists>sig. rq_signature r = Some sig
        \<and> signed_by_account E (rq_pubkey r) (rq_ed25519 r) sig (concatenate_sig_message_parts parts))"

lemma verify_request_may: "verify_request E sn r access skip parts \<longleftrightarrow> may E (sn_db sn) r access skip parts"
proof (cases "account_key E (rq_pubkey r) (rq_ed25519 r)")
  case None
  then show ?thesis
    by (auto simp: verify_request_def verify_signature_def may_def signed_by_account_def signed_by_subaccount_def
        split: option.splits)
next
  case (Some key)
  then show ?thesis
    by (auto simp: verify_request_def verify_signature_def may_def signed_by_account_def signed_by_subaccount_def
        verify_token_def verify_token_raw_def token_has_def Let_def split: option.splits)
qed

lemma verify_owner_may: "verify_owner E sn r parts \<longleftrightarrow> owner_may E r parts"
  by (auto simp: verify_owner_def verify_signature_def owner_may_def signed_by_account_def split: option.splits)

text \<open>
  The requests that change something, apart from the signature: those whose times are not
  acceptable, and those that are refused for everyone.
\<close>

definition near :: "time \<Rightarrow> time \<Rightarrow> time \<Rightarrow> bool" where
  "near now tolerance t \<longleftrightarrow> \<bar>t - now\<bar> \<le> tolerance"

fun request_key :: "client_subrequest \<Rightarrow> user_pubkey" where
  "request_key (Store r) = rq_pubkey r"
| "request_key (Delete_Msgs r) = rq_pubkey r"
| "request_key (Revoke_Subaccount r) = rq_pubkey r"
| "request_key (Unrevoke_Subaccount r) = rq_pubkey r"
| "request_key (Delete_All r) = rq_pubkey r"
| "request_key (Delete_Before r) = rq_pubkey r"
| "request_key (Expire_All r) = rq_pubkey r"
| "request_key (Expire_Msgs r) = rq_pubkey r"
| "request_key _ = invalid_pubkey"

fun acceptable :: "handler_env \<Rightarrow> bool \<Rightarrow> client_subrequest \<Rightarrow> bool" where
  "acceptable E recurse (Store r) \<longleftrightarrow>
     \<not> is_testing_namespace (st_namespace r)
     \<and> TTL_MINIMUM \<le> from_epoch_ms (ttl_ms (st_expiry r) (st_timestamp r))
     \<and> from_epoch_ms (ttl_ms (st_expiry r) (st_timestamp r)) \<le> max_ttl (st_namespace r)
     \<and> st_timestamp r \<le> he_now E + seconds 10 \<and> he_now E - seconds 10 \<le> st_expiry r
     \<and> (is_public_inbox_namespace (st_namespace r) \<or> (\<exists>t. st_sig_ts r = Some t \<and> near (he_now E) (seconds 60) t))"
| "acceptable E recurse (Revoke_Subaccount r) \<longleftrightarrow> near (he_now E) (tolerance_for recurse) (rs_timestamp r)"
| "acceptable E recurse (Unrevoke_Subaccount r) \<longleftrightarrow> near (he_now E) (tolerance_for recurse) (ur_timestamp r)"
| "acceptable E recurse (Delete_All r) \<longleftrightarrow> near (he_now E) (tolerance_for recurse) (da_timestamp r)"
| "acceptable E recurse (Delete_Before r) \<longleftrightarrow> db_before r \<le> he_now E + seconds 60"
| "acceptable E recurse (Expire_All r) \<longleftrightarrow> he_now E - tolerance_for recurse \<le> ea_expiry r"
| "acceptable E recurse (Expire_Msgs r) \<longleftrightarrow> (\<forall>e \<in> set (em_expiry r). he_now E - seconds 60 \<le> e)
     \<and> \<not> (lacks_delete r \<and> em_shorten r)"
| "acceptable E recurse _ \<longleftrightarrow> True"

fun permitted :: "handler_env \<Rightarrow> database \<Rightarrow> client_subrequest \<Rightarrow> bool" where
  "permitted E db (Store r) \<longleftrightarrow> is_public_inbox_namespace (st_namespace r)
     \<or> (\<exists>t. st_sig_ts r = Some t \<and> may E db r (store_access (st_namespace r)) False (store_parts r t))"
| "permitted E db (Delete_Msgs r) \<longleftrightarrow> may E db r access_Delete False (delete_msgs_parts r)"
| "permitted E db (Revoke_Subaccount r) \<longleftrightarrow> owner_may E r (revoke_parts r)"
| "permitted E db (Unrevoke_Subaccount r) \<longleftrightarrow> owner_may E r (unrevoke_parts r)"
| "permitted E db (Delete_All r) \<longleftrightarrow> may E db r access_Delete False (delete_all_parts r)"
| "permitted E db (Delete_Before r) \<longleftrightarrow> may E db r access_Delete False (delete_before_parts r)"
| "permitted E db (Expire_All r) \<longleftrightarrow> may E db r access_Delete False (expire_all_parts r)"
| "permitted E db (Expire_Msgs r) \<longleftrightarrow> may E db r access_Write False (expire_msgs_parts r)"
| "permitted E db _ \<longleftrightarrow> False"

lemma outside_near: "outside now tol t \<longleftrightarrow> \<not> near now tol t"
  by (auto simp: outside_def near_def)

lemma may_signature: "may E db r access skip parts \<Longrightarrow> rq_signature r \<noteq> None"
  by (auto simp: may_def)

lemma check_request_None:
  assumes "forwarded q \<noteq> None"
  shows "check_request E recurse q sn = None \<longleftrightarrow>
    for_us E sn (request_key q) \<and> acceptable E recurse q \<and> permitted E (sn_db sn) q"
proof (cases q)
  case (Store r)
  then show ?thesis
    by (auto simp: check_store_def Let_def verify_request_may outside_near STORE_TOLERANCE_def
        SIGNATURE_TOLERANCE_def split: option.splits dest: may_signature)
next
  case (Expire_Msgs r)
  have "list_ex (\<lambda>e. e < he_now E - seconds 60) (em_expiry r) \<longleftrightarrow> \<not> (\<forall>e \<in> set (em_expiry r). he_now E - seconds 60 \<le> e)"
    by (auto simp: list_ex_iff not_le)
  with Expire_Msgs show ?thesis by (simp add: check_expire_msgs_def verify_request_may)
qed (use assms in \<open>auto simp: check_delete_msgs_def check_revoke_def check_unrevoke_def check_delete_all_def
  check_delete_before_def check_expire_all_def verify_request_may verify_owner_may outside_near\<close>)

lemma status_error: "handle_wrong_swarm E sn pk = r \<Longrightarrow> 400 \<le> resp_status r"
  by (auto simp: handle_wrong_swarm_def text_response_def json_response_def http_codes split: option.splits)

lemma check_request_Some: "check_request E recurse q sn = Some r \<Longrightarrow> 400 \<le> resp_status r"
  by (cases q) (auto simp: check_store_def check_delete_msgs_def check_revoke_def check_unrevoke_def check_delete_all_def
    check_delete_before_def check_expire_all_def check_expire_msgs_def Let_def status_error text_response_def http_codes
    split: if_splits option.splits)


section \<open>A sample\<close>

text \<open>Functions with which every signature verifies, for a node of a swarm with one other member.\<close>

definition sample_handler :: handler_env where
  "sample_handler = \<lparr>he_codecs = plain_codecs, he_load_big = big_endian, he_write_big = (\<lambda>_ _. []), he_orders = stable_orders,
     he_bt = plain_bt, he_forms = \<lparr>to_base32z = id, key_hex = (\<lambda>k. CHR ''x'' # k), ip_string = (\<lambda>_. []), decimal = (\<lambda>_. []),
       hex_number = (\<lambda>_. [])\<rparr>,
     he_serialize = (\<lambda>_. ''de''), he_read_dict = (\<lambda>_. Some []), he_verify = (\<lambda>_ _ _. True), he_ed_to_x = Some,
     he_sign = (\<lambda>_. sample_signature), he_blake2b = take 32, he_own_ed = ''own'', he_stream_full = ''full'',
     he_version = [2, 13, 0], he_clock = (\<lambda>_. from_epoch_ms 1700000000000)\<rparr>"

lemma member_for_us: "for_us sample_handler (member_node s) pk"
  by (simp add: for_us_def is_pubkey_for_us_def member_node_def dump_network_def get_swarm_id_for_def find_swarm_for_def)

lemma sample_delete_permitted:
  "acceptable sample_handler recurse (Delete_Msgs sample_delete) \<and> permitted sample_handler db (Delete_Msgs sample_delete)"
  by (simp add: may_def sample_delete_def signed_by_account_def account_key_def sample_handler_def)


end
