(* ===== verification/Handler_Bounds.thy ===== *)
theory Handler_Bounds
  imports Handler_Facts
begin

text \<open>
  Bounds on what is stored and on what one answer contains.
\<close>

section \<open>Times of stored messages\<close>

lemma to_epoch_ms_neg: "t < 0 \<Longrightarrow> to_epoch_ms t \<le> 0"
  by (simp add: to_epoch_ms_def signed_divide_int_def sgn_if)

text \<open>A difference that is too large for the clock comes out negative.\<close>

lemma ttl_ms_pos:
  assumes "time64 e" and "time64 t" and "- (2 ^ 63) \<le> e - t" and "0 < ttl_ms e t"
  shows "0 < e - t" "ttl_ms e t = (e - t) div 1000000"
proof -
  let ?w = "sint (word_of_int (e - t) :: u64)"
  have pos: "0 < ?w"
    using assms(4) to_epoch_ms_neg [of ?w] by (cases "?w < 0"; cases "?w = 0") (auto simp: ttl_ms_def to_epoch_ms_def)
  have w: "?w = (e - t + 2 ^ 63) mod 2 ^ 64 - 2 ^ 63"
    unfolding sint_sbintrunc' by (simp add: signed_take_bit_eq_take_bit_shift take_bit_eq_mod)
  have "e - t < 2 ^ 63"
  proof (rule ccontr)
    assume big: "\<not> e - t < 2 ^ 63"
    have "e - t < 2 ^ 64" using assms(1,2) by (auto simp: time64_def)
    with big have "(e - t + 2 ^ 63 - 2 ^ 64) mod 2 ^ 64 = e - t + 2 ^ 63 - 2 ^ 64" by (intro mod_pos_pos_trivial) auto
    then have "(e - t + 2 ^ 63) mod 2 ^ 64 = e - t + 2 ^ 63 - 2 ^ 64" by (simp only: minus_mod_self2)
    then show False using w pos \<open>e - t < 2 ^ 64\<close> by simp
  qed
  then have "?w = e - t" using w assms(3) by simp
  then show "0 < e - t" "ttl_ms e t = (e - t) div 1000000" using pos by (simp_all add: ttl_ms_def to_epoch_ms_nonneg)
qed

text \<open>
  C11: the times of a message that is stored for a client. Its time is at most ten seconds ahead
  of our clock and its expiry at most ten seconds behind; the time to live lies between ten
  seconds and the maximum of the namespace, 14 days for a public inbox and 30 days otherwise,
  up to the millisecond that the conversion cuts off. So the expiry is never further away than
  that maximum and ten seconds, although the difference of the two times, which the client
  chooses freely, wraps around at 64 bits. The message is no longer than the maximal body.
\<close>

theorem stored_times_bounded:
  assumes "subrequest_wf C (Store r)" and "begin_request E (Store r) recurse b64 sn = (sn', out, In_Progress sr sent)"
  shows "st_timestamp r \<le> he_now E + seconds 10 \<and> he_now E - seconds 10 \<le> st_expiry r
    \<and> seconds 10 \<le> st_expiry r - st_timestamp r
    \<and> st_expiry r - st_timestamp r < max_ttl (st_namespace r) + 1000000
    \<and> st_expiry r < he_now E + seconds 10 + seconds (30 * 24 * 3600) + 1000000
    \<and> length (st_data r) \<le> MAX_MESSAGE_BODY"
proof -
  have "check_request E recurse (Store r) sn = None"
    using assms(2) by (auto simp: begin_request_def split: option.splits)
  then have a: "acceptable E recurse (Store r)" using check_request_None [of "Store r"] by simp
  let ?e = "st_expiry r" and ?t = "st_timestamp r"
  have t: "time64 ?e" "time64 ?t" "length (st_data r) \<le> MAX_MESSAGE_BODY" using assms(1) by auto
  have n: "?t \<le> he_now E + seconds 10" "he_now E - seconds 10 \<le> ?e"
    "seconds 10 \<le> from_epoch_ms (ttl_ms ?e ?t)" "from_epoch_ms (ttl_ms ?e ?t) \<le> max_ttl (st_namespace r)"
    using a by (auto simp: TTL_MINIMUM_def)
  then have "- (2 ^ 63) \<le> ?e - ?t" "0 < ttl_ms ?e ?t" by (auto simp: seconds_def from_epoch_ms_def)
  note d = ttl_ms_pos [OF t(1,2) this]
  have "ttl_ms ?e ?t * 1000000 \<le> ?e - ?t" "?e - ?t < ttl_ms ?e ?t * 1000000 + 1000000"
    unfolding d(2) using div_mult_mod_eq [of "?e - ?t" 1000000] pos_mod_bound [of 1000000 "?e - ?t"]
      pos_mod_sign [of 1000000 "?e - ?t"] by linarith+
  moreover have "max_ttl (st_namespace r) \<le> seconds (30 * 24 * 3600)"
    by (simp add: max_ttl_def TTL_MAXIMUM_def TTL_MAXIMUM_PRIVATE_def seconds_def)
  ultimately show ?thesis using n t(3) unfolding from_epoch_ms_def by linarith
qed

lemma sample_store_begins:
  "\<exists>sr sent. begin_request sample_handler (Store sample_store) True False (member_node new_member)
     = (member_node new_member, [], In_Progress sr sent)"
proof -
  have "acceptable sample_handler True (Store sample_store)"
    by (simp add: sample_store_def sample_handler_def is_testing_namespace_def ns_Testing_def ttl_ms_def from_epoch_ms_def to_epoch_ms_def
        TTL_MINIMUM_def TTL_MAXIMUM_PRIVATE_def TTL_MAXIMUM_def max_ttl_def seconds_def near_def)
  moreover have "permitted sample_handler db (Store sample_store)" for db
    by (simp add: may_def sample_store_def signed_by_account_def account_key_def sample_handler_def)
  ultimately have "check_request sample_handler True (Store sample_store) (member_node new_member) = None"
    using check_request_None [of "Store sample_store"] member_for_us by simp
  then show ?thesis
    using dump_network_contact(1,2)
    by (simp add: begin_request_def setup_recursive_request_def distribute_command_def swarm_peers_def swarm_members_def
        member_node_def can_forward_def peer_contact_def Let_def)
qed

theorem stored_times_bounded_witness:
  "\<exists>sr sent. begin_request sample_handler (Store sample_store) True False (member_node new_member)
     = (member_node new_member, [], In_Progress sr sent)
   \<and> st_expiry sample_store < from_epoch_ms 1700000000000 + seconds 10 + seconds (30 * 24 * 3600) + 1000000"
proof -
  obtain sr sent where b: "begin_request sample_handler (Store sample_store) True False (member_node new_member)
     = (member_node new_member, [], In_Progress sr sent)" using sample_store_begins by blast
  moreover have "he_now sample_handler = from_epoch_ms 1700000000000" by (simp add: sample_handler_def)
  ultimately show ?thesis using stored_times_bounded [OF _ b] sample_store_wf by fastforce
qed

section \<open>The size of an answer\<close>

definition message_cost :: "message \<Rightarrow> nat" where
  "message_cost m = DEFAULT_MSG_OVERHEAD + length (msg_hash m) + length (msg_data m) * 4 div 3"

lemma deferred_cost [simp]: "message_cost (apply_deferred_msg db m) = message_cost m"
  by (simp add: apply_deferred_msg_def message_cost_def split: option.splits)

lemma row_cost: "message_cost (row_message pk r) = row_size True DEFAULT_MSG_OVERHEAD r"
  by (simp add: message_cost_def row_size_def row_message_def)

lemma retrieve_within_limits:
  assumes "retrieve now pk ns last_hash max_results (Some m) True DEFAULT_MSG_OVERHEAD db = (msgs, left)"
  shows "(length msgs \<le> 1 \<or> sum_list (map message_cost msgs) \<le> m)
    \<and> (case max_results of Some n \<Rightarrow> length msgs \<le> max 1 n | None \<Rightarrow> True)"
proof (cases "owner_id_of db pk")
  case None
  then show ?thesis using assms by (auto simp: retrieve_def split: option.splits)
next
  case (Some owner)
  let ?mr = "map_option (max 1) max_results" and ?sz = "row_size True DEFAULT_MSG_OVERHEAD"
  define rows where "rows = sql_limit (case ?mr of Some n \<Rightarrow> to_c_int n + 1 | None \<Rightarrow> - 1)
     (retrieve_rows now db owner ns (last_id_of db owner ns last_hash))"
  have "?mr \<noteq> Some 0" by (cases max_results) auto
  from retrieve_loop_page [OF this, where rows = rows and max_size = "Some m" and sz = ?sz] obtain k where k:
      "retrieve_loop ?mr (Some m) ?sz rows [] 0 = (take k rows, k < length rows)" "k \<le> length rows"
      "0 < k \<Longrightarrow> page_fits ?mr (Some m) ?sz rows k"
    by blast
  then have m: "msgs = apply_deferred db (map (row_message invalid_pubkey) (take k rows))"
    using assms Some by (simp add: retrieve_def Let_def rows_def)
  then have "length msgs = k" "map message_cost msgs = map ?sz (take k rows)"
    using k(2) by (simp_all add: apply_deferred_def row_cost)
  then show ?thesis using k(3) by (cases k) (auto simp: page_fits_def split: option.splits)
qed

lemma retrieve_limits_range:
  assumes "case max_size of Some s \<Rightarrow> - (2 ^ 31) \<le> s | None \<Rightarrow> True"
  shows "0 \<le> snd (retrieve_limits max_count max_size) \<and> snd (retrieve_limits max_count max_size) \<le> RETRIEVE_MAX_SIZE"
proof -
  have neg: "0 \<le> RETRIEVE_MAX_SIZE sdiv neg_int s \<and> RETRIEVE_MAX_SIZE sdiv neg_int s \<le> RETRIEVE_MAX_SIZE"
    if "- (2 ^ 31) \<le> s" "s < 0" for s
  proof (cases "s = - (2 ^ 31)")
    case True
    then show ?thesis by (simp add: neg_int_def RETRIEVE_MAX_SIZE_def)
  next
    case False
    then have "neg_int s = - s"
      using that unfolding neg_int_def sint_sbintrunc' by (simp add: signed_take_bit_int_eq_self)
    moreover have "7800000 div (- s) \<le> 7800000" using zdiv_mono2 [of 7800000 1 "- s"] that by simp
    ultimately show ?thesis
      using that by (simp add: RETRIEVE_MAX_SIZE_def signed_divide_int_def sgn_if pos_imp_zdiv_nonneg_iff)
  qed
  show ?thesis using assms neg [of "- 5"] neg
    by (auto simp: retrieve_limits_def Let_def RETRIEVE_MAX_SIZE_def split: option.splits if_splits)
qed

text \<open>
  C14: the size of one answer to a retrieval. Whatever limits the client gives, 32-bit numbers
  of either sign, an answer of more than one message takes at most 7.8 MB in base64, with the
  hashes and 100 bytes for each message, and it has no more messages than a positive limit on
  their number; a limit of \<open>- n\<close> on the size means the n-th part of the maximum.
\<close>

theorem retrieve_answer_bounded:
  assumes "case rt_max_size r of Some s \<Rightarrow> - (2 ^ 31) \<le> s | None \<Rightarrow> True"
    and "case rt_max_count r of Some n \<Rightarrow> n < 2 ^ 31 | None \<Rightarrow> True" and "retrieved E r sn = (msgs, left)"
  shows "(length msgs \<le> 1 \<or> int (sum_list (map message_cost msgs)) \<le> 7800000)
    \<and> (case rt_max_size r of
          Some s \<Rightarrow> s \<noteq> 0 \<and> s \<noteq> - (2 ^ 31) \<longrightarrow>
            length msgs \<le> 1 \<or> int (sum_list (map message_cost msgs)) \<le> (if s < 0 then 7800000 div (- s) else s)
        | None \<Rightarrow> True)
    \<and> (case rt_max_count r of Some n \<Rightarrow> 0 < n \<longrightarrow> int (length msgs) \<le> n | None \<Rightarrow> True)"
proof -
  obtain c m where l: "retrieve_limits (rt_max_count r) (rt_max_size r) = (c, m)" by (rule prod.exhaust)
  have m: "0 \<le> m" "m \<le> 7800000"
    using retrieve_limits_range [OF assms(1), of "rt_max_count r"] l by (simp_all add: RETRIEVE_MAX_SIZE_def)
  have sz: "to_size_t m = nat m" using m by (simp add: to_size_t_def unat_eq_nat_uint uint_word_of_int take_bit_int_eq_self)
  note w = retrieve_within_limits [OF assms(3) [unfolded retrieved_def l Let_def prod.case sz]]
  have s: "m \<le> (if s < 0 then 7800000 div (- s) else s)" if "rt_max_size r = Some s" "s \<noteq> 0" "s \<noteq> - (2 ^ 31)" for s
  proof -
    have "neg_int s = - s" if "s < 0"
      using that \<open>s \<noteq> - (2 ^ 31)\<close> assms(1) \<open>rt_max_size r = _\<close> unfolding neg_int_def sint_sbintrunc'
      by (simp add: signed_take_bit_int_eq_self)
    then show ?thesis
      using l that by (auto simp: retrieve_limits_def Let_def RETRIEVE_MAX_SIZE_def signed_divide_int_def sgn_if split: if_splits)
  qed
  have n: "int (length msgs) \<le> n" if "rt_max_count r = Some n" "0 < n" for n
  proof -
    have "c = Some n" using l that by (auto simp: retrieve_limits_def Let_def)
    moreover have "to_size_t n = nat n"
      using that assms(2) by (simp add: to_size_t_def unat_eq_nat_uint uint_word_of_int take_bit_int_eq_self)
    ultimately have "length msgs \<le> max 1 (nat n)" using w by simp
    then show ?thesis using that by linarith
  qed
  have c: "length msgs \<le> 1 \<or> int (sum_list (map message_cost msgs)) \<le> m" using w m(1) by linarith
  then have "length msgs \<le> 1 \<or> int (sum_list (map message_cost msgs)) \<le> 7800000" using m(2) by linarith
  moreover have "length msgs \<le> 1 \<or> int (sum_list (map message_cost msgs)) \<le> (if s < 0 then 7800000 div (- s) else s)"
    if "rt_max_size r = Some s" "s \<noteq> 0" "s \<noteq> - (2 ^ 31)" for s
    using c s [OF that] by linarith
  ultimately show ?thesis using n by (auto split: option.splits)
qed

definition sample_retrieve :: retrieve_request where
  "sample_retrieve = \<lparr>rq_pubkey = sample_pubkey, rq_ed25519 = None, rq_signature = None, rq_subaccount = None,
     rt_namespace = 0, rt_last_hash = None, rt_max_count = Some 1, rt_max_size = None, rt_check_signature = False,
     rt_timestamp = 0\<rparr>"

theorem retrieve_answer_bounded_witness:
  "length (fst (retrieved sample_handler sample_retrieve (member_node new_member))) \<le> 1"
proof -
  obtain msgs left where r: "retrieved sample_handler sample_retrieve (member_node new_member) = (msgs, left)" by (rule prod.exhaust)
  then show ?thesis using retrieve_answer_bounded [OF _ _ r] by (simp add: sample_retrieve_def)
qed

text \<open>
  C39: a limit of minus one on the number of messages. It becomes the largest unsigned number,
  and the query, which asks for one row more than the limit, asks for none: the answer has no
  messages and says that none are left, whatever is stored.
\<close>

theorem retrieve_count_minus_one:
  "retrieved E (r\<lparr>rt_max_count := Some (- 1)\<rparr>) sn = ([], False)"
proof -
  obtain m where l: "retrieve_limits (Some (- 1)) (rt_max_size r) = (Some (- 1), m)"
    by (cases "retrieve_limits (Some (- 1)) (rt_max_size r)") (simp add: retrieve_limits_def Let_def)
  have t: "to_size_t (- 1) = 2 ^ 64 - 1" unfolding to_size_t_def unat_eq_nat_uint uint_word_of_int by simp
  have "to_c_int (max 1 (2 ^ 64 - 1)) = - 1" by (simp add: to_c_int_def)
  then show ?thesis
    by (simp add: retrieved_def l t retrieve_def sql_limit_def apply_deferred_def Let_def split: option.splits)
qed

end
