(* ===== verification/Request_Runs.thy ===== *)
theory Request_Runs
  imports Handler_Facts
begin

text \<open>
  A forwarded request from its beginning to the reply: our own part, the answers of the peers
  in any order and whatever else the node does in between.
\<close>

section \<open>The count of open parts\<close>

lemma map_put_updates: "map_of (map_put k v m) = (map_of m)(k \<mapsto> v)"
  by (induction k v m rule: map_put.induct) (auto simp: fun_eq_iff)

definition entry_keys :: "json_object \<Rightarrow> string set" where
  "entry_keys j = (case swarm_entries j of Some es \<Rightarrow> fst ` set es | None \<Rightarrow> {})"

lemma entry_keys_put_swarm [simp]: "entry_keys (put_swarm k v j) = insert k (entry_keys j)"
  by (auto simp: entry_keys_def put_swarm_def swarm_entries_def map_put_updates map_put_keys split: option.splits)

lemma entry_keys_other [simp]: "k \<noteq> ''swarm'' \<Longrightarrow> entry_keys (map_put k v j) = entry_keys j"
  by (simp add: entry_keys_def swarm_entries_def map_put_updates)

lemma entry_keys_misc [simp]: "entry_keys (add_misc_response_fields sn t j) = entry_keys j"
  by (simp add: add_misc_response_fields_def)

lemma forward_failed_keeps:
  "forward_failed E now p sr sn = (sn', sr', out, err) \<Longrightarrow> sr_pending sr' = sr_pending sr \<and> sr_result sr' = sr_result sr"
  by (auto simp: forward_failed_def Let_def split: if_splits prod.splits sum.splits)

lemma distribute_loop_pending:
  "distribute_loop E peers sr sn = (sn', sr', sent, out, None) \<Longrightarrow>
   sr_pending sr' = sr_pending sr - int (length peers) + int (length sent) \<and> sr_result sr' = sr_result sr
   \<and> fst ` set sent \<subseteq> set peers"
proof (induction peers arbitrary: sr sn sn' sr' sent out)
  case (Cons p peers)
  show ?case
  proof (cases "can_forward sn p")
    case None
    obtain sn1 sr1 out1 err1 where f: "forward_failed E (he_clock E 1) p (sr\<lparr>sr_pending := sr_pending sr - 1\<rparr>) sn = (sn1, sr1, out1, err1)"
      by (metis prod_cases4)
    then have "sr_pending sr1 = sr_pending sr - 1" "sr_result sr1 = sr_result sr" using forward_failed_keeps [OF f] by auto
    with Cons None f show ?thesis by (fastforce simp: Let_def split: prod.splits if_splits)
  next
    case (Some ct)
    with Cons show ?thesis by (fastforce simp: Let_def split: prod.splits)
  qed
qed simp

lemma setup_pending:
  assumes "setup_recursive_request E cmd dict recurse b64 sn = (sn', sr, sent, out, None)"
  shows "sr_pending sr = 1 + int (length sent)" "\<not> recurse \<Longrightarrow> sent = []"
    "fst ` set sent \<subseteq> fst ` set (swarm_peers (sn_swarm sn))"
proof -
  let ?sr = "\<lparr>sr_pending = 1, sr_b64 = b64, sr_result = [], sr_cmd = cmd, sr_payload = he_serialize E dict,
                sr_req_id = 0, sr_stored_hash = [], sr_undelivered = []\<rparr>"
  let ?peers = "map fst (swarm_peers (sn_swarm sn))"
  have run: "distribute_loop E ?peers (?sr\<lparr>sr_pending := 1 + int (length ?peers)\<rparr>) sn = (sn', sr, sent, out, None)" if recurse
    using assms that by (simp add: setup_recursive_request_def distribute_command_def Let_def)
  have no: "sr = ?sr" "sent = []" if "\<not> recurse" using assms that by (simp_all add: setup_recursive_request_def Let_def)
  show "sr_pending sr = 1 + int (length sent)" "\<not> recurse \<Longrightarrow> sent = []"
    "fst ` set sent \<subseteq> fst ` set (swarm_peers (sn_swarm sn))"
    using distribute_loop_pending [OF run] no by (cases recurse; simp)+
qed

lemma local_request_keeps:
  assumes "local_request E disk q recurse b64 sr sn = (sn', sr', out, mine)"
  shows "sr_pending sr' = sr_pending sr \<and> entry_keys (sr_result sr') = entry_keys (sr_result sr)"
  using assms
  by (cases q) (auto simp: local_store_def Let_def split: prod.splits if_splits)

lemma finish_request_counts:
  assumes "finish_request E disk q recurse b64 sr sn = (sn', sr', out, reply)"
  shows "sr_pending sr' = sr_pending sr - 1" "reply = (if sr_pending sr' = 0 then Some (reply_or_fail sr') else None)"
    "recurse \<Longrightarrow> entry_keys (sr_result sr') = insert (he_own_ed E) (entry_keys (sr_result sr))"
  using assms local_request_keeps [of E disk q recurse b64 sr sn]
  by (auto simp: finish_request_def Let_def split: prod.splits)

lemma on_peer_reply_counts:
  assumes "on_peer_reply E p success parts sr sn = (sn', sr', out, reply, err)"
  shows "sr_pending sr' = sr_pending sr - 1"
    "reply = (if err = None \<and> sr_pending sr' = 0 then Some (reply_or_fail sr') else None)"
    "err = None \<Longrightarrow> entry_keys (sr_result sr') = insert (snd p) (entry_keys (sr_result sr))"
  using assms forward_failed_keeps
  by (auto simp: on_peer_reply_def Let_def split: prod.splits if_splits)

section \<open>Runs\<close>

text \<open>
  The state of a request under way: the node, the collected response, the peers that have not
  answered, whether our own part is still to be done, the replies sent, and whether an
  exception of the database ended the handling of an answer.
\<close>

record running =
  run_node :: service_node
  run_sr :: swarm_response
  run_waiting :: "(legacy_pubkey \<times> string) list"
  run_local :: bool
  run_replies :: "response list"
  run_failed :: bool

definition run_start :: "service_node \<Rightarrow> swarm_response \<Rightarrow> (legacy_pubkey \<times> string) list \<Rightarrow> running" where
  "run_start sn sr sent = \<lparr>run_node = sn, run_sr = sr, run_waiting = sent, run_local = True, run_replies = [], run_failed = False\<rparr>"

definition sent_reply :: "response option \<Rightarrow> response list" where
  "sent_reply reply = (case reply of Some r \<Rightarrow> [r] | None \<Rightarrow> [])"

inductive run_step :: "string \<Rightarrow> client_subrequest \<Rightarrow> bool \<Rightarrow> bool \<Rightarrow> running \<Rightarrow> running \<Rightarrow> bool"
  for own q recurse b64 where
  own_part: "run_local s \<Longrightarrow> he_own_ed E = own
    \<Longrightarrow> finish_request E disk q recurse b64 (run_sr s) (run_node s) = (sn, sr, out, reply)
    \<Longrightarrow> run_step own q recurse b64 s
          (s\<lparr>run_node := sn, run_sr := sr, run_local := False, run_replies := run_replies s @ sent_reply reply\<rparr>)"
| peer_answer: "p \<in> set (run_waiting s)
    \<Longrightarrow> on_peer_reply E p success parts (run_sr s) (run_node s) = (sn, sr, out, reply, err)
    \<Longrightarrow> run_step own q recurse b64 s
          (s\<lparr>run_node := sn, run_sr := sr, run_waiting := remove1 p (run_waiting s),
             run_replies := run_replies s @ sent_reply reply, run_failed := run_failed s \<or> err \<noteq> None\<rparr>)"
| elsewhere: "run_step own q recurse b64 s (s\<lparr>run_node := sn\<rparr>)"

definition run_inv :: "string \<Rightarrow> bool \<Rightarrow> (legacy_pubkey \<times> string) list \<Rightarrow> running \<Rightarrow> bool" where
  "run_inv own recurse sent s \<longleftrightarrow>
     sr_pending (run_sr s) = int (length (run_waiting s)) + (if run_local s then 1 else 0)
     \<and> (run_replies s = [] \<or> run_replies s = [reply_or_fail (run_sr s)])
     \<and> (0 < sr_pending (run_sr s) \<longrightarrow> run_replies s = [])
     \<and> (sr_pending (run_sr s) = 0 \<longrightarrow> \<not> run_failed s \<longrightarrow> run_replies s \<noteq> [])
     \<and> (recurse \<longrightarrow> \<not> run_failed s \<longrightarrow> snd ` set sent \<subseteq> snd ` set (run_waiting s) \<union> entry_keys (sr_result (run_sr s))
          \<and> (\<not> run_local s \<longrightarrow> own \<in> entry_keys (sr_result (run_sr s))))"

lemma run_inv_step:
  assumes "run_step own q recurse b64 s s'" and "run_inv own recurse sent s"
  shows "run_inv own recurse sent s'"
  using assms
proof (induction rule: run_step.induct)
  case (own_part s E disk sn sr out reply)
  note c = finish_request_counts [OF own_part(3)]
  have "0 < sr_pending (run_sr s)" using own_part(1,4) by (simp add: run_inv_def)
  with own_part(1,2,4) c show ?case by (auto simp: run_inv_def sent_reply_def)
next
  case (peer_answer p s E success parts sn sr out reply err)
  note c = on_peer_reply_counts [OF peer_answer(2)]
  have n: "0 < length (run_waiting s)" using peer_answer(1) by (rule length_pos_if_in_set)
  then have l: "int (length (remove1 p (run_waiting s))) = int (length (run_waiting s)) - 1"
    using peer_answer(1) by (simp add: length_remove1 del: length_greater_0_conv)
  have k: "snd ` set (run_waiting s) \<subseteq> insert (snd p) (snd ` set (remove1 p (run_waiting s)))"
  proof
    fix y
    assume "y \<in> snd ` set (run_waiting s)"
    then obtain x where "y = snd x" "x \<in> set (run_waiting s)" by blast
    then show "y \<in> insert (snd p) (snd ` set (remove1 p (run_waiting s)))"
      using in_set_remove1 [of x p "run_waiting s"] by (cases "x = p") auto
  qed
  have "0 < sr_pending (run_sr s)" using n peer_answer(3) by (simp add: run_inv_def)
  then have "run_replies s = []" using peer_answer(3) by (simp add: run_inv_def)
  with peer_answer(3) c(1,2) l
  have "run_inv own False sent (s\<lparr>run_node := sn, run_sr := sr, run_waiting := remove1 p (run_waiting s),
      run_replies := run_replies s @ sent_reply reply, run_failed := run_failed s \<or> err \<noteq> None\<rparr>)"
    by (simp add: run_inv_def sent_reply_def)
  moreover have "snd ` set sent \<subseteq> snd ` set (remove1 p (run_waiting s)) \<union> entry_keys (sr_result sr)
      \<and> (\<not> run_local s \<longrightarrow> own \<in> entry_keys (sr_result sr))" if "recurse" "\<not> run_failed s" "err = None"
  proof -
    have "snd ` set sent \<subseteq> snd ` set (run_waiting s) \<union> entry_keys (sr_result (run_sr s))"
      "\<not> run_local s \<longrightarrow> own \<in> entry_keys (sr_result (run_sr s))"
      using peer_answer(3) that(1,2) by (simp_all add: run_inv_def)
    then show ?thesis using k unfolding c(3) [OF that(3)] by blast
  qed
  ultimately show ?case by (simp add: run_inv_def)
next
  case (elsewhere s sn)
  then show ?case by (simp add: run_inv_def)
qed

lemma run_inv_start:
  assumes "begin_request E q recurse b64 sn = (sn', out, In_Progress sr sent)"
  shows "run_inv own recurse sent (run_start sn' sr sent)"
proof -
  obtain cmd dict where "setup_recursive_request E cmd dict recurse b64 sn = (sn', sr, sent, out, None)"
    using assms by (auto simp: begin_request_def Let_def split: option.splits prod.splits if_splits)
  then show ?thesis using setup_pending(1) by (auto simp: run_inv_def run_start_def)
qed

lemma run_inv_reachable:
  assumes "(run_step own q recurse b64)\<^sup>*\<^sup>* s s'" and "run_inv own recurse sent s"
  shows "run_inv own recurse sent s'"
  using assms by (induction rule: rtranclp_induct) (auto intro: run_inv_step)

text \<open>
  C5: the reply to a forwarded request. However the answers of the peers, our own part and
  everything else the node does are interleaved, the client is answered at most once, and not
  before our own part is done and every peer has answered; unless the database failed while
  an answer was handled, the client is answered then. The answer to a client has an entry for
  us and one for every peer the request was sent to.
\<close>

theorem one_reply_when_complete:
  assumes "begin_request E q recurse b64 sn = (sn', out, In_Progress sr sent)"
    and "(run_step own q recurse b64)\<^sup>*\<^sup>* (run_start sn' sr sent) s"
  shows "length (run_replies s) \<le> 1 \<and> (run_replies s \<noteq> [] \<longrightarrow> \<not> run_local s \<and> run_waiting s = [])
    \<and> (\<not> run_local s \<and> run_waiting s = [] \<and> \<not> run_failed s \<longrightarrow>
        (\<exists>resp j. run_replies s = [resp] \<and> resp_body resp = Json (F_Dict j)
           \<and> (recurse \<longrightarrow> insert own (snd ` set sent) \<subseteq> entry_keys j)))"
proof -
  have i: "run_inv own recurse sent s" by (rule run_inv_reachable [OF assms(2) run_inv_start [OF assms(1)]])
  then have one: "run_replies s = [] \<or> run_replies s = [reply_or_fail (run_sr s)]" by (simp add: run_inv_def)
  have "length (run_replies s) \<le> 1" using one by auto
  moreover have "\<not> run_local s \<and> run_waiting s = []" if "run_replies s \<noteq> []"
    using that i by (cases "run_waiting s"; cases "run_local s") (auto simp: run_inv_def)
  moreover have "\<exists>resp j. run_replies s = [resp] \<and> resp_body resp = Json (F_Dict j)
        \<and> (recurse \<longrightarrow> insert own (snd ` set sent) \<subseteq> entry_keys j)"
    if d: "\<not> run_local s" "run_waiting s = []" "\<not> run_failed s"
  proof -
    have "run_replies s \<noteq> []" "recurse \<longrightarrow> insert own (snd ` set sent) \<subseteq> entry_keys (sr_result (run_sr s))"
      using i d by (auto simp: run_inv_def)
    then show ?thesis using one by (simp add: reply_or_fail_def json_response_def Let_def)
  qed
  ultimately show ?thesis by blast
qed

lemma sample_begins:
  obtains sr where "begin_request sample_handler (Delete_Msgs sample_delete) True False (member_node new_member)
     = (member_node new_member, [], In_Progress sr [(''b'', CHR ''x'' # pubkey_ed25519 sample_contact)])"
proof -
  have "check_request sample_handler True (Delete_Msgs sample_delete) (member_node new_member) = None"
    using check_request_None [of "Delete_Msgs sample_delete"] member_for_us sample_delete_permitted by simp
  then show ?thesis
    using that dump_network_contact(1,2)
    by (simp add: begin_request_def setup_recursive_request_def distribute_command_def swarm_peers_def swarm_members_def
        member_node_def can_forward_def peer_contact_def Let_def sample_handler_def)
qed

theorem one_reply_when_complete_witness:
  "\<exists>sr s resp j. (run_step ''own'' (Delete_Msgs sample_delete) True False)\<^sup>*\<^sup>*
       (run_start (member_node new_member) sr [(''b'', CHR ''x'' # pubkey_ed25519 sample_contact)]) s
     \<and> run_replies s = [resp] \<and> resp_body resp = Json (F_Dict j)
     \<and> {''own'', CHR ''x'' # pubkey_ed25519 sample_contact} \<subseteq> entry_keys j"
proof -
  let ?q = "Delete_Msgs sample_delete" and ?p = "(''b'', CHR ''x'' # pubkey_ed25519 sample_contact)"
  let ?step = "run_step ''own'' ?q True False"
  obtain sr where b: "begin_request sample_handler ?q True False (member_node new_member) = (member_node new_member, [], In_Progress sr [?p])"
    by (rule sample_begins)
  let ?s0 = "run_start (member_node new_member) sr [?p]"
  obtain sn1 sr1 out1 r1 where f: "finish_request sample_handler Disk_Ok ?q True False (run_sr ?s0) (run_node ?s0) = (sn1, sr1, out1, r1)"
    by (metis prod_cases4)
  obtain s1 where s1: "?step ?s0 s1" "run_waiting s1 = [?p]" "\<not> run_local s1" "\<not> run_failed s1"
    using run_step.own_part [OF _ _ f, of "''own''"] by (fastforce simp: run_start_def sample_handler_def)
  obtain sn2 sr2 out2 r2 err where g: "on_peer_reply sample_handler ?p True [[]] (run_sr s1) (run_node s1) = (sn2, sr2, out2, r2, err)"
    by (metis prod_cases5)
  have "err = None"
    using g by (simp add: on_peer_reply_def peer_result_def interpret_sn_storage_cc_response_parts_def sample_handler_def Let_def)
  then obtain s2 where s2: "?step s1 s2" "run_waiting s2 = []" "\<not> run_local s2" "\<not> run_failed s2"
    using run_step.peer_answer [OF _ g, of "''own''" ?q True False] s1 by fastforce
  have r: "?step\<^sup>*\<^sup>* ?s0 s2" using s1(1) s2(1) by (meson rtranclp.rtrancl_into_rtrancl rtranclp.rtrancl_refl)
  show ?thesis using one_reply_when_complete [OF b r] s2 r by auto
qed

end
