(* ===== verification/Compound_Requests.thy ===== *)
theory Compound_Requests
  imports Handler_Facts
begin

text \<open>
  Batches and sequences of requests: what is sent back for given answers of the subrequests,
  and which of the subrequests are run.
\<close>

section \<open>Batches\<close>

text \<open>The replies a batch sends when its subrequests are done in a given order.\<close>

fun batch_replies :: "handler_env \<Rightarrow> bool \<Rightarrow> (nat \<times> response) list \<Rightarrow> batch_state \<Rightarrow> response list" where
  "batch_replies E b64 [] st = []"
| "batch_replies E b64 ((i, r) # rs) st =
     (let (st, reply) = batch_done E b64 i r st
      in (case reply of Some x \<Rightarrow> [x] | None \<Rightarrow> []) @ batch_replies E b64 rs st)"

lemma batch_replies_fold:
  assumes "bs_remaining st = int (length rs)" and "rs \<noteq> []"
  shows "batch_replies E b64 rs st =
    [results_response (fold (\<lambda>(i, r) xs. xs[i := sub_result E b64 r]) rs (bs_results st))]"
  using assms
proof (induction E b64 rs st rule: batch_replies.induct)
  case (2 E b64 i r rs st)
  let ?st = "\<lparr>bs_results = (bs_results st)[i := sub_result E b64 r], bs_remaining = bs_remaining st - 1\<rparr>"
  have d: "batch_done E b64 i r st = (?st, if rs = [] then Some (results_response (bs_results ?st)) else None)"
    using 2(2) by (simp add: batch_done_def Let_def)
  then show ?case using 2(1) [OF d [symmetric] refl] 2(2) by (cases "rs = []") simp_all
qed simp

lemma fold_update_nth:
  assumes "distinct (map fst rs)" and "j < length xs"
  shows "fold (\<lambda>(i, r) xs. xs[i := f r]) rs xs ! j = (case map_of rs j of Some r \<Rightarrow> f r | None \<Rightarrow> xs ! j)"
  using assms
proof (induction rs arbitrary: xs)
  case (Cons x rs)
  obtain i r where x: "x = (i, r)" by (rule prod.exhaust)
  have "map_of rs i = None" using Cons(2) x by (simp add: map_of_eq_None_iff)
  then show ?case using Cons x by (auto simp: nth_list_update split: option.splits)
qed simp

lemma fold_update_length: "length (fold (\<lambda>(i, r) xs. xs[i := f r]) rs xs) = length xs"
  by (induction rs arbitrary: xs) auto

text \<open>
  C25: a batch is answered exactly once, when the last of its subrequests is done, and the
  results are in the order of the subrequests, whatever the order in which these were done.
\<close>

theorem batch_answers_in_order:
  assumes "qs \<noteq> []" and "distinct order" and "set order = {..<length qs}"
  shows "batch_replies E b64 (map (\<lambda>i. (i, rsp i)) order) (batch_begin qs) =
    [results_response (map (\<lambda>i. sub_result E b64 (rsp i)) [0..<length qs])]"
proof -
  let ?rs = "map (\<lambda>i. (i, rsp i)) order" and ?init = "bs_results (batch_begin qs)"
  let ?all = "fold (\<lambda>(i, r) xs. xs[i := sub_result E b64 r]) ?rs ?init"
  have n: "length order = length qs" using distinct_card [OF assms(2)] assms(3) by simp
  then have "batch_replies E b64 ?rs (batch_begin qs) = [results_response ?all]"
    using assms(1) by (intro batch_replies_fold) (auto simp: batch_begin_def)
  moreover have "?all = map (\<lambda>i. sub_result E b64 (rsp i)) [0..<length qs]"
  proof (rule nth_equalityI)
    show "length ?all = length (map (\<lambda>i. sub_result E b64 (rsp i)) [0..<length qs])"
      by (simp add: fold_update_length batch_begin_def)
    fix j
    assume "j < length ?all"
    then have j: "j < length qs" "j < length ?init" by (simp_all add: fold_update_length batch_begin_def)
    have "map_of ?rs j = Some (rsp j)" using j(1) assms(2,3) by (intro map_of_is_SomeI) (auto simp: comp_def)
    moreover have "distinct (map fst ?rs)" using assms(2) by (simp add: comp_def)
    ultimately show "?all ! j = map (\<lambda>i. sub_result E b64 (rsp i)) [0..<length qs] ! j"
      using fold_update_nth [of ?rs j ?init] j by simp
  qed
  ultimately show ?thesis by simp
qed

theorem batch_answers_in_order_witness:
  "batch_replies sample_handler False [(1, text_response 200 ''b''), (0, text_response 200 ''a'')] (batch_begin [Info, Info]) =
    [results_response [sub_result sample_handler False (text_response 200 ''a''), sub_result sample_handler False (text_response 200 ''b'')]]"
  using batch_answers_in_order [of "[Info, Info]" "[1, 0]" sample_handler False "\<lambda>i. text_response 200 (if i = 0 then ''a'' else ''b'')"]
  by (simp add: lessThan_Suc numeral_2_eq_2 insert_commute)

section \<open>Sequences\<close>

text \<open>The reply of a sequence for the answers of its subrequests, and the positions that are run.\<close>

fun sequence_replies ::
    "handler_env \<Rightarrow> bool \<Rightarrow> (nat \<Rightarrow> response) \<Rightarrow> nat \<Rightarrow> sequence_manager \<Rightarrow> nat \<Rightarrow> response option \<times> nat list" where
  "sequence_replies E b64 rsp 0 m i = (None, [])"
| "sequence_replies E b64 rsp (Suc fuel) m i =
     (case sequence_done E b64 (rsp i) m of
        (m', Inl resp) \<Rightarrow> (Some resp, [i])
      | (m', Inr j) \<Rightarrow> (let (resp, is) = sequence_replies E b64 rsp fuel m' j in (resp, i # is)))"

definition succeeds :: "response \<Rightarrow> bool" where
  "succeeds r \<longleftrightarrow> 200 \<le> resp_status r \<and> resp_status r \<le> 299"

definition sequence_length :: "(nat \<Rightarrow> response) \<Rightarrow> nat \<Rightarrow> nat" where
  "sequence_length rsp n = min n (Suc (length (takeWhile (\<lambda>i. succeeds (rsp i)) [0..<n])))"

lemma sequence_run:
  assumes "i < k" and "k \<le> length qs" and "\<forall>j < k - 1. succeeds (rsp j)"
    and "k < length qs \<longrightarrow> \<not> succeeds (rsp (k - 1))" and "k - i \<le> fuel"
  shows "sequence_replies E b64 rsp fuel \<lparr>sm_subreqs = qs, sm_subresults = map (\<lambda>j. sub_result E b64 (rsp j)) [0..<i]\<rparr> i =
    (Some (results_response (map (\<lambda>j. sub_result E b64 (rsp j)) [0..<k])), [i..<k])"
  using assms
proof (induction fuel arbitrary: i)
  case (Suc fuel)
  let ?m = "\<lambda>i. \<lparr>sm_subreqs = qs, sm_subresults = map (\<lambda>j. sub_result E b64 (rsp j)) [0..<i]\<rparr>"
  show ?case
  proof (cases "Suc i = k")
    case True
    have "map (\<lambda>j. sub_result E b64 (rsp j)) [0..<k] = map (\<lambda>j. sub_result E b64 (rsp j)) [0..<i] @ [sub_result E b64 (rsp i)]"
      unfolding True [symmetric] by simp
    moreover have "length qs \<le> Suc i \<or> \<not> succeeds (rsp i)" using Suc.prems True by force
    ultimately have "sequence_done E b64 (rsp i) (?m i) = (?m k, Inl (results_response (sm_subresults (?m k))))"
      by (auto simp: sequence_done_def Let_def succeeds_def not_le)
    then show ?thesis using Suc.prems(1) unfolding True [symmetric] by (simp add: upt_conv_Cons)
  next
    case False
    then have "succeeds (rsp i)" using Suc.prems by simp
    then have "sequence_done E b64 (rsp i) (?m i) = (?m (Suc i), Inr (Suc i))"
      using Suc.prems(1,2) False by (simp add: sequence_done_def Let_def succeeds_def)
    moreover have "sequence_replies E b64 rsp fuel (?m (Suc i)) (Suc i) =
        (Some (results_response (map (\<lambda>j. sub_result E b64 (rsp j)) [0..<k])), [Suc i..<k])"
      using Suc.prems False by (intro Suc.IH) auto
    ultimately show ?thesis using Suc.prems by (simp add: upt_conv_Cons)
  qed
qed simp

text \<open>
  C24: a sequence runs its subrequests one after the other up to the first that fails, that is
  whose status is not from 200 to 299, and is then answered with the results up to and including
  this one; later subrequests are not run. As many steps as there are subrequests are enough.
\<close>

theorem sequence_stops_at_failure:
  assumes "qs \<noteq> []" and "k = sequence_length rsp (length qs)" and "sequence_begin qs = (m, i)"
  shows "sequence_replies E b64 rsp (length qs) m i =
      (Some (results_response (map (\<lambda>j. sub_result E b64 (rsp j)) [0..<k])), [0..<k])
    \<and> (\<forall>j < k - 1. succeeds (rsp j)) \<and> (k < length qs \<longrightarrow> \<not> succeeds (rsp (k - 1)))"
proof -
  let ?good = "takeWhile (\<lambda>i. succeeds (rsp i)) [0..<length qs]"
  have l: "length ?good \<le> length qs" using length_takeWhile_le [of _ "[0..<length qs]"] by (metis diff_zero length_upt)
  have ok: "succeeds (rsp j)" if "j < length ?good" for j
    using takeWhile_nth [OF that] nth_mem [OF that] set_takeWhileD [of "?good ! j"] that l by fastforce
  have bad: "\<not> succeeds (rsp (length ?good))" if "length ?good < length qs"
    using nth_length_takeWhile [of "\<lambda>i. succeeds (rsp i)" "[0..<length qs]"] that by simp
  have k: "0 < k" "k \<le> length qs" "\<forall>j < k - 1. succeeds (rsp j)" "k < length qs \<longrightarrow> \<not> succeeds (rsp (k - 1))"
    using assms(1,2) ok bad by (auto simp: sequence_length_def min_def split: if_splits)
  show ?thesis
    using sequence_run [OF k(1-4), of "length qs" E b64] k assms(3) by (simp add: sequence_begin_def)
qed

theorem sequence_stops_at_failure_witness:
  "snd (sequence_replies sample_handler False (\<lambda>i. text_response (if i = 1 then 401 else 200) []) 3
     (fst (sequence_begin [Info, Info, Info])) 0) = [0, 1]"
  using sequence_stops_at_failure [of "[Info, Info, Info]" 2 "\<lambda>i. text_response (if i = 1 then 401 else 200) []"
      "\<lparr>sm_subreqs = [Info, Info, Info], sm_subresults = []\<rparr>" 0 sample_handler False]
  by (simp add: sequence_length_def sequence_begin_def succeeds_def text_response_def upt_rec numeral_2_eq_2 numeral_3_eq_3)

end
