(* ===== verification/Signed_Data.thy ===== *)
theory Signed_Data
  imports Request_Handler Request_Facts
begin

text \<open>
  What a request signature commits to. The signed text is the method and the arguments, one
  after the other without separators, so it is not obvious that two requests cannot have the
  same text.
\<close>

section \<open>Decimal texts\<close>

lemma nat_chars_length_ge: "10 ^ k \<le> n \<Longrightarrow> k < length (nat_chars n)"
proof (induction k arbitrary: n)
  case 0
  then show ?case using nat_chars_nonempty by simp
next
  case (Suc k)
  then have "10 ^ k \<le> n div 10" by (simp add: div_greater_zero_iff less_eq_div_iff_mult_less_eq mult.commute)
  then have "k < length (nat_chars (n div 10))" by (rule Suc.IH)
  moreover have "(1 :: nat) \<le> 10 ^ k" by simp
  then have "\<not> n < 10" using Suc.prems unfolding power_Suc by linarith
  ultimately show ?case by (subst nat_chars.simps) simp
qed

lemma nat_chars_inject: "nat_chars m = nat_chars n \<Longrightarrow> m = n"
  using digits_value_nat_chars by metis

lemma nat_chars_head: "is_digit (hd (nat_chars n))"
  using nat_chars_digits nat_chars_nonempty by (metis hd_in_set)

lemma digit_not_minus: "\<not> is_digit (CHR ''-'')" "\<not> is_digit (CHR ''_'')" "\<not> is_digit (CHR ''a'')" "\<not> is_digit (CHR ''N'')"
    "\<not> is_digit (CHR ''s'')" "\<not> is_digit (CHR ''e'')"
  by (simp_all add: is_digit_def)

lemma to_chars_inject: "to_chars a = to_chars b \<Longrightarrow> a = b"
proof -
  assume eq: "to_chars a = to_chars b"
  have sign: "hd (to_chars i) = CHR ''-'' \<longleftrightarrow> i < 0" for i
    using nat_chars_head [of "nat i"] digit_not_minus(1) by (auto simp: to_chars_def)
  have "a < 0 \<longleftrightarrow> b < 0" using sign [of a] sign [of b] eq by simp
  then show ?thesis
    using eq nat_chars_inject [of "nat a" "nat b"] nat_chars_inject [of "nat (- a)" "nat (- b)"]
    by (cases "a < 0") (auto simp: to_chars_def)
qed

text \<open>The times that have thirteen digits as milliseconds: since September 2001.\<close>

definition recent :: "time \<Rightarrow> bool" where
  "recent t \<longleftrightarrow> time64 t \<and> 10 ^ 12 \<le> to_epoch_ms t"

lemma recent_text:
  assumes "recent t"
  shows "length (to_chars (to_epoch_ms t)) = 13" "is_digit (hd (to_chars (to_epoch_ms t)))" "to_chars (to_epoch_ms t) \<noteq> []"
proof -
  let ?n = "nat (to_epoch_ms t)"
  have lo: "10 ^ 12 \<le> to_epoch_ms t" and hi: "t < 2 ^ 63" using assms by (auto simp: recent_def time64_def)
  have "0 \<le> t"
  proof (rule ccontr)
    assume "\<not> 0 \<le> t"
    then have "to_epoch_ms t \<le> 0" by (simp add: to_epoch_ms_def signed_divide_int_def)
    with lo show False by simp
  qed
  then have "to_epoch_ms t = t div 1000000" by (rule to_epoch_ms_nonneg)
  with hi have "to_epoch_ms t < 10 ^ 13" by simp
  then have "?n < 10 ^ 13" "10 ^ 12 \<le> ?n" using lo by (simp_all add: nat_less_iff le_nat_iff)
  then have "length (nat_chars ?n) = 13"
    using nat_chars_length [of 13 ?n] nat_chars_length_ge [of 12 ?n] by simp
  moreover have eq: "to_chars (to_epoch_ms t) = nat_chars ?n" using lo by (simp add: to_chars_def)
  ultimately show "length (to_chars (to_epoch_ms t)) = 13" by simp
  show "is_digit (hd (to_chars (to_epoch_ms t)))" unfolding eq by (rule nat_chars_head)
  show "to_chars (to_epoch_ms t) \<noteq> []" unfolding eq by (rule nat_chars_nonempty)
qed

lemma recent_ms_inject: "whole_ms t \<Longrightarrow> whole_ms u \<Longrightarrow> to_chars (to_epoch_ms t) = to_chars (to_epoch_ms u) \<Longrightarrow> t = u"
  using to_chars_inject unfolding whole_ms_def by metis

section \<open>Methods\<close>

fun request_method :: "client_subrequest \<Rightarrow> string" where
  "request_method (Store r) = ''store''"
| "request_method (Retrieve r) = ''retrieve''"
| "request_method (Delete_Msgs r) = ''delete''"
| "request_method (Delete_All r) = ''delete_all''"
| "request_method (Delete_Before r) = ''delete_before''"
| "request_method (Expire_All r) = ''expire_all''"
| "request_method (Expire_Msgs r) = ''expire''"
| "request_method (Revoke_Subaccount r) = ''revoke_subaccount''"
| "request_method (Unrevoke_Subaccount r) = ''unrevoke_subaccount''"
| "request_method (Revoked_Subaccounts r) = ''revoked_subaccounts''"
| "request_method (Get_Expiries r) = ''get_expiries''"
| "request_method (Get_Message_Count r) = ''get_message_count''"
| "request_method _ = []"

definition signed_methods :: "string list" where
  "signed_methods = [''store'', ''retrieve'', ''delete'', ''delete_all'', ''delete_before'', ''expire_all'', ''expire'',
     ''revoke_subaccount'', ''unrevoke_subaccount'', ''revoked_subaccounts'', ''get_expiries'', ''get_message_count'']"

definition no_underscore :: "string \<Rightarrow> bool" where
  "no_underscore s \<longleftrightarrow> s \<noteq> [] \<and> hd s \<noteq> CHR ''_''"

lemma method_prefixes:
  "list_all (\<lambda>n. list_all (\<lambda>m. take (length n) m = n \<longrightarrow> m = n \<or> m ! length n = CHR ''_'') signed_methods) signed_methods"
  by (simp add: signed_methods_def)

lemma method_prefix:
  assumes "m \<in> set signed_methods" and "n \<in> set signed_methods" and "m = n @ us" and "us \<noteq> []"
  shows "hd us = CHR ''_''"
proof -
  have "take (length n) m = n" "m \<noteq> n" "m ! length n = hd us" using assms(3,4) by (simp_all add: nth_append hd_conv_nth)
  then show ?thesis using method_prefixes assms(1,2) unfolding list_all_iff by metis
qed

lemma method_recovered:
  assumes "m \<in> set signed_methods" and "n \<in> set signed_methods" and "no_underscore x" and "no_underscore y" and "m @ x = n @ y"
  shows "m = n"
proof (rule ccontr)
  assume "m \<noteq> n"
  then obtain us where "m = n @ us \<and> us @ x = y \<or> n = m @ us \<and> us @ y = x" "us \<noteq> []"
    using assms(5) by (auto simp: append_eq_append_conv2)
  then show False using method_prefix assms by (metis hd_append2 no_underscore_def)
qed

section \<open>What is signed\<close>

fun signed_parts :: "client_subrequest \<Rightarrow> sig_part list option" where
  "signed_parts (Store r) = map_option (store_parts r) (st_sig_ts r)"
| "signed_parts (Retrieve r) = (if rt_check_signature r then Some (retrieve_parts r) else None)"
| "signed_parts (Delete_Msgs r) = Some (delete_msgs_parts r)"
| "signed_parts (Delete_All r) = Some (delete_all_parts r)"
| "signed_parts (Delete_Before r) = Some (delete_before_parts r)"
| "signed_parts (Expire_All r) = Some (expire_all_parts r)"
| "signed_parts (Expire_Msgs r) = Some (expire_msgs_parts r)"
| "signed_parts (Revoke_Subaccount r) = Some (revoke_parts r)"
| "signed_parts (Unrevoke_Subaccount r) = Some (unrevoke_parts r)"
| "signed_parts (Revoked_Subaccounts r) = Some (revoked_parts r)"
| "signed_parts (Get_Expiries r) = Some (get_expiries_parts r)"
| "signed_parts (Get_Message_Count r) = Some (message_count_parts r)"
| "signed_parts _ = None"

fun signed_times :: "client_subrequest \<Rightarrow> time list" where
  "signed_times (Store r) = (case st_sig_ts r of Some t \<Rightarrow> [t] | None \<Rightarrow> [])"
| "signed_times (Retrieve r) = [rt_timestamp r]"
| "signed_times (Delete_All r) = [da_timestamp r]"
| "signed_times (Delete_Before r) = [db_before r]"
| "signed_times (Expire_All r) = [ea_expiry r]"
| "signed_times (Expire_Msgs r) = em_expiry r"
| "signed_times (Revoke_Subaccount r) = [rs_timestamp r]"
| "signed_times (Unrevoke_Subaccount r) = [ur_timestamp r]"
| "signed_times (Revoked_Subaccounts r) = [rd_timestamp r]"
| "signed_times (Get_Expiries r) = [ge_sig_ts r]"
| "signed_times (Get_Message_Count r) = [gc_sig_ts r]"
| "signed_times _ = []"

text \<open>The arguments of the request that the text determines.\<close>

datatype scope =
    In_Namespace namespace_var time
  | Of_Hashes "string list"
  | Of_Tokens time "subaccount_token list"
  | At time
  | Some_Expiries

fun request_scope :: "client_subrequest \<Rightarrow> scope" where
  "request_scope (Store r) = In_Namespace (NS_Id (st_namespace r)) (the (st_sig_ts r))"
| "request_scope (Retrieve r) = In_Namespace (NS_Id (rt_namespace r)) (rt_timestamp r)"
| "request_scope (Delete_Msgs r) = Of_Hashes (dm_messages r)"
| "request_scope (Delete_All r) = In_Namespace (da_namespace r) (da_timestamp r)"
| "request_scope (Delete_Before r) = In_Namespace (db_namespace r) (db_before r)"
| "request_scope (Expire_All r) = In_Namespace (ea_namespace r) (ea_expiry r)"
| "request_scope (Revoke_Subaccount r) = Of_Tokens (rs_timestamp r) (rs_revoke r)"
| "request_scope (Unrevoke_Subaccount r) = Of_Tokens (ur_timestamp r) (ur_unrevoke r)"
| "request_scope (Revoked_Subaccounts r) = At (rd_timestamp r)"
| "request_scope (Get_Message_Count r) = At (gc_sig_ts r)"
| "request_scope _ = Some_Expiries"

fun scope_text :: "scope \<Rightarrow> string" where
  "scope_text (In_Namespace n t) = signature_value n @ to_chars (to_epoch_ms t)"
| "scope_text (Of_Hashes hs) = concat hs"
| "scope_text (Of_Tokens t ts) = to_chars (to_epoch_ms t) @ concat ts"
| "scope_text (At t) = to_chars (to_epoch_ms t)"
| "scope_text Some_Expiries = []"

lemma signature_value_head: "signature_value n \<noteq> [] \<Longrightarrow> hd (signature_value n) \<noteq> CHR ''_''"
  using nat_chars_head digit_not_minus(2) nat_chars_nonempty
  by (auto simp: signature_value_def ns_to_string_def to_chars_def split: namespace_var.splits if_splits) metis

lemma signature_value_inject: "signature_value m = signature_value n \<Longrightarrow> m = n"
proof -
  have all: "to_chars i \<noteq> ''all''" for i
    using nat_chars_head [of "nat i"] digit_not_minus(3) by (auto simp: to_chars_def split: if_splits)
  have ne: "to_chars i \<noteq> []" for i using nat_chars_nonempty by (simp add: to_chars_def)
  have inj: "to_chars i = to_chars j \<longleftrightarrow> i = j" for i j using to_chars_inject by blast
  assume "signature_value m = signature_value n"
  then show ?thesis
    by (cases m; cases n)
      (simp_all add: signature_value_def ns_to_string_def all ne inj to_int_inject
         all [symmetric] ne [symmetric] split: if_splits)
qed

lemma concat_inject:
  assumes "\<forall>x \<in> set xs. length x = k" and "\<forall>y \<in> set ys. length y = k" and "0 < k" and "concat xs = concat ys"
  shows "xs = ys"
proof -
  have "length (concat xs) = k * length xs" "length (concat ys) = k * length ys"
    using assms(1,2) by (auto intro: length_concat_const)
  then have "length xs = length ys" using assms(3,4) by simp
  then show ?thesis
    using assms(1,2,4)
    by (induction xs ys rule: list_induct2) auto
qed

text \<open>
  Requests whose signed times are recent, in whole milliseconds.
\<close>

definition times_recent :: "client_subrequest \<Rightarrow> bool" where
  "times_recent q \<longleftrightarrow> list_all (\<lambda>t. recent t \<and> whole_ms t) (signed_times q)"

definition signed_text :: "client_subrequest \<Rightarrow> string option" where
  "signed_text q = map_option concatenate_sig_message_parts (signed_parts q)"

lemmas parts_defs = store_parts_def retrieve_parts_def delete_msgs_parts_def delete_all_parts_def delete_before_parts_def
  expire_all_parts_def expire_msgs_parts_def revoke_parts_def unrevoke_parts_def revoked_parts_def get_expiries_parts_def
  message_count_parts_def

text \<open>The text after the method is that of the scope, but for the two requests on expiries.\<close>

lemma signed_text_scope:
  assumes "signed_text q = Some s" and "request_scope q \<noteq> Some_Expiries"
  shows "s = request_method q @ scope_text (request_scope q)"
  using assms
  by (cases q) (auto simp: signed_text_def concatenate_sig_message_parts_def parts_defs signature_value_def ns_sig_text_def
      ns_to_string_def split: if_splits)

lemma hash_head:
  assumes "codecs_ok C" and "is_valid_message_hash C h"
  shows "no_underscore h"
proof -
  have h: "length h = 43" "is_base64 (b64c C) h" using assms(2) by (auto simp: is_valid_message_hash_def)
  then obtain n k where k: "k \<le> 2" "0 < k \<longrightarrow> length h mod 4 = 0" "length h = n + k" "list_all base64_digit (take n h)"
    using assms(1) unfolding codecs_ok_def base64_ok_def by metis
  have "k = 0" using k(2) h(1) by simp
  with k have "list_all base64_digit h" by simp
  then have "base64_digit (hd h)" using h(1) by (cases h) auto
  moreover have "\<not> base64_digit (CHR ''_'')" by (simp add: base64_digit_def)
  ultimately show ?thesis using h(1) by (auto simp: no_underscore_def)
qed

lemma no_underscore_append: "no_underscore x \<Longrightarrow> no_underscore (x @ y)"
  by (simp add: no_underscore_def)

lemma recent_no_underscore: "recent t \<Longrightarrow> no_underscore (to_chars (to_epoch_ms t))"
  using recent_text(2,3) [of t] digit_not_minus(2) unfolding no_underscore_def by metis

lemma namespace_no_underscore: "recent t \<Longrightarrow> no_underscore (signature_value n @ to_chars (to_epoch_ms t))"
  using recent_no_underscore [of t] signature_value_head [of n] by (cases "signature_value n = []") (auto simp: no_underscore_def)

text \<open>After the method comes no underscore.\<close>

lemma signed_text_rest:
  assumes C: "codecs_ok C" and "signed_text q = Some s" and "subrequest_wf C q" and "times_recent q"
  shows "\<exists>rest. s = request_method q @ rest \<and> no_underscore rest \<and> request_method q \<in> set signed_methods"
proof (cases "request_scope q = Some_Expiries")
  case True
  consider (expire) r where "q = Expire_Msgs r" | (get) r where "q = Get_Expiries r"
    using True assms(2) by (cases q) (auto simp: signed_text_def)
  then show ?thesis
  proof cases
    case expire
    then have "em_expiry r \<noteq> []" "recent (hd (em_expiry r))"
      using assms(3,4) by (cases "em_expiry r"; auto simp: times_recent_def)+
    then have "no_underscore (expire_mode r @ to_chars (to_epoch_ms (hd (em_expiry r))) @ x)" for x
      using recent_no_underscore by (auto simp: expire_mode_def no_underscore_def)
    moreover have "s = ''expire'' @ expire_mode r @ to_chars (to_epoch_ms (hd (em_expiry r)))
        @ concat (map (\<lambda>t. to_chars (to_epoch_ms t)) (tl (em_expiry r))) @ concat (em_messages r)"
      using assms(2) expire \<open>em_expiry r \<noteq> []\<close>
      by (cases "em_expiry r") (auto simp: signed_text_def concatenate_sig_message_parts_def expire_msgs_parts_def)
    ultimately show ?thesis using expire by (simp add: signed_methods_def)
  next
    case get
    have n: "no_underscore (''N'' @ x)" for x by (simp add: no_underscore_def)
    have "no_underscore (to_chars (to_epoch_ms (ge_sig_ts r)) @ x)" for x
      using assms(4) get recent_no_underscore no_underscore_append by (auto simp: times_recent_def)
    with get assms(2) n show ?thesis
      by (auto simp: signed_text_def concatenate_sig_message_parts_def get_expiries_parts_def signed_methods_def split: option.splits)
  qed
next
  case False
  have "no_underscore (scope_text (request_scope q))"
  proof (cases q)
    case (Delete_Msgs r)
    then have "dm_messages r \<noteq> []" "is_valid_message_hash C (hd (dm_messages r))"
      using assms(3) by (cases "dm_messages r"; auto)+
    then have "no_underscore (hd (dm_messages r) @ concat (tl (dm_messages r)))"
      using hash_head [OF C] no_underscore_append by blast
    with Delete_Msgs \<open>dm_messages r \<noteq> []\<close> show ?thesis by (cases "dm_messages r") auto
  qed (use False assms(2,4) in \<open>auto simp: signed_text_def times_recent_def recent_no_underscore namespace_no_underscore
         no_underscore_append split: option.splits if_splits\<close>)
  moreover have "request_method q \<in> set signed_methods"
    using assms(2) by (cases q) (auto simp: signed_text_def signed_methods_def)
  ultimately show ?thesis using signed_text_scope [OF assms(2) False] by blast
qed

lemma same_method_same_kind:
  assumes "request_method q = request_method q'" and "signed_text q = Some s" and "signed_text q' = Some s"
  shows "request_scope q = Some_Expiries \<longleftrightarrow> request_scope q' = Some_Expiries"
  using assms by (cases q; cases q') (simp_all add: signed_text_def)

lemma in_namespace_inject:
  assumes "scope_text (In_Namespace m t) = scope_text (In_Namespace n u)" and "recent t \<and> whole_ms t" and "recent u \<and> whole_ms u"
  shows "m = n \<and> t = u"
proof -
  have "length (to_chars (to_epoch_ms t)) = length (to_chars (to_epoch_ms u))" using assms(2,3) recent_text(1) by simp
  then have "signature_value m = signature_value n" "to_chars (to_epoch_ms t) = to_chars (to_epoch_ms u)" using assms(1) by auto
  then show ?thesis using signature_value_inject recent_ms_inject to_chars_inject assms(2,3) by blast
qed

lemma of_tokens_inject:
  assumes "scope_text (Of_Tokens t xs) = scope_text (Of_Tokens u ys)" and "recent t \<and> whole_ms t" and "recent u \<and> whole_ms u"
    and "list_all (\<lambda>x. length x = SUBACCOUNT_TOKEN_LENGTH) xs" and "list_all (\<lambda>x. length x = SUBACCOUNT_TOKEN_LENGTH) ys"
  shows "t = u \<and> xs = ys"
proof -
  have "length (to_chars (to_epoch_ms t)) = length (to_chars (to_epoch_ms u))" using assms(2,3) recent_text(1) by simp
  then have "concat xs = concat ys" "to_chars (to_epoch_ms t) = to_chars (to_epoch_ms u)" using assms(1) by auto
  then show ?thesis
    using concat_inject [of xs SUBACCOUNT_TOKEN_LENGTH ys] recent_ms_inject to_chars_inject assms(2-5)
    by (auto simp: list_all_iff SUBACCOUNT_TOKEN_LENGTH_def)
qed

lemma of_hashes_inject:
  assumes "concat xs = concat ys" and "list_all (is_valid_message_hash C) xs" and "list_all (is_valid_message_hash C) ys"
  shows "xs = ys"
  using concat_inject [of xs 43 ys] assms by (auto simp: list_all_iff is_valid_message_hash_def)

lemma at_inject:
  assumes "to_chars (to_epoch_ms t) = to_chars (to_epoch_ms u)" and "recent t \<and> whole_ms t" and "recent u \<and> whole_ms u"
  shows "t = u"
  using recent_ms_inject to_chars_inject assms by blast

lemma same_scope:
  assumes "scope_text (request_scope q) = scope_text (request_scope q')" and "request_method q = request_method q'"
    and "signed_text q \<noteq> None" and "signed_text q' \<noteq> None"
    and "times_recent q" and "times_recent q'" and "subrequest_wf C q" and "subrequest_wf C q'"
  shows "request_scope q = request_scope q'"
proof -
  have m: "request_method q = request_method q'" by (rule assms(2))
  have t: "\<forall>t \<in> set (signed_times q) \<union> set (signed_times q'). recent t \<and> whole_ms t"
    using assms(5,6) by (auto simp: times_recent_def list_all_iff)
  show ?thesis
    using assms(1,3,4,7,8) m t
    by (cases q; cases q';
        simp add: signed_text_def del: scope_text.simps;
        auto simp del: scope_text.simps dest!: in_namespace_inject of_tokens_inject simp: scope_text.simps(2,4)
          dest: of_hashes_inject at_inject)
qed


definition sample_delete_all :: "string \<Rightarrow> delete_all_request" where
  "sample_delete_all sig = \<lparr>rq_pubkey = sample_pubkey, rq_ed25519 = None, rq_signature = Some sig,
     rq_subaccount = None, da_namespace = NS_Id 1, da_timestamp = from_epoch_ms 1700000000000\<rparr>"

definition sample_delete_all_text :: string where
  "sample_delete_all_text = ''delete_all'' @ to_chars 1 @ to_chars 1700000000000"

lemma sample_delete_all_facts:
  assumes "length sig = 64"
  shows "subrequest_wf plain_codecs (Delete_All (sample_delete_all sig))" "times_recent (Delete_All (sample_delete_all sig))"
    "signed_text (Delete_All (sample_delete_all sig)) = Some sample_delete_all_text"
  using assms sample_facts
  by (simp_all add: sample_delete_all_def signed_wf_def time64_def from_epoch_ms_def times_recent_def recent_def whole_ms_def
      to_epoch_ms_def signed_text_def delete_all_parts_def concatenate_sig_message_parts_def signature_value_def
      ns_to_string_def to_int_def ns_Default_def sample_delete_all_text_def)


end
