(* ===== verification/Rate_Limiter.thy ===== *)
theory Rate_Limiter
  imports Contacts
begin

text \<open>
  The limits on the rate of requests (\<open>oxenss/rpc/rate_limiter.h\<close>, \<open>rate_limiter.cpp\<close>): a
  bucket of tokens for each client address and for each service node. The steady clock counts
  nanoseconds; the number of tokens has 32 bits, as has the number of tokens to add, which
  wraps around for a reading of the clock that is older than the last one.
\<close>

section \<open>Buckets\<close>

definition BUCKET_SIZE :: u32 where "BUCKET_SIZE = 600"
definition TOKEN_RATE :: int where "TOKEN_RATE = 300"
definition TOKEN_RATE_SN :: int where "TOKEN_RATE_SN = 600"
definition MAX_CLIENTS :: nat where "MAX_CLIENTS = 10000"

definition TOKEN_PERIOD_US :: int where "TOKEN_PERIOD_US = 1000000 sdiv TOKEN_RATE"
definition TOKEN_PERIOD_SN_US :: int where "TOKEN_PERIOD_SN_US = 1000000 sdiv TOKEN_RATE_SN"
definition FILL_EMPTY_BUCKET_US :: int where "FILL_EMPTY_BUCKET_US = TOKEN_PERIOD_US * uint BUCKET_SIZE"

record token_bucket =
  num_tokens :: u32
  last_time_point :: time

definition fill_bucket :: "bool \<Rightarrow> time \<Rightarrow> token_bucket \<Rightarrow> token_bucket \<times> bool" where
  "fill_bucket sn now b =
     (let elapsed_us = (now - last_time_point b) sdiv 1000;
          elapsed_us = min elapsed_us FILL_EMPTY_BUCKET_US;
          token_period = (if sn then TOKEN_PERIOD_SN_US else TOKEN_PERIOD_US);
          token_added = word_of_int (elapsed_us sdiv token_period) :: u32;
          n = num_tokens b + token_added
      in if n \<ge> BUCKET_SIZE then (b\<lparr>num_tokens := BUCKET_SIZE\<rparr>, True) else (b\<lparr>num_tokens := n\<rparr>, False))"

definition remove_token :: "bool \<Rightarrow> time \<Rightarrow> token_bucket \<Rightarrow> token_bucket \<times> bool" where
  "remove_token sn now b =
     (let b = fst (fill_bucket sn now b)
      in if num_tokens b = 0 then (b, False)
         else (b\<lparr>num_tokens := num_tokens b - 1, last_time_point := now\<rparr>, True))"

section \<open>The limiter\<close>

type_synonym ipv6 = string

record rate_limiter =
  client_limiting :: bool
  snode_buckets :: "(legacy_pubkey \<times> token_bucket) list"
  client_buckets :: "(ipv6 \<times> token_bucket) list"

definition new_limiter :: rate_limiter where
  "new_limiter = \<lparr>client_limiting = True, snode_buckets = [], client_buckets = []\<rparr>"

definition set_client_limiting :: "bool \<Rightarrow> rate_limiter \<Rightarrow> rate_limiter" where
  "set_client_limiting enabled rl = rl\<lparr>client_limiting := enabled\<rparr>"

definition clean_bucket_map :: "bool \<Rightarrow> time \<Rightarrow> ('k \<times> token_bucket) list \<Rightarrow> ('k \<times> token_bucket) list" where
  "clean_bucket_map sn now bs =
     map (\<lambda>(k, b). (k, fst (fill_bucket sn now b))) (filter (\<lambda>(k, b). \<not> snd (fill_bucket sn now b)) bs)"

definition clean_buckets :: "time \<Rightarrow> rate_limiter \<Rightarrow> rate_limiter" where
  "clean_buckets now rl =
     rl\<lparr>client_buckets := clean_bucket_map False now (client_buckets rl),
        snode_buckets := clean_bucket_map True now (snode_buckets rl)\<rparr>"

definition should_rate_limit :: "legacy_pubkey \<Rightarrow> time \<Rightarrow> rate_limiter \<Rightarrow> rate_limiter \<times> bool" where
  "should_rate_limit pk now rl =
     (case map_of (snode_buckets rl) pk of
        None \<Rightarrow> (rl\<lparr>snode_buckets := (pk, \<lparr>num_tokens = BUCKET_SIZE - 1, last_time_point = now\<rparr>) # snode_buckets rl\<rparr>, False)
      | Some b \<Rightarrow>
          (let (b, ok) = remove_token True now b
           in (rl\<lparr>snode_buckets := AList.update pk b (snode_buckets rl)\<rparr>, \<not> ok)))"

definition should_rate_limit_client :: "ipv6 \<Rightarrow> time \<Rightarrow> rate_limiter \<Rightarrow> rate_limiter \<times> bool" where
  "should_rate_limit_client addr now rl =
     (if \<not> client_limiting rl then (rl, False)
      else case map_of (client_buckets rl) addr of
             Some b \<Rightarrow>
               (let (b, ok) = remove_token False now b
                in (rl\<lparr>client_buckets := AList.update addr b (client_buckets rl)\<rparr>, \<not> ok))
           | None \<Rightarrow>
               (let rl = (if length (client_buckets rl) \<ge> MAX_CLIENTS then clean_buckets now rl else rl)
                in if length (client_buckets rl) \<ge> MAX_CLIENTS then (rl, True)
                   else (rl\<lparr>client_buckets := (addr, \<lparr>num_tokens = BUCKET_SIZE - 1, last_time_point = now\<rparr>) # client_buckets rl\<rparr>,
                         False)))"

section \<open>One bucket\<close>

lemmas rate_constants = BUCKET_SIZE_def TOKEN_RATE_def TOKEN_RATE_SN_def TOKEN_PERIOD_US_def TOKEN_PERIOD_SN_US_def FILL_EMPTY_BUCKET_US_def

text \<open>The tokens after a refill, for a clock that has not gone back.\<close>

lemma fill_bucket_tokens:
  assumes "unat (num_tokens b) \<le> 600" and "last_time_point b \<le> now"
  shows "unat (num_tokens (fst (fill_bucket False now b))) =
      min 600 (unat (num_tokens b) + nat ((now - last_time_point b) div 3333000))"
    "last_time_point (fst (fill_bucket False now b)) = last_time_point b"
proof -
  let ?e = "(now - last_time_point b) div 1000"
  have pos: "0 \<le> ?e" using assms(2) by (simp add: pos_imp_zdiv_nonneg_iff)
  define a where "a = min ?e 1999800 div 3333"
  have a: "0 \<le> a" "a \<le> 600" using pos zdiv_mono1 [of "min ?e 1999800" 1999800 3333] by (auto simp: a_def pos_imp_zdiv_nonneg_iff)
  have e: "(now - last_time_point b) sdiv 1000 = ?e" using assms(2) by (simp add: signed_divide_int_def sgn_if)
  have "min ?e 1999800 sdiv 3333 = a" using pos by (simp add: a_def signed_divide_int_def sgn_if)
  then have f: "fill_bucket False now b =
     (let n = num_tokens b + word_of_int a in if n \<ge> 600 then (b\<lparr>num_tokens := 600\<rparr>, True) else (b\<lparr>num_tokens := n\<rparr>, False))"
    by (simp add: fill_bucket_def rate_constants e Let_def)
  have w: "unat (word_of_int a :: u32) = nat a" using a by (simp add: unat_eq_nat_uint uint_word_of_int take_bit_int_eq_self)
  have "unat (num_tokens b + word_of_int a) = unat (num_tokens b) + nat a"
    using assms(1) a by (subst unat_add_lem [THEN iffD1]) (simp_all add: w)
  then have "unat (num_tokens (fst (fill_bucket False now b))) = min 600 (unat (num_tokens b) + nat a)"
    by (auto simp: f Let_def word_le_nat_alt)
  moreover have "min 600 (unat (num_tokens b) + nat a) = min 600 (unat (num_tokens b) + nat ((now - last_time_point b) div 3333000))"
  proof -
    have "(now - last_time_point b) div 3333000 = ?e div 3333" by (simp add: zdiv_zmult2_eq [symmetric])
    moreover have "a = ?e div 3333 \<or> a = 600 \<and> 600 \<le> ?e div 3333"
      using zdiv_mono1 [of 1999800 ?e 3333] by (auto simp: a_def min_def)
    ultimately show ?thesis by auto
  qed
  ultimately show "unat (num_tokens (fst (fill_bucket False now b))) =
      min 600 (unat (num_tokens b) + nat ((now - last_time_point b) div 3333000))" by simp
  show "last_time_point (fst (fill_bucket False now b)) = last_time_point b" by (simp add: f Let_def)
qed

text \<open>
  A bucket that has given \<open>n\<close> tokens since the time \<open>t\<close>: together with those it holds they are
  no more than a full bucket and those of the time up to the last one given.
\<close>

definition bucket_ok :: "time \<Rightarrow> nat \<Rightarrow> token_bucket \<Rightarrow> bool" where
  "bucket_ok t n b \<longleftrightarrow> unat (num_tokens b) \<le> 600 \<and> t \<le> last_time_point b
     \<and> n + unat (num_tokens b) \<le> 600 + nat ((last_time_point b - t) div 3333000)"

lemma nat_div_split: "t \<le> u \<Longrightarrow> u \<le> v \<Longrightarrow> nat ((u - t) div 3333000) + nat ((v - u) div 3333000) \<le> nat ((v - t) div 3333000)"
proof -
  assume "t \<le> u" "u \<le> v"
  then have "0 \<le> (u - t) div 3333000" "0 \<le> (v - u) div 3333000" by (simp_all add: pos_imp_zdiv_nonneg_iff)
  moreover have "(u - t) div 3333000 + (v - u) div 3333000 \<le> (v - t) div 3333000" by linarith
  ultimately show ?thesis by linarith
qed

lemma remove_token_ok:
  assumes "bucket_ok t n b" and "last_time_point b \<le> now" and "remove_token False now b = (b', given)"
  shows "bucket_ok t (if given then Suc n else n) b'" "last_time_point b' \<le> now"
proof -
  define c where "c = fst (fill_bucket False now b)"
  have ok: "unat (num_tokens b) \<le> 600" "t \<le> last_time_point b"
    "n + unat (num_tokens b) \<le> 600 + nat ((last_time_point b - t) div 3333000)" using assms(1) by (auto simp: bucket_ok_def)
  have c: "unat (num_tokens c) = min 600 (unat (num_tokens b) + nat ((now - last_time_point b) div 3333000))"
    "last_time_point c = last_time_point b"
    using fill_bucket_tokens [OF ok(1) assms(2)] by (simp_all add: c_def)
  have r: "(b', given) = (if num_tokens c = 0 then (c, False)
      else (c\<lparr>num_tokens := num_tokens c - 1, last_time_point := now\<rparr>, True))"
    using assms(3) unfolding remove_token_def c_def Let_def by (rule sym)
  show "last_time_point b' \<le> now" using r c(2) assms(2) by (auto split: if_splits)
  show "bucket_ok t (if given then Suc n else n) b'"
  proof (cases "num_tokens c = 0")
    case True
    then have "unat (num_tokens c) = 0" by simp
    then have "unat (num_tokens b) = 0" using c(1) by linarith
    then show ?thesis using True r ok c(2) by (simp add: bucket_ok_def)
  next
    case False
    then have d: "unat (num_tokens c - 1) = unat (num_tokens c) - 1" "0 < unat (num_tokens c)"
      by (simp_all add: unat_minus_one word_neq_0_conv unat_gt_0)
    have "n + unat (num_tokens c) \<le> 600 + nat ((now - t) div 3333000)"
      using ok(3) c(1) nat_div_split [OF ok(2) assms(2)] by linarith
    moreover have "unat (num_tokens c) \<le> 600" using c(1) by simp
    moreover have "b' = c\<lparr>num_tokens := num_tokens c - 1, last_time_point := now\<rparr>" given using False r by simp_all
    ultimately show ?thesis using ok(2) assms(2) d by (simp add: bucket_ok_def)
  qed
qed

section \<open>All clients\<close>

text \<open>The addresses of the requests that are let through, of given requests one after the other.\<close>

fun let_through :: "(ipv6 \<times> time) list \<Rightarrow> rate_limiter \<Rightarrow> ipv6 list" where
  "let_through [] rl = []"
| "let_through ((addr, now) # reqs) rl =
     (let (rl', limited) = should_rate_limit_client addr now rl
      in (if limited then [] else [addr]) @ let_through reqs rl')"

definition limiter_ok :: "time \<Rightarrow> ipv6 set \<Rightarrow> (ipv6 \<Rightarrow> nat) \<Rightarrow> time \<Rightarrow> rate_limiter \<Rightarrow> bool" where
  "limiter_ok t addrs n now rl \<longleftrightarrow>
     client_limiting rl \<and> distinct (map fst (client_buckets rl)) \<and> fst ` set (client_buckets rl) \<subseteq> addrs
     \<and> (\<forall>a b. map_of (client_buckets rl) a = Some b \<longrightarrow> bucket_ok t (n a) b \<and> last_time_point b \<le> now)
     \<and> (\<forall>a. map_of (client_buckets rl) a = None \<longrightarrow> n a = 0)"

lemma limiter_ok_later: "limiter_ok t addrs n now rl \<Longrightarrow> now \<le> later \<Longrightarrow> limiter_ok t addrs n later rl"
  unfolding limiter_ok_def by (meson order_trans)

lemma should_rate_limit_client_ok:
  assumes ok: "limiter_ok t addrs n now rl" and "addr \<in> addrs" and "finite addrs" and "card addrs \<le> MAX_CLIENTS" and "t \<le> now"
    and r: "should_rate_limit_client addr now rl = (rl', limited)"
  shows "limiter_ok t addrs (if limited then n else n(addr := Suc (n addr))) now rl'"
proof (cases "map_of (client_buckets rl) addr")
  case None
  let ?new = "(addr, \<lparr>num_tokens = BUCKET_SIZE - 1, last_time_point = now\<rparr>)"
  have "addr \<notin> fst ` set (client_buckets rl)" using None by (simp add: map_of_eq_None_iff)
  then have "fst ` set (client_buckets rl) \<subset> addrs" using ok assms(2) by (auto simp: limiter_ok_def)
  then have "card (fst ` set (client_buckets rl)) < MAX_CLIENTS"
    using less_le_trans [OF psubset_card_mono [OF assms(3)] assms(4)] by blast
  moreover have "card (fst ` set (client_buckets rl)) = length (client_buckets rl)"
    using ok distinct_card [of "map fst (client_buckets rl)"] by (simp add: limiter_ok_def)
  ultimately have "rl' = rl\<lparr>client_buckets := ?new # client_buckets rl\<rparr>" "\<not> limited"
    using r None ok by (auto simp: should_rate_limit_client_def limiter_ok_def Let_def)
  moreover have "bucket_ok t 1 (snd ?new)" using assms(5) by (simp add: bucket_ok_def BUCKET_SIZE_def)
  ultimately show ?thesis using ok None assms(2) \<open>addr \<notin> _\<close> by (simp add: limiter_ok_def)
next
  case (Some b)
  obtain b' given where g: "remove_token False now b = (b', given)" by (rule prod.exhaust)
  then have r': "rl' = rl\<lparr>client_buckets := AList.update addr b' (client_buckets rl)\<rparr>" "limited = (\<not> given)"
    using r Some ok by (auto simp: should_rate_limit_client_def limiter_ok_def)
  have "bucket_ok t (n addr) b" "last_time_point b \<le> now" using ok Some by (simp_all add: limiter_ok_def)
  note b' = remove_token_ok [OF this g]
  have m: "map_of (client_buckets rl') = (map_of (client_buckets rl))(addr \<mapsto> b')" by (simp add: r' update_conv')
  have "distinct (map fst (client_buckets rl'))" using ok by (simp add: r' distinct_update limiter_ok_def)
  moreover have "fst ` set (client_buckets rl') \<subseteq> addrs"
  proof -
    have "fst ` set (client_buckets rl') = insert addr (fst ` set (client_buckets rl))"
      unfolding dom_map_of_conv_image_fst [symmetric] m by auto
    then show ?thesis using ok assms(2) by (simp add: limiter_ok_def)
  qed
  moreover have "bucket_ok t ((if limited then n else n(addr := Suc (n addr))) a) c \<and> last_time_point c \<le> now"
    if "map_of (client_buckets rl') a = Some c" for a c
    using that ok b' unfolding m r'(2) limiter_ok_def by (cases "a = addr"; cases given) (simp_all del: map_of_eq_Some_iff)
  moreover have "(if limited then n else n(addr := Suc (n addr))) a = 0" if "map_of (client_buckets rl') a = None" for a
    using that ok unfolding m limiter_ok_def by (cases "a = addr") simp_all
  moreover have "client_limiting rl'" using ok by (simp add: r' limiter_ok_def)
  ultimately show ?thesis unfolding limiter_ok_def by blast
qed

lemma let_through_bounded:
  assumes "limiter_ok t addrs n start rl" and "finite addrs" and "card addrs \<le> MAX_CLIENTS" and "fst ` set reqs \<subseteq> addrs"
    and "sorted (start # map snd reqs)" and "t \<le> start" and "\<forall>r \<in> set reqs. snd r \<le> finish" and "start \<le> finish"
  shows "n a + length (filter (\<lambda>x. x = a) (let_through reqs rl)) \<le> 600 + nat ((finish - t) div 3333000)"
  using assms
proof (induction reqs arbitrary: rl n start)
  case Nil
  show ?case
  proof (cases "map_of (client_buckets rl) a")
    case None
    then show ?thesis using Nil(1) by (simp add: limiter_ok_def)
  next
    case (Some b)
    then have "bucket_ok t (n a) b" "last_time_point b \<le> start" using Nil(1) unfolding limiter_ok_def by blast+
    moreover note \<open>start \<le> finish\<close>
    ultimately have "bucket_ok t (n a) b" "last_time_point b \<le> finish" by simp_all
    then show ?thesis
      using nat_mono [OF zdiv_mono1 [of "last_time_point b - t" "finish - t" 3333000]] by (simp add: bucket_ok_def)
  qed
next
  case (Cons r reqs)
  obtain addr now where r: "r = (addr, now)" by (rule prod.exhaust)
  obtain rl' limited where s: "should_rate_limit_client addr now rl = (rl', limited)" by (rule prod.exhaust)
  have now: "start \<le> now" "now \<le> finish" "sorted (now # map snd reqs)" using Cons.prems(5,7) r by auto
  let ?n = "if limited then n else n(addr := Suc (n addr))"
  have "limiter_ok t addrs ?n now rl'"
    using should_rate_limit_client_ok [OF limiter_ok_later [OF Cons.prems(1) now(1)] _ Cons.prems(2,3) _ s] Cons.prems(4,6) r now(1)
    by auto
  then have "?n a + length (filter (\<lambda>x. x = a) (let_through reqs rl')) \<le> 600 + nat ((finish - t) div 3333000)"
    using Cons.prems(2-4,6,7) now by (intro Cons.IH) auto
  moreover have "let_through (r # reqs) rl = (if limited then [] else [addr]) @ let_through reqs rl'" by (simp add: r s)
  ultimately show ?case by (auto split: if_splits)
qed



text \<open>
  Cleaning up counts the time twice. It refills a bucket without moving the time it counts
  from, so cleaning an empty bucket twice within the same second after its last use makes it as
  good as new, although only half of its tokens are due; every request of an unknown client
  cleans up while the limiter is full.
\<close>

theorem cleaning_refills_twice:
  "client_buckets (clean_buckets (t + 1000000000) (rl\<lparr>client_buckets := [(addr, \<lparr>num_tokens = 0, last_time_point = t\<rparr>)]\<rparr>))
     = [(addr, \<lparr>num_tokens = 300, last_time_point = t\<rparr>)]
   \<and> client_buckets (clean_buckets (t + 1000000000) (clean_buckets (t + 1000000000)
        (rl\<lparr>client_buckets := [(addr, \<lparr>num_tokens = 0, last_time_point = t\<rparr>)]\<rparr>))) = []"
  by (simp add: clean_buckets_def clean_bucket_map_def fill_bucket_def rate_constants Let_def)

text \<open>
  A clock reading that is older than the last one, taken before the lock was, fills an empty
  bucket: the negative number of tokens to add wraps around.
\<close>

lemma older_reading_fills_bucket:
  "fill_bucket False (t - 4000000) \<lparr>num_tokens = 0, last_time_point = t\<rparr> = (\<lparr>num_tokens = 600, last_time_point = t\<rparr>, True)"
  by (simp add: fill_bucket_def rate_constants Let_def)

end
