(* ===== verification/Client_Rpc.thy ===== *)
theory Client_Rpc
  imports Request_Runs Rate_Limiter
begin

text \<open>
  Client requests over the message queue (\<open>oxenss/server/mqbase.cpp\<close>, \<open>omq.cpp\<close>) and the
  conversion of their answers (\<open>oxenss/server/utils.cpp\<close>): finding the endpoint, the rate
  limit, what is run, and the parts of the reply.
\<close>

section \<open>Json and bt values\<close>

text \<open>\<open>None\<close> is the exception for a value that bt does not have.\<close>

fun json_to_bt :: "field_value \<Rightarrow> field_value option" where
  "json_to_bt (F_Dict d) = map_option (\<lambda>vs. F_Dict (zip (map fst d) vs)) (those (map (\<lambda>kv. json_to_bt (snd kv)) d))"
| "json_to_bt (F_List xs) = map_option F_List (those (map json_to_bt xs))"
| "json_to_bt (F_Str s) = Some (F_Str s)"
| "json_to_bt (F_Bool b) = Some (F_int (if b then 1 else 0))"
| "json_to_bt (F_Unsigned u) = Some (F_Unsigned u)"
| "json_to_bt (F_Integer i) = Some (F_Integer i)"
| "json_to_bt F_Null = None"
| "json_to_bt (F_Float s) = None"

section \<open>Replies\<close>

text \<open>
  The text of an answer, for a request in bt form or in json, whose writer is an argument. The
  answers that are json are objects.
\<close>

definition response_text :: "handler_env \<Rightarrow> (field_value \<Rightarrow> string) \<Rightarrow> bool \<Rightarrow> response \<Rightarrow> string option" where
  "response_text E json_dump bt r =
     (case resp_body r of
        Json j \<Rightarrow>
          if bt then (case json_to_bt j of Some v \<Rightarrow> Some (he_serialize E (fields_of v)) | None \<Rightarrow> None)
          else Some (json_dump j)
      | Binary b \<Rightarrow> Some b
      | Text s \<Rightarrow> Some s)"

definition reply_parts :: "int \<Rightarrow> string \<Rightarrow> string list" where
  "reply_parts code txt = (if code = HTTP_OK then [txt] else [to_chars code, txt])"

section \<open>Requests\<close>

definition HTTP_TOO_MANY_REQUESTS :: int where "HTTP_TOO_MANY_REQUESTS = 429"

datatype rpc_outcome =
    Rpc_Unknown
  | Rpc_Reply int string
  | Rpc_Run client_request bool bool

definition rpc_request :: "(parse_error \<Rightarrow> string) \<Rightarrow> mq_request \<Rightarrow> rpc_outcome" where
  "rpc_request err_text m =
     (case m of
        Mq_Reply r \<Rightarrow> Rpc_Reply (resp_status r) (case resp_body r of Text s \<Rightarrow> s | _ \<Rightarrow> [])
      | Mq_Bad_Dict \<Rightarrow> Rpc_Reply HTTP_INTERNAL_SERVER_ERROR ''request failed''
      | Mq_Parse_Error e \<Rightarrow> Rpc_Reply HTTP_BAD_REQUEST (''invalid request: '' @ err_text e)
      | Mq_Run q recurse b64 \<Rightarrow> Rpc_Run q recurse b64)"

definition handle_client_rpc ::
    "handler_env \<Rightarrow> (string \<Rightarrow> field_value option) \<Rightarrow> (parse_error \<Rightarrow> string) \<Rightarrow> string \<Rightarrow> string \<Rightarrow> ipv6 option \<Rightarrow> time \<Rightarrow>
     bool \<Rightarrow> rate_limiter \<Rightarrow> rate_limiter \<times> rpc_outcome" where
  "handle_client_rpc E json_parse err_text nam params remote_ip now is_forwarded rl =
     (if \<not> known_method (he_codecs E) json_parse nam then (rl, Rpc_Unknown)
      else let (rl, limited) =
             (if is_forwarded then (rl, False)
              else case remote_ip of None \<Rightarrow> (rl, True) | Some a \<Rightarrow> should_rate_limit_client a now rl)
           in if limited then (rl, Rpc_Reply HTTP_TOO_MANY_REQUESTS ''Too many requests, try again later'')
              else (rl, rpc_request err_text (client_req_mq E json_parse nam params is_forwarded)))"

text \<open>
  A message of the queue with its parts: for \<open>storage_cc\<close> the method and the parameters, for a
  client the parameters only. The address of the client, and its IPv6 form, are read by an
  argument. A request for an unknown endpoint gets no reply.
\<close>

datatype mq_outcome =
    Mq_Silent
  | Mq_Parts "string list"
  | Mq_Start client_request bool bool

definition mq_outcome_of :: "rpc_outcome \<Rightarrow> mq_outcome" where
  "mq_outcome_of r =
     (case r of
        Rpc_Unknown \<Rightarrow> Mq_Silent
      | Rpc_Reply code txt \<Rightarrow> Mq_Parts (reply_parts code txt)
      | Rpc_Run q recurse b64 \<Rightarrow> Mq_Start q recurse b64)"

definition handle_client_request ::
    "handler_env \<Rightarrow> (string \<Rightarrow> field_value option) \<Rightarrow> (parse_error \<Rightarrow> string) \<Rightarrow> (string \<Rightarrow> ipv6 option) \<Rightarrow> string \<Rightarrow>
     string list \<Rightarrow> string \<Rightarrow> time \<Rightarrow> bool \<Rightarrow> rate_limiter \<Rightarrow> rate_limiter \<times> mq_outcome" where
  "handle_client_request E json_parse err_text mapped_ipv4 method parts remote now is_forwarded rl =
     (let full_size = (if is_forwarded then 2 else 1)
      in if length parts \<noteq> full_size - 1 \<and> length parts \<noteq> full_size
         then (rl, Mq_Parts [to_chars HTTP_BAD_REQUEST, ''Invalid request: expected '' @ nat_chars full_size
                     @ '' message parts, received '' @ nat_chars (length parts)])
         else if \<not> is_forwarded \<and> mapped_ipv4 remote = None
         then (rl, Mq_Parts [to_chars HTTP_BAD_REQUEST,
                ''Invalid request: non-forwarded OMQ client RPC requests are only permitted via IPv4''])
         else let (rl, r) = handle_client_rpc E json_parse err_text method
                     (if length parts = full_size then last parts else [])
                     (if is_forwarded then None else mapped_ipv4 remote) now is_forwarded rl
              in (rl, mq_outcome_of r))"

definition handle_storage_cc ::
    "handler_env \<Rightarrow> (string \<Rightarrow> field_value option) \<Rightarrow> (parse_error \<Rightarrow> string) \<Rightarrow> (string \<Rightarrow> ipv6 option) \<Rightarrow>
     string list \<Rightarrow> string \<Rightarrow> time \<Rightarrow> rate_limiter \<Rightarrow> rate_limiter \<times> mq_outcome" where
  "handle_storage_cc E json_parse err_text mapped_ipv4 parts remote now rl =
     (if length parts \<ge> 2
      then handle_client_request E json_parse err_text mapped_ipv4 (hd parts) parts remote now True rl
      else (rl, Mq_Silent))"

section \<open>Forwarding from end to end\<close>

lemma forwarded_known: "forwarded q = Some (cmd, d) \<Longrightarrow> known_method C jp cmd"
  by (cases q) (auto simp: known_method_def simple_loader_lookup)

lemma as_forwarded_forwarded: "forwarded q = Some x \<Longrightarrow> forwarded (as_forwarded q) \<noteq> None"
  by (cases q) auto

lemma those_None: "those xs = None \<longleftrightarrow> None \<in> set xs"
  by (induction xs) (auto split: option.splits)


definition sample_reply :: "int \<Rightarrow> response" where
  "sample_reply st = json_response st [(''deleted'', F_List [F_Str ''h'']), (''signature'', F_Str ''s'')]"


section \<open>A null that cannot be written\<close>

lemma dict_to_bt_None: "(k, v) \<in> set d \<Longrightarrow> json_to_bt v = None \<Longrightarrow> json_to_bt (F_Dict d) = None"
proof -
  assume "(k, v) \<in> set d" "json_to_bt v = None"
  then have "None \<in> set (map (\<lambda>kv. json_to_bt (snd kv)) d)" by (metis (mono_tags, lifting) image_eqI list.set_map snd_conv)
  then show ?thesis by (simp add: those_None)
qed

lemma map_put_in: "(k, v) \<in> set (map_put k v m)"
  by (induction k v m rule: map_put.induct) auto

text \<open>
  C40: \<open>delete\<close> with \<open>required\<close>, in bt form. If the entry of the first member in the answer is
  one of a failure, looking for what it deleted leaves a null there, and the answer can not be
  written in bt any more: the client does not get it, although other members may have deleted
  the messages.
\<close>

theorem required_reply_lost:
  assumes "resp_body r = Json (F_Dict j)" and "resp_status r = 200" and "swarm_entries j = Some ((k, v) # es)"
    and "map_of (fields_of v) ''deleted'' = None"
  shows "response_text E json_dump True (require_deleted r) = None"
proof -
  let ?v = "F_Dict (map_put ''deleted'' F_Null (fields_of v))"
  have n: "map_of (fields_of ?v) ''deleted'' = Some F_Null"
    by (simp add: map_put_updates)
  obtain es' found where e: "deleted_some es = (es', found)" by (rule prod.exhaust)
  then have "deleted_some ((k, v) # es) = ((k, ?v) # es', found)"
    using assms(4) n by (simp add: has_field_def Let_def)
  then have b: "resp_body (require_deleted r) = Json (F_Dict (map_put ''swarm'' (F_Dict ((k, ?v) # es')) j))"
    using assms(1-3) by (simp add: require_deleted_def HTTP_OK_def)
  have "json_to_bt ?v = None" by (rule dict_to_bt_None [OF map_put_in]) simp
  then have "json_to_bt (F_Dict ((k, ?v) # es')) = None" using dict_to_bt_None [of k ?v "(k, ?v) # es'"] by (simp del: json_to_bt.simps)
  then have "json_to_bt (F_Dict (map_put ''swarm'' (F_Dict ((k, ?v) # es')) j)) = None" by (rule dict_to_bt_None [OF map_put_in])
  then show ?thesis by (simp add: response_text_def b del: json_to_bt.simps)
qed

theorem required_reply_lost_witness:
  "response_text sample_handler (\<lambda>_. []) True (require_deleted (json_response 200
     [(''swarm'', F_Dict [(''a'', F_Dict [(''failed'', F_Bool True)]), (''b'', F_Dict [(''deleted'', F_List [F_Str ''h''])])])])) = None"
  by (rule required_reply_lost [of _ "[(''swarm'', F_Dict [(''a'', F_Dict [(''failed'', F_Bool True)]), (''b'', F_Dict [(''deleted'', F_List [F_Str ''h''])])])]"
        "''a''" "F_Dict [(''failed'', F_Bool True)]" "[(''b'', F_Dict [(''deleted'', F_List [F_Str ''h''])])]"])
    (simp_all add: json_response_def swarm_entries_def)

end
