(* ===== verification/Spec2Isabelle.thy ===== *)
theory Spec2Isabelle
  imports Namespaces Pubkeys Contacts Network Message_Facts Node_System Node_Facts Request_Facts Handler_Facts Handler_Bounds
    Request_Runs Compound_Requests Signed_Data Client_Rpc
begin

text \<open>
  Verification of the session storage server, the service that keeps the messages of Session
  accounts on the service nodes of a swarm until their recipients fetch them.

  \<^bold>\<open>The program.\<close> A node keeps messages in an SQLite database (\<open>src/oxenss/storage\<close>). The network is
  divided into swarms; which swarm serves an account follows from its key
  (\<open>src/oxenss/snode/network.cpp\<close>). A node learns the list of nodes from oxend or from bootstrap
  nodes, joins and leaves swarms (\<open>swarm.cpp\<close>), shakes hands with new members, asks them for their
  messages and sends them its own (\<open>service_node.cpp\<close>). Clients store, retrieve, delete and expire
  messages and manage subaccounts (\<open>src/oxenss/rpc\<close>); the node they reach checks the request and
  its signature, carries it out, passes it on to the other members and collects their answers.

  \<^bold>\<open>How it is modelled.\<close> The definitions are executable functions with explicit state. Structures
  of the source are records, its enumerations and variants are datatypes, its maps are
  association lists (sorted by \<open>map_put\<close> where the source has an ordered map) or maps, an SQL
  table is the list of its rows. Bytes are characters. Times are integers in nanoseconds; where
  the width of the clock or of an integer matters the values are words or wrap around in the
  definition. Errors are values of sum or option types. What a node sends is a list of outputs;
  answers come back as arguments of the functions for the callbacks, and the step relations
  allow them in any order. Readings of the clock are arguments, also when a function reads it
  more than once. Code outside the repository is an argument: hex, base64 and bt codecs, json,
  libsodium, the sort orders of SQLite where they are not determined, and where the disk is
  full. What the theorems need of it is a hypothesis (\<open>hex_ok\<close>, \<open>base64_ok\<close>, the laws of the bt
  codec, \<open>orders_ok\<close>), and the witnesses use concrete functions.

  \<^bold>\<open>Theories.\<close>

  \<^item> \<open>SS_Prelude\<close>: types, decimal conversions, list and map lemmas, ordered maps, and the locale of a
    component with operations that keep an invariant, interpreted for contacts, network, swarm and
    database.
  \<^item> \<open>Namespaces\<close>, \<open>Pubkeys\<close>: \<open>common/namespace\<close>, \<open>common/pubkey\<close>, subaccount tokens.
  \<^item> \<open>Contacts\<close>, \<open>Network\<close>: \<open>snode/contacts.cpp\<close>, \<open>snode/network.cpp\<close>. A reverse lookup is never wrong;
    the boundaries of a swarm are exactly the accounts assigned to it, the nearest ones.
  \<^item> \<open>Tables\<close>, \<open>Deferred\<close>, \<open>Message_Store\<close>, \<open>Bulk_Store\<close>, \<open>Message_Facts\<close>, \<open>Expiries\<close>, \<open>Revocations\<close>,
    \<open>Retries\<close>, \<open>Dumps\<close>, \<open>Database\<close>: \<open>storage/database.cpp\<close>. The constraints of the schema hold after
    every sequence of operations; storing, reading by pages, deleting, cleaning, expiries with
    their deferral, revocations, the retry queue and the bookkeeping of dumps and deliveries do
    exactly what they should, stated against simpler abstract tables.
  \<^item> \<open>Swarms\<close>, \<open>Serialization\<close>: \<open>snode/swarm.cpp\<close>, \<open>snode/serialization.cpp\<close>. The members are exactly
    the other nodes of our swarm; serialized messages are read back.
  \<^item> \<open>Dump_Windows\<close>, \<open>Dump_Progress\<close>, \<open>Deliveries\<close>: sending the messages of a swarm to other
    nodes, as a step relation with the answers in any order. The cursor never passes a message that
    was not acknowledged, a dump is complete when it is removed and never stuck, and a delivery
    is kept until it is acknowledged.
  \<^item> \<open>Service_Node\<close>, \<open>Node_System\<close>, \<open>Node_Facts\<close>: \<open>snode/service_node.cpp\<close>, the node as a whole. It
    refines the system of the dumps, so that what is proved there holds of it; updates of the list
    of nodes, handshakes, bootstrapping and pushed batches.
  \<^item> \<open>Requests\<close>, \<open>Request_Facts\<close>: \<open>rpc/client_rpc_endpoints.cpp\<close>, from json and bt to requests and back
    to bt. What loads is well formed.
  \<^item> \<open>Request_Handler\<close>: \<open>rpc/request_handler.cpp\<close>, the guards (\<open>check_...\<close>), effects (\<open>local_...\<close>) and
    answers (\<open>answer_...\<close>) of the endpoints, forwarding and collecting of answers, batches, sequences
    and conditions. A forwarded request is split where the source may interleave:
    \<open>begin_request\<close>, \<open>on_peer_reply\<close> for each peer, \<open>finish_request\<close>.
  \<^item> \<open>Handler_Facts\<close>, \<open>Signed_Data\<close>, \<open>Handler_Bounds\<close>, \<open>Request_Runs\<close>, \<open>Compound_Requests\<close>: only permitted
    requests change anything; a signature determines what was signed; the times of what is
    stored and the size of answers are bounded; the client is answered once, when everything is
    in; batches keep the order and sequences stop at a failure.
  \<^item> \<open>Rate_Limiter\<close>, \<open>Client_Rpc\<close>: \<open>rpc/rate_limiter.cpp\<close>, \<open>server/mqbase.cpp\<close> and the request commands of
    \<open>server/omq.cpp\<close>. The rate of a client is bounded; a request that is passed on arrives as it was
    and its answer comes back.

  Some theorems state what the code does where it does not do what it means to; they are
  described in their texts (\<open>replaced_delivery_lost\<close>, \<open>stale_answer_loses_request\<close>,
  \<open>retrieve_count_minus_one\<close>, \<open>required_reply_lost\<close> and others).

  \<^bold>\<open>Fuel and termination.\<close> Loops are structural recursions or have a termination proof. Fuel is
  only used to run a sequence of requests, where as many steps as there are requests are proved
  to be enough.

  \<^bold>\<open>Not modelled.\<close> QUIC and HTTPS servers, sockets and certificates: callbacks of network
  libraries. Monitors (\<open>server/monitors.cpp\<close>): subscriptions of QUIC connections and their event
  loops; the node model gives notifications as outputs. Onion requests: layers of encryption by
  OpenSSL and libsodium around bytes that are passed on. Reachability tests: random choices whose
  results are only reported. Statistics, logging, options and the start of the program. Locks:
  every operation is atomic in the model, where the source holds the lock of the data it uses.
  Exceptions of SQLite other than a full disk and those of the retry queue, and the migrations of
  databases of earlier versions.
\<close>

end
